(* ===== verification/Prelude.thy ===== *)
theory Prelude
  imports Main "HOL-Library.AList" "HOL-Library.Signed_Division" "HOL-Library.Multiset"
begin

text \<open>
  Shared vocabulary of the development: results of fallible code, JavaScript's ordered
  \<open>Map\<close>, the loop that keeps the first best candidate, and the locales every stateful
  component is an instance of. A \<open>'e + 'a\<close> is the outcome of code that may throw:
  \<open>Inl\<close> carries the error, \<open>Inr\<close> the value.
\<close>

named_theorems model_simps \<open>unfolding rules of small operations of the model\<close>

section \<open>Results of code that may throw\<close>

fun rbind :: "'e + 'a \<Rightarrow> ('a \<Rightarrow> 'e + 'b) \<Rightarrow> 'e + 'b" where
  "rbind (Inl e) f = Inl e"
| "rbind (Inr a) f = f a"

lemma rbind_Inr_iff: "rbind m f = Inr b \<longleftrightarrow> (\<exists>a. m = Inr a \<and> f a = Inr b)"
  by (cases m) auto

lemma rbind_Inl_iff:
  "rbind m f = Inl e \<longleftrightarrow> m = Inl e \<or> (\<exists>a. m = Inr a \<and> f a = Inl e)"
  by (cases m) auto

lemma rbind_cong [fundef_cong]:
  "m = m' \<Longrightarrow> (\<And>a. m' = Inr a \<Longrightarrow> f a = f' a) \<Longrightarrow> rbind m f = rbind m' f'"
  by (cases m') auto

text \<open>A \<open>for\<close> loop over a list whose body may throw.\<close>

fun rfold :: "('s \<Rightarrow> 'x \<Rightarrow> 'e + 's) \<Rightarrow> 's \<Rightarrow> 'x list \<Rightarrow> 'e + 's" where
  "rfold f s [] = Inr s"
| "rfold f s (x # xs) = rbind (f s x) (\<lambda>s'. rfold f s' xs)"

lemma rfold_append: "rfold f s (xs @ ys) = rbind (rfold f s xs) (\<lambda>s'. rfold f s' ys)"
proof (induction xs arbitrary: s)
  case Nil
  then show ?case by simp
next
  case (Cons x xs)
  then show ?case by (cases "f s x") auto
qed

lemma rfold_inv:
  assumes "rfold f s xs = Inr t" and "P s"
    and step: "\<And>s x s'. x \<in> set xs \<Longrightarrow> P s \<Longrightarrow> f s x = Inr s' \<Longrightarrow> P s'"
  shows "P t"
  using assms
proof (induction xs arbitrary: s)
  case Nil
  then show ?case by simp
next
  case (Cons x xs)
  from Cons.prems(1) obtain s' where s': "f s x = Inr s'" "rfold f s' xs = Inr t"
    by (auto simp: rbind_Inr_iff)
  with Cons.prems have "P s'" by auto
  with s'(2) show ?case
    by (rule Cons.IH) (use Cons.prems(3) in auto)
qed

text \<open>The loop does not throw when no iteration does, and then it is a plain fold.\<close>

lemma rfold_total:
  assumes "\<And>s x. x \<in> set xs \<Longrightarrow> f s x = Inr (g s x)"
  shows "rfold f s xs = Inr (foldl g s xs)"
  using assms by (induction xs arbitrary: s) auto

section \<open>Integer division\<close>

lemma mult_div_le: "0 \<le> r \<Longrightarrow> 0 \<le> a \<Longrightarrow> r * (a div r) \<le> (a::int)"
  by (cases "r = 0") (simp_all add: minus_mod_eq_mult_div [symmetric])

text \<open>\<open>Math.round\<close> of a quotient: half rounds up.\<close>

definition math_round_div :: "int \<Rightarrow> int \<Rightarrow> int" where
  "math_round_div a b = (2 * a + b) div (2 * b)"

section \<open>Ordered maps\<close>

text \<open>
  A JavaScript \<open>Map\<close> iterates in insertion order: \<open>set\<close> on a present key keeps its
  place, on an absent one appends. It is an association list with the operations of
  \<open>HOL-Library.AList\<close>.
\<close>

type_synonym ('k, 'v) jsmap = "('k \<times> 'v) list"

abbreviation map_get :: "('k, 'v) jsmap \<Rightarrow> 'k \<Rightarrow> 'v option" where
  "map_get m k \<equiv> map_of m k"

abbreviation map_set :: "'k \<Rightarrow> 'v \<Rightarrow> ('k, 'v) jsmap \<Rightarrow> ('k, 'v) jsmap" where
  "map_set k v m \<equiv> AList.update k v m"

abbreviation map_del :: "'k \<Rightarrow> ('k, 'v) jsmap \<Rightarrow> ('k, 'v) jsmap" where
  "map_del k m \<equiv> AList.delete k m"

abbreviation map_keys :: "('k, 'v) jsmap \<Rightarrow> 'k list" where
  "map_keys m \<equiv> map fst m"

definition map_has :: "('k, 'v) jsmap \<Rightarrow> 'k \<Rightarrow> bool" where
  "map_has m k \<longleftrightarrow> map_get m k \<noteq> None"

lemma map_has_iff [simp]: "map_has m k \<longleftrightarrow> k \<in> set (map_keys m)"
  by (auto simp: map_has_def map_of_eq_None_iff)

lemma map_get_set [simp]: "map_get (map_set k v m) k' = (if k' = k then Some v else map_get m k')"
  by (simp add: update_conv)

lemma map_get_del [simp]: "map_get (map_del k m) k' = (if k' = k then None else map_get m k')"
  by (simp add: delete_conv)

lemma map_keys_set:
  "map_keys (map_set k v m) = (if k \<in> set (map_keys m) then map_keys m else map_keys m @ [k])"
  by (induction m) auto

lemma fst_map_set [simp]: "fst ` set (map_set k v m) = insert k (fst ` set m)"
  by (induction m) auto

lemma map_set_fresh: "k \<notin> set (map_keys m) \<Longrightarrow> map_set k v m = m @ [(k, v)]"
  by (induction m) auto

lemma map_keys_del: "map_keys (map_del k m) = filter (\<lambda>k'. k' \<noteq> k) (map_keys m)"
  by (induction m) (auto simp: AList.delete_eq)

lemma map_del_notin: "k \<notin> set (map_keys m) \<Longrightarrow> map_del k m = m"
  by (induction m) (auto simp: AList.delete_eq)

lemma distinct_map_set [simp]: "distinct (map_keys m) \<Longrightarrow> distinct (map_keys (map_set k v m))"
  by (simp add: distinct_update)

lemma distinct_map_del [simp]: "distinct (map_keys m) \<Longrightarrow> distinct (map_keys (map_del k m))"
  by (simp add: map_keys_del)

lemma length_map_set:
  "length (map_set k v m) = (if k \<in> set (map_keys m) then length m else Suc (length m))"
  using arg_cong [OF map_keys_set [of k v m], of length] by (simp split: if_splits)

lemma length_map_del:
  assumes "distinct (map_keys m)"
  shows "length (map_del k m) = (if k \<in> set (map_keys m) then length m - 1 else length m)"
  using assms
proof (induction m)
  case Nil
  then show ?case by simp
next
  case (Cons p m)
  then show ?case
    by (cases p; cases m) (auto simp: AList.delete_eq)
qed

lemma map_set_values:
  "(k', v') \<in> set (map_set k v m) \<Longrightarrow> (k', v') = (k, v) \<or> (k', v') \<in> set m"
  by (induction m) (auto split: if_splits)

lemma map_set_id: "map_get m k = Some v \<Longrightarrow> distinct (map_keys m) \<Longrightarrow> map_set k v m = m"
  by (induction m) (auto simp: rev_image_eqI)

text \<open>A sum over the values of a map changes by the difference at the key set.\<close>

lemma map_set_sum:
  fixes f :: "'v \<Rightarrow> nat"
  assumes "distinct (map_keys m)" "map_get m k = Some v"
  shows "sum_list (map (f \<circ> snd) (map_set k v' m)) + f v = sum_list (map (f \<circ> snd) m) + f v'"
  using assms
proof (induction m)
  case Nil
  then show ?case by simp
next
  case (Cons p m)
  then show ?case by (cases p) (auto split: if_splits)
qed

lemma map_set_sum_fresh:
  fixes f :: "'v \<Rightarrow> nat"
  shows "k \<notin> set (map_keys m) \<Longrightarrow>
    sum_list (map (f \<circ> snd) (map_set k v m)) = sum_list (map (f \<circ> snd) m) + f v"
  by (simp add: map_set_fresh)

lemma map_del_subset: "set (map_del k m) \<subseteq> set m"
  by (auto simp: AList.delete_eq)

lemma map_set_subset: "set (map_set k v m) \<subseteq> insert (k, v) (set m)"
  by (induction m) auto

lemma map_set_all: "\<forall>(k, v) \<in> set m. P v \<Longrightarrow> P x \<Longrightarrow> \<forall>(k, v) \<in> set (map_set j x m). P v"
  by (induction m) auto

lemma map_get_all: "\<forall>(k, v) \<in> set m. P v \<Longrightarrow> map_get m k = Some v \<Longrightarrow> P v"
  by (auto dest!: map_of_SomeD)

lemma map_del_all: "\<forall>(k, v) \<in> set m. P k v \<Longrightarrow> \<forall>(k, v) \<in> set (map_del j m). P k v"
  using map_del_subset [of j m] by blast

text \<open>Taking the \<open>n\<close>th element out of a list.\<close>

lemma drop_nth_subset: "set (take n xs @ drop (Suc n) xs) \<subseteq> set xs"
  using set_take_subset [of n xs] set_drop_subset [of "Suc n" xs] by auto


text \<open>The elements in insertion order of a \<open>new Set\<close>.\<close>

definition first_occurrences :: "'a list \<Rightarrow> 'a list" where
  "first_occurrences xs = rev (remdups (rev xs))"

lemma set_first_occurrences [simp]: "set (first_occurrences xs) = set xs" "distinct (first_occurrences xs)"
  by (simp_all add: first_occurrences_def)

section \<open>Keeping the first best candidate\<close>

text \<open>
  The selection loop of the queues and pools: walk the candidates in order and keep the
  current one unless the next is strictly better.
\<close>

fun keep_best :: "('a \<Rightarrow> 'a \<Rightarrow> bool) \<Rightarrow> 'a option \<Rightarrow> 'a list \<Rightarrow> 'a option" where
  "keep_best better b [] = b"
| "keep_best better b (x # xs) =
     keep_best better (case b of None \<Rightarrow> Some x
                               | Some y \<Rightarrow> if better x y then Some x else Some y) xs"

abbreviation best_of :: "('a \<Rightarrow> 'a \<Rightarrow> bool) \<Rightarrow> 'a list \<Rightarrow> 'a option" where
  "best_of better xs \<equiv> keep_best better None xs"

lemma keep_best_None_iff: "keep_best better b xs = None \<longleftrightarrow> b = None \<and> xs = []"
  by (induction xs arbitrary: b) (auto split: option.splits)

lemma keep_best_mem: "keep_best better b xs = Some z \<Longrightarrow> b = Some z \<or> z \<in> set xs"
  by (induction xs arbitrary: b) (auto split: option.splits if_splits)

lemma best_of_mem: "best_of better xs = Some z \<Longrightarrow> z \<in> set xs"
  using keep_best_mem by fastforce

text \<open>
  The contract of an order that the loop selects by. Every queue and pool of the program
  interprets it with its own comparison.
\<close>

locale preference =
  fixes better :: "'a \<Rightarrow> 'a \<Rightarrow> bool"
  assumes irrefl: "\<not> better x x"
    and trans: "better x y \<Longrightarrow> better y z \<Longrightarrow> better x z"
    and neg_trans: "better x z \<Longrightarrow> better x y \<or> better y z"
begin

lemma asym: "better x y \<Longrightarrow> \<not> better y x"
  using irrefl trans by blast

lemma keep_best_optimal:
  "keep_best better b xs = Some z \<Longrightarrow> \<not> better (the b) z \<or> b = None"
proof (induction xs arbitrary: b)
  case Nil
  then show ?case using irrefl by simp
next
  case (Cons x xs)
  show ?case
  proof (cases b)
    case None
    then show ?thesis by simp
  next
    case (Some y)
    show ?thesis
    proof (cases "better x y")
      case True
      with Cons.prems Some have "keep_best better (Some x) xs = Some z" by simp
      from Cons.IH [OF this] have "\<not> better x z" by simp
      with True Some have "\<not> better y z" using trans by blast
      with Some show ?thesis by simp
    next
      case False
      with Cons.prems Some have "keep_best better (Some y) xs = Some z" by simp
      from Cons.IH [OF this] Some show ?thesis by simp
    qed
  qed
qed

lemma best_of_optimal:
  assumes "keep_best better b xs = Some z" and "x \<in> set xs"
  shows "\<not> better x z"
  using assms
proof (induction xs arbitrary: b)
  case Nil
  then show ?case by simp
next
  case (Cons y ys)
  let ?b = "case b of None \<Rightarrow> Some y | Some w \<Rightarrow> if better y w then Some y else Some w"
  from Cons.prems(1) have run: "keep_best better ?b ys = Some z" by simp
  show ?case
  proof (cases "x \<in> set ys")
    case True
    with run show ?thesis by (rule Cons.IH)
  next
    case False
    with Cons.prems(2) have "x = y" by simp
    moreover from keep_best_optimal [OF run] have "\<not> better (the ?b) z"
      by (auto split: option.splits if_splits)
    moreover have "?b = Some y \<or> \<not> better y (the ?b)"
      by (auto split: option.splits)
    ultimately show ?thesis using neg_trans by fastforce
  qed
qed

lemma best_of_total: "xs \<noteq> [] \<Longrightarrow> \<exists>z \<in> set xs. best_of better xs = Some z"
  by (metis best_of_mem keep_best_None_iff option.exhaust)

text \<open>Among equally good candidates the loop keeps the earliest.\<close>

lemma keep_best_skip:
  assumes "\<forall>x \<in> set xs. \<not> better x y"
  shows "keep_best better (Some y) xs = Some y"
  using assms by (induction xs) auto

end

section \<open>Stateful components\<close>

text \<open>
  A stateful component is a step function on its state, driven by a list of events: the
  public calls, timer callbacks and settling promises, in the order the event loop runs
  them. Every invariant that the steps keep holds after every run.
\<close>

locale step_system =
  fixes step :: "'e \<Rightarrow> 's \<Rightarrow> 's" and inv :: "'s \<Rightarrow> bool"
  assumes step_inv: "inv s \<Longrightarrow> inv (step e s)"
begin

lemma run_inv: "inv s \<Longrightarrow> inv (fold step es s)"
  by (induction es arbitrary: s) (auto intro: step_inv)

lemma run_prefix_inv: "inv s \<Longrightarrow> inv (fold step (take n es) s)"
  by (rule run_inv)

text \<open>A quantity no step changes is the same after every run; one no step lowers never falls.\<close>

lemma run_const:
  assumes "\<And>s e. inv s \<Longrightarrow> f (step e s) = f s" and "inv s"
  shows "f (fold step es s) = f s"
  using assms(2) by (induction es arbitrary: s) (auto simp: assms(1) step_inv)

lemma run_mono:
  fixes f :: "'s \<Rightarrow> 'b::preorder"
  assumes "\<And>s e. inv s \<Longrightarrow> f s \<le> f (step e s)" and "inv s"
  shows "f s \<le> f (fold step es s)"
  using assms(2)
proof (induction es arbitrary: s)
  case Nil
  then show ?case by simp
next
  case (Cons e es)
  have "f s \<le> f (step e s)" by (rule assms(1)) (rule Cons.prems)
  also have "\<dots> \<le> f (fold step es (step e s))"
    by (rule Cons.IH) (rule step_inv, rule Cons.prems)
  finally show ?case by simp
qed

text \<open>What no step adds to a state that lacks it stays absent (once gone, gone for good).\<close>

lemma run_stable:
  assumes "\<And>s e. inv s \<Longrightarrow> P s \<Longrightarrow> P (step e s)" and "inv s" and "P s"
  shows "P (fold step es s)"
  using assms(2,3) by (induction es arbitrary: s) (auto simp: assms(1) step_inv)

end

text \<open>
  A component that caps the number of tasks in flight: waiting tasks imply that every
  slot is taken, and no step starts work beyond the cap of the state it leads to.
\<close>

locale limiter = step_system step inv
  for step :: "'e \<Rightarrow> 's \<Rightarrow> 's" and inv :: "'s \<Rightarrow> bool" +
  fixes inflight :: "'s \<Rightarrow> int" and limit :: "'s \<Rightarrow> int" and waiting :: "'s \<Rightarrow> int"
  assumes busy: "inv s \<Longrightarrow> 0 < waiting s \<Longrightarrow> limit s \<le> inflight s"
    and no_overshoot: "inv s \<Longrightarrow> inflight (step e s) \<le> max (inflight s) (limit (step e s))"
begin

lemma run_work_conserving:
  "inv s \<Longrightarrow> 0 < waiting (fold step es s) \<Longrightarrow> limit (fold step es s) \<le> inflight (fold step es s)"
  by (rule busy) (rule run_inv)

lemma run_within:
  assumes "inv s" and "inflight s \<le> B"
    and "\<forall>n \<le> length es. limit (fold step (take n es) s) \<le> B"
  shows "inflight (fold step es s) \<le> B"
  using assms
proof (induction es arbitrary: s)
  case Nil
  then show ?case by simp
next
  case (Cons e es)
  have "\<forall>n \<le> length es. limit (fold step (take n es) (step e s)) \<le> B"
  proof (intro allI impI)
    fix n assume "n \<le> length es"
    with Cons.prems(3) have "limit (fold step (take (Suc n) (e # es)) s) \<le> B"
      by (metis Suc_le_mono length_Cons)
    then show "limit (fold step (take n es) (step e s)) \<le> B" by simp
  qed
  moreover from this have "limit (step e s) \<le> B" by (metis bot_nat_0.extremum fold_simps(1) take0)
  with no_overshoot [OF Cons.prems(1), of e] Cons.prems(2) have "inflight (step e s) \<le> B" by linarith
  ultimately show ?case using Cons.IH step_inv [OF Cons.prems(1)] by simp
qed

text \<open>With a cap no step changes, the bound is the cap itself.\<close>

lemma run_capped:
  assumes "inv s" and "inflight s \<le> limit s"
    and const: "\<And>s e. inv s \<Longrightarrow> limit (step e s) = limit s"
  shows "inflight (fold step es s) \<le> limit s"
  by (rule run_within) (use assms run_const [where f = limit, OF const] in auto)

end

section \<open>Loops that wait for something\<close>

text \<open>
  A waiting loop repeats a step until it gives a result. One whose step lowers a rank on every
  state it can reach returns, after at most as many rounds as the rank allows.
\<close>

locale ranked_loop =
  fixes loop :: "'s \<Rightarrow> 'r option" and step :: "'s \<Rightarrow> 's + 'r" and ok :: "'s \<Rightarrow> bool" and rank :: "'s \<Rightarrow> nat"
  assumes unfold: "loop s = (case step s of Inl s' \<Rightarrow> loop s' | Inr r \<Rightarrow> Some r)"
    and step_ok: "ok s \<Longrightarrow> step s = Inl s' \<Longrightarrow> ok s' \<and> rank s' < rank s"
begin

lemma returns: "ok s \<Longrightarrow> \<exists>r. loop s = Some r"
proof (induction "rank s" arbitrary: s rule: less_induct)
  case less
  show ?case
  proof (cases "step s")
    case (Inl s')
    with step_ok [OF less.prems] less.hyps have "\<exists>r. loop s' = Some r" by blast
    with Inl show ?thesis by (simp add: unfold [of s])
  next
    case (Inr r)
    then show ?thesis by (simp add: unfold [of s])
  qed
qed

text \<open>What every step keeps and every last step turns into a fact of the result.\<close>

lemma result_inv:
  assumes "ok s" "J s" "loop s = Some r"
    and keep: "\<And>u u'. ok u \<Longrightarrow> J u \<Longrightarrow> step u = Inl u' \<Longrightarrow> J u'"
    and final: "\<And>u v. ok u \<Longrightarrow> J u \<Longrightarrow> step u = Inr v \<Longrightarrow> Q v"
  shows "Q r"
  using assms(1-3)
proof (induction "rank s" arbitrary: s rule: less_induct)
  case less
  show ?case
  proof (cases "step s")
    case (Inl s')
    with step_ok [OF less.prems(1)] have s': "ok s'" "rank s' < rank s" by blast+
    from less.prems Inl have "loop s' = Some r" by (simp add: unfold [of s])
    from less.hyps [OF s'(2,1) keep [OF less.prems(1,2) Inl] this] show ?thesis .
  next
    case (Inr v)
    with less.prems have "v = r" by (simp add: unfold [of s])
    with final [OF less.prems(1,2) Inr] show ?thesis by simp
  qed
qed

end

end
