(* ===== verification/Lifecycle.thy ===== *)
theory Lifecycle
  imports Prelude
begin

text \<open>
  The lifecycle automaton of \<open>src/state-machine.ts\<close>: the states and actions of a payment
  stream, the transition table and the next-state function.
\<close>

datatype stream_status = Active | Cancelled | Completed | Paused

datatype stream_action =
  AWithdraw | ACancel | ATopUp | AUpdateFlowRate | APause | AResume | ATransfer | ASplit

datatype transition_error = InvalidStateTransitionError stream_status stream_action

definition TRANSITION_RULES :: "stream_status \<Rightarrow> stream_action list" where
  "TRANSITION_RULES s = (case s of
     Active \<Rightarrow> [AWithdraw, ACancel, ATopUp, AUpdateFlowRate, APause, ATransfer, ASplit]
   | Paused \<Rightarrow> [AResume, ACancel, AWithdraw]
   | Cancelled \<Rightarrow> []
   | Completed \<Rightarrow> [])"

definition canTransition :: "stream_status \<Rightarrow> stream_action \<Rightarrow> bool" where
  "canTransition s a = List.member (TRANSITION_RULES s) a"

definition assertValidTransition ::
    "stream_status \<Rightarrow> stream_action \<Rightarrow> transition_error + unit" where
  "assertValidTransition s a =
     (if \<not> canTransition s a then Inl (InvalidStateTransitionError s a) else Inr ())"

record transition_context =
  isFullyWithdrawn :: bool
  isExpiredCtx :: bool

definition getNextState ::
    "stream_status \<Rightarrow> stream_action \<Rightarrow> transition_context option \<Rightarrow> transition_error + stream_status" where
  "getNextState s a ctx = rbind (assertValidTransition s a) (\<lambda>_. Inr (case a of
     ACancel \<Rightarrow> Cancelled
   | APause \<Rightarrow> Paused
   | AResume \<Rightarrow> Active
   | AWithdraw \<Rightarrow>
       (case ctx of
          Some c \<Rightarrow> if isFullyWithdrawn c \<or> isExpiredCtx c then Completed else s
        | None \<Rightarrow> s)
   | _ \<Rightarrow> Active))"

definition getValidActions :: "stream_status \<Rightarrow> stream_action list" where
  "getValidActions s = TRANSITION_RULES s"


section \<open>Steps and reachable states\<close>

text \<open>A step of the lifecycle is an action the machine accepts in its state.\<close>

inductive lifecycle_step :: "stream_status \<Rightarrow> stream_action \<Rightarrow> stream_status \<Rightarrow> bool" where
  lifecycle_step: "getNextState s a ctx = Inr t \<Longrightarrow> lifecycle_step s a t"

inductive lifecycle_run :: "stream_status \<Rightarrow> stream_action list \<Rightarrow> stream_status \<Rightarrow> bool" where
  run_stop: "lifecycle_run s [] s"
| run_step: "lifecycle_step s a t \<Longrightarrow> lifecycle_run t as u \<Longrightarrow> lifecycle_run s (a # as) u"

inductive_simps lifecycle_step_iff: "lifecycle_step s a t"
inductive_cases lifecycle_run_ConsE: "lifecycle_run s (a # as) u"
inductive_cases lifecycle_run_NilE: "lifecycle_run s [] u"

definition terminal :: "stream_status \<Rightarrow> bool" where
  "terminal s \<longleftrightarrow> s = Cancelled \<or> s = Completed"

lemmas lifecycle_defs =
  getNextState_def assertValidTransition_def canTransition_def TRANSITION_RULES_def

lemma canTransition_simps [simp]:
  "canTransition Active a \<longleftrightarrow> a \<noteq> AResume"
  "canTransition Paused a \<longleftrightarrow> a = AResume \<or> a = ACancel \<or> a = AWithdraw"
  "\<not> canTransition Cancelled a"
  "\<not> canTransition Completed a"
  by (cases a; simp add: canTransition_def TRANSITION_RULES_def)+

lemma getNextState_ok_iff: "(\<exists>t. getNextState s a ctx = Inr t) \<longleftrightarrow> canTransition s a"
  by (auto simp: getNextState_def assertValidTransition_def)

lemma getNextState_error:
  "\<not> canTransition s a \<Longrightarrow> getNextState s a ctx = Inl (InvalidStateTransitionError s a)"
  by (simp add: getNextState_def assertValidTransition_def)

lemma terminal_no_step: "terminal s \<Longrightarrow> \<not> lifecycle_step s a t"
  by (auto simp: terminal_def lifecycle_step_iff getNextState_def assertValidTransition_def)

lemma lifecycle_run_append:
  "lifecycle_run s (as @ bs) u \<longleftrightarrow> (\<exists>t. lifecycle_run s as t \<and> lifecycle_run t bs u)"
proof (induction as arbitrary: s)
  case Nil
  then show ?case by (auto intro: run_stop elim: lifecycle_run_NilE)
next
  case (Cons a as)
  then show ?case by (fastforce intro: run_step elim: lifecycle_run_ConsE)
qed

text \<open>Only a cancellation leads to \<open>Cancelled\<close>, only a withdrawal to \<open>Completed\<close>.\<close>

lemma step_into_terminal:
  assumes "lifecycle_step s a t" and "terminal t"
  shows "(t = Cancelled \<and> a = ACancel) \<or> (t = Completed \<and> a = AWithdraw)"
  using assms
  by (cases s; cases a)
    (auto simp: terminal_def lifecycle_step_iff getNextState_def assertValidTransition_def
      split: option.splits if_splits)

lemma lifecycle_run_terminal:
  assumes "lifecycle_run s as t" and "terminal t" and "\<not> terminal s"
  shows "\<exists>bs b. as = bs @ [b] \<and>
           ((t = Cancelled \<and> b = ACancel) \<or> (t = Completed \<and> b = AWithdraw)) \<and>
           (\<forall>c \<in> set bs. c \<noteq> ACancel)"
  using assms
proof (induction rule: lifecycle_run.induct)
  case (run_stop s)
  then show ?case by simp
next
  case (run_step s a t' as u)
  show ?case
  proof (cases "terminal t'")
    case True
    from run_step.hyps(2) True have "as = [] \<and> u = t'"
      by (cases rule: lifecycle_run.cases) (auto dest: terminal_no_step [of _ _])
    with step_into_terminal [OF run_step.hyps(1) True] show ?thesis by auto
  next
    case False
    from run_step.hyps(1) False have "a \<noteq> ACancel"
      by (auto simp: terminal_def lifecycle_step_iff getNextState_def rbind_Inr_iff)
    moreover from run_step.IH [OF run_step.prems(1) False] obtain bs b where
      "as = bs @ [b]" "(u = Cancelled \<and> b = ACancel) \<or> (u = Completed \<and> b = AWithdraw)"
      "\<forall>c \<in> set bs. c \<noteq> ACancel" by blast
    ultimately show ?thesis by (intro exI [of _ "a # bs"] exI [of _ b]) auto
  qed
qed

end
