(* ===== verification/StreamData.thy ===== *)
theory StreamData
  imports Lifecycle
begin

text \<open>
  The data every component works on: the \<open>Stream\<close> record of \<open>src/types.ts\<close>, the errors of
  the pure helpers of \<open>src/utils.ts\<close>, and \<open>safeClaimable\<close>, the guarded product all accrual
  computations go through, with the contract of a claimable-balance function.

  \<open>bigint\<close> is unbounded and is \<^typ>\<open>int\<close>; its division truncates and is \<open>sdiv\<close>, guarded
  where the divisor may be zero (JavaScript raises a \<open>RangeError\<close>). A \<open>number\<close> that
  counts seconds is an integer and is \<^typ>\<open>int\<close> too.
\<close>

record stream =
  stream_id :: string
  sender :: string
  recipient :: string
  token :: string
  deposit :: int
  flowRate :: int
  startTime :: int
  endTime :: int
  lastWithdrawTime :: int
  status :: stream_status
  autoRenew :: bool
  pausedAt :: "int option"
  lockUntil :: "int option"
  namespace :: "string option"
  tag :: "string option"

datatype sdk_error =
    ClaimableOverflow int int
  | TotalAmountNotPositive
  | DurationNotPositive
  | AmountNotPositive
  | RateNotPositive int
  | RateNegative
  | BigIntDivisionByZero
  | BatchSizeOutOfRange int

text \<open>\<open>BigInt\<close> division: truncating, and a \<open>RangeError\<close> on a zero divisor.\<close>

definition big_div :: "int \<Rightarrow> int \<Rightarrow> sdk_error + int" where
  "big_div a b = (if b = 0 then Inl BigIntDivisionByZero else Inr (a sdiv b))"

lemma sdiv_nonneg [simp]: "0 \<le> a \<Longrightarrow> 0 \<le> b \<Longrightarrow> (a::int) sdiv b = a div b"
  by (auto simp: signed_divide_int_def sgn_if)

lemma big_div_pos: "0 \<le> a \<Longrightarrow> 0 < b \<Longrightarrow> big_div a b = Inr (a div b)"
  by (simp add: big_div_def)

section \<open>The guarded product\<close>

definition I128_MAX :: int where
  "I128_MAX = 2 ^ 127 - 1"

definition safeClaimable :: "int \<Rightarrow> int \<Rightarrow> int option \<Rightarrow> sdk_error + int" where
  "safeClaimable rate elapsed cap =
     (if rate \<le> 0 \<or> elapsed \<le> 0 then Inr 0
      else let result = rate * elapsed in
        case cap of
          Some c \<Rightarrow>
            if result > c then Inr c
            else if result > I128_MAX then Inl (ClaimableOverflow rate elapsed)
            else Inr result
        | None \<Rightarrow>
            if result > I128_MAX then Inl (ClaimableOverflow rate elapsed)
            else Inr result)"

text \<open>The specification of the capped product: what has accrued after some seconds.\<close>

definition accrued :: "int \<Rightarrow> int \<Rightarrow> int \<Rightarrow> int" where
  "accrued rate elapsed cap = (if rate \<le> 0 \<or> elapsed \<le> 0 then 0 else min cap (rate * elapsed))"

lemma safeClaimable_capped:
  "cap \<le> I128_MAX \<Longrightarrow> safeClaimable rate elapsed (Some cap) = Inr (accrued rate elapsed cap)"
  by (auto simp: safeClaimable_def accrued_def Let_def min_def)

lemma safeClaimable_uncapped_iff:
  "safeClaimable rate elapsed None = Inr v \<longleftrightarrow>
     (if rate \<le> 0 \<or> elapsed \<le> 0 then v = 0 else v = rate * elapsed \<and> v \<le> I128_MAX)"
  by (auto simp: safeClaimable_def Let_def)

lemma safeClaimable_error_iff:
  "safeClaimable rate elapsed cap = Inl e \<longleftrightarrow>
     0 < rate \<and> 0 < elapsed \<and> I128_MAX < rate * elapsed \<and>
     (\<forall>c. cap = Some c \<longrightarrow> rate * elapsed \<le> c) \<and> e = ClaimableOverflow rate elapsed"
  by (cases cap) (auto simp: safeClaimable_def Let_def)

lemma safeClaimable_le_cap:
  assumes "safeClaimable rate elapsed (Some cap) = Inr v" and "0 \<le> cap"
  shows "0 \<le> v \<and> v \<le> cap"
proof -
  have "0 \<le> rate * elapsed" if "\<not> (rate \<le> 0 \<or> elapsed \<le> 0)"
    using that by simp
  with assms show ?thesis
    by (auto simp: safeClaimable_def Let_def split: if_splits)
qed

lemma accrued_zero [simp]: "accrued rate 0 cap = 0" "elapsed \<le> 0 \<Longrightarrow> accrued rate elapsed cap = 0"
  by (auto simp: accrued_def)

lemma accrued_max [simp]: "accrued rate (max 0 elapsed) cap = accrued rate elapsed cap"
  by (auto simp: accrued_def max_def)

lemma accrued_bounds: "0 \<le> cap \<Longrightarrow> 0 \<le> accrued rate elapsed cap \<and> accrued rate elapsed cap \<le> cap"
  by (auto simp: accrued_def)

lemma accrued_le_product:
  "0 \<le> rate \<Longrightarrow> 0 \<le> elapsed \<Longrightarrow> accrued rate elapsed cap \<le> rate * elapsed"
  by (auto simp: accrued_def)

lemma accrued_mono:
  assumes "0 \<le> cap" and "elapsed \<le> elapsed'"
  shows "accrued rate elapsed cap \<le> accrued rate elapsed' cap"
proof (cases "rate \<le> 0 \<or> elapsed \<le> 0")
  case True
  then show ?thesis using accrued_bounds [OF assms(1)] by (auto simp: accrued_def)
next
  case False
  then have "rate * elapsed \<le> rate * elapsed'"
    using assms(2) by (intro mult_left_mono) auto
  then have "min cap (rate * elapsed) \<le> min cap (rate * elapsed')"
    by (rule min.mono [OF order_refl])
  with False assms(2) show ?thesis by (simp add: accrued_def)
qed

text \<open>Splitting an interval: what accrues piecewise is at least what accrues at once.\<close>

lemma accrued_split:
  assumes "0 \<le> cap" "0 \<le> a" "0 \<le> b"
  shows "accrued rate (a + b) cap \<le> accrued rate a cap + accrued rate b cap"
proof (cases "rate \<le> 0 \<or> a = 0 \<or> b = 0")
  case True
  then show ?thesis using assms by (auto simp: accrued_def)
next
  case False
  define x y where "x = rate * a" and "y = rate * b"
  from False assms have "0 \<le> x" "0 \<le> y" by (simp_all add: x_def y_def)
  moreover have "rate * (a + b) = x + y" by (simp add: x_def y_def algebra_simps)
  ultimately show ?thesis using False assms
    unfolding accrued_def x_def [symmetric] y_def [symmetric] by auto
qed

section \<open>Well-formed streams\<close>

text \<open>What the contract guarantees of every stream it stores: an i128 deposit.\<close>

definition wf_stream :: "stream \<Rightarrow> bool" where
  "wf_stream s \<longleftrightarrow> 0 \<le> deposit s \<and> deposit s \<le> I128_MAX \<and> 0 \<le> flowRate s"

text \<open>Seconds since the last withdrawal at \<open>t\<close>, the clock stopping at the end time.\<close>

definition elapsed_at :: "stream \<Rightarrow> int \<Rightarrow> int" where
  "elapsed_at s t = max 0 (min t (endTime s) - lastWithdrawTime s)"

lemma elapsed_at_mono: "t \<le> t' \<Longrightarrow> elapsed_at s t \<le> elapsed_at s t'"
  by (auto simp: elapsed_at_def)

lemma elapsed_at_nonneg [simp]: "0 \<le> elapsed_at s t"
  by (simp add: elapsed_at_def)

text \<open>
  The contract of a claimable-balance function: nothing in a terminal state, the guarded
  product in an active stream without lock, and never more than the deposit. It is
  provided by \<open>claimableNow\<close> (\<open>utils.ts\<close>), \<open>claimableAt\<close> (\<open>mock.ts\<close>) and the simulator's
  \<open>claimableAt\<close> (\<open>simulator.ts\<close>).
\<close>

locale accrual =
  fixes claim :: "stream \<Rightarrow> int \<Rightarrow> sdk_error + int"
  assumes claim_terminal: "terminal (status s) \<Longrightarrow> claim s t = Inr 0"
    and claim_active: "status s = Active \<Longrightarrow> lockUntil s = None \<Longrightarrow>
      claim s t = safeClaimable (flowRate s) (elapsed_at s t) (Some (deposit s))"
    and claim_bounds: "wf_stream s \<Longrightarrow> \<exists>v. claim s t = Inr v \<and> 0 \<le> v \<and> v \<le> deposit s"
begin

lemma claim_never_throws: "wf_stream s \<Longrightarrow> \<exists>v. claim s t = Inr v"
  using claim_bounds by blast

lemma claim_value:
  assumes "wf_stream s" "status s = Active" "lockUntil s = None"
  shows "claim s t = Inr (accrued (flowRate s) (elapsed_at s t) (deposit s))"
  using assms by (simp add: claim_active safeClaimable_capped wf_stream_def)

lemma claim_le_deposit: "wf_stream s \<Longrightarrow> claim s t = Inr v \<Longrightarrow> 0 \<le> v \<and> v \<le> deposit s"
  using claim_bounds [of s t] by auto

lemma claim_mono:
  assumes "wf_stream s" "status s = Active" "lockUntil s = None" "t \<le> t'"
    and "claim s t = Inr v" "claim s t' = Inr v'"
  shows "v \<le> v'"
  using assms accrued_mono elapsed_at_mono by (auto simp: claim_value wf_stream_def)

lemma claim_stops_at_end:
  assumes "wf_stream s" "status s = Active" "lockUntil s = None" "endTime s \<le> t"
  shows "claim s t = claim s (endTime s)"
  using assms by (simp add: claim_value elapsed_at_def)

text \<open>Withdrawing at \<open>t\<close> resets the balance, whichever way the stream continues.\<close>

lemma claim_after_withdraw:
  assumes "lockUntil s = None" "wf_stream s"
  shows "claim (s\<lparr>lastWithdrawTime := min t (endTime s),
                  status := (if endTime s \<le> min t (endTime s) then Completed else Active)\<rparr>) t = Inr 0"
proof (cases "endTime s \<le> min t (endTime s)")
  case True
  then show ?thesis by (simp add: claim_terminal terminal_def)
next
  case False
  with assms show ?thesis
    by (subst claim_value) (auto simp: wf_stream_def elapsed_at_def)
qed

end

text \<open>Two such functions agree wherever the contract fixes the value.\<close>

locale accrual_pair = a: accrual claim + b: accrual claim'
  for claim :: "stream \<Rightarrow> int \<Rightarrow> sdk_error + int" and claim' :: "stream \<Rightarrow> int \<Rightarrow> sdk_error + int"
begin

lemma providers_agree:
  assumes "terminal (status s) \<or> status s = Active \<and> lockUntil s = None"
  shows "claim s t = claim' s t"
  using assms by (auto simp: a.claim_terminal b.claim_terminal a.claim_active b.claim_active)

end

end
