(* ===== verification/Accrual.thy ===== *)
theory Accrual
  imports StreamData
begin

text \<open>
  The accrual arithmetic of \<open>src/utils.ts\<close>: flow rates and rate units, the claimable
  estimate, vesting schedules, expiry and funding checks, the offline stream simulation
  and the batch size. \<open>Date.now()\<close> is the argument \<open>nowMs\<close> (milliseconds).
\<close>

section \<open>Flow rates\<close>

definition asPositiveFlowRate :: "int \<Rightarrow> sdk_error + int" where
  "asPositiveFlowRate rate = (if rate \<le> 0 then Inl (RateNotPositive rate) else Inr rate)"

definition calculateFlowRate :: "int \<Rightarrow> int \<Rightarrow> sdk_error + int" where
  "calculateFlowRate totalAmount durationSeconds =
     (if totalAmount \<le> 0 then Inl TotalAmountNotPositive
      else if durationSeconds \<le> 0 then Inl DurationNotPositive
      else big_div totalAmount durationSeconds)"

datatype rate_unit = Second | Minute | Hour | Day | Week

fun RATE_UNIT_SECONDS :: "rate_unit \<Rightarrow> int" where
  "RATE_UNIT_SECONDS Second = 1"
| "RATE_UNIT_SECONDS Minute = 60"
| "RATE_UNIT_SECONDS Hour = 3600"
| "RATE_UNIT_SECONDS Day = 86400"
| "RATE_UNIT_SECONDS Week = 604800"

definition toRatePerSecond :: "int \<Rightarrow> rate_unit \<Rightarrow> sdk_error + int" where
  "toRatePerSecond amount unit =
     (if amount \<le> 0 then Inl AmountNotPositive else big_div amount (RATE_UNIT_SECONDS unit))"

definition fromRatePerSecond :: "int \<Rightarrow> rate_unit \<Rightarrow> sdk_error + int" where
  "fromRatePerSecond stroopsPerSecond unit =
     (if stroopsPerSecond < 0 then Inl RateNegative
      else Inr (stroopsPerSecond * RATE_UNIT_SECONDS unit))"

definition SECONDS_PER_MONTH :: int where
  "SECONDS_PER_MONTH = 2592000"

definition toRatePerMonth :: "int \<Rightarrow> int" where
  "toRatePerMonth stroopsPerSecond =
     (if stroopsPerSecond \<le> 0 then 0 else stroopsPerSecond * SECONDS_PER_MONTH)"

definition rateCalculator :: "int \<Rightarrow> rate_unit \<Rightarrow> rate_unit \<Rightarrow> int" where
  "rateCalculator amount fromUnit toUnit =
     (if amount \<le> 0 then 0
      else let fromSeconds = RATE_UNIT_SECONDS fromUnit;
               toSeconds = RATE_UNIT_SECONDS toUnit;
               perSecond = amount sdiv fromSeconds
           in if perSecond = 0
              then let result = (amount * toSeconds) sdiv fromSeconds
                   in if result < 0 then 0 else result
              else perSecond * toSeconds)"

section \<open>Expiry and the claimable estimate\<close>

text \<open>An explicit \<open>now\<close> is in seconds; the default divides the clock by 1000 exactly.\<close>

definition isExpired :: "stream \<Rightarrow> int option \<Rightarrow> int \<Rightarrow> bool" where
  "isExpired s now nowMs =
     (case now of Some n \<Rightarrow> endTime s < n | None \<Rightarrow> endTime s * 1000 < nowMs)"

definition timeUntilStreamEnd :: "stream \<Rightarrow> int \<Rightarrow> int" where
  "timeUntilStreamEnd s nowMs = max 0 (endTime s - nowMs div 1000)"

definition claimableNow :: "stream \<Rightarrow> int \<Rightarrow> sdk_error + int" where
  "claimableNow s nowMs =
     (if status s \<noteq> Active then Inr 0
      else let now = nowMs div 1000;
               effectiveNow = min now (endTime s);
               elapsed = max 0 (effectiveNow - lastWithdrawTime s)
           in safeClaimable (flowRate s) elapsed (Some (deposit s)))"

definition isStreamExpiring :: "stream \<Rightarrow> int \<Rightarrow> int \<Rightarrow> bool" where
  "isStreamExpiring s thresholdSeconds nowMs =
     (if status s \<noteq> Active then False
      else let remaining = timeUntilStreamEnd s nowMs
           in remaining > 0 \<and> remaining < thresholdSeconds)"

definition isStreamStalled :: "stream \<Rightarrow> int \<Rightarrow> int \<Rightarrow> bool" where
  "isStreamStalled s staleThresholdSeconds nowMs =
     (if status s \<noteq> Active then False
      else nowMs div 1000 - lastWithdrawTime s > staleThresholdSeconds)"

definition isStreamUnderfunded :: "stream \<Rightarrow> sdk_error + bool" where
  "isStreamUnderfunded s =
     (if status s \<noteq> Active \<or> flowRate s = 0 then Inr False
      else rbind (safeClaimable (flowRate s) (max 0 (lastWithdrawTime s - startTime s)) (Some (deposit s)))
        (\<lambda>streamedSoFar.
          let remainingDeposit = (if deposit s > streamedSoFar then deposit s - streamedSoFar else 0)
          in rbind (safeClaimable (flowRate s) (max 0 (endTime s - lastWithdrawTime s)) None)
            (\<lambda>expectedRemaining. Inr (remainingDeposit < expectedRemaining))))"

section \<open>Vesting schedules\<close>

record vesting_schedule =
  effectiveClaimable :: int
  totalAmount :: int
  cliffEndTime :: int
  inCliff :: bool
  milestones :: "(int \<times> int) list"

definition push_milestone ::
    "stream \<Rightarrow> int \<Rightarrow> int \<Rightarrow> (int \<times> int) list \<Rightarrow> int \<Rightarrow> sdk_error + (int \<times> int) list" where
  "push_milestone s cliffEnd totalSeconds ms pct =
     (let secondsAtPct = (totalSeconds * pct) sdiv 100;
          t = startTime s + secondsAtPct
      in if t > cliffEnd
         then rbind (safeClaimable (flowRate s) secondsAtPct (Some (deposit s)))
                (\<lambda>v. Inr (ms @ [(t, v)]))
         else Inr ms)"

definition calculateVestingSchedule :: "stream \<Rightarrow> int \<Rightarrow> int \<Rightarrow> sdk_error + vesting_schedule" where
  "calculateVestingSchedule s cliffSeconds currentTime =
     (let cliffEnd = startTime s + cliffSeconds;
          inC = currentTime < cliffEnd;
          totalSeconds = endTime s - startTime s
      in rbind (safeClaimable (flowRate s) totalSeconds (Some (deposit s))) (\<lambda>totalAmt.
         rbind (if inC then Inr 0
                else if currentTime \<ge> endTime s then Inr totalAmt
                else let minNow = min currentTime (endTime s);
                         vestingStart = max cliffEnd (startTime s);
                         elapsed = (if minNow > vestingStart then minNow - vestingStart else 0)
                     in safeClaimable (flowRate s) (cliffSeconds + elapsed) (Some (deposit s)))
           (\<lambda>effective.
         rbind (if cliffSeconds < totalSeconds
                then rbind (safeClaimable (flowRate s) cliffSeconds (Some (deposit s)))
                       (\<lambda>v. Inr [(cliffEnd, v)])
                else Inr [])
           (\<lambda>ms0.
         rbind (rfold (push_milestone s cliffEnd totalSeconds) ms0 [25, 50, 75, 100])
           (\<lambda>ms. Inr \<lparr>effectiveClaimable = effective, totalAmount = totalAmt,
                      cliffEndTime = cliffEnd, inCliff = inC,
                      milestones = sort_key fst ms\<rparr>)))))"

section \<open>Costs, deltas and batches\<close>

definition projectCost :: "int \<Rightarrow> int \<Rightarrow> sdk_error + int" where
  "projectCost ratePerSecond durationSeconds =
     (if ratePerSecond \<le> 0 then Inl (RateNotPositive ratePerSecond)
      else if durationSeconds \<le> 0 then Inl DurationNotPositive
      else safeClaimable ratePerSecond durationSeconds None)"

definition calculateStreamDelta :: "stream \<Rightarrow> int \<Rightarrow> int option \<Rightarrow> int \<Rightarrow> sdk_error + int" where
  "calculateStreamDelta s previousClaimable now nowMs =
     (if status s \<noteq> Active then Inr 0
      else rbind (case now of
                    None \<Rightarrow> claimableNow s nowMs
                  | Some n \<Rightarrow>
                      let effectiveNow = min n (endTime s);
                          elapsed = max 0 (effectiveNow - lastWithdrawTime s)
                      in safeClaimable (flowRate s) elapsed (Some (deposit s)))
             (\<lambda>current. let delta = current - previousClaimable
                        in Inr (if delta > 0 then delta else 0)))"

definition batchSize :: "int option \<Rightarrow> sdk_error + int" where
  "batchSize custom =
     (case custom of None \<Rightarrow> Inr 8
      | Some c \<Rightarrow> if c \<le> 0 \<or> c > 25 then Inl (BatchSizeOutOfRange c) else Inr c)"

section \<open>Offline simulation of a stream\<close>

record simulation_snapshot =
  timestamp :: int
  streamed :: int
  remaining :: int
  percentComplete :: int

record stream_simulation =
  sim_startTime :: int
  sim_endTime :: int
  sim_durationSeconds :: int
  sim_flowRate :: int
  sim_totalAmount :: int
  snapshots :: "simulation_snapshot list"

text \<open>
  \<open>roundStep d c i\<close> stands for \<open>Math.round((d / (c + 1)) * i)\<close>, evaluated in IEEE
  doubles; the set of timestamps is a list without duplicates.
\<close>

definition simulation_timestamps :: "(int \<Rightarrow> int \<Rightarrow> int \<Rightarrow> int) \<Rightarrow> int \<Rightarrow> int \<Rightarrow> int \<Rightarrow> int list" where
  "simulation_timestamps roundStep start durationSeconds n =
     (let end = start + durationSeconds;
          ts0 = [start];
          ts1 = foldl (\<lambda>ts i. let t = start + roundStep durationSeconds n i
                              in if t < end then List.insert t ts else ts)
                  ts0 [1..n];
          ts2 = List.insert end ts1
      in sort ts2)"

definition simulation_point ::
    "int \<Rightarrow> int \<Rightarrow> int \<Rightarrow> int \<Rightarrow> int \<Rightarrow> sdk_error + simulation_snapshot" where
  "simulation_point start durationSeconds rate totalAmt ts =
     (let elapsedSec = max 0 (min (ts - start) durationSeconds)
      in rbind (safeClaimable rate elapsedSec (Some totalAmt)) (\<lambda>st.
         Inr \<lparr>timestamp = ts, streamed = st, remaining = totalAmt - st,
              percentComplete = (if totalAmt > 0 then (st * 100) sdiv totalAmt else 0)\<rparr>))"

definition simulateStream ::
    "(int \<Rightarrow> int \<Rightarrow> int \<Rightarrow> int) \<Rightarrow> int \<Rightarrow> int \<Rightarrow> int option \<Rightarrow> int \<Rightarrow> int
     \<Rightarrow> sdk_error + stream_simulation" where
  "simulateStream roundStep amount durationSeconds startParam nowMs snapshotCount =
     (if amount \<le> 0 then Inl AmountNotPositive
      else if durationSeconds \<le> 0 then Inl DurationNotPositive
      else let start = (case startParam of Some t \<Rightarrow> t | None \<Rightarrow> nowMs div 1000);
               end = start + durationSeconds
           in rbind (big_div amount durationSeconds) (\<lambda>rate.
              rbind (safeClaimable rate durationSeconds None) (\<lambda>totalAmt.
              let n = max 1 snapshotCount;
                  tss = simulation_timestamps roundStep start durationSeconds n
              in rbind (rfold (\<lambda>acc ts. rbind (simulation_point start durationSeconds rate totalAmt ts)
                                           (\<lambda>p. Inr (acc @ [p]))) [] tss)
                   (\<lambda>ps. Inr \<lparr>sim_startTime = start, sim_endTime = end,
                              sim_durationSeconds = durationSeconds, sim_flowRate = rate,
                              sim_totalAmount = totalAmt, snapshots = ps\<rparr>))))"


section \<open>Lemmas: flow rates\<close>

lemma RATE_UNIT_SECONDS_pos [simp]: "0 < RATE_UNIT_SECONDS u"
  by (cases u) auto

lemma calculateFlowRate_ok:
  "0 < a \<Longrightarrow> 0 < d \<Longrightarrow> calculateFlowRate a d = Inr (a div d)"
  by (simp add: calculateFlowRate_def big_div_pos)

lemma div_mult_bounds:
  assumes "0 \<le> (a::int)" and "0 < d"
  shows "a div d * d \<le> a \<and> a < (a div d + 1) * d"
  using div_mult_mod_eq [of a d] pos_mod_sign [of d a] pos_mod_bound [of d a] assms
  unfolding distrib_right mult_1 by linarith

lemma toRatePerSecond_ok: "0 < a \<Longrightarrow> toRatePerSecond a u = Inr (a div RATE_UNIT_SECONDS u)"
  by (simp add: toRatePerSecond_def big_div_pos)

lemma rateCalculator_eq:
  assumes "0 < a"
  shows "rateCalculator a u v =
     (if a < RATE_UNIT_SECONDS u then a * RATE_UNIT_SECONDS v div RATE_UNIT_SECONDS u
      else a div RATE_UNIT_SECONDS u * RATE_UNIT_SECONDS v)"
proof -
  have "a sdiv RATE_UNIT_SECONDS u = a div RATE_UNIT_SECONDS u"
    using assms by (simp add: order_less_imp_le)
  moreover have "(a * RATE_UNIT_SECONDS v) sdiv RATE_UNIT_SECONDS u
                 = a * RATE_UNIT_SECONDS v div RATE_UNIT_SECONDS u"
    using assms by (simp add: order_less_imp_le)
  moreover have "a div RATE_UNIT_SECONDS u = 0 \<longleftrightarrow> a < RATE_UNIT_SECONDS u"
    using assms RATE_UNIT_SECONDS_pos [of u]
    by (auto simp: zdiv_eq_0_iff simp del: RATE_UNIT_SECONDS_pos)
  moreover have "0 \<le> a * RATE_UNIT_SECONDS v div RATE_UNIT_SECONDS u"
    using assms by (simp add: pos_imp_zdiv_nonneg_iff order_less_imp_le)
  ultimately show ?thesis using assms by (simp add: rateCalculator_def Let_def)
qed

section \<open>Lemmas: claimable estimate\<close>

interpretation cn: accrual "\<lambda>s t. claimableNow s (t * 1000)"
proof
  fix s t
  show "terminal (status s) \<Longrightarrow> claimableNow s (t * 1000) = Inr 0"
    by (auto simp: claimableNow_def terminal_def)
  show "status s = Active \<Longrightarrow> lockUntil s = None \<Longrightarrow>
    claimableNow s (t * 1000) = safeClaimable (flowRate s) (elapsed_at s t) (Some (deposit s))"
    by (simp add: claimableNow_def elapsed_at_def Let_def)
  show "wf_stream s \<Longrightarrow> \<exists>v. claimableNow s (t * 1000) = Inr v \<and> 0 \<le> v \<and> v \<le> deposit s"
    by (auto simp: claimableNow_def wf_stream_def safeClaimable_capped Let_def accrued_bounds)
qed

lemma claimableNow_value:
  "wf_stream s \<Longrightarrow> claimableNow s nowMs =
     Inr (if status s = Active
          then accrued (flowRate s) (elapsed_at s (nowMs div 1000)) (deposit s) else 0)"
  by (simp add: claimableNow_def elapsed_at_def Let_def safeClaimable_capped wf_stream_def)

lemma isExpired_default: "isExpired s None (t * 1000) \<longleftrightarrow> endTime s < t"
  by (simp add: isExpired_def)

section \<open>Lemmas: vesting\<close>

lemma percent_bounds:
  assumes "0 \<le> T" "0 \<le> p" "p \<le> 100"
  shows "0 \<le> (T * p) sdiv 100 \<and> (T * p) sdiv 100 \<le> (T::int)"
proof -
  have "T * p \<le> T * 100" using assms by (intro mult_left_mono) auto
  then show ?thesis using assms by (simp add: pos_imp_zdiv_nonneg_iff)
qed

definition milestone_ok :: "stream \<Rightarrow> int \<Rightarrow> int \<times> int \<Rightarrow> bool" where
  "milestone_ok s cliffEnd m \<longleftrightarrow>
     cliffEnd \<le> fst m \<and> fst m \<le> endTime s \<and>
     snd m = accrued (flowRate s) (fst m - startTime s) (deposit s)"

lemma push_milestone_ok:
  assumes "wf_stream s" "startTime s \<le> endTime s" "0 \<le> pct" "pct \<le> 100"
    and "\<forall>m \<in> set ms. milestone_ok s cliffEnd m"
  shows "\<exists>ms'. push_milestone s cliffEnd (endTime s - startTime s) ms pct = Inr ms' \<and>
               (\<forall>m \<in> set ms'. milestone_ok s cliffEnd m)"
proof -
  let ?q = "((endTime s - startTime s) * pct) sdiv 100"
  have "0 \<le> ?q \<and> ?q \<le> endTime s - startTime s"
    using percent_bounds [of "endTime s - startTime s" pct] assms by simp
  with assms show ?thesis
    by (auto simp: push_milestone_def Let_def milestone_ok_def safeClaimable_capped wf_stream_def
        simp del: sdiv_nonneg)
qed

lemma push_milestones_ok:
  assumes "wf_stream s" "startTime s \<le> endTime s" "\<forall>p \<in> set ps. 0 \<le> p \<and> p \<le> 100"
    and "\<forall>m \<in> set ms. milestone_ok s cliffEnd m"
  shows "\<exists>ms'. rfold (push_milestone s cliffEnd (endTime s - startTime s)) ms ps = Inr ms' \<and>
               (\<forall>m \<in> set ms'. milestone_ok s cliffEnd m)"
  using assms(3,4)
proof (induction ps arbitrary: ms)
  case Nil
  then show ?case by simp
next
  case (Cons p ps)
  from Cons.prems have "0 \<le> p" "p \<le> 100" by auto
  from push_milestone_ok [OF assms(1,2) this Cons.prems(2)] obtain ms' where
    "push_milestone s cliffEnd (endTime s - startTime s) ms p = Inr ms'"
    "\<forall>m \<in> set ms'. milestone_ok s cliffEnd m" by blast
  with Cons.IH [of ms'] Cons.prems show ?case by auto
qed

lemma vesting_effective:
  assumes "wf_stream s" "0 \<le> cliff" "startTime s + cliff \<le> now" "now < endTime s"
  shows "(let minNow = min now (endTime s);
              vestingStart = max (startTime s + cliff) (startTime s);
              elapsed = (if minNow > vestingStart then minNow - vestingStart else 0)
          in safeClaimable (flowRate s) (cliff + elapsed) (Some (deposit s)))
         = Inr (accrued (flowRate s) (now - startTime s) (deposit s))"
proof -
  have "cliff + (if now > startTime s + cliff then now - (startTime s + cliff) else 0)
        = now - startTime s"
    using assms by auto
  with assms show ?thesis
    by (cases "now > startTime s + cliff") (auto simp: Let_def safeClaimable_capped wf_stream_def max_def)
qed

section \<open>Lemmas: offline simulation\<close>

lemma sorted_distinct_hd_last:
  assumes "sorted xs" "distinct xs" "a \<in> set xs" "b \<in> set xs"
    and "\<forall>x \<in> set xs. a \<le> x \<and> x \<le> (b::int)"
  shows "hd xs = a \<and> last xs = b"
proof -
  from assms(3) obtain y ys where xs: "xs = y # ys" by (cases xs) auto
  have "y \<le> a" using assms(1,3) xs by auto
  moreover have "a \<le> y" using assms(5) xs by auto
  moreover have "b \<le> last xs"
  proof -
    have "sorted (butlast xs @ [last xs])" using assms(1) xs by simp
    then have "\<forall>x \<in> set (butlast xs). x \<le> last xs" by (simp add: sorted_append)
    moreover have "b \<in> set (butlast xs) \<or> b = last xs"
      using assms(4) append_butlast_last_id [of xs] xs
      by (metis in_set_conv_decomp_last list.distinct(1) rotate1.simps(2) set_ConsD set_rotate1)
    ultimately show ?thesis by auto
  qed
  moreover have "last xs \<le> b" using assms(5) xs by (metis last_in_set list.simps(3))
  ultimately show ?thesis using xs by auto
qed

lemma simulation_timestamps_set:
  assumes "0 < d" "\<And>i. 1 \<le> i \<Longrightarrow> 0 \<le> roundStep d n i"
  shows "sorted (simulation_timestamps roundStep start d n)"
    and "distinct (simulation_timestamps roundStep start d n)"
    and "{start, start + d} \<subseteq> set (simulation_timestamps roundStep start d n)"
    and "set (simulation_timestamps roundStep start d n) \<subseteq> {start .. start + d}"
proof -
  define f where "f = (\<lambda>ts i. let t = start + roundStep d n i
                               in if t < start + d then List.insert t ts else ts)"
  have inv: "distinct (foldl f ts is) \<and> start \<in> set (foldl f ts is) \<and>
             set (foldl f ts is) \<subseteq> {start ..< start + d}"
    if "\<forall>i \<in> set is. 1 \<le> i" "distinct ts" "start \<in> set ts" "set ts \<subseteq> {start ..< start + d}"
    for "is" ts
    using that
  proof (induction "is" arbitrary: ts)
    case Nil
    then show ?case by simp
  next
    case (Cons i js)
    have "distinct (f ts i) \<and> start \<in> set (f ts i) \<and> set (f ts i) \<subseteq> {start ..< start + d}"
      using Cons.prems assms(2) [of i] by (auto simp: f_def Let_def)
    with Cons show ?case by auto
  qed
  have eq: "simulation_timestamps roundStep start d n =
            sort (List.insert (start + d) (foldl f [start] [1..n]))"
    by (simp add: simulation_timestamps_def f_def Let_def)
  have start: "distinct (foldl f [start] [1..n]) \<and> start \<in> set (foldl f [start] [1..n]) \<and>
               set (foldl f [start] [1..n]) \<subseteq> {start ..< start + d}"
    using assms(1) by (intro inv) auto
  show "sorted (simulation_timestamps roundStep start d n)" by (simp add: eq)
  show "distinct (simulation_timestamps roundStep start d n)"
    "{start, start + d} \<subseteq> set (simulation_timestamps roundStep start d n)"
    "set (simulation_timestamps roundStep start d n) \<subseteq> {start .. start + d}"
    using start assms(1) by (auto simp: eq)
qed

lemma simulation_point_ok:
  assumes "0 \<le> rate" "0 \<le> tot" "tot \<le> I128_MAX" "tot = rate * d" "start \<le> ts" "ts \<le> start + d"
  shows "simulation_point start d rate tot ts =
    Inr \<lparr>timestamp = ts, streamed = rate * (ts - start), remaining = tot - rate * (ts - start),
         percentComplete = (if tot > 0 then rate * (ts - start) * 100 div tot else 0)\<rparr>"
proof -
  have "rate * (ts - start) \<le> tot" "0 \<le> rate * (ts - start)"
    unfolding assms(4) using assms by (auto intro!: mult_left_mono mult_nonneg_nonneg)
  then have "accrued rate (max 0 (min (ts - start) d)) tot = rate * (ts - start)"
    using assms(1,5,6) by (auto simp: accrued_def)
  then show ?thesis
    using assms \<open>0 \<le> rate * (ts - start)\<close>
    by (simp add: simulation_point_def safeClaimable_capped Let_def)
qed


text \<open>The simulated timeline as a whole.\<close>

lemma simulation_points_ok:
  assumes "0 \<le> rate" "0 \<le> d" "tot \<le> I128_MAX" "tot = rate * d"
    and "\<forall>ts \<in> set tss. start \<le> ts \<and> ts \<le> start + d"
  shows "rfold (\<lambda>acc ts. rbind (simulation_point start d rate tot ts) (\<lambda>p. Inr (acc @ [p]))) acc tss
    = Inr (acc @ map (\<lambda>ts. \<lparr>timestamp = ts, streamed = rate * (ts - start),
                           remaining = tot - rate * (ts - start),
                           percentComplete = (if tot > 0 then rate * (ts - start) * 100 div tot else 0)\<rparr>) tss)"
  using assms(5)
proof (induction tss arbitrary: acc)
  case Nil
  then show ?case by simp
next
  case (Cons t ts)
  have "0 \<le> tot" using assms by simp
  with Cons show ?case using assms by (simp add: simulation_point_ok)
qed

section \<open>Properties\<close>

text \<open>\<open>calculateFlowRate\<close> returns the largest per-second rate that the total can sustain
  for the whole duration, as its documentation promises.\<close>
theorem flow_rate_is_largest:
  assumes "0 < totalAmt" and "0 < d"
  shows "\<exists>r. calculateFlowRate totalAmt d = Inr r \<and> r * d \<le> totalAmt \<and>
             (\<forall>r'. r' * d \<le> totalAmt \<longrightarrow> r' \<le> r)"
proof -
  let ?r = "totalAmt div d"
  have b: "?r * d \<le> totalAmt" "totalAmt < (?r + 1) * d"
    using div_mult_bounds [of totalAmt d] assms by simp_all
  have "r' \<le> ?r" if "r' * d \<le> totalAmt" for r'
  proof (rule ccontr)
    assume "\<not> r' \<le> ?r"
    then have "(?r + 1) * d \<le> r' * d" using assms(2) by (intro mult_right_mono) auto
    with b(2) that show False by linarith
  qed
  with b(1) show ?thesis using assms by (simp add: calculateFlowRate_ok)
qed

theorem flow_rate_is_largest_witness:
  "\<exists>r. calculateFlowRate 1000000000 2592000 = Inr r \<and> r * 2592000 \<le> 1000000000 \<and>
       (\<forall>r'. r' * 2592000 \<le> 1000000000 \<longrightarrow> r' \<le> r)"
  using flow_rate_is_largest [of 1000000000 2592000] by simp

text \<open>C9. The vesting schedule of a well-formed stream never fails and is the linear accrual
  cut off before the cliff: the effective claimable amount, the total and every milestone are
  the accrual from the start time, and the milestones are sorted and lie between the cliff and
  the end of the stream.\<close>
theorem vesting_is_linear_after_cliff:
  assumes "wf_stream s" and "startTime s \<le> endTime s" and "0 \<le> cliff"
  shows "\<exists>v. calculateVestingSchedule s cliff now = Inr v \<and>
     effectiveClaimable v =
       (if now < startTime s + cliff then 0
        else accrued (flowRate s) (min now (endTime s) - startTime s) (deposit s)) \<and>
     totalAmount v = accrued (flowRate s) (endTime s - startTime s) (deposit s) \<and>
     sorted (map fst (milestones v)) \<and>
     (\<forall>m \<in> set (milestones v). startTime s + cliff \<le> fst m \<and> fst m \<le> endTime s \<and>
        snd m = accrued (flowRate s) (fst m - startTime s) (deposit s))"
proof -
  let ?cliffEnd = "startTime s + cliff"
  let ?T = "endTime s - startTime s"
  define ms0 where "ms0 = (if cliff < ?T then [(?cliffEnd, accrued (flowRate s) cliff (deposit s))] else [])"
  have "\<forall>m \<in> set ms0. milestone_ok s ?cliffEnd m"
    by (auto simp: ms0_def milestone_ok_def)
  with push_milestones_ok [OF assms(1,2), of "[25, 50, 75, 100]" ms0 ?cliffEnd]
  obtain ms where ms: "rfold (push_milestone s ?cliffEnd ?T) ms0 [25, 50, 75, 100] = Inr ms"
    and ok: "\<forall>m \<in> set ms. milestone_ok s ?cliffEnd m" by auto
  have init: "(if cliff < ?T then rbind (safeClaimable (flowRate s) cliff (Some (deposit s)))
                                     (\<lambda>v. Inr [(?cliffEnd, v)]) else Inr []) = Inr ms0"
    using assms(1) by (simp add: ms0_def safeClaimable_capped wf_stream_def)
  have eff: "(if now < ?cliffEnd then Inr 0
      else if now \<ge> endTime s then Inr (accrued (flowRate s) ?T (deposit s))
      else let minNow = min now (endTime s); vestingStart = max ?cliffEnd (startTime s);
               elapsed = (if minNow > vestingStart then minNow - vestingStart else 0)
           in safeClaimable (flowRate s) (cliff + elapsed) (Some (deposit s)))
    = Inr (if now < ?cliffEnd then 0
           else accrued (flowRate s) (min now (endTime s) - startTime s) (deposit s))"
    using vesting_effective [OF assms(1,3)] by (simp add: not_le not_less)
  have tot: "safeClaimable (flowRate s) ?T (Some (deposit s))
             = Inr (accrued (flowRate s) ?T (deposit s))"
    using assms(1) by (simp add: safeClaimable_capped wf_stream_def)
  have "calculateVestingSchedule s cliff now = Inr
    \<lparr>effectiveClaimable = (if now < ?cliffEnd then 0
           else accrued (flowRate s) (min now (endTime s) - startTime s) (deposit s)),
     totalAmount = accrued (flowRate s) ?T (deposit s), cliffEndTime = ?cliffEnd,
     inCliff = (now < ?cliffEnd), milestones = sort_key fst ms\<rparr>"
    unfolding calculateVestingSchedule_def Let_def
    by (simp only: tot rbind.simps eff [unfolded Let_def] init ms)
  with ok show ?thesis by (auto simp: milestone_ok_def)
qed

definition sample_stream :: stream where
  "sample_stream = \<lparr>stream_id = ''1'', sender = ''GA'', recipient = ''GB'', token = ''CT'',
     deposit = 1000, flowRate = 10, startTime = 0, endTime = 100, lastWithdrawTime = 0,
     status = Active, autoRenew = False, pausedAt = None, lockUntil = None,
     namespace = None, tag = None\<rparr>"

lemma wf_sample_stream: "wf_stream sample_stream"
  by (simp add: sample_stream_def wf_stream_def I128_MAX_def)

theorem vesting_is_linear_after_cliff_witness:
  "\<exists>v. calculateVestingSchedule sample_stream 20 50 = Inr v \<and> effectiveClaimable v = 500 \<and>
       totalAmount v = 1000"
  using vesting_is_linear_after_cliff [OF wf_sample_stream, of 20 50]
  by (auto simp: sample_stream_def accrued_def)

text \<open>The offline simulation of a stream, whatever the rounding of its step: the rate is the
  truncated quotient and less than one unit per second of the amount is left over; the
  timeline is strictly increasing, starts at the start time with nothing streamed, ends at the
  end time with everything streamed, and every snapshot splits the total exactly.\<close>
theorem simulation_timeline:
  assumes "0 < amount" "amount \<le> I128_MAX" "0 < d" "\<And>i. 1 \<le> i \<Longrightarrow> 0 \<le> roundStep d (max 1 cnt) i"
  shows "\<exists>r. simulateStream roundStep amount d (Some start) nowMs cnt = Inr r \<and>
     sim_totalAmount r = sim_flowRate r * d \<and>
     sim_totalAmount r \<le> amount \<and> amount - sim_totalAmount r < d \<and>
     sorted_wrt (<) (map timestamp (snapshots r)) \<and>
     timestamp (hd (snapshots r)) = start \<and> streamed (hd (snapshots r)) = 0 \<and>
     timestamp (last (snapshots r)) = start + d \<and>
     streamed (last (snapshots r)) = sim_totalAmount r \<and>
     (\<forall>p \<in> set (snapshots r). streamed p = sim_flowRate r * (timestamp p - start) \<and>
        streamed p + remaining p = sim_totalAmount r \<and> 0 \<le> remaining p)"
proof -
  let ?rate = "amount div d"
  let ?tot = "?rate * d"
  let ?tss = "simulation_timestamps roundStep start d (max 1 cnt)"
  let ?pt = "\<lambda>ts. \<lparr>timestamp = ts, streamed = ?rate * (ts - start), remaining = ?tot - ?rate * (ts - start),
                  percentComplete = (if ?tot > 0 then ?rate * (ts - start) * 100 div ?tot else 0)\<rparr>"
  have rate: "0 \<le> ?rate" "?tot \<le> amount" "amount - ?tot < d"
    using div_mult_bounds [of amount d] assms
    by (simp_all add: pos_imp_zdiv_nonneg_iff algebra_simps)
  have tot: "safeClaimable ?rate d None = Inr ?tot"
    using assms rate(1,2) by (auto simp: safeClaimable_uncapped_iff)
  note tss = simulation_timestamps_set [OF assms(3), of roundStep "max 1 cnt" start, OF assms(4)]
  have ends: "hd ?tss = start \<and> last ?tss = start + d"
    using tss by (intro sorted_distinct_hd_last) auto
  have ne: "?tss \<noteq> []" using tss(3) by auto
  have "rfold (\<lambda>acc ts. rbind (simulation_point start d ?rate ?tot ts) (\<lambda>p. Inr (acc @ [p]))) [] ?tss
        = Inr (map ?pt ?tss)"
  proof -
    have "\<forall>ts \<in> set ?tss. start \<le> ts \<and> ts \<le> start + d" using tss(4) by auto
    from simulation_points_ok [OF rate(1) _ _ refl this, of "[]"] show ?thesis
      using rate(2) assms(2,3) by simp
  qed
  then have run: "simulateStream roundStep amount d (Some start) nowMs cnt =
    Inr \<lparr>sim_startTime = start, sim_endTime = start + d, sim_durationSeconds = d,
         sim_flowRate = ?rate, sim_totalAmount = ?tot, snapshots = map ?pt ?tss\<rparr>"
    using assms tot by (simp add: simulateStream_def big_div_pos Let_def)
  have mono: "?rate * (ts - start) \<le> ?tot" if "ts \<in> set ?tss" for ts
    using that tss(4) rate(1) by (intro mult_left_mono) auto
  have "sorted_wrt (<) ?tss" using tss(1,2) by (simp add: strict_sorted_iff)
  then show ?thesis
    using run rate ends ne mono by (auto simp: o_def hd_map last_map)
qed

theorem simulation_timeline_witness:
  "\<exists>r. simulateStream (\<lambda>d n i. d * i div (n + 1)) 1000 100 (Some 0) 0 10 = Inr r \<and>
       sim_totalAmount r = sim_flowRate r * 100 \<and> 1000 - sim_totalAmount r < 100"
  using simulation_timeline [of 1000 100 "\<lambda>d n i. d * i div (n + 1)" 10 0 0]
  by (force simp: pos_imp_zdiv_nonneg_iff I128_MAX_def)

end
