(* ===== verification/StreamQuery.thy ===== *)
theory StreamQuery
  imports Accrual
begin

text \<open>
  The read-side helpers of \<open>src/utils.ts\<close> and \<open>src/portfolioAnalytics.ts\<close> over lists of
  streams: filters, sorting, the dashboard aggregates, duration statistics, health scores,
  drift detection and the portfolio summary. Functions that go through \<open>safeClaimable\<close> may
  throw and return a result.
\<close>

section \<open>Filtering and sorting\<close>

record stream_filter =
  flt_status :: "stream_status option"
  flt_sender :: "string option"
  flt_recipient :: "string option"
  flt_token :: "string option"
  flt_activeOnly :: bool
  flt_startTimeFrom :: "int option"
  flt_startTimeTo :: "int option"
  flt_endTimeFrom :: "int option"
  flt_endTimeTo :: "int option"

definition no_filter :: stream_filter where
  "no_filter = \<lparr>flt_status = None, flt_sender = None, flt_recipient = None, flt_token = None,
     flt_activeOnly = False, flt_startTimeFrom = None, flt_startTimeTo = None,
     flt_endTimeFrom = None, flt_endTimeTo = None\<rparr>"

text \<open>A criterion that is present and violated rejects the stream.\<close>

definition rejects :: "'a option \<Rightarrow> ('a \<Rightarrow> bool) \<Rightarrow> bool" where
  "rejects crit bad = (case crit of None \<Rightarrow> False | Some v \<Rightarrow> bad v)"

definition filter_keeps :: "stream_filter \<Rightarrow> int \<Rightarrow> stream \<Rightarrow> bool" where
  "filter_keeps f nowMs s =
     (if rejects (flt_status f) (\<lambda>v. status s \<noteq> v) then False
      else if rejects (flt_sender f) (\<lambda>v. sender s \<noteq> v) then False
      else if rejects (flt_recipient f) (\<lambda>v. recipient s \<noteq> v) then False
      else if rejects (flt_token f) (\<lambda>v. token s \<noteq> v) then False
      else if flt_activeOnly f \<and> (status s \<noteq> Active \<or> isExpired s None nowMs) then False
      else if rejects (flt_startTimeFrom f) (\<lambda>v. startTime s < v) then False
      else if rejects (flt_startTimeTo f) (\<lambda>v. startTime s > v) then False
      else if rejects (flt_endTimeFrom f) (\<lambda>v. endTime s < v) then False
      else if rejects (flt_endTimeTo f) (\<lambda>v. endTime s > v) then False
      else True)"

definition filterStreams :: "stream list \<Rightarrow> stream_filter \<Rightarrow> int \<Rightarrow> stream list" where
  "filterStreams streams f nowMs = filter (filter_keeps f nowMs) streams"

datatype sort_field = ByStartTime | ByEndTime | ByAmount
datatype sort_order = Asc | Desc

fun sort_field_value :: "sort_field \<Rightarrow> stream \<Rightarrow> int" where
  "sort_field_value ByAmount s = deposit s"
| "sort_field_value ByStartTime s = startTime s"
| "sort_field_value ByEndTime s = endTime s"

text \<open>
  \<open>Array.prototype.sort\<close> is stable and the comparator is the sign of the difference times
  the direction, so the sort is the stable sort by the field times the direction.
\<close>

definition sortStreams :: "stream list \<Rightarrow> sort_field \<Rightarrow> sort_order \<Rightarrow> stream list" where
  "sortStreams streams field order =
     (let direction = (if order = Desc then - 1 else 1)
      in sort_key (\<lambda>s. sort_field_value field s * direction) streams)"

section \<open>Aggregates\<close>

record aggregate =
  agg_key :: string
  streamCount :: int
  deposited :: int
  claimable :: int
  claimedSoFar :: int

text \<open>What the schedule still owes after the last withdrawal, capped by the deposit.\<close>

definition owed :: "stream \<Rightarrow> sdk_error + int" where
  "owed s = safeClaimable (flowRate s) (max 0 (endTime s - lastWithdrawTime s)) (Some (deposit s))"

definition aggregate_step ::
    "(stream \<Rightarrow> string) \<Rightarrow> int \<Rightarrow> (string, aggregate) jsmap \<Rightarrow> stream
     \<Rightarrow> sdk_error + (string, aggregate) jsmap" where
  "aggregate_step key nowMs m s =
     (let existing = (case map_get m (key s) of
            Some a \<Rightarrow> a
          | None \<Rightarrow> \<lparr>agg_key = key s, streamCount = 0, deposited = 0, claimable = 0, claimedSoFar = 0\<rparr>)
      in rbind (claimableNow s nowMs) (\<lambda>c.
         rbind (owed s) (\<lambda>remaining.
         Inr (map_set (key s)
           (existing\<lparr>streamCount := streamCount existing + 1,
                     deposited := deposited existing + deposit s,
                     claimable := claimable existing + c,
                     claimedSoFar := claimedSoFar existing +
                       (if deposit s > remaining then deposit s - remaining else 0)\<rparr>) m))))"

definition aggregate_by ::
    "(stream \<Rightarrow> string) \<Rightarrow> int \<Rightarrow> stream list \<Rightarrow> sdk_error + aggregate list" where
  "aggregate_by key nowMs streams =
     rbind (rfold (aggregate_step key nowMs) [] streams)
       (\<lambda>m. Inr (sort_key (\<lambda>a. - deposited a) (map snd m)))"

definition aggregateStreamsByToken :: "stream list \<Rightarrow> int \<Rightarrow> sdk_error + aggregate list" where
  "aggregateStreamsByToken streams nowMs = aggregate_by token nowMs streams"

definition aggregateStreamsByRecipient :: "stream list \<Rightarrow> int \<Rightarrow> sdk_error + aggregate list" where
  "aggregateStreamsByRecipient streams nowMs = aggregate_by recipient nowMs streams"

record stream_totals =
  totalStreams :: int
  totalDeposited :: int
  totalClaimable :: int
  totalClaimed :: int
  totalRemaining :: int

definition totals_step :: "int \<Rightarrow> stream_totals \<Rightarrow> stream \<Rightarrow> sdk_error + stream_totals" where
  "totals_step nowMs t s =
     rbind (claimableNow s nowMs) (\<lambda>c.
     rbind (owed s) (\<lambda>remaining.
       let claimed = (if deposit s > remaining then deposit s - remaining else 0)
       in Inr (t\<lparr>totalDeposited := totalDeposited t + deposit s,
                 totalClaimable := totalClaimable t + c,
                 totalClaimed := totalClaimed t + claimed,
                 totalRemaining := totalRemaining t + remaining\<rparr>)))"

definition totalValueStreamed :: "stream list \<Rightarrow> int \<Rightarrow> sdk_error + stream_totals" where
  "totalValueStreamed streams nowMs =
     rfold (totals_step nowMs)
       \<lparr>totalStreams = int (length streams), totalDeposited = 0, totalClaimable = 0,
        totalClaimed = 0, totalRemaining = 0\<rparr> streams"

record status_breakdown =
  n_active :: int
  n_cancelled :: int
  n_completed :: int

definition count_status :: "status_breakdown \<Rightarrow> stream \<Rightarrow> status_breakdown" where
  "count_status b s =
     (if status s = Active then b\<lparr>n_active := n_active b + 1\<rparr>
      else if status s = Cancelled then b\<lparr>n_cancelled := n_cancelled b + 1\<rparr>
      else if status s = Completed then b\<lparr>n_completed := n_completed b + 1\<rparr>
      else b)"

definition aggregateStreamsByStatus :: "stream list \<Rightarrow> status_breakdown" where
  "aggregateStreamsByStatus streams =
     foldl count_status \<lparr>n_active = 0, n_cancelled = 0, n_completed = 0\<rparr> streams"

record streams_aggregate =
  sa_totalStreams :: int
  totalValueLocked :: int
  averageRate :: int
  breakdown :: status_breakdown

text \<open>The loop of \<open>aggregateStreams\<close>: value locked, sum of rates, status counts.\<close>

definition tvl_step ::
    "int \<Rightarrow> int \<times> int \<times> status_breakdown \<Rightarrow> stream \<Rightarrow> sdk_error + int \<times> int \<times> status_breakdown" where
  "tvl_step nowSecs acc s =
     (case acc of (tvl, rateSum, b) \<Rightarrow>
       if status s = Active
       then let effectiveNow = min nowSecs (endTime s);
                elapsedSecs = max 0 (effectiveNow - startTime s)
            in rbind (safeClaimable (flowRate s) elapsedSecs (Some (deposit s))) (\<lambda>released.
                 let remaining = (if deposit s > released then deposit s - released else 0)
                 in Inr (tvl + remaining, rateSum + flowRate s, count_status b s))
       else Inr (tvl, rateSum, count_status b s))"

definition aggregateStreams :: "stream list \<Rightarrow> int \<Rightarrow> sdk_error + streams_aggregate" where
  "aggregateStreams streams nowMs =
     rbind (rfold (tvl_step (nowMs div 1000))
              (0, 0, \<lparr>n_active = 0, n_cancelled = 0, n_completed = 0\<rparr>) streams)
       (\<lambda>(tvl, rateSum, b). Inr
          \<lparr>sa_totalStreams = int (length streams), totalValueLocked = tvl,
           averageRate = (if n_active b > 0 then rateSum sdiv n_active b else 0),
           breakdown = b\<rparr>)"

section \<open>Durations\<close>

record duration_stats =
  average :: int
  dur_min :: int
  dur_max :: int
  median :: int

definition averageStreamDuration :: "stream list \<Rightarrow> duration_stats" where
  "averageStreamDuration streams =
     (if streams = [] then \<lparr>average = 0, dur_min = 0, dur_max = 0, median = 0\<rparr>
      else let durations = sort (map (\<lambda>s. max 0 (endTime s - startTime s)) streams);
               n = length durations;
               mid = n div 2
           in \<lparr>average = math_round_div (sum_list durations) (int n),
               dur_min = durations ! 0,
               dur_max = durations ! (n - 1),
               median = (if n mod 2 = 0
                         then math_round_div (durations ! (mid - 1) + durations ! mid) 2
                         else durations ! mid)\<rparr>)"

section \<open>Health\<close>

record health_report =
  expiring :: int
  stalled :: int
  underfunded :: int
  totalActive :: int

definition health_summary_step ::
    "int \<Rightarrow> int \<Rightarrow> int \<Rightarrow> health_report \<Rightarrow> stream \<Rightarrow> sdk_error + health_report" where
  "health_summary_step expiringThreshold staleThreshold nowMs r s =
     (if status s \<noteq> Active then Inr r
      else let r1 = r\<lparr>totalActive := totalActive r + 1\<rparr>;
               r2 = (if isStreamExpiring s expiringThreshold nowMs
                     then r1\<lparr>expiring := expiring r1 + 1\<rparr> else r1);
               r3 = (if isStreamStalled s staleThreshold nowMs
                     then r2\<lparr>stalled := stalled r2 + 1\<rparr> else r2)
           in rbind (isStreamUnderfunded s) (\<lambda>u.
                Inr (if u then r3\<lparr>underfunded := underfunded r3 + 1\<rparr> else r3)))"

definition streamHealthSummary :: "stream list \<Rightarrow> int \<Rightarrow> int \<Rightarrow> int \<Rightarrow> sdk_error + health_report" where
  "streamHealthSummary streams expiringThreshold staleThreshold nowMs =
     rfold (health_summary_step expiringThreshold staleThreshold nowMs)
       \<lparr>expiring = 0, stalled = 0, underfunded = 0, totalActive = 0\<rparr> streams"

datatype health_status = Healthy | Warning | Critical | HCompleted | HCancelled

datatype diagnostic =
    DiagCancelled
  | DiagNoWithdrawal int int
  | DiagUnderfunded int int
  | DiagNearExpiry int

record health_result =
  score :: int
  health :: health_status
  remainingBalance :: int
  elapsedSeconds :: int
  remainingSeconds :: int
  secondsSinceLastWithdrawal :: int
  diagnostics :: "diagnostic list"

text \<open>
  \<open>ratio20 a b\<close> stands for \<open>Math.floor((a / b) * 20)\<close> in IEEE doubles. The other two
  floating-point steps are exact on integers in the range of timestamps: \<open>duration * 0.1\<close>
  floors to \<open>duration div 10\<close>, and the elapsed fraction exceeds 0.9 when
  \<open>9 * duration < 10 * elapsed\<close>.
\<close>

definition getStreamHealth ::
    "(int \<Rightarrow> int \<Rightarrow> int) \<Rightarrow> stream \<Rightarrow> int \<Rightarrow> sdk_error + health_result" where
  "getStreamHealth ratio20 s nowSecs =
     (if status s = Cancelled then
        Inr \<lparr>score = 0, health = HCancelled, remainingBalance = 0, elapsedSeconds = 0,
             remainingSeconds = 0, secondsSinceLastWithdrawal = 0, diagnostics = [DiagCancelled]\<rparr>
      else if status s = Completed then
        Inr \<lparr>score = 100, health = HCompleted, remainingBalance = 0,
             elapsedSeconds = endTime s - startTime s, remainingSeconds = 0,
             secondsSinceLastWithdrawal = max 0 (nowSecs - lastWithdrawTime s), diagnostics = []\<rparr>
      else
        let duration = endTime s - startTime s;
            elapsed = max 0 (min (nowSecs - startTime s) duration);
            remainingSecs = max 0 (endTime s - nowSecs)
        in rbind (safeClaimable (flowRate s) elapsed (Some (deposit s))) (\<lambda>streamedSoFar.
        let balance = (if deposit s > streamedSoFar then deposit s - streamedSoFar else 0);
            since = (if lastWithdrawTime s > 0 then max 0 (nowSecs - lastWithdrawTime s) else 0);
            stallThreshold = max 60 (duration div 10);
            isStalled = (lastWithdrawTime s > 0 \<and> since > stallThreshold);
            score1 = (if isStalled then 100 - min 40 (ratio20 since stallThreshold) else 100);
            diag1 = (if isStalled then [DiagNoWithdrawal since stallThreshold] else [])
        in rbind (safeClaimable (flowRate s) remainingSecs None) (\<lambda>remainingToStream.
        let isUnderfunded = balance < remainingToStream;
            score2 = (if isUnderfunded then score1 - 30 else score1);
            diag2 = (if isUnderfunded then diag1 @ [DiagUnderfunded balance remainingToStream] else diag1);
            nearExpiry = (duration > 0 \<and> 10 * elapsed > 9 * duration \<and> balance > 0 \<and> remainingSecs > 0);
            score3 = (if nearExpiry then score2 - 10 else score2);
            diag3 = (if nearExpiry then diag2 @ [DiagNearExpiry balance] else diag2);
            finalScore = max 0 score3;
            st = (if finalScore \<ge> 80 then Healthy else if finalScore \<ge> 50 then Warning else Critical)
        in Inr \<lparr>score = finalScore, health = st, remainingBalance = balance,
                elapsedSeconds = elapsed, remainingSeconds = remainingSecs,
                secondsSinceLastWithdrawal = since, diagnostics = diag3\<rparr>)))"

record health_counts =
  hc_total :: int
  hc_healthy :: int
  hc_warning :: int
  hc_critical :: int
  hc_completed :: int
  hc_cancelled :: int

definition count_health :: "health_status \<Rightarrow> (string \<times> health_result) list \<Rightarrow> int" where
  "count_health h entries = int (length (filter (\<lambda>e. health (snd e) = h) entries))"

definition batchGetStreamHealth ::
    "(int \<Rightarrow> int \<Rightarrow> int) \<Rightarrow> stream list \<Rightarrow> int
     \<Rightarrow> sdk_error + (string \<times> health_result) list \<times> health_counts" where
  "batchGetStreamHealth ratio20 streams nowSecs =
     rbind (rfold (\<lambda>acc s. rbind (getStreamHealth ratio20 s nowSecs)
                              (\<lambda>h. Inr (acc @ [(stream_id s, h)]))) [] streams)
       (\<lambda>entries. Inr (entries,
          \<lparr>hc_total = int (length entries), hc_healthy = count_health Healthy entries,
           hc_warning = count_health Warning entries, hc_critical = count_health Critical entries,
           hc_completed = count_health HCompleted entries,
           hc_cancelled = count_health HCancelled entries\<rparr>))"

section \<open>Drift\<close>

datatype drift_field = FStatus | FDeposit | FFlowRate | FEndTime | FLastWithdrawTime | FAutoRenew

datatype field_value = VStatus stream_status | VInt int | VBool bool

definition DRIFT_FIELDS :: "drift_field list" where
  "DRIFT_FIELDS = [FStatus, FDeposit, FFlowRate, FEndTime, FLastWithdrawTime, FAutoRenew]"

fun drift_value :: "drift_field \<Rightarrow> stream \<Rightarrow> field_value" where
  "drift_value FStatus s = VStatus (status s)"
| "drift_value FDeposit s = VInt (deposit s)"
| "drift_value FFlowRate s = VInt (flowRate s)"
| "drift_value FEndTime s = VInt (endTime s)"
| "drift_value FLastWithdrawTime s = VInt (lastWithdrawTime s)"
| "drift_value FAutoRenew s = VBool (autoRenew s)"

text \<open>
  The code compares the fields through \<open>String\<close>, which is injective on the values of
  each field.
\<close>

definition detectStreamDrift ::
    "stream \<Rightarrow> stream \<Rightarrow> (drift_field \<times> field_value \<times> field_value) list" where
  "detectStreamDrift cached onChain =
     foldl (\<lambda>diffs field. if drift_value field cached \<noteq> drift_value field onChain
                           then diffs @ [(field, drift_value field cached, drift_value field onChain)]
                           else diffs) [] DRIFT_FIELDS"

section \<open>Portfolio\<close>

record portfolio_stats =
  activeSentCount :: int
  activeReceivedCount :: int
  pf_totalClaimable :: int
  totalMonthlyOutflow :: int
  totalMonthlyInflow :: int

definition isActiveNonExpired :: "int \<Rightarrow> stream \<Rightarrow> bool" where
  "isActiveNonExpired nowMs s =
     (if status s = Cancelled \<or> status s = Completed then False else \<not> isExpired s None nowMs)"

text \<open>The fetched lists are the results of the two callbacks.\<close>

definition getPortfolioStats ::
    "stream list \<Rightarrow> stream list \<Rightarrow> int \<Rightarrow> sdk_error + portfolio_stats" where
  "getPortfolioStats sent received nowMs =
     (let activeSent = filter (isActiveNonExpired nowMs) sent;
          activeReceived = filter (isActiveNonExpired nowMs) received;
          monthly = (\<lambda>acc s. rbind (safeClaimable (flowRate s) 2592000 None) (\<lambda>v. Inr (acc + v)))
      in rbind (rfold (\<lambda>acc s. rbind (claimableNow s nowMs) (\<lambda>v. Inr (acc + v))) 0 activeReceived)
           (\<lambda>claim.
         rbind (rfold monthly 0 activeSent) (\<lambda>outflow.
         rbind (rfold monthly 0 activeReceived) (\<lambda>inflow.
         Inr \<lparr>activeSentCount = int (length activeSent),
              activeReceivedCount = int (length activeReceived),
              pf_totalClaimable = claim, totalMonthlyOutflow = outflow,
              totalMonthlyInflow = inflow\<rparr>))))"

end
