(* ===== verification/Digits.thy ===== *)
theory Digits
  imports Prelude
begin

text \<open>
  Positional notation: the digit loop shared by JavaScript's \<open>String(n)\<close> on integers and by
  the base58 encoder, its inverse, and decimal numerals as strings.
\<close>

section \<open>Digit lists\<close>

function digits_loop :: "nat \<Rightarrow> nat \<Rightarrow> nat list \<Rightarrow> nat list" where
  "digits_loop b n acc = (if n = 0 \<or> b \<le> 1 then acc else digits_loop b (n div b) (n mod b # acc))"
  by pat_completeness auto
termination
  by (relation "measure (\<lambda>(b, n, acc). n)") auto

declare digits_loop.simps [simp del]

lemma digits_loop_0 [simp]: "digits_loop b 0 acc = acc"
  by (subst digits_loop.simps) simp

lemma digits_loop_step:
  "0 < n \<Longrightarrow> 1 < b \<Longrightarrow> digits_loop b n acc = digits_loop b (n div b) (n mod b # acc)"
  by (subst digits_loop.simps) simp

lemma digits_loop_append: "digits_loop b n acc = digits_loop b n [] @ acc"
proof (induction n arbitrary: acc rule: less_induct)
  case (less n)
  show ?case
  proof (cases "n = 0 \<or> b \<le> 1")
    case True
    then show ?thesis by (simp add: digits_loop.simps [of b n])
  next
    case False
    then have "n div b < n" by simp
    then have "digits_loop b (n div b) (n mod b # acc) = digits_loop b (n div b) [] @ n mod b # acc"
      "digits_loop b (n div b) [n mod b] = digits_loop b (n div b) [] @ [n mod b]"
      by (rule less)+
    with False show ?thesis by (simp add: digits_loop.simps [of b n])
  qed
qed

definition digits :: "nat \<Rightarrow> nat \<Rightarrow> nat list" where
  "digits b n = digits_loop b n []"

definition from_digits :: "nat \<Rightarrow> nat list \<Rightarrow> nat" where
  "from_digits b ds = foldl (\<lambda>r d. r * b + d) 0 ds"

lemma from_digits_snoc [simp]: "from_digits b (ds @ [d]) = from_digits b ds * b + d"
  by (simp add: from_digits_def)

lemma from_digits_Nil [simp]: "from_digits b [] = 0"
  by (simp add: from_digits_def)

lemma from_digits_single [simp]: "from_digits b [d] = d"
  by (simp add: from_digits_def)

lemma digits_0 [simp]: "digits b 0 = []"
  by (simp add: digits_def)

lemma digits_rec: "0 < n \<Longrightarrow> 1 < b \<Longrightarrow> digits b n = digits b (n div b) @ [n mod b]"
  unfolding digits_def by (simp add: digits_loop_step) (rule digits_loop_append)

lemma from_digits_digits: "1 < b \<Longrightarrow> from_digits b (digits b n) = n"
proof (induction n rule: less_induct)
  case (less n)
  show ?case
  proof (cases "n = 0")
    case False
    with less.prems have "n div b < n" by simp
    with less False show ?thesis by (simp add: digits_rec)
  qed simp
qed

lemma digits_less: "1 < b \<Longrightarrow> d \<in> set (digits b n) \<Longrightarrow> d < b"
proof (induction n rule: less_induct)
  case (less n)
  show ?case
  proof (cases "n = 0")
    case False
    with less.prems have "n div b < n" by simp
    with less False show ?thesis by (auto simp: digits_rec)
  qed (use less.prems in simp)
qed

lemma digits_eq_Nil_iff: "1 < b \<Longrightarrow> digits b n = [] \<longleftrightarrow> n = 0"
  by (cases "n = 0") (simp_all add: digits_rec)

lemma digits_hd: "1 < b \<Longrightarrow> 0 < n \<Longrightarrow> 0 < hd (digits b n)"
proof (induction n rule: less_induct)
  case (less n)
  show ?case
  proof (cases "n div b = 0")
    case True
    with less.prems have "n mod b = n" using mod_div_mult_eq [of n b] by simp
    with True less.prems show ?thesis by (simp add: digits_rec)
  next
    case False
    moreover from less.prems have "n div b < n" by simp
    ultimately have "0 < hd (digits b (n div b))" using less by simp
    with False less.prems show ?thesis
      by (subst digits_rec) (auto simp: hd_append digits_eq_Nil_iff)
  qed
qed

text \<open>A digit list without leading zeros is the one the loop produces.\<close>

lemma digits_from_digits:
  assumes "1 < b" "\<forall>d \<in> set ds. d < b" "ds = [] \<or> 0 < hd ds"
  shows "digits b (from_digits b ds) = ds"
  using assms(2,3)
proof (induction ds rule: rev_induct)
  case Nil
  then show ?case by simp
next
  case (snoc d ds)
  show ?case
  proof (cases "ds = []")
    case True
    with snoc.prems show ?thesis by (simp add: digits_rec [of d b] assms(1))
  next
    case False
    with snoc.prems have pre: "\<forall>d \<in> set ds. d < b" "0 < hd ds" by (auto simp: hd_append)
    then have ih: "digits b (from_digits b ds) = ds" using snoc.IH by simp
    have "0 < from_digits b ds"
      using ih False by (metis digits_0 gr0I)
    then have "0 < from_digits b ds * b + d" using assms(1) by simp
    moreover have "(from_digits b ds * b + d) div b = from_digits b ds"
      "(from_digits b ds * b + d) mod b = d"
      using snoc.prems(1) assms(1) by simp_all
    ultimately show ?thesis using ih assms(1) by (simp add: digits_rec)
  qed
qed

section \<open>Decimal numerals\<close>

definition digit_char :: "nat \<Rightarrow> char" where
  "digit_char d = char_of (48 + d)"

definition is_digit :: "char \<Rightarrow> bool" where
  "is_digit c \<longleftrightarrow> 48 \<le> (of_char c :: nat) \<and> (of_char c :: nat) \<le> 57"

definition digit_val :: "char \<Rightarrow> nat" where
  "digit_val c = of_char c - 48"

lemma digit_val_char [simp]: "d < 10 \<Longrightarrow> digit_val (digit_char d) = d"
  by (simp add: digit_val_def digit_char_def)

lemma is_digit_char [simp]: "d < 10 \<Longrightarrow> is_digit (digit_char d)"
  by (simp add: is_digit_def digit_char_def)

lemma digit_char_val: "is_digit c \<Longrightarrow> digit_char (digit_val c) = c"
  by (simp add: is_digit_def digit_char_def digit_val_def)

lemma digit_char_0 [simp]: "digit_char 0 = CHR ''0''"
proof -
  have "(of_char CHR ''0'' :: nat) = 48" by simp
  then show ?thesis
    unfolding digit_char_def using char_of_char [of "CHR ''0''", where 'a = nat]
    by (simp only: add_0_right)
qed

lemma digit_val_less: "is_digit c \<Longrightarrow> digit_val c < 10"
  by (auto simp: is_digit_def digit_val_def less_diff_conv2)

text \<open>\<open>String(n)\<close> of a non-negative integer.\<close>

definition string_of_nat :: "nat \<Rightarrow> string" where
  "string_of_nat n = (if n = 0 then ''0'' else map digit_char (digits 10 n))"

text \<open>The value of a string of decimal digits.\<close>

definition decimal_value :: "string \<Rightarrow> nat" where
  "decimal_value s = from_digits 10 (map digit_val s)"

lemma map_digit_val_digits: "map digit_val (map digit_char (digits 10 n)) = digits 10 n"
  using digits_less [of 10 _ n] by (simp add: map_idI)

lemma decimal_value_string [simp]: "decimal_value (string_of_nat n) = n"
proof (cases "n = 0")
  case True
  then show ?thesis
    by (simp add: string_of_nat_def decimal_value_def from_digits_def digit_val_def)
next
  case False
  then show ?thesis
    unfolding string_of_nat_def decimal_value_def
    using map_digit_val_digits [of n] by (simp add: from_digits_digits del: map_map)
qed

lemma string_of_nat_inject [simp]: "string_of_nat m = string_of_nat n \<longleftrightarrow> m = n"
  by (metis decimal_value_string)

lemma string_of_nat_digits: "c \<in> set (string_of_nat n) \<Longrightarrow> is_digit c"
  using digits_less [of 10 _ n]
  by (auto simp: string_of_nat_def is_digit_def [of "CHR ''0''"] split: if_splits)

lemma string_of_nat_ne [simp]: "string_of_nat n \<noteq> []"
  by (simp add: string_of_nat_def digits_eq_Nil_iff)

lemma decimal_value_snoc: "decimal_value (s @ [c]) = decimal_value s * 10 + digit_val c"
  by (simp add: decimal_value_def)

lemma decimal_value_append:
  "decimal_value (s @ t) = decimal_value s * 10 ^ length t + decimal_value t"
proof (induction t rule: rev_induct)
  case Nil
  then show ?case by (simp add: decimal_value_def)
next
  case (snoc c t)
  then show ?case
    by (simp add: decimal_value_snoc append_assoc [symmetric] algebra_simps del: append_assoc)
qed

lemma decimal_value_zeros: "decimal_value (replicate k CHR ''0'') = 0"
proof (induction k)
  case 0
  then show ?case by (simp add: decimal_value_def)
next
  case (Suc k)
  have "replicate (Suc k) CHR ''0'' = replicate k CHR ''0'' @ [CHR ''0'']"
    by (simp add: replicate_append_same)
  with Suc show ?case by (simp only: decimal_value_snoc) (simp add: digit_val_def)
qed

lemma decimal_value_pad: "decimal_value (replicate k CHR ''0'' @ s) = decimal_value s"
  by (simp add: decimal_value_append decimal_value_zeros)

lemma length_string_of_nat_less: "n < 10 ^ k \<Longrightarrow> 0 < k \<Longrightarrow> length (string_of_nat n) \<le> k"
proof (induction k arbitrary: n)
  case 0
  then show ?case by simp
next
  case (Suc k)
  show ?case
  proof (cases "n < 10")
    case True
    then show ?thesis
      by (cases "n = 0") (simp_all add: string_of_nat_def digits_rec)
  next
    case False
    with Suc.prems have k: "0 < k" by (cases k) auto
    have "n div 10 < 10 ^ k" using Suc.prems(1) by (simp add: less_mult_imp_div_less)
    with k Suc.IH have "length (string_of_nat (n div 10)) \<le> k" by blast
    moreover have "string_of_nat n = string_of_nat (n div 10) @ [digit_char (n mod 10)]"
      using False by (simp add: string_of_nat_def digits_rec [of n])
    ultimately show ?thesis by simp
  qed
qed

text \<open>\<open>String(n)\<close> of any integer.\<close>

definition string_of_int :: "int \<Rightarrow> string" where
  "string_of_int i = (if i < 0 then CHR ''-'' # string_of_nat (nat (- i)) else string_of_nat (nat i))"

end
