(* ===== verification/StreamId.thy ===== *)
theory StreamId
  imports Digits
begin

text \<open>
  Stream identifiers (\<open>src/utils.ts\<close>): the URL-safe base58 encoding of a u64 identifier
  and the strict parser of a decimal identifier that guards every contract call.
\<close>

datatype id_error =
    IdOutOfRange int
  | EmptyId
  | InvalidBase58Char char
  | DecodedOutOfRange
  | InvalidStreamIdError string

definition U64_MAX :: int where
  "U64_MAX = 2 ^ 64 - 1"

definition BASE58_ALPHABET :: string where
  "BASE58_ALPHABET = ''123456789ABCDEFGHJKLMNPQRSTUVWXYZabcdefghijkmnopqrstuvwxyz''"

definition BASE58_MAP :: "char \<Rightarrow> nat option" where
  "BASE58_MAP = map_of (zip BASE58_ALPHABET [0..<length BASE58_ALPHABET])"

function encode_loop :: "int \<Rightarrow> string \<Rightarrow> string" where
  "encode_loop n result =
     (if n > 0 then encode_loop (n div 58) (BASE58_ALPHABET ! nat (n mod 58) # result) else result)"
  by pat_completeness auto
termination
  by (relation "measure (\<lambda>(n, result). nat n)") auto

declare encode_loop.simps [simp del]

definition encodeStreamId :: "int \<Rightarrow> id_error + string" where
  "encodeStreamId i =
     (if i < 0 \<or> i > U64_MAX then Inl (IdOutOfRange i)
      else if i = 0 then Inr ''1''
      else Inr (encode_loop i ''''))"

definition decode_step :: "int \<Rightarrow> char \<Rightarrow> id_error + int" where
  "decode_step result ch =
     (case BASE58_MAP ch of
        None \<Rightarrow> Inl (InvalidBase58Char ch)
      | Some d \<Rightarrow> Inr (result * 58 + int d))"

definition decodeStreamId :: "string \<Rightarrow> id_error + int" where
  "decodeStreamId encoded =
     (if length encoded = 0 then Inl EmptyId
      else rbind (rfold decode_step 0 encoded)
             (\<lambda>result. if result > U64_MAX then Inl DecodedOutOfRange else Inr result))"

text \<open>The pattern \<open>^(0|[1-9]\d*)$\<close>, then the u64 range check.\<close>

definition stream_id_pattern :: "string \<Rightarrow> bool" where
  "stream_id_pattern s \<longleftrightarrow>
     s = ''0'' \<or> (s \<noteq> [] \<and> is_digit (hd s) \<and> hd s \<noteq> CHR ''0'' \<and> list_all is_digit (tl s))"

definition parseStreamId :: "string \<Rightarrow> id_error + int" where
  "parseStreamId s =
     (if \<not> stream_id_pattern s then Inl (InvalidStreamIdError s)
      else let v = int (decimal_value s)
           in if v > U64_MAX then Inl (InvalidStreamIdError s) else Inr v)"

section \<open>Lemmas\<close>

lemma distinct_BASE58_ALPHABET: "distinct BASE58_ALPHABET"
  by (simp add: BASE58_ALPHABET_def)

lemma length_BASE58_ALPHABET [simp]: "length BASE58_ALPHABET = 58"
  by (simp add: BASE58_ALPHABET_def)

lemma BASE58_MAP_nth: "d < 58 \<Longrightarrow> BASE58_MAP (BASE58_ALPHABET ! d) = Some d"
  unfolding BASE58_MAP_def
  by (subst map_of_zip_nth) (simp_all add: distinct_BASE58_ALPHABET)

lemma BASE58_MAP_SomeD: "BASE58_MAP c = Some d \<Longrightarrow> d < 58 \<and> c = BASE58_ALPHABET ! d"
  unfolding BASE58_MAP_def
  by (drule map_of_SomeD) (auto simp: set_zip)

lemma encode_loop_digits:
  "0 \<le> n \<Longrightarrow> encode_loop n result = map (\<lambda>d. BASE58_ALPHABET ! d) (digits 58 (nat n)) @ result"
proof (induction n result rule: encode_loop.induct)
  case (1 n result)
  show ?case
  proof (cases "n > 0")
    case True
    have "nat n div 58 = nat (n div 58)" "nat n mod 58 = nat (n mod 58)"
      using True by (simp_all add: nat_div_distrib nat_mod_distrib)
    moreover have "encode_loop (n div 58) (BASE58_ALPHABET ! nat (n mod 58) # result)
      = map (\<lambda>d. BASE58_ALPHABET ! d) (digits 58 (nat (n div 58))) @ BASE58_ALPHABET ! nat (n mod 58) # result"
      using 1 True by (simp add: pos_imp_zdiv_nonneg_iff)
    ultimately show ?thesis
      using True by (simp add: encode_loop.simps [of n] digits_rec)
  next
    case False
    with "1.prems" have "n = 0" by simp
    then show ?thesis by (simp add: encode_loop.simps [of 0])
  qed
qed

lemma decode_digits:
  "\<forall>d \<in> set ds. d < 58 \<Longrightarrow>
   rfold decode_step (int r) (map (\<lambda>d. BASE58_ALPHABET ! d) ds)
   = Inr (int (foldl (\<lambda>r d. r * 58 + d) r ds))"
proof (induction ds arbitrary: r)
  case Nil
  then show ?case by simp
next
  case (Cons d ds)
  then show ?case using Cons.IH [of "r * 58 + d"]
    by (simp add: decode_step_def BASE58_MAP_nth)
qed

lemma decode_okD:
  "rfold decode_step (int r) s = Inr v \<Longrightarrow>
   \<exists>ds. s = map (\<lambda>d. BASE58_ALPHABET ! d) ds \<and> (\<forall>d \<in> set ds. d < 58) \<and>
        v = int (foldl (\<lambda>r d. r * 58 + d) r ds)"
proof (induction s arbitrary: r)
  case Nil
  then show ?case by simp
next
  case (Cons c s)
  from Cons.prems obtain d where d: "BASE58_MAP c = Some d"
    and run: "rfold decode_step (int (r * 58 + d)) s = Inr v"
    by (cases "BASE58_MAP c") (auto simp: decode_step_def [of _ c])
  from Cons.IH [OF run] obtain ds where
    "s = map (\<lambda>d. BASE58_ALPHABET ! d) ds" "\<forall>d \<in> set ds. d < 58"
    "v = int (foldl (\<lambda>r d. r * 58 + d) (r * 58 + d) ds)" by blast
  with BASE58_MAP_SomeD [OF d] show ?case by (intro exI [of _ "d # ds"]) auto
qed

lemma length_digits_le: "1 < b \<Longrightarrow> n < b ^ k \<Longrightarrow> length (digits b n) \<le> k"
proof (induction k arbitrary: n)
  case 0
  then show ?case by simp
next
  case (Suc k)
  show ?case
  proof (cases "n = 0")
    case False
    from Suc.prems have "n div b < b ^ k" by (simp add: less_mult_imp_div_less mult.commute)
    with Suc False show ?thesis by (simp add: digits_rec)
  qed simp
qed

lemma string_of_nat_pattern: "stream_id_pattern (string_of_nat n)"
proof (cases "n = 0")
  case True
  then show ?thesis by (simp add: stream_id_pattern_def string_of_nat_def)
next
  case False
  define ds where "ds = digits 10 n"
  have ds: "ds \<noteq> []" "0 < hd ds" "\<forall>d \<in> set ds. d < 10"
    using False digits_less [of 10 _ n] by (auto simp: ds_def digits_eq_Nil_iff digits_hd)
  then obtain e es where es: "ds = e # es" by (cases ds) auto
  have "digit_char e \<noteq> CHR ''0''"
    using ds es digit_val_char [of e] by (auto simp: digit_val_def)
  then show ?thesis using False ds es
    by (auto simp: stream_id_pattern_def string_of_nat_def ds_def [symmetric] list_all_iff)
qed

lemma pattern_string_of_nat:
  assumes "stream_id_pattern s"
  shows "s = string_of_nat (decimal_value s)"
proof (cases "s = ''0''")
  case True
  then show ?thesis
    by (simp add: string_of_nat_def decimal_value_def digit_val_def)
next
  case False
  with assms have s: "s \<noteq> []" "\<forall>c \<in> set s. is_digit c" "hd s \<noteq> CHR ''0''"
    by (cases s; auto simp: stream_id_pattern_def list_all_iff)+
  let ?ds = "map digit_val s"
  have hd: "0 < hd ?ds"
  proof (rule ccontr)
    assume "\<not> 0 < hd ?ds"
    then have "digit_val (hd s) = 0" using s(1) by (simp add: hd_map)
    with digit_char_val [of "hd s"] s have "hd s = digit_char 0" by simp
    with s(3) show False by simp
  qed
  have "digits 10 (decimal_value s) = ?ds"
    unfolding decimal_value_def using s hd by (intro digits_from_digits) (auto simp: digit_val_less)
  moreover from this s(1) have "0 < decimal_value s" by (metis digits_0 gr0I map_is_Nil_conv)
  ultimately show ?thesis
    using s(2) by (simp add: string_of_nat_def map_idI digit_char_val)
qed

section \<open>Properties\<close>

text \<open>C8. Base58 round trip: every u64 identifier encodes, in at most 11 characters, to a string
  that decodes to it, so distinct identifiers never share an encoding.\<close>
theorem stream_id_roundtrip:
  assumes "0 \<le> i" and "i \<le> U64_MAX"
  shows "\<exists>s. encodeStreamId i = Inr s \<and> length s \<le> 11 \<and> decodeStreamId s = Inr i"
proof (cases "i = 0")
  case True
  then show ?thesis
    by (simp add: encodeStreamId_def decodeStreamId_def decode_step_def BASE58_MAP_def
        BASE58_ALPHABET_def U64_MAX_def)
next
  case False
  let ?ds = "digits 58 (nat i)"
  let ?s = "map (\<lambda>d. BASE58_ALPHABET ! d) ?ds"
  have enc: "encodeStreamId i = Inr ?s"
    using assms False by (simp add: encodeStreamId_def encode_loop_digits)
  have "nat i < 58 ^ 11" using assms by (simp add: U64_MAX_def)
  then have len: "length ?s \<le> 11" using length_digits_le [of 58 "nat i" 11] by simp
  have "\<forall>d \<in> set ?ds. d < 58" using digits_less [of 58 _ "nat i"] by simp
  from decode_digits [OF this, of 0] have "rfold decode_step 0 ?s = Inr i"
    using assms from_digits_digits [of 58 "nat i"] by (simp add: from_digits_def)
  moreover have "?s \<noteq> []" using assms False by (simp add: digits_eq_Nil_iff)
  ultimately have "decodeStreamId ?s = Inr i"
    using assms by (simp add: decodeStreamId_def)
  with enc len show ?thesis by blast
qed

theorem stream_id_roundtrip_witness:
  "\<exists>s. encodeStreamId (2 ^ 64 - 1) = Inr s \<and> length s \<le> 11 \<and> decodeStreamId s = Inr (2 ^ 64 - 1)"
  using stream_id_roundtrip [of "2 ^ 64 - 1"] by (simp add: U64_MAX_def)

text \<open>Decoding is canonical up to leading ones: a string that decodes and does not start with
  the zero digit is exactly what the encoder produces for the decoded identifier, and the
  decoded identifier is always in the u64 range.\<close>
theorem decode_canonical:
  assumes "decodeStreamId s = Inr i" and "hd s \<noteq> CHR ''1'' \<or> s = ''1''"
  shows "0 \<le> i \<and> i \<le> U64_MAX \<and> encodeStreamId i = Inr s"
proof -
  from assms(1) have ne: "s \<noteq> []" and run: "rfold decode_step (int 0) s = Inr i"
    and le: "i \<le> U64_MAX"
    by (auto simp: decodeStreamId_def rbind_Inr_iff split: if_splits)
  from decode_okD [OF run] obtain ds where
    ds: "s = map (\<lambda>d. BASE58_ALPHABET ! d) ds" "\<forall>d \<in> set ds. d < 58" "i = int (from_digits 58 ds)"
    by (auto simp: from_digits_def)
  show ?thesis
  proof (cases "s = ''1''")
    case True
    with run have "i = 0"
      by (simp add: decode_step_def BASE58_MAP_def BASE58_ALPHABET_def)
    with True le show ?thesis by (simp add: encodeStreamId_def U64_MAX_def)
  next
    case False
    with assms(2) have "hd s \<noteq> CHR ''1''" by simp
    moreover have "hd s = BASE58_ALPHABET ! hd ds" using ds(1) ne by (cases ds) auto
    ultimately have "0 < hd ds" by (cases "hd ds") (auto simp: BASE58_ALPHABET_def)
    with ds(2) have can: "digits 58 (from_digits 58 ds) = ds" by (intro digits_from_digits) auto
    moreover have "ds \<noteq> []" using ds(1) ne by auto
    ultimately have "0 < from_digits 58 ds" by (metis digits_0 gr0I)
    with can ds le show ?thesis by (simp add: encodeStreamId_def encode_loop_digits)
  qed
qed

theorem decode_canonical_witness:
  "0 \<le> (58::int) \<and> 58 \<le> U64_MAX \<and> encodeStreamId 58 = Inr ''21''"
proof (rule decode_canonical)
  show "decodeStreamId ''21'' = Inr 58"
    by (simp add: decodeStreamId_def decode_step_def BASE58_MAP_def BASE58_ALPHABET_def U64_MAX_def)
qed simp

text \<open>\<open>parseStreamId\<close> accepts exactly the canonical decimal numerals of the u64 range: signs,
  leading zeros, blanks, empty strings and larger values are all rejected.\<close>
theorem parse_stream_id_exact:
  "parseStreamId s = Inr v \<longleftrightarrow> 0 \<le> v \<and> v \<le> U64_MAX \<and> s = string_of_int v"
proof
  assume "parseStreamId s = Inr v"
  then have "stream_id_pattern s" "v = int (decimal_value s)" "v \<le> U64_MAX"
    by (auto simp: parseStreamId_def Let_def split: if_splits)
  with pattern_string_of_nat [of s] show "0 \<le> v \<and> v \<le> U64_MAX \<and> s = string_of_int v"
    by (simp add: string_of_int_def)
next
  assume "0 \<le> v \<and> v \<le> U64_MAX \<and> s = string_of_int v"
  then show "parseStreamId s = Inr v"
    by (simp add: parseStreamId_def string_of_int_def string_of_nat_pattern)
qed

end
