(* ===== verification/MockData.thy ===== *)
theory MockData
  imports StreamQuery StreamId
begin

text \<open>
  The state of \<open>MockSoroStreamClient\<close> (\<open>src/mock.ts\<close>): the stored streams, the event
  listeners, the current sender, the id counter, operators and delegates, and the events
  and filters its operations exchange. The log \<open>m_log\<close> lists the callback invocations
  \<open>emit\<close> performs, in order: pairs of the subscription's key and the event.
\<close>

section \<open>Events\<close>

datatype event_type =
    StreamCreated | StreamWithdrawn | StreamCancelled | StreamCompleted | StreamToppedUp
  | StreamTransferred | StreamPaused | StreamResumed | StreamLocked

text \<open>The payloads of the events; amounts are decimal strings.\<close>

datatype event_data =
    NoData
  | CreatedData string string
  | AmountData string
  | ToppedUpData string int
  | TransferredData string
  | LockData int

fun data_sender :: "event_data \<Rightarrow> string option" where
  "data_sender (CreatedData s r) = Some s"
| "data_sender _ = None"

fun data_recipient :: "event_data \<Rightarrow> string option" where
  "data_recipient (CreatedData s r) = Some r"
| "data_recipient _ = None"

record stream_event =
  ev_type :: event_type
  ev_stream :: string
  ev_tx :: string
  ev_ledger :: int
  ev_time :: int
  ev_data :: event_data

record event_filter =
  ef_stream :: "string option"
  ef_sender :: "string option"
  ef_recipient :: "string option"

text \<open>A criterion applies when it is truthy: present and not the empty string.\<close>

definition truthy :: "string option \<Rightarrow> bool" where
  "truthy v \<longleftrightarrow> v \<noteq> None \<and> v \<noteq> Some []"

definition event_matches :: "event_filter \<Rightarrow> stream_event \<Rightarrow> bool" where
  "event_matches f e =
     (if truthy (ef_stream f) \<and> Some (ev_stream e) \<noteq> ef_stream f then False
      else if truthy (ef_sender f) \<and> data_sender (ev_data e) \<noteq> ef_sender f then False
      else if truthy (ef_recipient f) \<and> data_recipient (ev_data e) \<noteq> ef_recipient f then False
      else True)"

section \<open>Parameters, results and errors\<close>

record create_params =
  p_recipient :: string
  p_token :: string
  p_amount :: int
  p_duration :: int
  p_autoRenew :: bool
  p_startTime :: "int option"
  p_lockUntil :: "int option"
  p_dryRun :: bool
  p_explain :: bool
  p_checkDuplicate :: bool
  p_cliffSeconds :: "int option"
  p_nonce :: "string option"
  p_skipAllowanceCheck :: bool
  p_namespace :: "string option"
  p_tag :: "string option"

record write_options =
  o_dryRun :: bool
  o_explain :: bool

datatype mock_error =
    InsufficientAmount
  | SelfStream
  | StreamNotFound string
  | NotActive
  | NotPaused
  | LockedUntil string int int
  | AlreadyLocked string int int
  | MockAmountNotPositive
  | MockDurationNotPositive
  | StartTimeInPast int int
  | FlowRateNotPositive
  | NotAuthorisedOperator
  | RatioNotPositive
  | RatioNotLess
  | SdkError sdk_error

record explanation =
  ex_operation :: string
  ex_summary :: string
  ex_affected :: "string list"
  ex_fee :: int
  ex_minResourceFee :: int

record dry_run =
  dr_simulated :: bool
  dr_expectedFee :: string
  dr_minResourceFee :: string
  dr_resultId :: string
  dr_params :: create_params

datatype 'a outcome = Executed 'a | Explained explanation | DryRun dry_run

section \<open>The state\<close>

record mock_state =
  m_streams :: "(string, stream) jsmap"
  m_listeners :: "(string, event_filter) jsmap"
  m_sender :: string
  m_nextId :: nat
  m_operators :: "(string, string list) jsmap"
  m_delegates :: "(string, string list) jsmap"
  m_streamDelegates :: "(string, string list) jsmap"
  m_log :: "(string \<times> stream_event) list"

definition fresh_mock :: "string \<Rightarrow> nat \<Rightarrow> mock_state" where
  "fresh_mock senderKey nextId =
     \<lparr>m_streams = [], m_listeners = [], m_sender = senderKey, m_nextId = nextId,
      m_operators = [], m_delegates = [], m_streamDelegates = [], m_log = []\<rparr>"

definition put_stream :: "string \<Rightarrow> stream \<Rightarrow> mock_state \<Rightarrow> mock_state" where
  "put_stream k s m = m\<lparr>m_streams := map_set k s (m_streams m)\<rparr>"

definition emit :: "stream_event \<Rightarrow> mock_state \<Rightarrow> mock_state" where
  "emit e m = m\<lparr>m_log := m_log m @
     map (\<lambda>(key, f). (key, e)) (filter (\<lambda>(key, f). event_matches f e) (m_listeners m))\<rparr>"

definition mk_event :: "event_type \<Rightarrow> string \<Rightarrow> string \<Rightarrow> int \<Rightarrow> event_data \<Rightarrow> stream_event" where
  "mk_event ty k tx now d =
     \<lparr>ev_type = ty, ev_stream = k, ev_tx = tx, ev_ledger = 0, ev_time = now, ev_data = d\<rparr>"

text \<open>A JavaScript \<open>Set\<close> in insertion order.\<close>

definition set_add :: "'a \<Rightarrow> 'a list \<Rightarrow> 'a list" where
  "set_add x xs = (if List.member xs x then xs else xs @ [x])"

lemma set_set_add [simp]: "set (set_add x xs) = insert x (set xs)"
  by (auto simp: set_add_def)

lemma distinct_set_add [simp]: "distinct xs \<Longrightarrow> distinct (set_add x xs)"
  by (auto simp: set_add_def)

text \<open>\<open>[...new Set(xs)]\<close>: first occurrences, in order.\<close>

definition uniq :: "'a list \<Rightarrow> 'a list" where
  "uniq xs = foldl (\<lambda>acc x. set_add x acc) [] xs"

lemma uniq_aux:
  "distinct acc \<Longrightarrow> distinct (foldl (\<lambda>acc x. set_add x acc) acc xs) \<and>
    set (foldl (\<lambda>acc x. set_add x acc) acc xs) = set acc \<union> set xs"
proof (induction xs arbitrary: acc)
  case Nil
  then show ?case by simp
next
  case (Cons x xs)
  from Cons.IH [of "set_add x acc"] Cons.prems show ?case by simp
qed

lemma distinct_uniq [simp]: "distinct (uniq xs)"
  using uniq_aux [of "[]" xs] by (simp add: uniq_def)

lemma set_uniq [simp]: "set (uniq xs) = set xs"
  using uniq_aux [of "[]" xs] by (simp add: uniq_def)

lemma put_stream_simps [simp]:
  "m_streams (put_stream k s m) = map_set k s (m_streams m)"
  "m_listeners (put_stream k s m) = m_listeners m"
  "m_sender (put_stream k s m) = m_sender m"
  "m_nextId (put_stream k s m) = m_nextId m"
  "m_operators (put_stream k s m) = m_operators m"
  "m_delegates (put_stream k s m) = m_delegates m"
  "m_streamDelegates (put_stream k s m) = m_streamDelegates m"
  "m_log (put_stream k s m) = m_log m"
  by (simp_all add: put_stream_def)

lemma emit_simps [simp]:
  "m_streams (emit e m) = m_streams m"
  "m_listeners (emit e m) = m_listeners m"
  "m_sender (emit e m) = m_sender m"
  "m_nextId (emit e m) = m_nextId m"
  "m_operators (emit e m) = m_operators m"
  "m_delegates (emit e m) = m_delegates m"
  "m_streamDelegates (emit e m) = m_streamDelegates m"
  by (simp_all add: emit_def)

lemma emit_log:
  "(key, e') \<in> set (m_log (emit e m)) \<longleftrightarrow>
     (key, e') \<in> set (m_log m) \<or>
     (e' = e \<and> (\<exists>f. (key, f) \<in> set (m_listeners m) \<and> event_matches f e))"
  by (force simp: emit_def)

end
