(* ===== verification/MockClient.thy ===== *)
theory MockClient
  imports MockData
begin

text \<open>
  The operations of \<open>MockSoroStreamClient\<close> (\<open>src/mock.ts\<close>), one definition per method. An
  operation maps the clock (\<open>nowSec()\<close>, read once) and the state to the new state and its
  outcome; the state is returned on the error branches too, because some methods change it
  before they throw. \<open>Number(x)\<close> of a \<open>bigint\<close> quotient is exact.
\<close>

type_synonym 'a mock_result = "mock_state \<times> (mock_error + 'a)"

section \<open>The claimable balance\<close>

definition claimableAt :: "stream \<Rightarrow> int \<Rightarrow> sdk_error + int" where
  "claimableAt s atSec =
     (if status s = Cancelled \<or> status s = Completed then Inr 0
      else if (case lockUntil s of None \<Rightarrow> False | Some l \<Rightarrow> atSec < l) then Inr 0
      else if status s = Paused then
        let effectiveNow = min (case pausedAt s of Some p \<Rightarrow> p | None \<Rightarrow> atSec) (endTime s);
            elapsed = max 0 (effectiveNow - lastWithdrawTime s)
        in safeClaimable (flowRate s) elapsed (Some (deposit s))
      else
        let effectiveNow = min atSec (endTime s);
            elapsed = max 0 (effectiveNow - lastWithdrawTime s)
        in safeClaimable (flowRate s) elapsed (Some (deposit s)))"

section \<open>Set-up of a test\<close>

definition setSender :: "string \<Rightarrow> mock_state \<Rightarrow> mock_state" where
  "setSender a m = m\<lparr>m_sender := a\<rparr>"

definition seedStream :: "stream \<Rightarrow> mock_state \<Rightarrow> mock_state" where
  "seedStream s m = put_stream (stream_id s) s m"

definition advanceTime :: "string \<Rightarrow> int \<Rightarrow> mock_state \<Rightarrow> unit mock_result" where
  "advanceTime k secs m = (case map_get (m_streams m) k of
     None \<Rightarrow> (m, Inl (StreamNotFound k))
   | Some s \<Rightarrow>
       (put_stream k (s\<lparr>startTime := startTime s - secs, endTime := endTime s - secs,
                        lastWithdrawTime := lastWithdrawTime s - secs\<rparr>) m, Inr ()))"

definition subscribeEvents :: "string \<Rightarrow> event_filter \<Rightarrow> mock_state \<Rightarrow> mock_state" where
  "subscribeEvents key f m = m\<lparr>m_listeners := map_set key f (m_listeners m)\<rparr>"

definition unsubscribe :: "string \<Rightarrow> mock_state \<Rightarrow> mock_state" where
  "unsubscribe key m = m\<lparr>m_listeners := map_del key (m_listeners m)\<rparr>"

section \<open>Creating\<close>

record created =
  c_streamId :: string
  c_txHash :: string

definition explain_result :: "string \<Rightarrow> string \<Rightarrow> string list \<Rightarrow> explanation" where
  "explain_result op summary affected =
     \<lparr>ex_operation = op, ex_summary = summary, ex_affected = affected,
      ex_fee = 100, ex_minResourceFee = 100\<rparr>"

definition new_stream ::
    "string \<Rightarrow> string \<Rightarrow> string \<Rightarrow> string \<Rightarrow> int \<Rightarrow> int \<Rightarrow> int \<Rightarrow> int \<Rightarrow> bool \<Rightarrow> int option \<Rightarrow> stream" where
  "new_stream k snder rcp tok dep rate now dur renew lock =
     \<lparr>stream_id = k, sender = snder, recipient = rcp, token = tok, deposit = dep, flowRate = rate,
      startTime = now, endTime = now + dur, lastWithdrawTime = now, status = Active,
      autoRenew = renew, pausedAt = None, lockUntil = lock, namespace = None, tag = None\<rparr>"

definition createStream ::
    "int \<Rightarrow> create_params \<Rightarrow> write_options \<Rightarrow> mock_state \<Rightarrow> created outcome mock_result" where
  "createStream now p opts m =
     (if p_amount p \<le> 0 then (m, Inl InsufficientAmount)
      else if m_sender m \<noteq> [] \<and> p_recipient p = m_sender m then (m, Inl SelfStream)
      else if o_dryRun opts \<or> p_dryRun p then
        (m, Inr (DryRun \<lparr>dr_simulated = True, dr_expectedFee = ''100'', dr_minResourceFee = ''100'',
                          dr_resultId = ''mock-sim-id'', dr_params = p\<rparr>))
      else if o_explain opts \<or> p_explain p then
        (m, Inr (Explained (explain_result ''createStream''
                  (''Explain mode dry-run for createStream to '' @ p_recipient p)
                  [m_sender m, p_recipient p])))
      else if p_amount p \<le> 0 then (m, Inl MockAmountNotPositive)
      else if p_duration p \<le> 0 then (m, Inl MockDurationNotPositive)
      else if (case p_startTime p of None \<Rightarrow> False | Some t \<Rightarrow> t < now) then
        (m, Inl (StartTimeInPast (the (p_startTime p)) now))
      else
        let k = string_of_nat (m_nextId m);
            m1 = m\<lparr>m_nextId := m_nextId m + 1\<rparr>
        in case big_div (p_amount p) (p_duration p) of
          Inl e \<Rightarrow> (m1, Inl (SdkError e))
        | Inr rate \<Rightarrow>
            let s = new_stream k (m_sender m) (p_recipient p) (p_token p) (p_amount p) rate now
                      (p_duration p) (p_autoRenew p) (p_lockUntil p);
                tx = ''mock-tx-create-'' @ k
            in (emit (mk_event StreamCreated k tx now (CreatedData (sender s) (recipient s)))
                  (put_stream k s m1),
                Inr (Executed \<lparr>c_streamId = k, c_txHash = tx\<rparr>)))"

record simulation_result =
  sim_fee :: int
  sim_isValid :: bool
  sim_error :: "string option"

definition mockSimulateStream :: "create_params \<Rightarrow> simulation_result" where
  "mockSimulateStream p =
     (if p_amount p \<le> 0 \<or> p_duration p \<le> 0
      then \<lparr>sim_fee = 0, sim_isValid = False, sim_error = Some ''Invalid stream parameters''\<rparr>
      else \<lparr>sim_fee = 100, sim_isValid = True, sim_error = None\<rparr>)"

section \<open>Locking, withdrawing, cancelling\<close>

text \<open>\<open>timestamp\<close> is a \<open>Date\<close>: milliseconds, rounded down to seconds.\<close>

definition lockStream :: "int \<Rightarrow> string \<Rightarrow> int \<Rightarrow> mock_state \<Rightarrow> string mock_result" where
  "lockStream now k ms m = (case map_get (m_streams m) k of
     None \<Rightarrow> (m, Inl (StreamNotFound k))
   | Some s \<Rightarrow>
       let l = ms div 1000 in
       if (case lockUntil s of None \<Rightarrow> False | Some l0 \<Rightarrow> l0 \<ge> l)
       then (m, Inl (AlreadyLocked k (the (lockUntil s)) l))
       else let tx = ''mock-tx-lock-'' @ k @ ''-'' @ string_of_int now
            in (emit (mk_event StreamLocked k tx now (LockData l))
                  (put_stream k (s\<lparr>lockUntil := Some l\<rparr>) m), Inr tx))"

record withdrawn =
  w_txHash :: string
  w_amount :: string

definition withdraw ::
    "int \<Rightarrow> string \<Rightarrow> write_options \<Rightarrow> mock_state \<Rightarrow> withdrawn outcome mock_result" where
  "withdraw now k opts m =
     (if o_explain opts then
        (m, Inr (Explained (explain_result ''withdraw''
                  (''Explain mode dry-run for withdraw stream '' @ k) [m_sender m])))
      else case map_get (m_streams m) k of
        None \<Rightarrow> (m, Inl (StreamNotFound k))
      | Some s \<Rightarrow>
          if status s \<noteq> Active then (m, Inl NotActive)
          else case claimableAt s now of
            Inl e \<Rightarrow> (m, Inl (SdkError e))
          | Inr amount \<Rightarrow>
              let newLastWithdraw = min now (endTime s);
                  newStatus = (if newLastWithdraw \<ge> endTime s then Completed else Active);
                  tx = ''mock-tx-withdraw-'' @ k @ ''-'' @ string_of_int now;
                  m1 = put_stream k (s\<lparr>lastWithdrawTime := newLastWithdraw, status := newStatus\<rparr>) m;
                  m2 = emit (mk_event StreamWithdrawn k tx now (AmountData (string_of_int amount))) m1;
                  m3 = (if newStatus = Completed
                        then emit (mk_event StreamCompleted k (''mock-tx-complete-'' @ k) now NoData) m2
                        else m2)
              in (m3, Inr (Executed \<lparr>w_txHash = tx, w_amount = string_of_int amount\<rparr>)))"

definition cancelStream ::
    "int \<Rightarrow> string \<Rightarrow> write_options \<Rightarrow> mock_state \<Rightarrow> string outcome mock_result" where
  "cancelStream now k opts m =
     (if o_explain opts then
        (m, Inr (Explained (explain_result ''cancelStream''
                  (''Explain mode dry-run for cancelStream '' @ k) [m_sender m])))
      else case map_get (m_streams m) k of
        None \<Rightarrow> (m, Inl (StreamNotFound k))
      | Some s \<Rightarrow>
          if status s \<noteq> Active then (m, Inl NotActive)
          else if (case lockUntil s of None \<Rightarrow> False | Some l \<Rightarrow> now < l)
          then (m, Inl (LockedUntil k (the (lockUntil s)) now))
          else let tx = ''mock-tx-cancel-'' @ k
               in (emit (mk_event StreamCancelled k tx now NoData)
                     (put_stream k (s\<lparr>status := Cancelled\<rparr>) m), Inr (Executed tx)))"

record batch_cancel_result =
  bc_txHash :: string
  bc_streamIds :: "string list"

text \<open>The loop cancels one stream after the other and stops where it throws.\<close>

fun batch_cancel_loop :: "int \<Rightarrow> string list \<Rightarrow> mock_state \<Rightarrow> unit mock_result" where
  "batch_cancel_loop now [] m = (m, Inr ())"
| "batch_cancel_loop now (k # ks) m = (case map_get (m_streams m) k of
     None \<Rightarrow> (m, Inl (StreamNotFound k))
   | Some s \<Rightarrow>
       if status s \<noteq> Active then (m, Inl NotActive)
       else batch_cancel_loop now ks
              (emit (mk_event StreamCancelled k (''mock-tx-cancel-'' @ k) now NoData)
                (put_stream k (s\<lparr>status := Cancelled\<rparr>) m)))"

definition batchCancel :: "int \<Rightarrow> string list \<Rightarrow> mock_state \<Rightarrow> batch_cancel_result list mock_result" where
  "batchCancel now ids m = (case batch_cancel_loop now ids m of
     (m', Inl e) \<Rightarrow> (m', Inl e)
   | (m', Inr _) \<Rightarrow> (m', Inr [\<lparr>bc_txHash = ''mock-tx-batch-cancel'', bc_streamIds = ids\<rparr>]))"

section \<open>Funding and rates\<close>

record topped_up =
  tu_txHash :: string
  tu_newEndMs :: int

definition topUp ::
    "int \<Rightarrow> string \<Rightarrow> int \<Rightarrow> write_options \<Rightarrow> mock_state \<Rightarrow> topped_up outcome mock_result" where
  "topUp now k amount opts m =
     (if o_explain opts then
        (m, Inr (Explained (explain_result ''topUp''
                  (''Explain mode dry-run for topUp stream '' @ k) [m_sender m])))
      else if amount \<le> 0 then (m, Inl MockAmountNotPositive)
      else case map_get (m_streams m) k of
        None \<Rightarrow> (m, Inl (StreamNotFound k))
      | Some s \<Rightarrow>
          if status s \<noteq> Active then (m, Inl NotActive)
          else case big_div amount (flowRate s) of
            Inl e \<Rightarrow> (m, Inl (SdkError e))
          | Inr extraSeconds \<Rightarrow>
              let newEndTime = endTime s + extraSeconds;
                  tx = ''mock-tx-topup-'' @ k
              in (emit (mk_event StreamToppedUp k tx now (ToppedUpData (string_of_int amount) newEndTime))
                    (put_stream k (s\<lparr>deposit := deposit s + amount, endTime := newEndTime\<rparr>) m),
                  Inr (Executed \<lparr>tu_txHash = tx, tu_newEndMs = newEndTime * 1000\<rparr>)))"

definition topUpStream :: "int \<Rightarrow> string \<Rightarrow> int \<Rightarrow> mock_state \<Rightarrow> topped_up outcome mock_result" where
  "topUpStream now k amount m = topUp now k amount \<lparr>o_dryRun = False, o_explain = False\<rparr> m"

definition updateFlowRate :: "int \<Rightarrow> string \<Rightarrow> int \<Rightarrow> mock_state \<Rightarrow> string mock_result" where
  "updateFlowRate now k newRate m =
     (if newRate \<le> 0 then (m, Inl FlowRateNotPositive)
      else case map_get (m_streams m) k of
        None \<Rightarrow> (m, Inl (StreamNotFound k))
      | Some s \<Rightarrow>
          if status s \<noteq> Active then (m, Inl NotActive)
          else case safeClaimable (flowRate s) (max 0 (now - startTime s)) (Some (deposit s)) of
            Inl e \<Rightarrow> (m, Inl (SdkError e))
          | Inr streamedSoFar \<Rightarrow>
              let remaining = (if deposit s > streamedSoFar then deposit s - streamedSoFar else 0)
              in case big_div remaining newRate of
                Inl e \<Rightarrow> (m, Inl (SdkError e))
              | Inr extra \<Rightarrow>
                  (put_stream k (s\<lparr>flowRate := newRate, endTime := now + extra\<rparr>) m,
                   Inr (''mock-tx-update-fr-'' @ k)))"

section \<open>Delegates and operators\<close>

definition addDelegate :: "string \<Rightarrow> mock_state \<Rightarrow> string mock_result" where
  "addDelegate d m =
     (let old = (case map_get (m_delegates m) (m_sender m) of Some ds \<Rightarrow> ds | None \<Rightarrow> [])
      in (m\<lparr>m_delegates := map_set (m_sender m) (set_add d old) (m_delegates m)\<rparr>,
          Inr (''mock-tx-add-delegate-'' @ d)))"

definition getDelegates :: "string option \<Rightarrow> mock_state \<Rightarrow> string list" where
  "getDelegates delegator m =
     (let key = (case delegator of Some a \<Rightarrow> a | None \<Rightarrow> m_sender m)
      in case map_get (m_delegates m) key of Some ds \<Rightarrow> ds | None \<Rightarrow> [])"

definition revokeDelegate :: "string \<Rightarrow> mock_state \<Rightarrow> string mock_result" where
  "revokeDelegate d m =
     ((case map_get (m_delegates m) (m_sender m) of
         None \<Rightarrow> m
       | Some ds \<Rightarrow> m\<lparr>m_delegates := map_set (m_sender m) (removeAll d ds) (m_delegates m)\<rparr>),
      Inr (''mock-tx-revoke-delegate-'' @ d))"

definition grantDelegate :: "string \<Rightarrow> string \<Rightarrow> mock_state \<Rightarrow> string mock_result" where
  "grantDelegate k d m =
     (if \<not> map_has (m_streams m) k then (m, Inl (StreamNotFound k))
      else let old = (case map_get (m_streamDelegates m) k of Some ds \<Rightarrow> ds | None \<Rightarrow> [])
           in (m\<lparr>m_streamDelegates := map_set k (set_add d old) (m_streamDelegates m)\<rparr>,
               Inr (''mock-tx-grant-stream-delegate-'' @ k @ ''-'' @ d)))"

definition revokeDelegateFromStream :: "string \<Rightarrow> string \<Rightarrow> mock_state \<Rightarrow> string mock_result" where
  "revokeDelegateFromStream k d m =
     (if \<not> map_has (m_streams m) k then (m, Inl (StreamNotFound k))
      else ((case map_get (m_streamDelegates m) k of
               None \<Rightarrow> m
             | Some ds \<Rightarrow> m\<lparr>m_streamDelegates := map_set k (removeAll d ds) (m_streamDelegates m)\<rparr>),
            Inr (''mock-tx-revoke-stream-delegate-'' @ k @ ''-'' @ d)))"

definition getStreamDelegates :: "string \<Rightarrow> mock_state \<Rightarrow> string list" where
  "getStreamDelegates k m = (case map_get (m_streamDelegates m) k of Some ds \<Rightarrow> ds | None \<Rightarrow> [])"

definition operators_of :: "string \<Rightarrow> mock_state \<Rightarrow> string list" where
  "operators_of k m = (case map_get (m_operators m) k of Some ops \<Rightarrow> ops | None \<Rightarrow> [])"

definition setOperator :: "string \<Rightarrow> string \<Rightarrow> bool \<Rightarrow> mock_state \<Rightarrow> string mock_result" where
  "setOperator k operator approved m = (case map_get (m_streams m) k of
     None \<Rightarrow> (m, Inl (StreamNotFound k))
   | Some s \<Rightarrow>
       let existing = operators_of k m;
           ops = (if approved
                  then (if \<not> List.member existing operator
                        then map_set k (existing @ [operator]) (m_operators m)
                        else m_operators m)
                  else map_set k (filter (\<lambda>o'. o' \<noteq> operator) existing) (m_operators m))
       in (m\<lparr>m_operators := ops\<rparr>, Inr (''mock-tx-set-op-'' @ k)))"

definition operatorCancelStream :: "string \<Rightarrow> mock_state \<Rightarrow> string mock_result" where
  "operatorCancelStream k m = (case map_get (m_streams m) k of
     None \<Rightarrow> (m, Inl (StreamNotFound k))
   | Some s \<Rightarrow>
       if \<not> List.member (operators_of k m) (m_sender m) then (m, Inl NotAuthorisedOperator)
       else (put_stream k (s\<lparr>status := Cancelled\<rparr>) m, Inr (''mock-tx-op-cancel-'' @ k)))"

definition operatorTopUp :: "string \<Rightarrow> int \<Rightarrow> mock_state \<Rightarrow> string mock_result" where
  "operatorTopUp k amount m =
     (if amount \<le> 0 then (m, Inl MockAmountNotPositive)
      else case map_get (m_streams m) k of
        None \<Rightarrow> (m, Inl (StreamNotFound k))
      | Some s \<Rightarrow>
          if \<not> List.member (operators_of k m) (m_sender m) then (m, Inl NotAuthorisedOperator)
          else case big_div amount (flowRate s) of
            Inl e \<Rightarrow> (m, Inl (SdkError e))
          | Inr extra \<Rightarrow>
              (put_stream k (s\<lparr>deposit := deposit s + amount, endTime := endTime s + extra\<rparr>) m,
               Inr (''mock-tx-op-topup-'' @ k)))"

section \<open>Splitting, transferring, pausing\<close>

record split_params =
  sp_streamId :: string
  sp_num :: int
  sp_den :: int
  sp_recipientA :: string
  sp_recipientB :: string

record split_result =
  sr_txHash :: string
  sr_idA :: string
  sr_idB :: string

definition splitStream :: "int \<Rightarrow> split_params \<Rightarrow> mock_state \<Rightarrow> split_result mock_result" where
  "splitStream now p m = (case map_get (m_streams m) (sp_streamId p) of
     None \<Rightarrow> (m, Inl (StreamNotFound (sp_streamId p)))
   | Some s \<Rightarrow>
       if status s \<noteq> Active then (m, Inl NotActive)
       else if sp_num p \<le> 0 \<or> sp_den p \<le> 0 then (m, Inl RatioNotPositive)
       else if sp_num p \<ge> sp_den p then (m, Inl RatioNotLess)
       else
         let m1 = put_stream (sp_streamId p) (s\<lparr>status := Cancelled\<rparr>) m;
             remainingDuration = endTime s - max now (lastWithdrawTime s)
         in case safeClaimable (flowRate s) (max 0 remainingDuration) (Some (deposit s)) of
           Inl e \<Rightarrow> (m1, Inl (SdkError e))
         | Inr balanceLeft \<Rightarrow>
             let amountA = (balanceLeft * sp_num p) sdiv sp_den p;
                 amountB = (balanceLeft * (sp_den p - sp_num p)) sdiv sp_den p;
                 flowRateA = amountA sdiv max 1 remainingDuration;
                 flowRateB = amountB sdiv max 1 remainingDuration;
                 idA = string_of_nat (m_nextId m1);
                 idB = string_of_nat (m_nextId m1 + 1);
                 streamA = new_stream idA (sender s) (sp_recipientA p) (token s) amountA flowRateA
                             now remainingDuration False None;
                 streamB = new_stream idB (sender s) (sp_recipientB p) (token s) amountB flowRateB
                             now remainingDuration False None;
                 m2 = put_stream idB streamB (put_stream idA streamA (m1\<lparr>m_nextId := m_nextId m1 + 2\<rparr>));
                 tx = ''mock-tx-split-'' @ sp_streamId p;
                 m3 = emit (mk_event StreamCancelled (sp_streamId p) tx now NoData) m2;
                 m4 = emit (mk_event StreamCreated idA tx now
                              (CreatedData (sender streamA) (recipient streamA))) m3;
                 m5 = emit (mk_event StreamCreated idB tx now
                              (CreatedData (sender streamB) (recipient streamB))) m4
             in (m5, Inr \<lparr>sr_txHash = tx, sr_idA = idA, sr_idB = idB\<rparr>))"

definition transferStream :: "int \<Rightarrow> string \<Rightarrow> string \<Rightarrow> mock_state \<Rightarrow> string mock_result" where
  "transferStream now k newRecipient m = (case map_get (m_streams m) k of
     None \<Rightarrow> (m, Inl (StreamNotFound k))
   | Some s \<Rightarrow>
       if status s \<noteq> Active then (m, Inl NotActive)
       else let tx = ''mock-tx-transfer-'' @ k
            in (emit (mk_event StreamTransferred k tx now (TransferredData newRecipient))
                  (put_stream k (s\<lparr>recipient := newRecipient\<rparr>) m), Inr tx))"

definition pause :: "int \<Rightarrow> string \<Rightarrow> mock_state \<Rightarrow> string mock_result" where
  "pause now k m = (case map_get (m_streams m) k of
     None \<Rightarrow> (m, Inl (StreamNotFound k))
   | Some s \<Rightarrow>
       if status s \<noteq> Active then (m, Inl NotActive)
       else let tx = ''mock-tx-pause-'' @ k
            in (emit (mk_event StreamPaused k tx now NoData)
                  (put_stream k (s\<lparr>status := Paused, pausedAt := Some now\<rparr>) m), Inr tx))"

definition resume :: "int \<Rightarrow> string \<Rightarrow> mock_state \<Rightarrow> string mock_result" where
  "resume now k m = (case map_get (m_streams m) k of
     None \<Rightarrow> (m, Inl (StreamNotFound k))
   | Some s \<Rightarrow>
       if status s \<noteq> Paused then (m, Inl NotPaused)
       else let pauseDuration = now - (case pausedAt s of Some p \<Rightarrow> p | None \<Rightarrow> now);
                tx = ''mock-tx-resume-'' @ k
            in (emit (mk_event StreamResumed k tx now NoData)
                  (put_stream k (s\<lparr>status := Active, pausedAt := None,
                                   endTime := endTime s + pauseDuration\<rparr>) m), Inr tx))"

section \<open>Reading\<close>

definition getStream :: "string \<Rightarrow> mock_state \<Rightarrow> mock_error + stream" where
  "getStream k m = (case map_get (m_streams m) k of
     None \<Rightarrow> Inl (StreamNotFound k) | Some s \<Rightarrow> Inr s)"

record batch_streams =
  bs_streams :: "stream list"
  bs_missing :: "string list"
  bs_rpcCalls :: int

definition getStreamsBatch :: "string list \<Rightarrow> bool \<Rightarrow> mock_state \<Rightarrow> mock_error + batch_streams" where
  "getStreamsBatch ids strict m =
     (let requested = uniq ids;
          streams = List.map_filter (map_get (m_streams m)) requested;
          missing = filter (\<lambda>k. map_get (m_streams m) k = None) requested
      in if missing \<noteq> [] \<and> strict then Inl (StreamNotFound (hd missing))
         else Inr \<lparr>bs_streams = streams, bs_missing = missing,
                   bs_rpcCalls = (if requested \<noteq> [] then 1 else 0)\<rparr>)"

definition getStreams :: "string list \<Rightarrow> bool \<Rightarrow> mock_state \<Rightarrow> mock_error + stream list" where
  "getStreams ids strict m = rbind (getStreamsBatch ids strict m) (\<lambda>b. Inr (bs_streams b))"

definition getClaimable :: "int \<Rightarrow> string \<Rightarrow> mock_state \<Rightarrow> sdk_error + int" where
  "getClaimable now k m = (case map_get (m_streams m) k of
     None \<Rightarrow> Inr 0 | Some s \<Rightarrow> claimableAt s now)"

fun balances_of :: "int \<Rightarrow> mock_state \<Rightarrow> string list \<Rightarrow> sdk_error + (string \<times> int) list" where
  "balances_of now m [] = Inr []"
| "balances_of now m (k # ks) =
     rbind (getClaimable now k m) (\<lambda>b. rbind (balances_of now m ks) (\<lambda>bs. Inr ((k, b) # bs)))"

definition getMultipleStreamBalances ::
    "int \<Rightarrow> string list \<Rightarrow> mock_state \<Rightarrow> sdk_error + (string \<times> int) list" where
  "getMultipleStreamBalances now ids m = balances_of now m (uniq ids)"

record pagination =
  pg_limit :: "int option"
  pg_cursor :: "string option"

record stream_page =
  pg_streams :: "stream list"
  pg_next :: "string option"
  pg_hasMore :: bool

text \<open>\<open>findIndex(\<dots>) + 1\<close>: 0 when the cursor is not found.\<close>

fun find_index_after :: "string \<Rightarrow> stream list \<Rightarrow> nat option" where
  "find_index_after c [] = None"
| "find_index_after c (s # ss) =
     (if stream_id s = c then Some 1 else map_option Suc (find_index_after c ss))"

definition page_start :: "pagination \<Rightarrow> stream list \<Rightarrow> nat" where
  "page_start pg streams = (if truthy (pg_cursor pg)
     then (case find_index_after (the (pg_cursor pg)) streams of Some i \<Rightarrow> i | None \<Rightarrow> 0)
     else 0)"

text \<open>
  \<open>Array.prototype.slice(start, end)\<close> for \<open>0 \<le> start\<close>; a negative end counts from the
  back of the array.
\<close>

definition slice :: "nat \<Rightarrow> int \<Rightarrow> 'a list \<Rightarrow> 'a list" where
  "slice start stop xs =
     (let n = int (length xs);
          stop' = (if stop < 0 then max 0 (n + stop) else min stop n)
      in take (nat (stop' - int start)) (drop start xs))"

definition paginate :: "stream list \<Rightarrow> pagination \<Rightarrow> stream_page" where
  "paginate streams pg =
     (let limit = (case pg_limit pg of Some l \<Rightarrow> l | None \<Rightarrow> 20);
          start = page_start pg streams;
          page = slice start (int start + limit) streams
      in \<lparr>pg_streams = page,
          pg_next = (if page = [] then None else Some (stream_id (last page))),
          pg_hasMore = int start + limit < int (length streams)\<rparr>)"

datatype listing = AllStreams "stream list" | Page stream_page

definition list_streams ::
    "int \<Rightarrow> (stream \<Rightarrow> bool) \<Rightarrow> pagination option \<Rightarrow> stream_filter option \<Rightarrow> mock_state \<Rightarrow> listing" where
  "list_streams nowMs pick pg f m =
     (let picked = filter pick (map snd (m_streams m));
          kept = (case f of None \<Rightarrow> picked | Some c \<Rightarrow> filterStreams picked c nowMs)
      in case pg of None \<Rightarrow> AllStreams kept | Some p \<Rightarrow> Page (paginate kept p))"

definition getStreamsBySender ::
    "int \<Rightarrow> string \<Rightarrow> pagination option \<Rightarrow> stream_filter option \<Rightarrow> mock_state \<Rightarrow> listing" where
  "getStreamsBySender nowMs a = list_streams nowMs (\<lambda>s. sender s = a)"

definition getStreamsByRecipient ::
    "int \<Rightarrow> string \<Rightarrow> pagination option \<Rightarrow> stream_filter option \<Rightarrow> mock_state \<Rightarrow> listing" where
  "getStreamsByRecipient nowMs a = list_streams nowMs (\<lambda>s. recipient s = a)"

text \<open>Streams carry no \<open>memo\<close> field of their own, so only the tag is compared.\<close>

definition getStreamsByTag ::
    "int \<Rightarrow> string \<Rightarrow> pagination option \<Rightarrow> stream_filter option \<Rightarrow> mock_state \<Rightarrow> listing" where
  "getStreamsByTag nowMs t = list_streams nowMs (\<lambda>s. tag s = Some t)"

section \<open>Cloning and snapshots\<close>

text \<open>The spread \<open>...overrides\<close> is the record update the caller supplies.\<close>

definition cloneStream ::
    "int \<Rightarrow> string \<Rightarrow> (create_params \<Rightarrow> create_params) \<Rightarrow> mock_state \<Rightarrow> created outcome mock_result" where
  "cloneStream now k overrides m = (case getStream k m of
     Inl e \<Rightarrow> (m, Inl e)
   | Inr s \<Rightarrow>
       createStream now
         (overrides \<lparr>p_recipient = recipient s, p_token = token s, p_amount = deposit s,
                     p_duration = endTime s - startTime s, p_autoRenew = autoRenew s,
                     p_startTime = None, p_lockUntil = None, p_dryRun = False, p_explain = False, p_checkDuplicate = False,
                     p_cliffSeconds = None, p_nonce = None, p_skipAllowanceCheck = False,
                     p_namespace = None, p_tag = None\<rparr>)
         \<lparr>o_dryRun = False, o_explain = False\<rparr> m)"

record snapshot =
  sn_exportedAt :: int
  sn_stream :: stream
  sn_deposit :: string
  sn_flowRate :: string
  sn_claimable :: string

definition exportStream :: "int \<Rightarrow> string \<Rightarrow> mock_state \<Rightarrow> mock_error + snapshot" where
  "exportStream nowMs k m = rbind (getStream k m) (\<lambda>s.
     case getClaimable (nowMs div 1000) k m of
       Inl e \<Rightarrow> Inl (SdkError e)
     | Inr c \<Rightarrow> Inr \<lparr>sn_exportedAt = nowMs, sn_stream = s,
                     sn_deposit = string_of_int (deposit s), sn_flowRate = string_of_int (flowRate s),
                     sn_claimable = string_of_int c\<rparr>)"

text \<open>
  \<open>BigInt(string)\<close> on the decimal strings \<open>toString\<close> prints, the only ones a snapshot the
  client exported holds.
\<close>

definition int_of_decimal :: "string \<Rightarrow> int" where
  "int_of_decimal w = (case w of
     c # cs \<Rightarrow> if c = CHR ''-'' then - int (decimal_value cs) else int (decimal_value w)
   | [] \<Rightarrow> 0)"

definition importStream :: "snapshot \<Rightarrow> sdk_error + stream" where
  "importStream sn = rbind (asPositiveFlowRate (int_of_decimal (sn_flowRate sn))) (\<lambda>r.
     Inr ((sn_stream sn)\<lparr>deposit := int_of_decimal (sn_deposit sn), flowRate := r\<rparr>))"

end
