(* ===== verification/MockRuns.thy ===== *)
theory MockRuns
  imports MockClient
begin

text \<open>
  Runs of the mock client: its state-changing operations as one step function, the
  well-formedness every step keeps, and what a run can and cannot do to a stream. The
  balance function is interpreted as a provider of the accrual contract.
\<close>

section \<open>The balance contract\<close>

interpretation mk: accrual claimableAt
proof unfold_locales
  fix s t
  show "terminal (status s) \<Longrightarrow> claimableAt s t = Inr 0"
    by (auto simp: claimableAt_def terminal_def)
  show "status s = Active \<Longrightarrow> lockUntil s = None \<Longrightarrow>
      claimableAt s t = safeClaimable (flowRate s) (elapsed_at s t) (Some (deposit s))"
    by (simp add: claimableAt_def elapsed_at_def)
  show "wf_stream s \<Longrightarrow> \<exists>v. claimableAt s t = Inr v \<and> 0 \<le> v \<and> v \<le> deposit s"
    by (auto simp: claimableAt_def wf_stream_def Let_def safeClaimable_capped accrued_bounds)
qed

interpretation mock_estimate: accrual_pair "\<lambda>s t. claimableNow s (t * 1000)" claimableAt ..

lemma claimableAt_active:
  assumes "wf_stream s" "status s = Active"
  shows "claimableAt s t = Inr (if (case lockUntil s of None \<Rightarrow> False | Some l \<Rightarrow> t < l) then 0
    else accrued (flowRate s) (elapsed_at s t) (deposit s))"
  using assms
  by (auto simp: claimableAt_def elapsed_at_def wf_stream_def safeClaimable_capped Let_def
      split: option.splits)

section \<open>Steps\<close>

datatype mock_call =
    CSetSender string
  | CAdvance string int
  | CSubscribe string event_filter
  | CUnsubscribe string
  | CCreate create_params write_options
  | CClone string "create_params \<Rightarrow> create_params"
  | CLock string int
  | CWithdraw string write_options
  | CCancel string write_options
  | CBatchCancel "string list"
  | CTopUp string int write_options
  | CUpdateFlowRate string int
  | CAddDelegate string
  | CRevokeDelegate string
  | CGrantDelegate string string
  | CRevokeFromStream string string
  | CSetOperator string string bool
  | COperatorCancel string
  | COperatorTopUp string int
  | CSplit split_params
  | CTransfer string string
  | CPause string
  | CResume string

fun mock_step :: "int \<times> mock_call \<Rightarrow> mock_state \<Rightarrow> mock_state" where
  "mock_step (now, CSetSender a) m = setSender a m"
| "mock_step (now, CAdvance k secs) m = fst (advanceTime k secs m)"
| "mock_step (now, CSubscribe key f) m = subscribeEvents key f m"
| "mock_step (now, CUnsubscribe key) m = unsubscribe key m"
| "mock_step (now, CCreate p opts) m = fst (createStream now p opts m)"
| "mock_step (now, CClone k ov) m = fst (cloneStream now k ov m)"
| "mock_step (now, CLock k ms) m = fst (lockStream now k ms m)"
| "mock_step (now, CWithdraw k opts) m = fst (withdraw now k opts m)"
| "mock_step (now, CCancel k opts) m = fst (cancelStream now k opts m)"
| "mock_step (now, CBatchCancel ks) m = fst (batchCancel now ks m)"
| "mock_step (now, CTopUp k a opts) m = fst (topUp now k a opts m)"
| "mock_step (now, CUpdateFlowRate k r) m = fst (updateFlowRate now k r m)"
| "mock_step (now, CAddDelegate d) m = fst (addDelegate d m)"
| "mock_step (now, CRevokeDelegate d) m = fst (revokeDelegate d m)"
| "mock_step (now, CGrantDelegate k d) m = fst (grantDelegate k d m)"
| "mock_step (now, CRevokeFromStream k d) m = fst (revokeDelegateFromStream k d m)"
| "mock_step (now, CSetOperator k a b) m = fst (setOperator k a b m)"
| "mock_step (now, COperatorCancel k) m = fst (operatorCancelStream k m)"
| "mock_step (now, COperatorTopUp k a) m = fst (operatorTopUp k a m)"
| "mock_step (now, CSplit p) m = fst (splitStream now p m)"
| "mock_step (now, CTransfer k r) m = fst (transferStream now k r m)"
| "mock_step (now, CPause k) m = fst (pause now k m)"
| "mock_step (now, CResume k) m = fst (resume now k m)"

text \<open>
  What an operation may do to one stored stream. The rules are the specification of the
  operations at the level of a single stream: each names the calls that use it, its guard
  and the fields it writes.
\<close>

abbreviation locked :: "stream \<Rightarrow> int \<Rightarrow> bool" where
  "locked s now \<equiv> (case lockUntil s of None \<Rightarrow> False | Some l \<Rightarrow> now < l)"

inductive rewritten :: "int \<Rightarrow> mock_call \<Rightarrow> string \<Rightarrow> stream \<Rightarrow> stream \<Rightarrow> bool" for now :: int where
  rw_advance: "rewritten now (CAdvance k d) k s
    (s\<lparr>startTime := startTime s - d, endTime := endTime s - d,
       lastWithdrawTime := lastWithdrawTime s - d\<rparr>)"
| rw_lock: "\<forall>l0. lockUntil s = Some l0 \<longrightarrow> l0 < l \<Longrightarrow> l = ms div 1000 \<Longrightarrow>
    rewritten now (CLock k ms) k s (s\<lparr>lockUntil := Some l\<rparr>)"
| rw_withdraw: "status s = Active \<Longrightarrow> claimableAt s now = Inr v \<Longrightarrow>
    rewritten now (CWithdraw k opts) k s
      (s\<lparr>lastWithdrawTime := min now (endTime s),
         status := if endTime s \<le> min now (endTime s) then Completed else Active\<rparr>)"
| rw_cancel: "status s = Active \<Longrightarrow> \<not> locked s now \<Longrightarrow>
    rewritten now (CCancel k opts) k s (s\<lparr>status := Cancelled\<rparr>)"
| rw_batch: "status s = Active \<Longrightarrow> k \<in> set ks \<Longrightarrow>
    rewritten now (CBatchCancel ks) k s (s\<lparr>status := Cancelled\<rparr>)"
| rw_topup: "status s = Active \<Longrightarrow> 0 < a \<Longrightarrow> flowRate s \<noteq> 0 \<Longrightarrow>
    rewritten now (CTopUp k a opts) k s
      (s\<lparr>deposit := deposit s + a, endTime := endTime s + a sdiv flowRate s\<rparr>)"
| rw_rate: "status s = Active \<Longrightarrow> 0 < r \<Longrightarrow>
    safeClaimable (flowRate s) (max 0 (now - startTime s)) (Some (deposit s)) = Inr v \<Longrightarrow>
    rewritten now (CUpdateFlowRate k r) k s
      (s\<lparr>flowRate := r,
         endTime := now + (if deposit s > v then deposit s - v else 0) sdiv r\<rparr>)"
| rw_op_cancel: "rewritten now (COperatorCancel k) k s (s\<lparr>status := Cancelled\<rparr>)"
| rw_op_topup: "0 < a \<Longrightarrow> flowRate s \<noteq> 0 \<Longrightarrow>
    rewritten now (COperatorTopUp k a) k s
      (s\<lparr>deposit := deposit s + a, endTime := endTime s + a sdiv flowRate s\<rparr>)"
| rw_split: "status s = Active \<Longrightarrow> sp_streamId p = k \<Longrightarrow>
    rewritten now (CSplit p) k s (s\<lparr>status := Cancelled\<rparr>)"
| rw_transfer: "status s = Active \<Longrightarrow> rewritten now (CTransfer k r) k s (s\<lparr>recipient := r\<rparr>)"
| rw_pause: "status s = Active \<Longrightarrow>
    rewritten now (CPause k) k s (s\<lparr>status := Paused, pausedAt := Some now\<rparr>)"
| rw_resume: "status s = Paused \<Longrightarrow>
    rewritten now (CResume k) k s
      (s\<lparr>status := Active, pausedAt := None,
         endTime := endTime s + (now - (case pausedAt s of Some p \<Rightarrow> p | None \<Rightarrow> now))\<rparr>)"

text \<open>A stream as it is stored first: active, its clock starting now.\<close>

definition newborn :: "int \<Rightarrow> stream \<Rightarrow> bool" where
  "newborn now s \<longleftrightarrow> status s = Active \<and> startTime s = now \<and> lastWithdrawTime s = now \<and>
     pausedAt s = None \<and> flowRate s = deposit s sdiv max 1 (endTime s - now)"

text \<open>
  The effect of a step on the store: rewrites of existing streams, and new streams under
  ids of the counter.
\<close>

inductive effect :: "(string \<Rightarrow> stream \<Rightarrow> stream \<Rightarrow> bool) \<Rightarrow> (stream \<Rightarrow> bool) \<Rightarrow> mock_state \<Rightarrow> mock_state \<Rightarrow> bool"
  for R :: "string \<Rightarrow> stream \<Rightarrow> stream \<Rightarrow> bool" and N :: "stream \<Rightarrow> bool" where
  eff_refl: "effect R N m m"
| eff_skip: "effect R N m m1 \<Longrightarrow> m_streams m2 = m_streams m1 \<Longrightarrow> m_nextId m1 \<le> m_nextId m2 \<Longrightarrow>
    effect R N m m2"
| eff_put: "effect R N m m1 \<Longrightarrow> map_get (m_streams m1) k = Some s \<Longrightarrow> R k s s' \<Longrightarrow>
    m_streams m2 = map_set k s' (m_streams m1) \<Longrightarrow> m_nextId m1 \<le> m_nextId m2 \<Longrightarrow> effect R N m m2"
| eff_new: "effect R N m m1 \<Longrightarrow> N s \<Longrightarrow> stream_id s = string_of_nat n \<Longrightarrow> m_nextId m1 \<le> n \<Longrightarrow>
    n < m_nextId m2 \<Longrightarrow> m_streams m2 = map_set (string_of_nat n) s (m_streams m1) \<Longrightarrow> effect R N m m2"

lemmas effect_step = eff_skip eff_put eff_new

lemma eff_trans: "effect R N m1 m2 \<Longrightarrow> effect R N m m1 \<Longrightarrow> effect R N m m2"
  by (induction rule: effect.induct) (blast intro: effect_step)+

lemma eff_same: "m_streams m' = m_streams m \<Longrightarrow> m_nextId m \<le> m_nextId m' \<Longrightarrow> effect R N m m'"
  by (rule eff_skip [OF eff_refl])

text \<open>One rewrite, and one new stream.\<close>

lemma eff_one:
  "map_get (m_streams m) k = Some s \<Longrightarrow> R k s s' \<Longrightarrow>
    m_streams m' = map_set k s' (m_streams m) \<Longrightarrow> m_nextId m' = m_nextId m \<Longrightarrow> effect R N m m'"
  by (rule eff_put [OF eff_refl]) auto

lemma eff_born:
  "N s \<Longrightarrow> stream_id s = string_of_nat (m_nextId m) \<Longrightarrow>
    m_streams m' = map_set (string_of_nat (m_nextId m)) s (m_streams m) \<Longrightarrow>
    m_nextId m < m_nextId m' \<Longrightarrow> effect R N m m'"
  by (rule eff_new [OF eff_refl]) auto

lemma new_stream_simps [simp]:
  "stream_id (new_stream k a b c d r n u w l) = k"
  "status (new_stream k a b c d r n u w l) = Active"
  "deposit (new_stream k a b c d r n u w l) = d"
  "flowRate (new_stream k a b c d r n u w l) = r"
  "startTime (new_stream k a b c d r n u w l) = n"
  "endTime (new_stream k a b c d r n u w l) = n + u"
  "lastWithdrawTime (new_stream k a b c d r n u w l) = n"
  "sender (new_stream k a b c d r n u w l) = a"
  "recipient (new_stream k a b c d r n u w l) = b"
  "token (new_stream k a b c d r n u w l) = c"
  "lockUntil (new_stream k a b c d r n u w l) = l"
  "pausedAt (new_stream k a b c d r n u w l) = None"
  "autoRenew (new_stream k a b c d r n u w l) = w"
  by (simp_all add: new_stream_def)

section \<open>Every operation has its effect\<close>

lemmas eff_intros = eff_refl eff_same eff_one

lemma withdraw_effect:
  "effect (rewritten now (CWithdraw k opts)) (newborn now) m (fst (withdraw now k opts m))"
  unfolding withdraw_def
  by (auto simp: Let_def eff_refl split: option.splits sum.splits intro!: eff_one rw_withdraw)

lemma cancel_effect:
  "effect (rewritten now (CCancel k opts)) (newborn now) m (fst (cancelStream now k opts m))"
  unfolding cancelStream_def
  by (auto simp: Let_def eff_refl split: option.splits intro!: eff_one rw_cancel)

lemma topUp_effect:
  "effect (rewritten now (CTopUp k a opts)) (newborn now) m (fst (topUp now k a opts m))"
  unfolding topUp_def
  by (auto simp: Let_def eff_refl big_div_def split: option.splits sum.splits if_splits
      intro!: eff_one rw_topup)

lemma create_effect:
  "effect R (newborn now) m (fst (createStream now p opts m))"
  unfolding createStream_def
  by (auto simp: Let_def eff_refl big_div_def newborn_def max_def split: option.splits
      intro!: eff_born)

lemma split_effect:
  "effect (rewritten now (CSplit p)) (newborn now) m (fst (splitStream now p m))"
proof (cases "map_get (m_streams m) (sp_streamId p)")
  case None
  then show ?thesis by (simp add: splitStream_def eff_refl)
next
  case (Some s)
  show ?thesis
  proof (cases "status s \<noteq> Active \<or> sp_num p \<le> 0 \<or> sp_den p \<le> 0 \<or> sp_num p \<ge> sp_den p")
    case True
    with Some show ?thesis by (auto simp: splitStream_def eff_refl)
  next
    case False
    let ?m1 = "put_stream (sp_streamId p) (s\<lparr>status := Cancelled\<rparr>) m"
    have cancel: "effect (rewritten now (CSplit p)) (newborn now) m ?m1"
      using Some False by (auto intro!: eff_one rw_split)
    show ?thesis
    proof (cases "safeClaimable (flowRate s) (max 0 (endTime s - max now (lastWithdrawTime s)))
                    (Some (deposit s))")
      case (Inl e)
      with Some False cancel show ?thesis by (simp add: splitStream_def)
    next
      case (Inr bal)
      let ?n = "m_nextId m" and ?d = "endTime s - max now (lastWithdrawTime s)"
      let ?a = "(bal * sp_num p) sdiv sp_den p" and ?b = "(bal * (sp_den p - sp_num p)) sdiv sp_den p"
      let ?A = "new_stream (string_of_nat ?n) (sender s) (sp_recipientA p) (token s) ?a
                  (?a sdiv max 1 ?d) now ?d False None"
      let ?B = "new_stream (string_of_nat (?n + 1)) (sender s) (sp_recipientB p) (token s) ?b
                  (?b sdiv max 1 ?d) now ?d False None"
      let ?m2 = "put_stream (string_of_nat ?n) ?A (?m1\<lparr>m_nextId := ?n + 1\<rparr>)"
      have "effect (rewritten now (CSplit p)) (newborn now) ?m1 ?m2"
        by (rule eff_born) (auto simp: newborn_def)
      moreover have "effect (rewritten now (CSplit p)) (newborn now) ?m2 (fst (splitStream now p m))"
        using Some False Inr
        by (intro eff_born [of _ ?B]) (auto simp: splitStream_def Let_def newborn_def)
      ultimately show ?thesis using cancel by (blast intro: eff_trans)
    qed
  qed
qed

lemma batch_effect:
  "set ks \<subseteq> set all_ks \<Longrightarrow>
    effect (rewritten now (CBatchCancel all_ks)) N m (fst (batch_cancel_loop now ks m))"
proof (induction ks arbitrary: m)
  case Nil
  then show ?case by (simp add: eff_refl)
next
  case (Cons k ks)
  show ?case
  proof (cases "\<exists>s. map_get (m_streams m) k = Some s \<and> status s = Active")
    case False
    then show ?thesis by (auto simp: eff_refl split: option.split)
  next
    case True
    then obtain s where s: "map_get (m_streams m) k = Some s" "status s = Active" by blast
    let ?m = "emit (mk_event StreamCancelled k (''mock-tx-cancel-'' @ k) now NoData)
                (put_stream k (s\<lparr>status := Cancelled\<rparr>) m)"
    have "effect (rewritten now (CBatchCancel all_ks)) N m ?m"
      using s Cons.prems by (auto intro!: eff_one rw_batch)
    moreover from Cons.prems have "set ks \<subseteq> set all_ks" by simp
    from Cons.IH [OF this, of ?m]
    have "effect (rewritten now (CBatchCancel all_ks)) N ?m (fst (batch_cancel_loop now (k # ks) m))"
      using s by simp
    ultimately show ?thesis by (blast intro: eff_trans)
  qed
qed

lemma batchCancel_fst: "fst (batchCancel now ks m) = fst (batch_cancel_loop now ks m)"
  by (auto simp: batchCancel_def split: prod.splits sum.splits)

lemma update_rate_effect:
  "effect (rewritten now (CUpdateFlowRate k r)) (newborn now) m (fst (updateFlowRate now k r m))"
  unfolding updateFlowRate_def
  by (auto simp: Let_def eff_refl big_div_def split: option.splits sum.splits if_splits
      intro!: eff_one rw_rate)

lemma op_topup_effect:
  "effect (rewritten now (COperatorTopUp k a)) (newborn now) m (fst (operatorTopUp k a m))"
  unfolding operatorTopUp_def
  by (auto simp: Let_def eff_refl big_div_def split: option.splits sum.splits if_splits
      intro!: eff_one rw_op_topup)

lemma small_effects:
  "effect (rewritten now (CAdvance k d)) (newborn now) m (fst (advanceTime k d m))"
  "effect (rewritten now (CLock k ms)) (newborn now) m (fst (lockStream now k ms m))"
  "effect (rewritten now (COperatorCancel k)) (newborn now) m (fst (operatorCancelStream k m))"
  "effect (rewritten now (CTransfer k rcp)) (newborn now) m (fst (transferStream now k rcp m))"
  "effect (rewritten now (CPause k)) (newborn now) m (fst (pause now k m))"
  "effect (rewritten now (CResume k)) (newborn now) m (fst (resume now k m))"
  unfolding advanceTime_def lockStream_def operatorCancelStream_def transferStream_def
    pause_def resume_def
  by (auto simp: Let_def eff_refl split: option.splits if_splits
      intro!: eff_one rewritten.intros)

lemma bookkeeping_effects:
  "effect R N m (setSender a m)"
  "effect R N m (subscribeEvents key f m)"
  "effect R N m (unsubscribe key m)"
  "effect R N m (fst (addDelegate d m))"
  "effect R N m (fst (revokeDelegate d m))"
  "effect R N m (fst (grantDelegate k d m))"
  "effect R N m (fst (revokeDelegateFromStream k d m))"
  "effect R N m (fst (setOperator k a b m))"
  by (auto intro!: eff_same simp: setSender_def subscribeEvents_def unsubscribe_def addDelegate_def
      revokeDelegate_def grantDelegate_def revokeDelegateFromStream_def setOperator_def Let_def
      split: option.splits)

lemma clone_effect: "effect R (newborn now) m (fst (cloneStream now k ov m))"
  by (auto simp: cloneStream_def eff_refl create_effect split: sum.splits)

text \<open>The simulation: every step does to the store only what the rules allow.\<close>

lemma mock_step_effect:
  "effect (rewritten now call) (newborn now) m (mock_step (now, call) m)"
  by (cases call)
    (simp_all add: withdraw_effect cancel_effect topUp_effect create_effect clone_effect
      split_effect batch_effect batchCancel_fst update_rate_effect op_topup_effect small_effects
      bookkeeping_effects)

section \<open>What every run keeps\<close>

text \<open>
  A stored stream sits under its own id, and every id was handed out by the counter (no
  stream was seeded under an id the counter still has to reach).
\<close>

definition issued :: "mock_state \<Rightarrow> string \<Rightarrow> bool" where
  "issued m k \<longleftrightarrow> (\<exists>n. n < m_nextId m \<and> k = string_of_nat n)"

definition wf_mock :: "mock_state \<Rightarrow> bool" where
  "wf_mock m \<longleftrightarrow> distinct (map_keys (m_streams m)) \<and>
     (\<forall>k s. map_get (m_streams m) k = Some s \<longrightarrow> stream_id s = k \<and> issued m k)"

lemma wf_fresh [simp]: "wf_mock (fresh_mock a n)"
  by (simp add: wf_mock_def fresh_mock_def)

lemma rewritten_id [simp]: "rewritten now call k s s' \<Longrightarrow> stream_id s' = stream_id s"
  by (induction rule: rewritten.induct) auto

lemma issued_mono: "issued m k \<Longrightarrow> m_nextId m \<le> m_nextId m' \<Longrightarrow> issued m' k"
  by (auto simp: issued_def)

lemma effect_wf:
  assumes "effect R N m m'" and "wf_mock m"
    and id: "\<And>k s s'. R k s s' \<Longrightarrow> stream_id s' = stream_id s"
  shows "wf_mock m'"
  using assms(1,2)
proof (induction rule: effect.induct)
  case (eff_refl m)
  then show ?case .
next
  case (eff_skip m m1 m2)
  then have "\<And>k. issued m1 k \<Longrightarrow> issued m2 k" by (auto simp: issued_def)
  moreover from eff_skip have "wf_mock m1" by blast
  ultimately show ?case unfolding wf_mock_def eff_skip.hyps(2) by blast
next
  case (eff_put m m1 k s s' m2)
  then have up: "\<And>k. issued m1 k \<Longrightarrow> issued m2 k" and wf: "wf_mock m1" by (auto simp: issued_def)
  from wf eff_put.hyps(2) id [OF eff_put.hyps(3)] have "stream_id s' = k" "issued m1 k"
    by (auto simp: wf_mock_def)
  with wf show ?case unfolding wf_mock_def eff_put.hyps(4)
    by (simp only: map_get_set distinct_map_set) (metis option.inject up)
next
  case (eff_new m m1 s n m2)
  then have up: "\<And>k. issued m1 k \<Longrightarrow> issued m2 k" and "issued m2 (string_of_nat n)" "wf_mock m1"
    by (auto simp: issued_def)
  with eff_new.hyps(3) show ?case unfolding wf_mock_def eff_new.hyps(6)
    by (simp only: map_get_set distinct_map_set) (metis option.inject up)
qed

lemma mock_step_wf: "wf_mock m \<Longrightarrow> wf_mock (mock_step e m)"
  by (cases e) (auto intro: effect_wf [OF mock_step_effect])

lemma wf_put:
  "wf_mock m \<Longrightarrow> map_get (m_streams m) k = Some s \<Longrightarrow> stream_id s' = stream_id s \<Longrightarrow>
    wf_mock (put_stream k s' m)"
  by (rule effect_wf [where R = "\<lambda>k s s'. stream_id s' = stream_id s" and N = "\<lambda>_. False"])
    (auto intro: eff_one)

interpretation mock: step_system mock_step wf_mock
  by unfold_locales (rule mock_step_wf)

text \<open>
  A property of one stream that every rewrite keeps is kept by every run: new streams get
  new ids, so they never take the place of a stored one.
\<close>

lemma effect_keeps:
  assumes "effect R N m m'" and "wf_mock m"
    and id: "\<And>k s s'. R k s s' \<Longrightarrow> stream_id s' = stream_id s"
    and keep: "\<And>s s'. P s \<Longrightarrow> R k s s' \<Longrightarrow> P s'"
    and "\<exists>s. map_get (m_streams m) k = Some s \<and> P s"
  shows "\<exists>s. map_get (m_streams m') k = Some s \<and> P s"
  using assms(1,2,5)
proof (induction rule: effect.induct)
  case (eff_refl m)
  then show ?case by blast
next
  case (eff_skip m m1 m2)
  then show ?case by simp
next
  case (eff_put m m1 k' s s' m2)
  then show ?case using keep by (cases "k' = k") auto
next
  case (eff_new m m1 s n m2)
  from eff_new.hyps(1) eff_new.prems(1) have "wf_mock m1" by (rule effect_wf) (rule id)
  with eff_new obtain s0 where "map_get (m_streams m1) k = Some s0" "P s0" "issued m1 k"
    by (auto simp: wf_mock_def)
  with eff_new.hyps show ?case by (auto simp: issued_def)
qed

lemma mock_step_keeps:
  assumes "wf_mock m" and "\<exists>s. map_get (m_streams m) k = Some s \<and> P s"
    and "\<And>now call s s'. e = (now, call) \<Longrightarrow> P s \<Longrightarrow> rewritten now call k s s' \<Longrightarrow> P s'"
  shows "\<exists>s. map_get (m_streams (mock_step e m)) k = Some s \<and> P s"
  using assms by (cases e) (auto intro!: effect_keeps [OF mock_step_effect])

lemma rewritten_terminal: "rewritten now call k s s' \<Longrightarrow> terminal (status s) \<Longrightarrow> terminal (status s')"
  by (induction rule: rewritten.induct) (auto simp: terminal_def)

end
