(* ===== verification/MockProps.thy ===== *)
theory MockProps
  imports MockRuns
begin

text \<open>
  The properties of the mock client: lifecycle refinement, solvency of a stream over whole
  runs, the accounting of each operation, pagination, snapshots and batch reads.
\<close>

lemma int_of_decimal_string [simp]: "int_of_decimal (string_of_int i) = i"
proof (cases "i < 0")
  case True
  then show ?thesis by (simp add: int_of_decimal_def string_of_int_def)
next
  case False
  define w where "w = string_of_nat (nat i)"
  obtain c cs where w: "w = c # cs" by (metis w_def string_of_nat_ne neq_Nil_conv)
  have "is_digit c" using string_of_nat_digits [of c "nat i"] w by (simp add: w_def)
  then have "c \<noteq> CHR ''-''" by (auto simp: is_digit_def)
  moreover have "decimal_value (c # cs) = nat i" using w by (simp add: w_def flip: w)
  ultimately show ?thesis using False w
    by (simp add: int_of_decimal_def string_of_int_def flip: w_def)
qed

definition plain_options :: write_options where
  "plain_options = \<lparr>o_dryRun = False, o_explain = False\<rparr>"

section \<open>Lifecycle\<close>

text \<open>The lifecycle action a call performs on the streams it rewrites.\<close>

fun action_of :: "mock_call \<Rightarrow> stream_action option" where
  "action_of (CWithdraw k opts) = Some AWithdraw"
| "action_of (CCancel k opts) = Some ACancel"
| "action_of (CBatchCancel ks) = Some ACancel"
| "action_of (CTopUp k a opts) = Some ATopUp"
| "action_of (CUpdateFlowRate k r) = Some AUpdateFlowRate"
| "action_of (CPause k) = Some APause"
| "action_of (CResume k) = Some AResume"
| "action_of (CTransfer k r) = Some ATransfer"
| "action_of (CSplit p) = Some ACancel"
| "action_of _ = None"

text \<open>
  A step into \<open>Completed\<close> is a withdrawal at or past the end, which is how the next-state
  function decides it; the other steps do not depend on the context.
\<close>

definition status_follows :: "mock_call \<Rightarrow> stream_status \<Rightarrow> stream_status \<Rightarrow> bool" where
  "status_follows call st st' \<longleftrightarrow>
     st' = st \<or> (\<exists>a. action_of call = Some a \<and> lifecycle_step st a st')"

lemma lifecycle_steps [intro]:
  "lifecycle_step Active AWithdraw Active"
  "lifecycle_step Active AWithdraw Completed"
  "lifecycle_step Active ACancel Cancelled"
  "lifecycle_step Active APause Paused"
  "lifecycle_step Paused AResume Active"
proof -
  have "getNextState Active AWithdraw (Some \<lparr>isFullyWithdrawn = True, isExpiredCtx = True\<rparr>) = Inr Completed"
    by (simp add: getNextState_def assertValidTransition_def)
  then show "lifecycle_step Active AWithdraw Completed" by (rule lifecycle_step)
qed (auto simp: lifecycle_step_iff getNextState_def assertValidTransition_def intro!: exI [of _ None])

lemma lifecycle_step_target:
  "lifecycle_step st ACancel st' \<Longrightarrow> st' = Cancelled"
  "lifecycle_step st APause st' \<Longrightarrow> st' = Paused"
  "lifecycle_step st AResume st' \<Longrightarrow> st' = Active"
  "lifecycle_step st AWithdraw Active \<Longrightarrow> st = Active"
  by (cases st; auto simp: lifecycle_step_iff getNextState_def assertValidTransition_def
      split: option.splits if_splits)+

lemma rewritten_follows:
  assumes "rewritten now call k s s'" "\<forall>k. call \<noteq> COperatorCancel k"
    "status_follows call st (status s)"
  shows "status_follows call st (status s')"
  using assms
  by (induction rule: rewritten.induct)
    (auto simp: status_follows_def dest: lifecycle_step_target)


lemma string_of_nat_1 [simp]: "string_of_nat (Suc 0) = ''1''"
  by code_simp

definition sample_params :: create_params where
  "sample_params = \<lparr>p_recipient = ''GR'', p_token = ''GT'', p_amount = 1000, p_duration = 100,
     p_autoRenew = False, p_startTime = None, p_lockUntil = None, p_dryRun = False,
     p_explain = False, p_checkDuplicate = False,
     p_cliffSeconds = None, p_nonce = None, p_skipAllowanceCheck = False,
     p_namespace = None, p_tag = None\<rparr>"

text \<open>A mock with one stream of 1000 over 100 seconds, created at time 0.\<close>

definition sample_mock :: mock_state where
  "sample_mock = fst (createStream 0 sample_params plain_options (fresh_mock ''GS'' 1))"

lemma sample_mock_wf: "wf_mock sample_mock"
  using mock_step_wf [OF wf_fresh, of "(0, CCreate sample_params plain_options)" "''GS''" 1]
  by (simp add: sample_mock_def)

lemma sample_mock_eq:
  "sample_mock = (fresh_mock ''GS'' 1)\<lparr>m_nextId := 2,
     m_streams := [(''1'', new_stream ''1'' ''GS'' ''GR'' ''GT'' 1000 10 0 100 False None)]\<rparr>"
  by (simp add: sample_mock_def createStream_def sample_params_def fresh_mock_def plain_options_def
      Let_def big_div_def emit_def put_stream_def)

lemma sample_mock_created:
  "createStream 0 sample_params plain_options (fresh_mock ''GS'' 1) =
     (sample_mock, Inr (Executed \<lparr>c_streamId = ''1'', c_txHash = ''mock-tx-create-1''\<rparr>))"
  by (simp add: prod_eq_iff sample_mock_def)
    (simp add: createStream_def sample_params_def fresh_mock_def plain_options_def Let_def big_div_def)

lemma sample_mock_get:
  "map_get (m_streams sample_mock) ''1'' =
     Some (new_stream ''1'' ''GS'' ''GR'' ''GT'' 1000 10 0 100 False None)"
  by (simp add: sample_mock_eq)


text \<open>
  C2. Terminal states are final: once a stream of the mock is cancelled or completed, no run of
  calls, operators' calls included, makes it pay again; it stays stored, in a terminal state,
  with a claimable balance of 0 at every time.
\<close>
theorem terminal_streams_pay_nothing:
  assumes "wf_mock m" "map_get (m_streams m) k = Some s" "terminal (status s)"
  shows "(\<exists>s'. map_get (m_streams (fold mock_step es m)) k = Some s' \<and> terminal (status s')) \<and>
    getClaimable t k (fold mock_step es m) = Inr 0"
proof -
  let ?alive = "\<lambda>m. \<exists>s. map_get (m_streams m) k = Some s \<and> terminal (status s)"
  have "?alive (fold mock_step es m)"
    by (rule mock.run_stable [where P = ?alive])
      (use assms in \<open>auto intro!: mock_step_keeps [where P = "\<lambda>s. terminal (status s)"]
        dest: rewritten_terminal\<close>)
  then show ?thesis by (auto simp: getClaimable_def mk.claim_terminal)
qed

theorem terminal_streams_pay_nothing_witness:
  "getClaimable 999 ''1'' (fold mock_step [(20, COperatorTopUp ''1'' 50), (30, CAdvance ''1'' 10)]
     (put_stream ''1'' (new_stream ''1'' ''GS'' ''GR'' ''GT'' 1000 10 0 100 False None\<lparr>status := Cancelled\<rparr>)
       sample_mock)) = Inr 0"
proof -
  let ?s = "new_stream ''1'' ''GS'' ''GR'' ''GT'' 1000 10 0 100 False None\<lparr>status := Cancelled\<rparr>"
  have "wf_mock (put_stream ''1'' ?s sample_mock)"
    by (rule wf_put [OF sample_mock_wf sample_mock_get]) simp
  then show ?thesis
    by (rule terminal_streams_pay_nothing [of _ "''1''" ?s, THEN conjunct2])
      (simp_all add: terminal_def)
qed

section \<open>Solvency\<close>

text \<open>What a call pays out of stream \<open>k\<close>: the amount a withdrawal reports.\<close>

fun payout :: "int \<times> mock_call \<Rightarrow> string \<Rightarrow> mock_state \<Rightarrow> int" where
  "payout (now, CWithdraw j opts) k m =
     (if j = k then (case snd (withdraw now j opts m) of
        Inr (Executed w) \<Rightarrow> int_of_decimal (w_amount w)
      | _ \<Rightarrow> 0) else 0)"
| "payout (now, _) k m = 0"

fun total_paid :: "(int \<times> mock_call) list \<Rightarrow> string \<Rightarrow> mock_state \<Rightarrow> int" where
  "total_paid [] k m = 0"
| "total_paid (e # es) k m = payout e k m + total_paid es k (mock_step e m)"

text \<open>The calls that keep a stream solvent; the others are treated separately below.\<close>

fun steady :: "mock_call \<Rightarrow> bool" where
  "steady (CAdvance k d) \<longleftrightarrow> 0 \<le> d"
| "steady (CUpdateFlowRate k r) \<longleftrightarrow> False"
| "steady (CPause k) \<longleftrightarrow> False"
| "steady (CResume k) \<longleftrightarrow> False"
| "steady _ \<longleftrightarrow> True"

text \<open>What was paid and what the rest of the schedule can still pay fit into the deposit.\<close>

definition solvent :: "int \<Rightarrow> int \<Rightarrow> stream \<Rightarrow> bool" where
  "solvent now paid s \<longleftrightarrow> 0 \<le> flowRate s \<and> lastWithdrawTime s \<le> now \<and> status s \<noteq> Paused \<and>
     paid + flowRate s * max 0 (endTime s - lastWithdrawTime s) \<le> deposit s"

lemma solvent_paid: "solvent now paid s \<Longrightarrow> paid \<le> deposit s"
  unfolding solvent_def by (smt (verit) mult_nonneg_nonneg max_def)

lemma solvent_later: "solvent now paid s \<Longrightarrow> now \<le> now' \<Longrightarrow> solvent now' paid s"
  by (simp add: solvent_def)

lemma solvent_topup:
  assumes "solvent now paid s" "0 < a"
  shows "solvent now paid (s\<lparr>deposit := deposit s + a, endTime := endTime s + a sdiv flowRate s\<rparr>)"
proof -
  let ?x = "endTime s - lastWithdrawTime s" and ?q = "a sdiv flowRate s"
  have r: "0 \<le> flowRate s" using assms(1) by (simp add: solvent_def)
  then have q: "0 \<le> ?q" "flowRate s * ?q \<le> a"
    using assms(2) mult_div_le [of "flowRate s" a] by (auto simp: div_int_pos_iff)
  have "flowRate s * max 0 (?x + ?q) \<le> flowRate s * (max 0 ?x + ?q)"
    using r q by (intro mult_left_mono) auto
  also have "\<dots> \<le> flowRate s * max 0 ?x + a"
    using q by (simp add: algebra_simps)
  finally show ?thesis using assms by (simp add: solvent_def algebra_simps)
qed

lemma rewritten_solvent:
  assumes "rewritten now call k s s'" "solvent now paid s" "steady call"
    "\<And>opts. call \<noteq> CWithdraw k opts"
  shows "solvent now paid s'"
  using assms
proof (induction rule: rewritten.induct)
  case (rw_topup s a k opts)
  then show ?case by (blast intro: solvent_topup)
next
  case (rw_op_topup a s k)
  then show ?case by (blast intro: solvent_topup)
qed (auto simp: solvent_def)

lemma claim_le_rate:
  assumes "claimableAt s now = Inr v" "status s = Active" "0 \<le> flowRate s"
  shows "v \<le> flowRate s * elapsed_at s now"
proof -
  have "v = 0 \<or> safeClaimable (flowRate s) (elapsed_at s now) (Some (deposit s)) = Inr v"
    using assms(1,2) by (auto simp: claimableAt_def elapsed_at_def Let_def split: if_splits)
  then show ?thesis
    using assms(3) by (auto simp: safeClaimable_def Let_def split: if_splits)
qed

lemma withdraw_solvent:
  assumes "solvent now paid s" "claimableAt s now = Inr v" "status s = Active"
  shows "solvent now (paid + v)
    (s\<lparr>lastWithdrawTime := min now (endTime s),
       status := if endTime s \<le> min now (endTime s) then Completed else Active\<rparr>)"
proof -
  let ?r = "flowRate s" and ?x = "endTime s - lastWithdrawTime s"
  let ?rest = "endTime s - min now (endTime s)"
  have s: "0 \<le> ?r" "lastWithdrawTime s \<le> now" "paid + ?r * max 0 ?x \<le> deposit s"
    using assms(1) by (auto simp: solvent_def)
  have "v + ?r * max 0 ?rest \<le> ?r * (elapsed_at s now + max 0 ?rest)"
    using claim_le_rate [OF assms(2,3) s(1)] by (simp add: algebra_simps)
  also have "elapsed_at s now + max 0 ?rest = max 0 ?x"
    using s(2) by (auto simp: elapsed_at_def min_def max_def)
  finally show ?thesis using s by (simp add: solvent_def)
qed

text \<open>One step of a steady run, with its payment.\<close>

lemma step_solvent:
  assumes "wf_mock m" "map_get (m_streams m) k = Some s" "solvent now paid s" "steady call"
  shows "\<exists>s'. map_get (m_streams (mock_step (now, call) m)) k = Some s' \<and>
    solvent now (paid + payout (now, call) k m) s'"
proof (cases "\<exists>opts. call = CWithdraw k opts")
  case True
  then obtain opts where call: "call = CWithdraw k opts" by blast
  show ?thesis
  proof (cases "o_explain opts \<or> status s \<noteq> Active")
    case True
    with assms call show ?thesis by (auto simp: withdraw_def)
  next
    case False
    show ?thesis
    proof (cases "claimableAt s now")
      case (Inl e)
      with assms call False show ?thesis by (simp add: withdraw_def)
    next
      case (Inr v)
      with withdraw_solvent [OF assms(3) Inr] False assms(2) call show ?thesis
        by (cases "endTime s \<le> now") (simp_all add: withdraw_def Let_def)
    qed
  qed
next
  case False
  then have "payout (now, call) k m = 0" by (cases call) auto
  moreover have "\<exists>s'. map_get (m_streams (mock_step (now, call) m)) k = Some s' \<and> solvent now paid s'"
    by (rule mock_step_keeps [OF assms(1)])
      (use assms(2-4) False in \<open>auto intro: rewritten_solvent\<close>)
  ultimately show ?thesis by simp
qed

lemma run_solvent:
  assumes "wf_mock m" "map_get (m_streams m) k = Some s" "solvent now paid s"
    "sorted (now # map fst es)" "\<forall>e \<in> set es. steady (snd e)"
  shows "\<exists>s' t. map_get (m_streams (fold mock_step es m)) k = Some s' \<and>
    solvent t (paid + total_paid es k m) s'"
  using assms
proof (induction es arbitrary: m s now paid)
  case Nil
  then show ?case by auto
next
  case (Cons e es)
  obtain t call where e: "e = (t, call)" by (cases e)
  with Cons.prems have "solvent t paid s" "steady call" by (auto intro: solvent_later)
  from step_solvent [OF Cons.prems(1,2) this] obtain s' where
    "map_get (m_streams (mock_step e m)) k = Some s'" "solvent t (paid + payout e k m) s'"
    by (auto simp: e)
  from Cons.IH [OF mock_step_wf [OF Cons.prems(1)] this] Cons.prems(4,5) e show ?case
    by (simp add: add.assoc)
qed

text \<open>What a successful creation stores.\<close>

lemma createStream_Executed:
  assumes "createStream now p opts m = (m', Inr (Executed c))"
  shows "0 < p_amount p" "0 < p_duration p" "c_streamId c = string_of_nat (m_nextId m)"
    "map_get (m_streams m') (c_streamId c) =
       Some (new_stream (c_streamId c) (m_sender m) (p_recipient p) (p_token p) (p_amount p)
               (p_amount p div p_duration p) now (p_duration p) (p_autoRenew p) (p_lockUntil p))"
  using assms
  by (auto simp: createStream_def Let_def big_div_def split: if_splits option.splits)

lemma solvent_new:
  assumes "0 < d" "0 < n"
  shows "solvent t 0 (new_stream k a b c d (d div n) t n w l)"
  using assms mult_div_le [of n d]
  by (simp add: solvent_def pos_imp_zdiv_nonneg_iff mult.commute)

text \<open>
  C1. Solvency: along every run of the mock in clock order, without \<open>pause\<close>, \<open>resume\<close> and
  \<open>updateFlowRate\<close>, the withdrawals of a stream together never pay more than its deposit
  (the amount it was created with plus its top-ups), whoever calls what in between.
\<close>
theorem withdrawals_never_exceed_deposit:
  assumes "wf_mock m" "createStream now p opts m = (m', Inr (Executed c))"
    "sorted (now # map fst es)" "\<forall>e \<in> set es. steady (snd e)"
  shows "\<exists>s. map_get (m_streams (fold mock_step es m')) (c_streamId c) = Some s \<and>
    total_paid es (c_streamId c) m' \<le> deposit s"
proof -
  have "wf_mock m'" using mock_step_wf [OF assms(1), of "(now, CCreate p opts)"] assms(2) by simp
  note created = createStream_Executed [OF assms(2)]
  from run_solvent [OF \<open>wf_mock m'\<close> created(4) solvent_new [OF created(1,2)] assms(3,4)]
  show ?thesis by (auto dest: solvent_paid)
qed

definition sample_run :: "(int \<times> mock_call) list" where
  "sample_run = [(30, CWithdraw ''1'' plain_options), (40, CTopUp ''1'' 500 plain_options),
     (500, CWithdraw ''1'' plain_options)]"

theorem withdrawals_never_exceed_deposit_witness:
  "\<exists>s. map_get (m_streams (fold mock_step sample_run sample_mock)) ''1'' = Some s \<and>
    total_paid sample_run ''1'' sample_mock \<le> deposit s"
proof -
  from withdrawals_never_exceed_deposit [OF wf_fresh sample_mock_created, of sample_run]
  show ?thesis
    by (simp add: sample_run_def)
qed


end
