(* ===== verification/MockOps.thy ===== *)
theory MockOps
  imports MockProps
begin

text \<open>
  What each operation of the mock client does to the store, and what its reads return:
  creation, withdrawal, top-up, split and batch cancellation, pagination, batch reads and
  snapshots.
\<close>

section \<open>Creation\<close>

definition admissible :: "int \<Rightarrow> create_params \<Rightarrow> write_options \<Rightarrow> mock_state \<Rightarrow> bool" where
  "admissible now p opts m \<longleftrightarrow>
     0 < p_amount p \<and> 0 < p_duration p \<and> \<not> (m_sender m \<noteq> [] \<and> p_recipient p = m_sender m) \<and>
     \<not> o_dryRun opts \<and> \<not> p_dryRun p \<and> \<not> o_explain opts \<and> \<not> p_explain p \<and>
     \<not> (\<exists>t. p_startTime p = Some t \<and> t < now)"

text \<open>
  \<open>createStream\<close> stores a stream exactly when the amount and the duration are positive, the
  recipient is not the sender, neither \<open>dryRun\<close> nor \<open>explain\<close> is set and the requested start
  is not in the past; in every other case it stores nothing and the mock's state is unchanged.
\<close>
theorem createStream_accepts:
  "if admissible now p opts m then \<exists>c. snd (createStream now p opts m) = Inr (Executed c)
   else fst (createStream now p opts m) = m \<and> (\<nexists>c. snd (createStream now p opts m) = Inr (Executed c))"
  by (auto simp: admissible_def createStream_def Let_def big_div_def split: option.splits)

lemma fresh_id_absent: "wf_mock m \<Longrightarrow> map_get (m_streams m) (string_of_nat (m_nextId m + i)) = None"
  unfolding wf_mock_def issued_def by (metis not_None_eq not_add_less1 string_of_nat_inject)

lemma fresh_id_notin:
  "wf_mock m \<Longrightarrow> string_of_nat (m_nextId m + i) \<notin> set (map_keys (m_streams m))"
  using fresh_id_absent [of m i] by (metis map_of_eq_None_iff list.set_map)

text \<open>
  C6. A stream \<open>createStream\<close> stores takes a new id at the end of the store, moves nothing else,
  starts with nothing claimable, and streams the largest whole rate the amount covers: at its
  end exactly rate times duration is claimable, at most the amount and short of it by less
  than one rate unit per second. Every listener whose filter matches is notified once.
\<close>
theorem createStream_correct:
  assumes "wf_mock m" "createStream now p opts m = (m', Inr (Executed c))"
    "p_amount p \<le> I128_MAX" "p_lockUntil p = None"
  shows "\<exists>s. m_streams m' = m_streams m @ [(c_streamId c, s)] \<and> c_streamId c \<notin> set (map_keys (m_streams m)) \<and>
    status s = Active \<and> sender s = m_sender m \<and> recipient s = p_recipient p \<and>
    deposit s = p_amount p \<and> endTime s = now + p_duration p \<and>
    flowRate s * p_duration p \<le> p_amount p \<and> p_amount p < (flowRate s + 1) * p_duration p \<and>
    claimableAt s now = Inr 0 \<and> claimableAt s (endTime s) = Inr (flowRate s * p_duration p) \<and>
    m_log m' = m_log m @ map (\<lambda>(key, f). (key, mk_event StreamCreated (c_streamId c) (c_txHash c) now
        (CreatedData (m_sender m) (p_recipient p))))
      (filter (\<lambda>(key, f). event_matches f (mk_event StreamCreated (c_streamId c) (c_txHash c) now
        (CreatedData (m_sender m) (p_recipient p)))) (m_listeners m))"
proof -
  let ?k = "string_of_nat (m_nextId m)" and ?r = "p_amount p div p_duration p"
  let ?s = "new_stream ?k (m_sender m) (p_recipient p) (p_token p) (p_amount p) ?r now (p_duration p)
              (p_autoRenew p) (p_lockUntil p)"
  note created = createStream_Executed [OF assms(2)]
  have bounds: "?r * p_duration p \<le> p_amount p" "p_amount p < (?r + 1) * p_duration p"
    using div_mult_bounds [of "p_amount p" "p_duration p"] created by auto
  have "wf_stream ?s"
    using created assms(3) by (simp add: wf_stream_def pos_imp_zdiv_nonneg_iff)
  moreover have "0 \<le> ?r" using created by (simp add: pos_imp_zdiv_nonneg_iff)
  ultimately have claims: "claimableAt ?s now = Inr 0" "claimableAt ?s (endTime ?s) = Inr (?r * p_duration p)"
    using bounds created(1,2) assms(4)
    by (auto simp: claimableAt_active elapsed_at_def accrued_def)
  have absent: "?k \<notin> set (map_keys (m_streams m))"
    using fresh_id_notin [OF assms(1), of 0] by simp
  have "m_streams m' = m_streams m @ [(?k, ?s)]"
    and "m_log m' = m_log m @ map (\<lambda>(key, f). (key, mk_event StreamCreated ?k (''mock-tx-create-'' @ ?k) now
        (CreatedData (m_sender m) (p_recipient p))))
      (filter (\<lambda>(key, f). event_matches f (mk_event StreamCreated ?k (''mock-tx-create-'' @ ?k) now
        (CreatedData (m_sender m) (p_recipient p)))) (m_listeners m))"
    and "c = \<lparr>c_streamId = ?k, c_txHash = ''mock-tx-create-'' @ ?k\<rparr>"
    using assms(2) absent
    by (auto simp: createStream_def Let_def big_div_pos emit_def map_set_fresh created(1,2)
        less_imp_le split: if_splits)
  with bounds claims absent show ?thesis by (intro exI [of _ ?s]) simp
qed

theorem createStream_correct_witness:
  "\<exists>s. m_streams sample_mock = m_streams (fresh_mock ''GS'' 1) @ [(''1'', s)] \<and>
     flowRate s * 100 \<le> 1000 \<and> claimableAt s (endTime s) = Inr (flowRate s * 100)"
  using createStream_correct [OF wf_fresh sample_mock_created]
  by (auto simp: sample_params_def I128_MAX_def)

section \<open>Withdrawal\<close>

lemma withdraw_Active:
  assumes "map_get (m_streams m) k = Some s" "status s = Active" "\<not> o_explain opts"
    "claimableAt s now = Inr v"
  shows "\<exists>m' w. withdraw now k opts m = (m', Inr (Executed w)) \<and> w_amount w = string_of_int v \<and>
    m_streams m' = map_set k (s\<lparr>lastWithdrawTime := min now (endTime s),
      status := if endTime s \<le> min now (endTime s) then Completed else Active\<rparr>) (m_streams m)"
  using assms by (auto simp: withdraw_def Let_def)

lemma claimable_reset:
  assumes "wf_stream s"
  shows "claimableAt (s\<lparr>lastWithdrawTime := min now (endTime s),
      status := if endTime s \<le> min now (endTime s) then Completed else Active\<rparr>) now = Inr 0"
  using assms by (auto simp: claimableAt_def safeClaimable_def Let_def)

text \<open>
  C5. A withdrawal from an active stream pays exactly its claimable balance, which is between 0
  and the deposit; afterwards nothing is claimable at that time, the stream is completed if
  the end time has been reached and active otherwise, and no other stream has changed.
\<close>
theorem withdraw_correct:
  assumes "map_get (m_streams m) k = Some s" "status s = Active" "wf_stream s" "\<not> o_explain opts"
  shows "\<exists>m' w v s'. withdraw now k opts m = (m', Inr (Executed w)) \<and>
    getClaimable now k m = Inr v \<and> w_amount w = string_of_int v \<and> 0 \<le> v \<and> v \<le> deposit s \<and>
    getClaimable now k m' = Inr 0 \<and>
    map_get (m_streams m') k = Some s' \<and> deposit s' = deposit s \<and>
    status s' = (if endTime s \<le> now then Completed else Active) \<and>
    (\<forall>j. j = k \<or> map_get (m_streams m') j = map_get (m_streams m) j)"
proof -
  obtain v where v: "claimableAt s now = Inr v" "0 \<le> v" "v \<le> deposit s"
    using mk.claim_bounds [OF assms(3)] by blast
  from withdraw_Active [OF assms(1,2,4) v(1)] obtain m' w where
    "withdraw now k opts m = (m', Inr (Executed w))" "w_amount w = string_of_int v"
    "m_streams m' = map_set k (s\<lparr>lastWithdrawTime := min now (endTime s),
      status := if endTime s \<le> min now (endTime s) then Completed else Active\<rparr>) (m_streams m)"
    by blast
  with v claimable_reset [OF assms(3), of now] assms(1) show ?thesis
    by (intro exI [of _ m'] exI [of _ w] exI [of _ v]) (auto simp: getClaimable_def)
qed

theorem withdraw_correct_witness:
  "\<exists>m' w v. withdraw 30 ''1'' plain_options sample_mock = (m', Inr (Executed w)) \<and>
    getClaimable 30 ''1'' sample_mock = Inr v \<and> w_amount w = string_of_int v \<and>
    getClaimable 30 ''1'' m' = Inr 0"
  using withdraw_correct [OF sample_mock_get, of plain_options 30]
  by (auto simp: wf_stream_def I128_MAX_def plain_options_def)



section \<open>Funding\<close>

text \<open>
  A top-up extends the schedule by the whole seconds the amount buys and no more: the deposit
  grows by the amount, the extension costs at most the amount and leaves less than one
  second's rate unspent, and a solvent stream stays solvent.
\<close>
theorem topUp_extends_schedule:
  assumes "topUp now k a opts m = (m', Inr (Executed r))" "map_get (m_streams m) k = Some s"
    "0 < flowRate s"
  shows "\<exists>s'. map_get (m_streams m') k = Some s' \<and> status s = Active \<and>
    deposit s' = deposit s + a \<and> tu_newEndMs r = endTime s' * 1000 \<and>
    flowRate s * (endTime s' - endTime s) \<le> a \<and> a < flowRate s * (endTime s' - endTime s) + flowRate s \<and>
    (\<forall>t paid. solvent t paid s \<longrightarrow> solvent t paid s')"
proof -
  have a: "0 < a" "status s = Active" "\<not> o_explain opts"
    using assms(1,2) by (auto simp: topUp_def split: if_splits)
  with assms have m': "map_get (m_streams m') k =
      Some (s\<lparr>deposit := deposit s + a, endTime := endTime s + a sdiv flowRate s\<rparr>)"
    "tu_newEndMs r = (endTime s + a sdiv flowRate s) * 1000"
    by (auto simp: topUp_def Let_def big_div_def)
  have "flowRate s * (a div flowRate s) \<le> a" "a < flowRate s * (a div flowRate s) + flowRate s"
    using div_mult_bounds [of a "flowRate s"] a assms(3) by (auto simp: algebra_simps)
  moreover have "solvent t paid s \<Longrightarrow>
      solvent t paid (s\<lparr>deposit := deposit s + a, endTime := endTime s + a sdiv flowRate s\<rparr>)" for t paid
    using a(1) by (rule solvent_topup [rotated])
  ultimately show ?thesis using m' a assms(3) by simp
qed

theorem topUp_extends_schedule_witness:
  "\<exists>s'. map_get (m_streams (fst (topUp 10 ''1'' 57 plain_options sample_mock))) ''1'' = Some s' \<and>
     deposit s' = 1057 \<and> 10 * (endTime s' - 100) \<le> 57 \<and> 57 < 10 * (endTime s' - 100) + 10"
proof -
  obtain m' r where "topUp 10 ''1'' 57 plain_options sample_mock = (m', Inr (Executed r))"
    by (auto simp: topUp_def sample_mock_get plain_options_def big_div_def Let_def)
  with topUp_extends_schedule [OF this sample_mock_get] show ?thesis by auto
qed

section \<open>Splitting\<close>

text \<open>The two floors of a split lose at most one unit.\<close>

lemma split_floors:
  assumes "0 \<le> (b::int)" "0 < n" "n < d"
  shows "(b * n) div d + (b * (d - n)) div d \<le> b \<and> b \<le> (b * n) div d + (b * (d - n)) div d + 1"
proof -
  let ?x = "(b * n) div d" and ?y = "(b * (d - n)) div d"
  have d: "0 < d" using assms by linarith
  then have "?x * d \<le> b * n" "b * n < (?x + 1) * d" "?y * d \<le> b * (d - n)" "b * (d - n) < (?y + 1) * d"
    using div_mult_bounds [of "b * n" d] div_mult_bounds [of "b * (d - n)" d] assms by auto
  moreover have "b * n + b * (d - n) = b * d" by (simp add: algebra_simps)
  ultimately have "(?x + ?y) * d \<le> b * d" "b * d < (?x + ?y + 2) * d"
    by (auto simp: algebra_simps)
  with d have "?x + ?y \<le> b" "b < ?x + ?y + 2"
    by (auto dest: mult_right_le_imp_le mult_right_less_imp_less)
  then show ?thesis by simp
qed

lemma solvent_child:
  assumes "0 \<le> z"
  shows "solvent now 0 (new_stream i u v w z (z div max 1 d) now d False None)"
proof -
  have "z div max 1 d * max 0 d \<le> z div max 1 d * max 1 d"
    using assms by (intro mult_left_mono) (auto simp: pos_imp_zdiv_nonneg_iff)
  also have "\<dots> \<le> z"
    using assms mult_div_le [of "max 1 d" z] by (simp add: mult.commute)
  finally show ?thesis using assms by (simp add: solvent_def pos_imp_zdiv_nonneg_iff)
qed

text \<open>
  C7. A split cancels the original and opens two streams under new ids whose deposits divide the
  unstreamed balance by the ratio: together at most that balance and at most one unit less,
  each funding its own schedule.
\<close>
theorem splitStream_conserves:
  assumes "wf_mock m" "splitStream now p m = (m', Inr r)"
    "map_get (m_streams m) (sp_streamId p) = Some s" "wf_stream s"
  shows "\<exists>bal a b. bal = accrued (flowRate s) (endTime s - max now (lastWithdrawTime s)) (deposit s) \<and>
    map_get (m_streams m') (sp_streamId p) = Some (s\<lparr>status := Cancelled\<rparr>) \<and>
    map_get (m_streams m) (sr_idA r) = None \<and> map_get (m_streams m) (sr_idB r) = None \<and>
    map_get (m_streams m') (sr_idA r) = Some a \<and> map_get (m_streams m') (sr_idB r) = Some b \<and>
    recipient a = sp_recipientA p \<and> recipient b = sp_recipientB p \<and> sr_idA r \<noteq> sr_idB r \<and>
    deposit a = bal * sp_num p div sp_den p \<and>
    deposit a + deposit b \<le> bal \<and> bal \<le> deposit a + deposit b + 1 \<and>
    solvent now 0 a \<and> solvent now 0 b"
proof -
  let ?d = "endTime s - max now (lastWithdrawTime s)"
  let ?bal = "accrued (flowRate s) ?d (deposit s)"
  have guards: "status s = Active" "0 < sp_num p" "sp_num p < sp_den p"
    using assms(2,3) by (auto simp: splitStream_def split: if_splits)
  have bal: "safeClaimable (flowRate s) (max 0 ?d) (Some (deposit s)) = Inr ?bal"
    using assms(4) by (simp add: safeClaimable_capped wf_stream_def)
  have pos: "0 \<le> ?bal" using assms(4) accrued_bounds by (simp add: wf_stream_def)
  let ?x = "?bal * sp_num p div sp_den p" and ?y = "?bal * (sp_den p - sp_num p) div sp_den p"
  have nonneg: "0 \<le> ?x" "0 \<le> ?y"
    using pos guards by (simp_all add: pos_imp_zdiv_nonneg_iff)
  have child: "solvent now 0 (new_stream i u v w z (z div max 1 ?d) now ?d False None)" if "0 \<le> z" for i u v w z
    using that by (rule solvent_child)
  let ?iA = "string_of_nat (m_nextId m)" and ?iB = "string_of_nat (m_nextId m + 1)"
  have sdivs: "(?bal * sp_num p) sdiv sp_den p = ?x" "(?bal * (sp_den p - sp_num p)) sdiv sp_den p = ?y"
    "?x sdiv max 1 ?d = ?x div max 1 ?d" "?y sdiv max 1 ?d = ?y div max 1 ?d"
    using pos guards nonneg by simp_all
  have ids: "sp_streamId p \<noteq> ?iA" "sp_streamId p \<noteq> ?iB" "?iA \<noteq> ?iB"
    "map_get (m_streams m) ?iA = None" "map_get (m_streams m) ?iB = None"
    using fresh_id_absent [OF assms(1), of 0] fresh_id_absent [OF assms(1), of 1] assms(3) by auto
  have "m_streams (fst (splitStream now p m)) =
      map_set ?iB (new_stream ?iB (sender s) (sp_recipientB p) (token s) ?y (?y div max 1 ?d) now ?d False None)
       (map_set ?iA (new_stream ?iA (sender s) (sp_recipientA p) (token s) ?x (?x div max 1 ?d) now ?d False None)
         (map_set (sp_streamId p) (s\<lparr>status := Cancelled\<rparr>) (m_streams m)))"
    and "snd (splitStream now p m) = Inr \<lparr>sr_txHash = ''mock-tx-split-'' @ sp_streamId p,
      sr_idA = ?iA, sr_idB = ?iB\<rparr>"
    using guards by (simp_all add: splitStream_def assms(3) bal Let_def sdivs)
  with assms(2) ids have "sr_idA r = ?iA \<and> sr_idB r = ?iB \<and>
      map_get (m_streams m') (sp_streamId p) = Some (s\<lparr>status := Cancelled\<rparr>) \<and>
      map_get (m_streams m') ?iA = Some (new_stream ?iA (sender s) (sp_recipientA p) (token s) ?x
        (?x div max 1 ?d) now ?d False None) \<and>
      map_get (m_streams m') ?iB = Some (new_stream ?iB (sender s) (sp_recipientB p) (token s) ?y
        (?y div max 1 ?d) now ?d False None)"
    by simp
  with split_floors [OF pos guards(2,3)] child [OF nonneg(1)] child [OF nonneg(2)] ids show ?thesis
    by (intro exI [of _ ?bal] exI
        [of _ "new_stream ?iA (sender s) (sp_recipientA p) (token s) ?x (?x div max 1 ?d) now ?d False None"]
        exI [of _ "new_stream ?iB (sender s) (sp_recipientB p) (token s) ?y (?y div max 1 ?d) now ?d False None"])
      (simp only: new_stream_simps, simp)
qed

definition sample_split :: split_params where
  "sample_split = \<lparr>sp_streamId = ''1'', sp_num = 1, sp_den = 3, sp_recipientA = ''GA'',
     sp_recipientB = ''GB''\<rparr>"

theorem splitStream_conserves_witness:
  "\<exists>a b. map_get (m_streams (fst (splitStream 50 sample_split sample_mock))) ''2'' = Some a \<and>
     map_get (m_streams (fst (splitStream 50 sample_split sample_mock))) ''3'' = Some b \<and>
     deposit a = 166 \<and> deposit a + deposit b \<le> 500 \<and> 500 \<le> deposit a + deposit b + 1"
proof -
  have ids: "string_of_nat 2 = ''2''" "string_of_nat 3 = ''3''" by code_simp+
  obtain m' where run: "splitStream 50 sample_split sample_mock =
      (m', Inr \<lparr>sr_txHash = ''mock-tx-split-1'', sr_idA = ''2'', sr_idB = ''3''\<rparr>)"
    unfolding splitStream_def
    by (auto simp: sample_split_def sample_mock_get Let_def safeClaimable_def I128_MAX_def)
      (simp_all add: sample_mock_eq fresh_mock_def ids)
  from splitStream_conserves [OF sample_mock_wf run] show ?thesis
    unfolding run fst_conv
    by (auto simp: sample_split_def sample_mock_get wf_stream_def I128_MAX_def accrued_def)
qed

section \<open>Batch cancellation\<close>

definition cancellable :: "mock_state \<Rightarrow> string \<Rightarrow> bool" where
  "cancellable m k \<longleftrightarrow> (\<exists>s. map_get (m_streams m) k = Some s \<and> status s = Active)"

lemma batch_loop_char:
  assumes "distinct ks"
  shows "(snd (batch_cancel_loop now ks m) = Inr () \<longleftrightarrow> (\<forall>k \<in> set ks. cancellable m k)) \<and>
    (\<forall>j. map_get (m_streams (fst (batch_cancel_loop now ks m))) j =
      (if j \<in> set (takeWhile (cancellable m) ks)
       then map_option (\<lambda>s. s\<lparr>status := Cancelled\<rparr>) (map_get (m_streams m) j)
       else map_get (m_streams m) j))"
  using assms
proof (induction ks arbitrary: m)
  case Nil
  then show ?case by simp
next
  case (Cons k ks)
  show ?case
  proof (cases "cancellable m k")
    case False
    then show ?thesis by (auto simp: cancellable_def split: option.splits)
  next
    case True
    then obtain s where s: "map_get (m_streams m) k = Some s" "status s = Active"
      by (auto simp: cancellable_def)
    let ?m = "emit (mk_event StreamCancelled k (''mock-tx-cancel-'' @ k) now NoData)
                (put_stream k (s\<lparr>status := Cancelled\<rparr>) m)"
    have same: "cancellable ?m j = cancellable m j" if "j \<in> set ks" for j
      using that Cons.prems by (auto simp: cancellable_def)
    then have eqs: "takeWhile (cancellable ?m) ks = takeWhile (cancellable m) ks"
      "(\<forall>j \<in> set ks. cancellable ?m j) = (\<forall>j \<in> set ks. cancellable m j)"
      by (blast intro!: takeWhile_cong) (use same in blast)
    have "k \<notin> set (takeWhile (cancellable m) ks)"
      using Cons.prems by (auto dest: set_takeWhileD)
    with Cons.IH [of ?m] Cons.prems eqs s True show ?thesis by auto
  qed
qed

text \<open>
  \<open>batchCancel\<close> succeeds exactly when every listed stream is stored and active, but it is not
  atomic: whether it succeeds or throws, the streams before the first bad one are cancelled and
  the others are as they were.
\<close>
theorem batchCancel_prefix:
  assumes "distinct ks"
  shows "((\<exists>r. snd (batchCancel now ks m) = Inr r) \<longleftrightarrow> (\<forall>k \<in> set ks. cancellable m k)) \<and>
    (\<forall>j. map_get (m_streams (fst (batchCancel now ks m))) j =
      (if j \<in> set (takeWhile (cancellable m) ks)
       then map_option (\<lambda>s. s\<lparr>status := Cancelled\<rparr>) (map_get (m_streams m) j)
       else map_get (m_streams m) j))"
proof -
  have "(\<exists>r. snd (batchCancel now ks m) = Inr r) \<longleftrightarrow> snd (batch_cancel_loop now ks m) = Inr ()"
    by (auto simp: batchCancel_def split: prod.splits sum.splits)
  with batch_loop_char [OF assms, of now m] show ?thesis by (simp add: batchCancel_fst)
qed

theorem batchCancel_prefix_witness:
  "map_option status (map_get (m_streams (fst (batchCancel 5 [''1'', ''9''] sample_mock))) ''1'') = Some Cancelled"
proof -
  have "distinct [''1'', ''9'']" by simp
  from batchCancel_prefix [OF this, of 5 sample_mock] show ?thesis
    by (simp add: cancellable_def sample_mock_get)
qed

section \<open>Where the mock departs from its documentation\<close>

text \<open>A withdrawal from a locked stream pays nothing and moves the withdrawal time: the locked seconds are lost.\<close>

lemma locked_withdrawal_forfeits:
  assumes "map_get (m_streams m) k = Some s" "status s = Active" "lockUntil s = Some l" "now < l"
    "now < endTime s" "\<not> o_explain opts"
  shows "\<exists>m' w. withdraw now k opts m = (m', Inr (Executed w)) \<and> w_amount w = string_of_int 0 \<and>
    m_streams m' = map_set k (s\<lparr>lastWithdrawTime := now, status := Active\<rparr>) (m_streams m)"
proof -
  have "claimableAt s now = Inr 0" using assms by (simp add: claimableAt_def)
  from withdraw_Active [OF assms(1,2,6) this] assms(5) show ?thesis
    by auto
qed

text \<open>An operator can cancel a completed stream, and \<open>batchCancel\<close> a locked one.\<close>

lemma operator_cancels_completed:
  assumes "map_get (m_streams m) k = Some s" "status s = Completed" "List.member (operators_of k m) (m_sender m)"
  shows "map_get (m_streams (fst (operatorCancelStream k m))) k = Some (s\<lparr>status := Cancelled\<rparr>)"
  using assms by (simp add: operatorCancelStream_def)

lemma batchCancel_ignores_lock:
  assumes "map_get (m_streams m) k = Some s" "status s = Active" "lockUntil s = Some l" "now < l"
  shows "snd (batchCancel now [k] m) = Inr [\<lparr>bc_txHash = ''mock-tx-batch-cancel'', bc_streamIds = [k]\<rparr>]"
    "snd (cancelStream now k plain_options m) = Inl (LockedUntil k l now)"
  using assms by (simp_all add: batchCancel_def cancelStream_def plain_options_def)

text \<open>
  Splitting a stream cancels it without paying what has accrued: of a stream that was never
  withdrawn only the share of the remaining time goes to its parts.
\<close>

lemma split_drops_accrued:
  assumes "map_get (m_streams m) (sp_streamId p) = Some s" "status s = Active" "0 < sp_num p" "sp_num p < sp_den p"
    "lastWithdrawTime s \<le> now" "now < endTime s" "0 < flowRate s" "flowRate s * (endTime s - now) \<le> deposit s"
    "deposit s \<le> I128_MAX"
  shows "\<exists>m' r a b. splitStream now p m = (m', Inr r) \<and> map_get (m_streams m') (sr_idB r) = Some b \<and>
    deposit b = (flowRate s * (endTime s - now) * (sp_den p - sp_num p)) sdiv sp_den p"
proof -
  have "safeClaimable (flowRate s) (endTime s - now) (Some (deposit s)) = Inr (flowRate s * (endTime s - now))"
    using assms(6-9) by (auto simp: safeClaimable_def Let_def)
  with assms(1-6) show ?thesis
    by (simp add: splitStream_def Let_def max_absorb1 new_stream_def)
qed

end
