(* ===== verification/MockReads.thy ===== *)
theory MockReads
  imports MockProps
begin

text \<open>
  The reads of the mock client: walking the pages of a listing, batch reads with duplicate
  and unknown ids, snapshots, and the notifications \<open>emit\<close> makes.
\<close>

section \<open>Pagination\<close>

text \<open>
  A caller that reads page after page: it passes the cursor of the last page on and stops
  when the page says there is no more. The fuel bounds the number of pages.
\<close>

fun read_pages :: "nat \<Rightarrow> int \<Rightarrow> string option \<Rightarrow> stream list \<Rightarrow> stream list" where
  "read_pages 0 limit cursor xs = []"
| "read_pages (Suc n) limit cursor xs =
     (let pg = paginate xs \<lparr>pg_limit = Some limit, pg_cursor = cursor\<rparr>
      in pg_streams pg @ (if pg_hasMore pg then read_pages n limit (pg_next pg) xs else []))"

definition cursor_before :: "nat \<Rightarrow> stream list \<Rightarrow> string option" where
  "cursor_before i xs = (if i = 0 then None else Some (stream_id (xs ! (i - 1))))"

lemma find_index_after_nth:
  assumes "distinct (map stream_id xs)" "i < length xs"
  shows "find_index_after (stream_id (xs ! i)) xs = Some (Suc i)"
  using assms
proof (induction xs arbitrary: i)
  case Nil
  then show ?case by simp
next
  case (Cons x xs)
  show ?case
  proof (cases i)
    case 0
    then show ?thesis by simp
  next
    case (Suc j)
    with Cons.prems have "stream_id (xs ! j) \<in> set (map stream_id xs)" by simp
    with Cons.prems have "stream_id x \<noteq> stream_id (xs ! j)" by auto
    with Cons Suc show ?thesis by simp
  qed
qed

lemma page_start_cursor:
  assumes "distinct (map stream_id xs)" "[] \<notin> set (map stream_id xs)" "i \<le> length xs"
  shows "page_start \<lparr>pg_limit = l, pg_cursor = cursor_before i xs\<rparr> xs = i"
proof (cases "i = 0")
  case True
  then show ?thesis by (simp add: page_start_def cursor_before_def truthy_def)
next
  case False
  with assms(3) have i: "i - 1 < length xs" by simp
  then have "stream_id (xs ! (i - 1)) \<noteq> []" using assms(2) by (metis length_map nth_map nth_mem)
  with find_index_after_nth [OF assms(1) i] False show ?thesis
    by (simp add: page_start_def cursor_before_def truthy_def)
qed

lemma slice_nonneg: "0 \<le> l \<Longrightarrow> slice i (int i + l) xs = take (nat l) (drop i xs)"
  by (auto simp: slice_def Let_def min_def)

lemma last_take_drop:
  assumes "i + n < length xs" "0 < n"
  shows "last (take n (drop i xs)) = xs ! (i + n - 1)"
proof -
  have "take n (drop i xs) \<noteq> []" "length (take n (drop i xs)) = n" using assms by auto
  then have "last (take n (drop i xs)) = take n (drop i xs) ! (n - 1)" by (simp add: last_conv_nth)
  also have "\<dots> = xs ! (i + (n - 1))" using assms by simp
  finally show ?thesis using assms by (simp add: Nat.add_diff_assoc)
qed

lemma read_pages_from:
  assumes "distinct (map stream_id xs)" "[] \<notin> set (map stream_id xs)" "0 < limit"
    "i \<le> length xs" "length xs - i < n"
  shows "read_pages n limit (cursor_before i xs) xs = drop i xs"
  using assms(4,5)
proof (induction n arbitrary: i)
  case 0
  then show ?case by simp
next
  case (Suc n)
  let ?pg = "paginate xs \<lparr>pg_limit = Some limit, pg_cursor = cursor_before i xs\<rparr>"
  have page: "pg_streams ?pg = take (nat limit) (drop i xs)"
    "pg_hasMore ?pg \<longleftrightarrow> int i + limit < int (length xs)"
    using page_start_cursor [OF assms(1,2) Suc.prems(1)] slice_nonneg [of limit i xs] assms(3)
    by (simp_all add: paginate_def Let_def)
  show ?case
  proof (cases "int i + limit < int (length xs)")
    case False
    with page show ?thesis by simp
  next
    case True
    let ?j = "i + nat limit"
    have j: "?j < length xs" "0 < nat limit" using True assms(3) by linarith+
    then have "last (take (nat limit) (drop i xs)) = xs ! (?j - 1)"
      "take (nat limit) (drop i xs) \<noteq> []"
      by (simp_all add: last_take_drop)
    then have "pg_next ?pg = cursor_before ?j xs"
      using page_start_cursor [OF assms(1,2) Suc.prems(1)] slice_nonneg [of limit i xs] assms(3)
      by (simp add: paginate_def Let_def cursor_before_def)
    moreover have "read_pages n limit (cursor_before ?j xs) xs = drop ?j xs"
      using Suc.IH [of ?j] j Suc.prems by simp
    ultimately have "read_pages (Suc n) limit (cursor_before i xs) xs =
        take (nat limit) (drop i xs) @ drop ?j xs"
      using page True by simp
    also have "\<dots> = drop i xs"
      using append_take_drop_id [of "nat limit" "drop i xs"] by (simp only: drop_drop add.commute)
    finally show ?thesis .
  qed
qed

text \<open>
  Pagination is complete and without repetition: a caller that follows the cursors of a
  listing with distinct non-empty ids, with any positive page size, reads every stream once,
  in order, and is told to stop at the end.
\<close>
theorem pages_cover_listing:
  assumes "distinct (map stream_id xs)" "[] \<notin> set (map stream_id xs)" "0 < limit"
  shows "read_pages (Suc (length xs)) limit None xs = xs"
  using read_pages_from [OF assms, of 0 "Suc (length xs)"] by (simp add: cursor_before_def)

theorem pages_cover_listing_witness:
  "read_pages 4 2 None (map (\<lambda>k. sample_stream\<lparr>stream_id := k\<rparr>) [''a'', ''b'', ''c'']) =
     map (\<lambda>k. sample_stream\<lparr>stream_id := k\<rparr>) [''a'', ''b'', ''c'']"
  using pages_cover_listing [of "map (\<lambda>k. sample_stream\<lparr>stream_id := k\<rparr>) [''a'', ''b'', ''c'']" 2]
  by (simp add: numeral_eq_Suc)

section \<open>Batch reads\<close>

lemma map_filter_get:
  "List.map_filter f ks = map (\<lambda>k. the (f k)) (filter (\<lambda>k. f k \<noteq> None) ks)"
  by (simp add: List.map_filter_def comp_def)

text \<open>
  A batch read answers each requested id once, however often it was asked: the found streams
  in request order, the unknown ids reported as missing, and only the strict mode throws,
  exactly when an id is unknown.
\<close>
theorem getStreamsBatch_partition:
  "case getStreamsBatch ids strict m of
     Inl e \<Rightarrow> strict \<and> (\<exists>k \<in> set ids. map_get (m_streams m) k = None \<and> e = StreamNotFound k)
   | Inr b \<Rightarrow> (if strict then bs_missing b = [] else True) \<and>
       bs_streams b = map (\<lambda>k. the (map_get (m_streams m) k))
         (filter (\<lambda>k. k \<notin> set (bs_missing b)) (uniq ids)) \<and>
       bs_missing b = filter (\<lambda>k. map_get (m_streams m) k = None) (uniq ids)"
proof -
  let ?miss = "filter (\<lambda>k. map_get (m_streams m) k = None) (uniq ids)"
  have "hd ?miss \<in> set ids \<and> map_get (m_streams m) (hd ?miss) = None" if "?miss \<noteq> []"
  proof -
    from that have "hd ?miss \<in> set ?miss" by (rule hd_in_set)
    then show ?thesis by (simp del: map_of_eq_None_iff)
  qed
  moreover have "filter (\<lambda>k. k \<notin> set ?miss) (uniq ids) = filter (\<lambda>k. map_get (m_streams m) k \<noteq> None) (uniq ids)"
    by (rule filter_cong) (auto simp del: map_of_eq_None_iff)
  ultimately show ?thesis
    by (cases "?miss \<noteq> [] \<and> strict")
      (simp_all only: getStreamsBatch_def Let_def map_filter_get, auto simp del: map_of_eq_None_iff)
qed

text \<open>
  The balances of several streams are one entry for each distinct id, in first-seen order,
  each the stream's claimable balance and 0 for an unknown id.
\<close>
theorem getMultipleStreamBalances_correct:
  assumes "getMultipleStreamBalances now ids m = Inr bs"
  shows "map fst bs = uniq ids \<and> (\<forall>(k, b) \<in> set bs. getClaimable now k m = Inr b)"
proof -
  have "balances_of now m ks = Inr bs \<Longrightarrow>
      map fst bs = ks \<and> (\<forall>(k, b) \<in> set bs. getClaimable now k m = Inr b)" for ks
    by (induction ks arbitrary: bs) (auto simp: rbind_Inr_iff)
  with assms show ?thesis by (simp add: getMultipleStreamBalances_def)
qed

theorem getMultipleStreamBalances_correct_witness:
  "getMultipleStreamBalances 30 [''1'', ''9'', ''1''] sample_mock = Inr [(''1'', 300), (''9'', 0)] \<and>
   getClaimable 30 ''1'' sample_mock = Inr 300"
proof -
  have run: "getMultipleStreamBalances 30 [''1'', ''9'', ''1''] sample_mock = Inr [(''1'', 300), (''9'', 0)]"
    unfolding sample_mock_eq by code_simp
  from getMultipleStreamBalances_correct [OF run] run show ?thesis by simp
qed

section \<open>Snapshots\<close>

text \<open>
  C10. Importing an exported snapshot gives back the stream, amounts printed and parsed as decimal
  strings; the import refuses exactly the streams whose flow rate is not positive.
\<close>
theorem snapshot_roundtrip:
  assumes "exportStream nowMs k m = Inr sn"
  shows "\<exists>s. map_get (m_streams m) k = Some s \<and>
    importStream sn = (if 0 < flowRate s then Inr s else Inl (RateNotPositive (flowRate s)))"
proof -
  from assms obtain s where s: "map_get (m_streams m) k = Some s" "sn_stream sn = s"
    "sn_deposit sn = string_of_int (deposit s)" "sn_flowRate sn = string_of_int (flowRate s)"
    by (auto simp: exportStream_def getStream_def rbind_Inr_iff split: option.splits sum.splits)
  then have "importStream sn = (if 0 < flowRate s then Inr s else Inl (RateNotPositive (flowRate s)))"
    by (simp add: importStream_def asPositiveFlowRate_def)
  with s(1) show ?thesis by blast
qed

theorem snapshot_roundtrip_witness:
  "\<exists>sn. exportStream 5000 ''1'' sample_mock = Inr sn \<and>
     importStream sn = Inr (new_stream ''1'' ''GS'' ''GR'' ''GT'' 1000 10 0 100 False None)"
proof -
  obtain sn where sn: "exportStream 5000 ''1'' sample_mock = Inr sn"
    by (auto simp: exportStream_def getStream_def getClaimable_def sample_mock_get claimableAt_def
        safeClaimable_def I128_MAX_def)
  from snapshot_roundtrip [OF sn] sn show ?thesis by (auto simp: sample_mock_get)
qed

end
