(* ===== verification/RateLimiter.thy ===== *)
theory RateLimiter
  imports Prelude
begin

text \<open>
  The concurrency limiter of \<open>src/rate-limiter.ts\<close>. Tasks are numbered by the caller;
  \<open>rl_running\<close> holds the tasks whose promise is pending and \<open>rl_started\<close> the order in which
  tasks were started. The events are the public calls and the settling of a running task
  (with a value or an error: the \<open>finally\<close> block does the same). A task is an async function,
  so starting it never throws.
\<close>

datatype rl_error = MaxConcurrentTooSmall

record rate_limiter =
  rl_queue :: "nat list"
  rl_inFlight :: int
  rl_max :: int
  rl_running :: "nat list"
  rl_started :: "nat list"

definition new_limiter :: "int \<Rightarrow> rl_error + rate_limiter" where
  "new_limiter maxConcurrent =
     (if maxConcurrent < 1 then Inl MaxConcurrentTooSmall
      else Inr \<lparr>rl_queue = [], rl_inFlight = 0, rl_max = maxConcurrent, rl_running = [],
                rl_started = []\<rparr>)"

definition rl_execute :: "nat \<Rightarrow> rate_limiter \<Rightarrow> rate_limiter" where
  "rl_execute t s = s\<lparr>rl_inFlight := rl_inFlight s + 1, rl_running := rl_running s @ [t],
     rl_started := rl_started s @ [t]\<rparr>"

function rl_drain :: "rate_limiter \<Rightarrow> rate_limiter" where
  "rl_drain s = (case rl_queue s of
     [] \<Rightarrow> s
   | t # rest \<Rightarrow>
       if rl_inFlight s < rl_max s then rl_drain (rl_execute t (s\<lparr>rl_queue := rest\<rparr>)) else s)"
  by pat_completeness auto
termination
  by (relation "measure (\<lambda>s. length (rl_queue s))") (auto simp: rl_execute_def)

declare rl_drain.simps [simp del]

definition setMaxConcurrent :: "int \<Rightarrow> rate_limiter \<Rightarrow> rate_limiter \<times> (rl_error + unit)" where
  "setMaxConcurrent n s =
     (if n < 1 then (s, Inl MaxConcurrentTooSmall) else (rl_drain (s\<lparr>rl_max := n\<rparr>), Inr ()))"

definition rl_run :: "nat \<Rightarrow> rate_limiter \<Rightarrow> rate_limiter" where
  "rl_run t s =
     (if rl_inFlight s < rl_max s then rl_execute t s else s\<lparr>rl_queue := rl_queue s @ [t]\<rparr>)"

definition rl_settle :: "nat \<Rightarrow> rate_limiter \<Rightarrow> rate_limiter" where
  "rl_settle t s =
     (if t \<in> set (rl_running s)
      then rl_drain (s\<lparr>rl_running := remove1 t (rl_running s), rl_inFlight := rl_inFlight s - 1\<rparr>)
      else s)"

datatype rl_event = RlSetMax int | RlRun nat | RlSettle nat

fun rl_step :: "rl_event \<Rightarrow> rate_limiter \<Rightarrow> rate_limiter" where
  "rl_step (RlSetMax n) s = fst (setMaxConcurrent n s)"
| "rl_step (RlRun t) s = rl_run t s"
| "rl_step (RlSettle t) s = rl_settle t s"

section \<open>Invariant\<close>

definition rl_counted :: "rate_limiter \<Rightarrow> bool" where
  "rl_counted s \<longleftrightarrow> rl_inFlight s = int (length (rl_running s)) \<and> 1 \<le> rl_max s"

definition rl_inv :: "rate_limiter \<Rightarrow> bool" where
  "rl_inv s \<longleftrightarrow> rl_counted s \<and> (rl_queue s \<noteq> [] \<longrightarrow> rl_max s \<le> rl_inFlight s)"

lemma rl_execute_simps [simp]:
  "rl_queue (rl_execute t s) = rl_queue s" "rl_max (rl_execute t s) = rl_max s"
  "rl_inFlight (rl_execute t s) = rl_inFlight s + 1" "rl_started (rl_execute t s) = rl_started s @ [t]"
  "rl_counted (rl_execute t s) \<longleftrightarrow> rl_counted s"
  by (auto simp: rl_execute_def rl_counted_def)

lemma rl_counted_queue [simp]: "rl_counted (s\<lparr>rl_queue := q\<rparr>) \<longleftrightarrow> rl_counted s"
  by (simp add: rl_counted_def)

text \<open>The drain loop leaves no task waiting beside a free slot, and fills slots only.\<close>

lemma rl_drain_spec:
  assumes "rl_counted s"
  shows "rl_inv (rl_drain s) \<and> rl_max (rl_drain s) = rl_max s \<and>
    rl_inFlight (rl_drain s) \<le> max (rl_inFlight s) (rl_max s) \<and>
    rl_started (rl_drain s) @ rl_queue (rl_drain s) = rl_started s @ rl_queue s"
  using assms
proof (induction s rule: rl_drain.induct)
  case (1 s)
  show ?case
  proof (cases "rl_queue s")
    case Nil
    with "1.prems" show ?thesis by (simp add: rl_drain.simps rl_inv_def)
  next
    case (Cons t rest)
    show ?thesis
    proof (cases "rl_inFlight s < rl_max s")
      case True
      with 1 Cons have "rl_drain s = rl_drain (rl_execute t (s\<lparr>rl_queue := rest\<rparr>))"
        by (simp add: rl_drain.simps [of s])
      with "1.IH" [OF Cons True] "1.prems" True Cons show ?thesis by auto
    next
      case False
      with "1.prems" Cons show ?thesis by (simp add: rl_drain.simps [of s] rl_inv_def)
    qed
  qed
qed

lemma settle_counted:
  assumes "rl_counted s" "t \<in> set (rl_running s)"
  shows "rl_counted (s\<lparr>rl_running := remove1 t (rl_running s), rl_inFlight := rl_inFlight s - 1\<rparr>)"
proof -
  have "0 < length (rl_running s)" using assms(2) by (rule length_pos_if_in_set)
  with assms show ?thesis by (auto simp: rl_counted_def length_remove1 neq_Nil_conv simp del: length_greater_0_conv)
qed

lemma rl_settle_spec:
  assumes "rl_inv s"
  shows "rl_inv (rl_settle t s) \<and> rl_max (rl_settle t s) = rl_max s \<and>
    rl_inFlight (rl_settle t s) \<le> max (rl_inFlight s) (rl_max s) \<and>
    rl_started (rl_settle t s) @ rl_queue (rl_settle t s) = rl_started s @ rl_queue s"
proof (cases "t \<in> set (rl_running s)")
  case True
  with assms settle_counted [of s t] have
    "rl_counted (s\<lparr>rl_running := remove1 t (rl_running s), rl_inFlight := rl_inFlight s - 1\<rparr>)"
    by (simp add: rl_inv_def)
  from rl_drain_spec [OF this] True show ?thesis by (auto simp: rl_settle_def)
next
  case False
  with assms show ?thesis by (simp add: rl_settle_def)
qed

lemma rl_setMax_spec:
  fixes n :: int
  assumes "rl_inv s"
  defines "s' \<equiv> fst (setMaxConcurrent n s)"
  shows "rl_inv s' \<and> rl_max s' = (if n < 1 then rl_max s else n) \<and>
    rl_inFlight s' \<le> max (rl_inFlight s) (rl_max s') \<and>
    rl_started s' @ rl_queue s' = rl_started s @ rl_queue s"
proof (cases "n < 1")
  case True
  with assms show ?thesis by (simp add: setMaxConcurrent_def)
next
  case False
  with assms(1) have "rl_counted (s\<lparr>rl_max := n\<rparr>)" by (simp add: rl_inv_def rl_counted_def)
  from rl_drain_spec [OF this] False show ?thesis by (simp add: setMaxConcurrent_def s'_def)
qed

lemma rl_run_spec:
  assumes "rl_inv s"
  shows "rl_inv (rl_run t s) \<and> rl_max (rl_run t s) = rl_max s \<and>
    rl_inFlight (rl_run t s) \<le> max (rl_inFlight s) (rl_max s) \<and>
    rl_started (rl_run t s) @ rl_queue (rl_run t s) = rl_started s @ rl_queue s @ [t]"
  using assms by (auto simp: rl_run_def rl_inv_def)

definition rl_submitted :: "rl_event list \<Rightarrow> nat list" where
  "rl_submitted es = List.map_filter (\<lambda>e. case e of RlRun t \<Rightarrow> Some t | _ \<Rightarrow> None) es"

lemma rl_step_spec:
  assumes "rl_inv s"
  shows "rl_inv (rl_step e s)"
    and "rl_inFlight (rl_step e s) \<le> max (rl_inFlight s) (rl_max (rl_step e s))"
    and "rl_started (rl_step e s) @ rl_queue (rl_step e s) = rl_started s @ rl_queue s @ rl_submitted [e]"
    and "rl_max (rl_step e s) = (case e of RlSetMax n \<Rightarrow> if n < 1 then rl_max s else n | _ \<Rightarrow> rl_max s)"
  using rl_settle_spec [OF assms] rl_setMax_spec [OF assms] rl_run_spec [OF assms]
  by (cases e; simp add: rl_submitted_def map_filter_simps)+

interpretation rl: limiter rl_step rl_inv rl_inFlight rl_max "\<lambda>s. int (length (rl_queue s))"
proof unfold_locales
  fix s e
  show "rl_inv s \<Longrightarrow> rl_inv (rl_step e s)" by (rule rl_step_spec)
  show "rl_inv s \<Longrightarrow> 0 < int (length (rl_queue s)) \<Longrightarrow> rl_max s \<le> rl_inFlight s"
    by (simp add: rl_inv_def)
  show "rl_inv s \<Longrightarrow> rl_inFlight (rl_step e s) \<le> max (rl_inFlight s) (rl_max (rl_step e s))"
    by (rule rl_step_spec)
qed

lemma rl_fifo:
  assumes "rl_inv s"
  shows "rl_started (fold rl_step es s) @ rl_queue (fold rl_step es s) =
    rl_started s @ rl_queue s @ rl_submitted es"
  using assms
proof (induction es arbitrary: s)
  case Nil
  then show ?case by (simp add: rl_submitted_def map_filter_simps)
next
  case (Cons e es)
  have "rl_submitted (e # es) = rl_submitted [e] @ rl_submitted es"
    by (simp add: rl_submitted_def map_filter_simps split: option.splits)
  with Cons.IH [OF rl_step_spec(1) [OF Cons.prems]] rl_step_spec(3) [OF Cons.prems, of e]
  show ?case by simp
qed

text \<open>A bound on every requested limit bounds the limit throughout the run.\<close>

lemma rl_max_bound:
  "rl_inv s \<Longrightarrow> rl_max s \<le> B \<Longrightarrow> \<forall>k. RlSetMax k \<in> set es \<longrightarrow> k \<le> B \<Longrightarrow>
    rl_max (fold rl_step es s) \<le> B"
proof (induction es arbitrary: s)
  case Nil
  then show ?case by simp
next
  case (Cons e es)
  have "rl_max (rl_step e s) \<le> B"
    using Cons.prems by (auto simp: rl_step_spec(4) split: rl_event.splits)
  with Cons.IH [OF rl_step_spec(1) [OF Cons.prems(1)]] Cons.prems(3) show ?case by simp
qed

text \<open>
  C13. The limiter is work-conserving and fair: after any sequence of calls and task completions,
  a task waits only while at least \<open>maxConcurrent\<close> tasks run, the in-flight counter is the
  number of running tasks, and tasks start in the order they were submitted.
\<close>
theorem limiter_work_conserving_fifo:
  assumes "new_limiter n = Inr s0"
  shows "let s = fold rl_step es s0 in
    rl_inFlight s = int (length (rl_running s)) \<and>
    (rl_queue s = [] \<or> rl_max s \<le> rl_inFlight s) \<and>
    rl_started s @ rl_queue s = rl_submitted es"
proof -
  have inv: "rl_inv s0" "rl_started s0 = []" "rl_queue s0 = []"
    using assms by (auto simp: new_limiter_def rl_inv_def rl_counted_def split: if_splits)
  have "rl_max (fold rl_step es s0) \<le> rl_inFlight (fold rl_step es s0)"
    if "rl_queue (fold rl_step es s0) \<noteq> []"
    using rl.run_work_conserving [OF inv(1), of es] that by simp
  moreover have "rl_inFlight (fold rl_step es s0) = int (length (rl_running (fold rl_step es s0)))"
    using rl.run_inv [OF inv(1), of es] by (simp add: rl_inv_def rl_counted_def)
  ultimately show ?thesis using rl_fifo [OF inv(1), of es] inv by (auto simp: Let_def)
qed

theorem limiter_work_conserving_fifo_witness:
  "\<exists>s0. new_limiter 1 = Inr s0 \<and>
    rl_started (fold rl_step [RlRun 7, RlRun 8, RlSettle 7] s0) @
      rl_queue (fold rl_step [RlRun 7, RlRun 8, RlSettle 7] s0) = rl_submitted [RlRun 7, RlRun 8, RlSettle 7]"
proof -
  obtain s0 where s0: "new_limiter 1 = Inr s0" by (simp add: new_limiter_def)
  with limiter_work_conserving_fifo [OF s0, of "[RlRun 7, RlRun 8, RlSettle 7]"] show ?thesis
    by (simp only: Let_def) blast
qed

text \<open>
  The cap holds at runtime: as long as every \<open>setMaxConcurrent\<close> of a run asks for at most
  \<open>B\<close>, no more than \<open>B\<close> tasks are ever in flight, whatever the interleaving of calls and
  completions.
\<close>
theorem limiter_cap:
  assumes "new_limiter n = Inr s0" "n \<le> B" "\<forall>k. RlSetMax k \<in> set es \<longrightarrow> k \<le> B"
  shows "int (length (rl_running (fold rl_step es s0))) \<le> B"
proof -
  have s0: "rl_inv s0" "rl_inFlight s0 = 0" "rl_max s0 \<le> B" "1 \<le> B"
    using assms by (auto simp: new_limiter_def rl_inv_def rl_counted_def split: if_splits)
  have "rl_max (fold rl_step (take i es) s0) \<le> B" for i
    by (rule rl_max_bound [OF s0(1,3)]) (use assms(3) in \<open>auto dest: in_set_takeD\<close>)
  then have "rl_inFlight (fold rl_step es s0) \<le> B"
    using rl.run_within [OF s0(1), of B es] s0 by simp
  with rl.run_inv [OF s0(1), of es] show ?thesis by (simp add: rl_inv_def rl_counted_def)
qed

theorem limiter_cap_witness:
  "\<exists>s0. new_limiter 1 = Inr s0 \<and>
    int (length (rl_running (fold rl_step [RlRun 1, RlRun 2, RlSetMax 2, RlRun 3] s0))) \<le> 2"
proof -
  obtain s0 where s0: "new_limiter 1 = Inr s0" by (simp add: new_limiter_def)
  with limiter_cap [OF s0, of 2 "[RlRun 1, RlRun 2, RlSetMax 2, RlRun 3]"] show ?thesis by auto
qed

end
