(* ===== verification/CircuitBreaker.thy ===== *)
theory CircuitBreaker
  imports Prelude
begin

text \<open>
  The circuit breaker of \<open>src/circuitBreaker.ts\<close>. \<open>call\<close> awaits the guarded function, so it is
  split at the await: \<open>cb_begin\<close> is its prefix (the gate), \<open>cb_success\<close> and \<open>cb_failure\<close> are
  what follows when the function settles. Between the two any number of other calls may run.
  Times are milliseconds.
\<close>

datatype circuit_state = CLOSED | OPEN | HALF_OPEN

record breaker =
  cb_state :: circuit_state
  failureCount :: int
  lastFailureTime :: int
  lastProbeTime :: int
  threshold :: int
  cooldownMs :: int
  halfOpenProbeIntervalMs :: int
  manuallyPaused :: bool

datatype breaker_error = BreakerPaused | BreakerOpen | BreakerHalfOpen int

definition DEFAULT_THRESHOLD :: int where "DEFAULT_THRESHOLD = 3"
definition DEFAULT_COOLDOWN_MS :: int where "DEFAULT_COOLDOWN_MS = 30000"

definition default_to :: "'a option \<Rightarrow> 'a \<Rightarrow> 'a" where
  "default_to x d = (case x of Some v \<Rightarrow> v | None \<Rightarrow> d)"

definition new_breaker :: "int option \<Rightarrow> int option \<Rightarrow> int option \<Rightarrow> breaker" where
  "new_breaker thr cool probe =
     (let c = default_to cool DEFAULT_COOLDOWN_MS
      in \<lparr>cb_state = CLOSED, failureCount = 0, lastFailureTime = 0, lastProbeTime = 0,
          threshold = default_to thr DEFAULT_THRESHOLD, cooldownMs = c,
          halfOpenProbeIntervalMs = default_to probe c, manuallyPaused = False\<rparr>)"

definition cb_begin :: "int \<Rightarrow> breaker \<Rightarrow> breaker \<times> (breaker_error + unit)" where
  "cb_begin now s =
     (if manuallyPaused s then (s, Inl BreakerPaused)
      else if cb_state s = OPEN then
        (if now - lastFailureTime s \<ge> cooldownMs s
         then (s\<lparr>cb_state := HALF_OPEN, lastProbeTime := now\<rparr>, Inr ())
         else (s, Inl BreakerOpen))
      else if cb_state s = HALF_OPEN then
        (let remaining = halfOpenProbeIntervalMs s - (now - lastProbeTime s)
         in if remaining > 0 then (s, Inl (BreakerHalfOpen remaining))
            else (s\<lparr>lastProbeTime := now\<rparr>, Inr ()))
      else (s, Inr ()))"

definition cb_reset :: "breaker \<Rightarrow> breaker" where
  "cb_reset s = s\<lparr>cb_state := CLOSED, failureCount := 0\<rparr>"

definition cb_success :: "breaker \<Rightarrow> breaker" where
  "cb_success s = (if cb_state s = HALF_OPEN \<or> cb_state s = CLOSED then cb_reset s else s)"

definition cb_failure :: "int \<Rightarrow> breaker \<Rightarrow> breaker" where
  "cb_failure now s =
     (let s1 = s\<lparr>failureCount := failureCount s + 1, lastFailureTime := now\<rparr>
      in if failureCount s1 \<ge> threshold s1 then s1\<lparr>cb_state := OPEN\<rparr> else s1)"

definition cb_pause :: "int \<Rightarrow> breaker \<Rightarrow> breaker" where
  "cb_pause now s = s\<lparr>manuallyPaused := True, cb_state := OPEN, lastFailureTime := now\<rparr>"

definition cb_resume :: "breaker \<Rightarrow> breaker" where
  "cb_resume s = cb_reset (s\<lparr>manuallyPaused := False\<rparr>)"

datatype cb_event = CbBegin int | CbSuccess | CbFailure int | CbPause int | CbResume | CbReset

fun cb_step :: "cb_event \<Rightarrow> breaker \<Rightarrow> breaker" where
  "cb_step (CbBegin now) s = fst (cb_begin now s)"
| "cb_step CbSuccess s = cb_success s"
| "cb_step (CbFailure now) s = cb_failure now s"
| "cb_step (CbPause now) s = cb_pause now s"
| "cb_step CbResume s = cb_resume s"
| "cb_step CbReset s = cb_reset s"

lemmas cb_defs = cb_begin_def cb_success_def cb_failure_def cb_pause_def cb_resume_def cb_reset_def

text \<open>The configuration never changes.\<close>

definition cb_config :: "breaker \<Rightarrow> int \<times> int \<times> int" where
  "cb_config s = (threshold s, cooldownMs s, halfOpenProbeIntervalMs s)"

lemma cb_step_config [simp]: "cb_config (cb_step e s) = cb_config s"
  by (cases e) (auto simp: cb_defs cb_config_def Let_def)

section \<open>Tripping\<close>

text \<open>
  \<open>n\<close> guarded calls that run one after the other and all fail, the \<open>i\<close>-th beginning and failing
  at the \<open>i\<close>-th time.
\<close>

definition failing_calls :: "int list \<Rightarrow> cb_event list" where
  "failing_calls ts = concat (map (\<lambda>t. [CbBegin t, CbFailure t]) ts)"

lemma failing_calls_simps [simp]:
  "failing_calls [] = []" "failing_calls (t # ts) = CbBegin t # CbFailure t # failing_calls ts"
  by (simp_all add: failing_calls_def)

lemma failing_calls_state:
  assumes "cb_state s = CLOSED" "\<not> manuallyPaused s" "failureCount s + int (length ts) \<le> threshold s"
    "ts \<noteq> []"
  shows "failureCount (fold cb_step (failing_calls ts) s) = failureCount s + int (length ts) \<and>
    cb_state (fold cb_step (failing_calls ts) s) =
      (if failureCount s + int (length ts) = threshold s then OPEN else CLOSED) \<and>
    lastFailureTime (fold cb_step (failing_calls ts) s) = last ts \<and>
    \<not> manuallyPaused (fold cb_step (failing_calls ts) s)"
  using assms
proof (induction ts arbitrary: s)
  case Nil
  then show ?case by simp
next
  case (Cons t ts)
  let ?s = "cb_failure t s"
  have gate: "cb_begin t s = (s, Inr ())" using Cons.prems by (simp add: cb_begin_def)
  show ?case
  proof (cases "ts = []")
    case True
    with Cons.prems gate show ?thesis by (auto simp: cb_failure_def Let_def)
  next
    case False
    with Cons.prems have "cb_state ?s = CLOSED" "\<not> manuallyPaused ?s" "threshold ?s = threshold s"
      "failureCount ?s = failureCount s + 1" "failureCount ?s + int (length ts) \<le> threshold ?s"
      by (cases ts; auto simp: cb_failure_def Let_def)+
    with Cons.IH [OF this(1,2,5) False] this gate False show ?thesis by (simp add: add.assoc)
  qed
qed

text \<open>
  The breaker trips exactly at its threshold: a fresh breaker after \<open>n\<close> consecutive failing
  calls, \<open>n\<close> at most the threshold, is open if \<open>n\<close> is the threshold and closed before.
\<close>
theorem breaker_trips_at_threshold:
  assumes "int (length ts) \<le> default_to thr DEFAULT_THRESHOLD" "ts \<noteq> []"
  shows "cb_state (fold cb_step (failing_calls ts) (new_breaker thr cool probe)) =
    (if int (length ts) = default_to thr DEFAULT_THRESHOLD then OPEN else CLOSED)"
  using failing_calls_state [of "new_breaker thr cool probe" ts] assms
  by (simp add: new_breaker_def Let_def)

theorem breaker_trips_at_threshold_witness:
  "cb_state (fold cb_step (failing_calls [10, 20, 30]) (new_breaker None None None)) = OPEN"
  using breaker_trips_at_threshold [of "[10, 20, 30]" None None None]
  by (simp add: default_to_def DEFAULT_THRESHOLD_def)

section \<open>Staying open\<close>

text \<open>The events that happen to an open breaker that nobody resumes, resets or pauses.\<close>

fun cb_time_ok :: "int \<Rightarrow> int \<Rightarrow> cb_event \<Rightarrow> bool" where
  "cb_time_ok t0 t1 (CbBegin now) \<longleftrightarrow> now < t1"
| "cb_time_ok t0 t1 (CbFailure now) \<longleftrightarrow> t0 \<le> now"
| "cb_time_ok t0 t1 CbSuccess \<longleftrightarrow> True"
| "cb_time_ok t0 t1 (CbPause now) \<longleftrightarrow> t0 \<le> now"
| "cb_time_ok t0 t1 _ \<longleftrightarrow> False"

definition cb_shut :: "int \<Rightarrow> int \<Rightarrow> breaker \<Rightarrow> bool" where
  "cb_shut t0 c s \<longleftrightarrow> cb_state s = OPEN \<and> t0 \<le> lastFailureTime s \<and> cooldownMs s = c"

lemma cb_shut_step: "cb_shut t0 c s \<Longrightarrow> cb_time_ok t0 (t0 + c) e \<Longrightarrow> cb_shut t0 c (cb_step e s)"
  by (cases e) (auto simp: cb_shut_def cb_defs Let_def)

lemma cb_shut_run:
  "cb_shut t0 c s \<Longrightarrow> \<forall>e \<in> set es. cb_time_ok t0 (t0 + c) e \<Longrightarrow> cb_shut t0 c (fold cb_step es s)"
  by (induction es arbitrary: s) (auto intro: cb_shut_step)

lemma cb_shut_rejects: "cb_shut t0 c s \<Longrightarrow> now < t0 + c \<Longrightarrow> \<exists>e. cb_begin now s = (s, Inl e)"
  by (auto simp: cb_shut_def cb_begin_def)

text \<open>
  An open breaker shields its endpoint for the whole cooldown: whatever settles in the
  meantime, successes of calls begun before included, every call that begins less than the
  cooldown after the failure that opened it is rejected and does not reach the endpoint.
\<close>
theorem open_breaker_rejects:
  assumes "cb_state s = OPEN" "lastFailureTime s = t0" "now < t0 + cooldownMs s"
    "\<forall>e \<in> set es. cb_time_ok t0 (t0 + cooldownMs s) e"
  shows "\<exists>e. snd (cb_begin now (fold cb_step es s)) = Inl e"
proof -
  have "cb_shut t0 (cooldownMs s) s" using assms(1,2) by (simp add: cb_shut_def)
  from cb_shut_rejects [OF cb_shut_run [OF this assms(4)] assms(3)] show ?thesis
    by (metis snd_conv)
qed

definition tripped :: breaker where
  "tripped = fold cb_step (failing_calls [10, 20, 30]) (new_breaker None None None)"

lemma tripped_eq:
  "tripped = \<lparr>cb_state = OPEN, failureCount = 3, lastFailureTime = 30, lastProbeTime = 0,
     threshold = 3, cooldownMs = 30000, halfOpenProbeIntervalMs = 30000, manuallyPaused = False\<rparr>"
  unfolding tripped_def by code_simp

theorem open_breaker_rejects_witness:
  "\<exists>e. snd (cb_begin 20000 (fold cb_step [CbSuccess, CbBegin 500, CbFailure 600] tripped)) = Inl e"
  by (rule open_breaker_rejects [of tripped 30]) (simp_all add: tripped_eq)

section \<open>Probing\<close>

fun cb_probe_ok :: "int \<Rightarrow> cb_event \<Rightarrow> bool" where
  "cb_probe_ok t1 (CbBegin now) \<longleftrightarrow> now < t1"
| "cb_probe_ok t1 _ \<longleftrightarrow> False"

text \<open>
  After the cooldown exactly one call goes through as a probe: the first call at or after it is
  admitted, and every other call within the probe interval is rejected until the probe settles.
  A successful probe closes the breaker with a clean count; a failing one opens it again.
\<close>
theorem half_open_probe:
  assumes "cb_state s = OPEN" "\<not> manuallyPaused s" "lastFailureTime s + cooldownMs s \<le> now"
    "threshold s \<le> failureCount s + 1"
    "\<forall>e \<in> set es. cb_probe_ok (now + halfOpenProbeIntervalMs s) e"
    "later < now + halfOpenProbeIntervalMs s"
  defines "s1 \<equiv> fst (cb_begin now s)"
  shows "snd (cb_begin now s) = Inr () \<and> fold cb_step es s1 = s1 \<and>
    (\<exists>e. snd (cb_begin later s1) = Inl e) \<and>
    cb_state (cb_success s1) = CLOSED \<and> failureCount (cb_success s1) = 0 \<and>
    cb_state (cb_failure t s1) = OPEN \<and> lastFailureTime (cb_failure t s1) = t"
proof -
  have s1: "s1 = s\<lparr>cb_state := HALF_OPEN, lastProbeTime := now\<rparr>" "snd (cb_begin now s) = Inr ()"
    using assms(1-3) by (auto simp: s1_def cb_begin_def)
  have quiet: "cb_step (CbBegin t') s1 = s1" "\<exists>e. snd (cb_begin t' s1) = Inl e"
    if "t' < now + halfOpenProbeIntervalMs s" for t'
    using that assms(2) by (auto simp: s1(1) cb_begin_def Let_def)
  have "fold cb_step es s1 = s1"
    using assms(5)
  proof (induction es)
    case (Cons e es)
    then show ?case by (cases e) (auto simp: quiet simp del: cb_step.simps)
  qed simp
  with s1 quiet assms(4,6) show ?thesis
    by (auto simp: s1(1) cb_success_def cb_reset_def cb_failure_def Let_def)
qed

theorem half_open_probe_witness:
  "snd (cb_begin 30030 tripped) = Inr () \<and>
   (\<exists>e. snd (cb_begin 40000 (fst (cb_begin 30030 tripped))) = Inl e)"
  using half_open_probe [of tripped 30030 "[CbBegin 30040]" 40000]
  by (simp add: tripped_eq)

end
