(* ===== verification/WriteLimiter.thy ===== *)
theory WriteLimiter
  imports Complex_Main Prelude
begin

text \<open>
  The write throttle of \<open>src/writeRateLimiter.ts\<close>: token buckets by the GCRA algorithm, one per
  operation name or one shared, and a bounded number of waiting callers. Numbers are exact
  rationals where the code has doubles; the clock is read once per call. An \<open>acquire\<close> that has
  to wait is split at its timer: \<open>wl_acquire\<close> is the call, \<open>wl_wake\<close> the timer's end.
\<close>

section \<open>The bucket\<close>

record bucket =
  theoreticalArrival :: rat
  intervalMs :: rat
  burstMs :: rat

definition new_bucket :: "rat \<Rightarrow> rat \<Rightarrow> bucket" where
  "new_bucket maxPerSecond burst =
     (let i = 1000 / maxPerSecond
      in \<lparr>theoreticalArrival = 0, intervalMs = i, burstMs = i * (max 1 burst - 1)\<rparr>)"

definition delay :: "bucket \<Rightarrow> rat \<Rightarrow> rat" where
  "delay b now = max 0 (max (theoreticalArrival b) now - burstMs b - now)"

text \<open>The new bucket and the milliseconds the caller is delayed.\<close>

definition bucket_acquire :: "bucket \<Rightarrow> rat \<Rightarrow> bucket \<times> rat" where
  "bucket_acquire b now =
     (let waitMs = delay b now
      in (b\<lparr>theoreticalArrival := max (theoreticalArrival b) now + intervalMs b\<rparr>, waitMs))"

section \<open>The limiter\<close>

datatype wl_error = MaxPerSecondNotPositive | RateLimitExceeded int int

record write_limiter =
  wl_shared :: bool
  wl_maxPerSecond :: rat
  wl_burst :: rat
  wl_queueSize :: int
  wl_buckets :: "(string, bucket) jsmap"
  wl_waiting :: int

definition new_write_limiter ::
    "rat \<Rightarrow> rat option \<Rightarrow> int option \<Rightarrow> bool option \<Rightarrow> wl_error + write_limiter" where
  "new_write_limiter maxPerSecond burst queueSize shared =
     (if maxPerSecond \<le> 0 then Inl MaxPerSecondNotPositive
      else Inr \<lparr>wl_shared = (case shared of Some b \<Rightarrow> b | None \<Rightarrow> False),
                wl_maxPerSecond = maxPerSecond,
                wl_burst = (case burst of Some b \<Rightarrow> b | None \<Rightarrow> 1),
                wl_queueSize = (case queueSize of Some q \<Rightarrow> q | None \<Rightarrow> 10),
                wl_buckets = [], wl_waiting = 0\<rparr>)"

datatype wl_outcome = Immediate | Waiting rat

definition wl_acquire :: "string \<Rightarrow> rat \<Rightarrow> write_limiter \<Rightarrow> write_limiter \<times> (wl_error + wl_outcome)" where
  "wl_acquire operationName now s =
     (let key = (if wl_shared s then ''__shared__'' else operationName);
          found = map_get (wl_buckets s) key;
          bucket = (case found of Some b \<Rightarrow> b | None \<Rightarrow> new_bucket (wl_maxPerSecond s) (wl_burst s));
          s1 = (if found = None then s\<lparr>wl_buckets := map_set key bucket (wl_buckets s)\<rparr> else s)
      in if delay bucket now = 0 then
           (s1\<lparr>wl_buckets := map_set key (fst (bucket_acquire bucket now)) (wl_buckets s1)\<rparr>,
            Inr Immediate)
         else if wl_queueSize s1 > 0 \<and> wl_waiting s1 \<ge> wl_queueSize s1 then
           (s1, Inl (RateLimitExceeded (wl_waiting s1) (wl_queueSize s1)))
         else
           (s1\<lparr>wl_waiting := wl_waiting s1 + 1,
               wl_buckets := map_set key (fst (bucket_acquire bucket now)) (wl_buckets s1)\<rparr>,
            Inr (Waiting (snd (bucket_acquire bucket now)))))"

definition wl_wake :: "write_limiter \<Rightarrow> write_limiter" where
  "wl_wake s = s\<lparr>wl_waiting := wl_waiting s - 1\<rparr>"

section \<open>Rate\<close>

text \<open>The times at which the callers of one bucket start, for calls at the given times.\<close>

fun start_times :: "bucket \<Rightarrow> rat list \<Rightarrow> rat list" where
  "start_times b [] = []"
| "start_times b (t # ts) =
     (let (b', w) = bucket_acquire b t in (t + w) # start_times b' ts)"

lemma acquire_start: "t + snd (bucket_acquire b t) = max t (max (theoreticalArrival b) t - burstMs b)"
  by (auto simp: bucket_acquire_def delay_def Let_def max_def)

lemma acquire_simps [simp]:
  "theoreticalArrival (fst (bucket_acquire b t)) = max (theoreticalArrival b) t + intervalMs b"
  "intervalMs (fst (bucket_acquire b t)) = intervalMs b"
  "burstMs (fst (bucket_acquire b t)) = burstMs b"
  by (simp_all add: bucket_acquire_def Let_def)

lemma start_times_Cons [simp]:
  "start_times b (t # ts) = (t + snd (bucket_acquire b t)) # start_times (fst (bucket_acquire b t)) ts"
  by (simp add: case_prod_beta Let_def)

lemma length_start_times [simp]: "length (start_times b ts) = length ts"
  by (induction ts arbitrary: b) (simp_all del: start_times.simps(2))

declare start_times.simps(2) [simp del]

lemma start_after_arrival:
  assumes "0 \<le> intervalMs b" "k < length ts"
  shows "theoreticalArrival b + of_nat k * intervalMs b - burstMs b \<le> start_times b ts ! k"
  using assms
proof (induction ts arbitrary: b k)
  case Nil
  then show ?case by simp
next
  case (Cons t ts)
  show ?case
  proof (cases k)
    case 0
    then show ?thesis by (simp add: acquire_start)
  next
    case (Suc j)
    let ?b = "fst (bucket_acquire b t)"
    from Cons.IH [of ?b j] Cons.prems Suc
    have "theoreticalArrival ?b + of_nat j * intervalMs b - burstMs b \<le> start_times ?b ts ! j" by simp
    moreover have "theoreticalArrival b \<le> max (theoreticalArrival b) t" by simp
    ultimately show ?thesis using Suc by (simp add: algebra_simps)
  qed
qed

lemma start_times_gap:
  assumes "0 \<le> intervalMs b" "0 \<le> burstMs b" "i + k < length ts" "0 < k"
  shows "start_times b ts ! i + of_nat k * intervalMs b - burstMs b \<le> start_times b ts ! (i + k)"
  using assms
proof (induction i arbitrary: b ts)
  case 0
  then obtain t ts' where ts: "ts = t # ts'" by (cases ts) auto
  from 0(4) obtain j where j: "k = Suc j" by (cases k) auto
  let ?b = "fst (bucket_acquire b t)"
  have "theoreticalArrival ?b + of_nat j * intervalMs b - burstMs b \<le> start_times ?b ts' ! j"
    using start_after_arrival [of ?b j ts'] 0 ts j by simp
  moreover have "t + snd (bucket_acquire b t) \<le> max (theoreticalArrival b) t"
    using 0(2) by (simp add: acquire_start)
  ultimately show ?case using ts j by (simp add: algebra_simps)
next
  case (Suc i)
  then obtain t ts' where ts: "ts = t # ts'" by (cases ts) auto
  with Suc.IH [of "fst (bucket_acquire b t)" ts'] Suc.prems show ?case by simp
qed

text \<open>
  C16. The throttle keeps its rate: of the callers of one bucket, any one starts at least
  \<open>k - burst + 1\<close> intervals after the one \<open>k\<close> places before it, whenever they call. With
  \<open>k = burst\<close>, no window shorter than one interval admits more than \<open>burst\<close> of them.
\<close>
theorem bucket_keeps_rate:
  assumes "0 < rate" "1 \<le> burst" "i + k < length ts" "0 < k"
  shows "start_times (new_bucket rate burst) ts ! i + (of_nat k - burst + 1) * (1000 / rate)
    \<le> start_times (new_bucket rate burst) ts ! (i + k)"
proof -
  let ?b = "new_bucket rate burst"
  define I where "I = 1000 / rate"
  have b: "intervalMs ?b = I" "burstMs ?b = I * (burst - 1)" "0 \<le> I"
    using assms(1,2) by (simp_all add: new_bucket_def Let_def max_def I_def)
  with assms have "start_times ?b ts ! i + of_nat k * I - I * (burst - 1) \<le> start_times ?b ts ! (i + k)"
    using start_times_gap [of ?b i k ts] by simp
  then show ?thesis unfolding I_def [symmetric] by (simp add: algebra_simps)
qed

theorem bucket_keeps_rate_witness:
  "start_times (new_bucket 10 2) [0, 0, 0, 5] ! 0 + 100 \<le> start_times (new_bucket 10 2) [0, 0, 0, 5] ! 2"
  using bucket_keeps_rate [of 10 2 0 2 "[0, 0, 0, 5]"] by simp

section \<open>Waiting callers\<close>

datatype wl_event = WlAcquire string rat | WlWake

fun wl_step :: "wl_event \<Rightarrow> write_limiter \<Rightarrow> write_limiter" where
  "wl_step (WlAcquire name now) s = fst (wl_acquire name now s)"
| "wl_step WlWake s = (if wl_waiting s > 0 then wl_wake s else s)"

definition wl_inv :: "write_limiter \<Rightarrow> bool" where
  "wl_inv s \<longleftrightarrow> 0 \<le> wl_waiting s \<and> (wl_queueSize s > 0 \<longrightarrow> wl_waiting s \<le> wl_queueSize s)"

interpretation wl: step_system wl_step wl_inv
proof unfold_locales
  fix s e
  show "wl_inv s \<Longrightarrow> wl_inv (wl_step e s)"
    by (cases e) (auto simp: wl_inv_def wl_acquire_def wl_wake_def Let_def)
qed

lemma wl_queueSize_step [simp]: "wl_queueSize (wl_step e s) = wl_queueSize s"
  by (cases e) (auto simp: wl_acquire_def wl_wake_def Let_def)

text \<open>
  Backpressure: whatever callers arrive and whichever timers fire, no more than \<open>queueSize\<close>
  callers wait at once, and a caller is turned away only when the queue is full.
\<close>
theorem waiting_is_bounded:
  assumes "new_write_limiter rate burst (Some q) shared = Inr s0" "0 < q"
  shows "0 \<le> wl_waiting (fold wl_step es s0) \<and> wl_waiting (fold wl_step es s0) \<le> q \<and>
    (case snd (wl_acquire name now (fold wl_step es s0)) of
       Inl e \<Rightarrow> e = RateLimitExceeded q q \<and> wl_waiting (fold wl_step es s0) = q
     | Inr _ \<Rightarrow> True)"
proof -
  have s0: "wl_inv s0" "wl_queueSize s0 = q"
    using assms by (auto simp: new_write_limiter_def wl_inv_def split: if_splits)
  have "wl_queueSize (fold wl_step es s0) = q"
    using wl.run_const [of wl_queueSize s0 es] s0 by simp
  with wl.run_inv [OF s0(1), of es] assms(2) show ?thesis
    by (auto simp: wl_inv_def wl_acquire_def Let_def split: sum.splits if_splits)
qed

theorem waiting_is_bounded_witness:
  "\<exists>s0. new_write_limiter 10 None (Some 1) None = Inr s0 \<and>
    wl_waiting (fold wl_step [WlAcquire ''w'' 0, WlAcquire ''w'' 0, WlAcquire ''w'' 1] s0) \<le> 1"
proof -
  obtain s0 where s0: "new_write_limiter 10 None (Some 1) None = Inr s0"
    by (simp add: new_write_limiter_def)
  from waiting_is_bounded [OF s0, of "[WlAcquire ''w'' 0, WlAcquire ''w'' 0, WlAcquire ''w'' 1]"]
  show ?thesis using s0 by auto
qed

end
