(* ===== verification/RequestQueue.thy ===== *)
theory RequestQueue
  imports Prelude
begin

text \<open>
  The priority request queue of \<open>src/request-queue.ts\<close>. Requests are numbered as they are
  enqueued, so an item's number is its object identity; \<open>rq_running\<close> holds the tasks in
  flight with their start times and \<open>rq_delayed\<close> the payloads of the \<open>onDelayed\<close> callback. A
  task settles by the event \<open>RqSettle\<close>; value and error take the same path. The average of the
  recorded durations is exact where the code has a double.
\<close>

datatype request_priority = High | Normal | Low

fun PRIORITY_RANK :: "request_priority \<Rightarrow> nat" where
  "PRIORITY_RANK High = 0"
| "PRIORITY_RANK Normal = 1"
| "PRIORITY_RANK Low = 2"

record queued_item =
  qi_id :: nat
  qi_lane :: string
  qi_enqueuedAt :: int
  qi_priority :: request_priority

record running_task =
  rt_id :: nat
  rt_lane :: string
  rt_start :: int

record delayed_payload =
  dp_lane :: string
  dp_estimatedWaitMs :: int
  dp_queueDepth :: int

record request_queue =
  rq_max :: int
  rq_lanes :: "string list"
  rq_queues :: "(string, queued_item list) jsmap"
  rq_perLane :: "(string, int) jsmap"
  rq_total :: int
  rq_durations :: "int list"
  rq_nextId :: nat
  rq_running :: "running_task list"
  rq_delayed :: "delayed_payload list"

definition MAX_DURATION_SAMPLES :: nat where
  "MAX_DURATION_SAMPLES = 20"

section \<open>Construction\<close>

definition rq_add_lane :: "string \<Rightarrow> request_queue \<Rightarrow> request_queue" where
  "rq_add_lane lane s = s\<lparr>rq_queues := map_set lane [] (rq_queues s),
     rq_perLane := map_set lane 0 (rq_perLane s)\<rparr>"

definition new_request_queue :: "int option \<Rightarrow> string list option \<Rightarrow> request_queue" where
  "new_request_queue maxConcurrent priorityLanes =
     (let lanes = (case priorityLanes of
            Some ls \<Rightarrow> if ls \<noteq> [] then ls else [''write'', ''read'']
          | None \<Rightarrow> [''write'', ''read''])
      in foldl (\<lambda>s lane. rq_add_lane lane s)
           \<lparr>rq_max = max 1 (case maxConcurrent of Some m \<Rightarrow> m | None \<Rightarrow> 10), rq_lanes = lanes,
            rq_queues = [], rq_perLane = [], rq_total = 0, rq_durations = [], rq_nextId = 0,
            rq_running = [], rq_delayed = []\<rparr> lanes)"

section \<open>Selection\<close>

text \<open>The items in the order the nested loops visit them, with the index of their lane.\<close>

definition rq_candidates :: "request_queue \<Rightarrow> (queued_item \<times> nat) list" where
  "rq_candidates s = concat (map (\<lambda>(li, lane).
     map (\<lambda>item. (item, li)) (case map_get (rq_queues s) lane of Some q \<Rightarrow> q | None \<Rightarrow> []))
     (List.enumerate 0 (rq_lanes s)))"

definition rq_better :: "queued_item \<times> nat \<Rightarrow> queued_item \<times> nat \<Rightarrow> bool" where
  "rq_better x y \<longleftrightarrow>
     (let rank = PRIORITY_RANK (qi_priority (fst x)); bestRank = PRIORITY_RANK (qi_priority (fst y))
      in rank < bestRank \<or>
         (rank = bestRank \<and>
          (qi_enqueuedAt (fst x) < qi_enqueuedAt (fst y) \<or>
           (qi_enqueuedAt (fst x) = qi_enqueuedAt (fst y) \<and> snd x < snd y))))"

definition dequeueNext :: "request_queue \<Rightarrow> request_queue \<times> queued_item option" where
  "dequeueNext s = (case best_of rq_better (rq_candidates s) of
     None \<Rightarrow> (s, None)
   | Some (best, li) \<Rightarrow>
       (s\<lparr>rq_queues := map_set (qi_lane best)
            (remove1 best (the (map_get (rq_queues s) (qi_lane best)))) (rq_queues s)\<rparr>,
        Some best))"

section \<open>Running and draining\<close>

definition rq_run :: "nat \<Rightarrow> string \<Rightarrow> int \<Rightarrow> request_queue \<Rightarrow> request_queue" where
  "rq_run task lane now s = s\<lparr>rq_total := rq_total s + 1,
     rq_perLane := map_set lane
       ((case map_get (rq_perLane s) lane of Some n \<Rightarrow> n | None \<Rightarrow> 0) + 1) (rq_perLane s),
     rq_running := rq_running s @ [\<lparr>rt_id = task, rt_lane = lane, rt_start = now\<rparr>]\<rparr>"

definition totalQueued :: "request_queue \<Rightarrow> nat" where
  "totalQueued s = sum_list (map (length \<circ> snd) (rq_queues s))"

text \<open>
  Each iteration of the drain loop takes one item from the queues, so as many iterations as
  there are queued items are enough.
\<close>

fun rq_drain_n :: "nat \<Rightarrow> int \<Rightarrow> request_queue \<Rightarrow> request_queue" where
  "rq_drain_n 0 now s = s"
| "rq_drain_n (Suc n) now s =
     (if rq_total s < rq_max s then
        (case dequeueNext s of
           (s', None) \<Rightarrow> s'
         | (s', Some item) \<Rightarrow> rq_drain_n n now (rq_run (qi_id item) (qi_lane item) now s'))
      else s)"

definition rq_drain :: "int \<Rightarrow> request_queue \<Rightarrow> request_queue" where
  "rq_drain now s = rq_drain_n (totalQueued s) now s"

definition rq_release :: "string \<Rightarrow> int \<Rightarrow> request_queue \<Rightarrow> request_queue" where
  "rq_release lane now s = rq_drain now
     (s\<lparr>rq_total := rq_total s - 1,
        rq_perLane := map_set lane
          (max 0 ((case map_get (rq_perLane s) lane of Some n \<Rightarrow> n | None \<Rightarrow> 1) - 1)) (rq_perLane s)\<rparr>)"

definition recordDuration :: "int \<Rightarrow> request_queue \<Rightarrow> request_queue" where
  "recordDuration ms s =
     (let ds = rq_durations s @ [ms]
      in s\<lparr>rq_durations := (if length ds > MAX_DURATION_SAMPLES then tl ds else ds)\<rparr>)"

definition estimateWait :: "int \<Rightarrow> request_queue \<Rightarrow> int" where
  "estimateWait queueDepth s =
     (if rq_durations s = [] then 0
      else let rounds = (queueDepth + rq_max s) div rq_max s
           in math_round_div (sum_list (rq_durations s) * rounds) (int (length (rq_durations s))))"

definition enqueue :: "string \<Rightarrow> request_priority option \<Rightarrow> int \<Rightarrow> request_queue \<Rightarrow> request_queue" where
  "enqueue lane prio now s0 =
     (let priority = (case prio of Some p \<Rightarrow> p | None \<Rightarrow> Normal);
          s1 = (if \<not> map_has (rq_queues s0) lane
                then rq_add_lane lane (s0\<lparr>rq_lanes := rq_lanes s0 @ [lane]\<rparr>) else s0);
          task = rq_nextId s1;
          s = s1\<lparr>rq_nextId := rq_nextId s1 + 1\<rparr>
      in if rq_total s < rq_max s then rq_run task lane now s
         else
           let laneQueue = the (map_get (rq_queues s) lane);
               queueDepth = int (length laneQueue);
               item = \<lparr>qi_id = task, qi_lane = lane, qi_enqueuedAt = now, qi_priority = priority\<rparr>
           in s\<lparr>rq_queues := map_set lane (laneQueue @ [item]) (rq_queues s),
                rq_delayed := rq_delayed s @ [\<lparr>dp_lane = lane,
                  dp_estimatedWaitMs = estimateWait queueDepth s, dp_queueDepth = queueDepth\<rparr>]\<rparr>)"

text \<open>A running task settles: its duration is recorded and its slot released.\<close>

definition rq_settle :: "nat \<Rightarrow> int \<Rightarrow> request_queue \<Rightarrow> request_queue" where
  "rq_settle task now s = (case find (\<lambda>r. rt_id r = task) (rq_running s) of
     None \<Rightarrow> s
   | Some r \<Rightarrow> rq_release (rt_lane r) now
       (recordDuration (now - rt_start r) (s\<lparr>rq_running := remove1 r (rq_running s)\<rparr>)))"

record lane_stats =
  ls_queued :: int
  ls_inFlight :: int

definition rq_getStats :: "request_queue \<Rightarrow> (string, lane_stats) jsmap" where
  "rq_getStats s = foldl (\<lambda>m lane. map_set lane
     \<lparr>ls_queued = (case map_get (rq_queues s) lane of Some q \<Rightarrow> int (length q) | None \<Rightarrow> 0),
      ls_inFlight = (case map_get (rq_perLane s) lane of Some n \<Rightarrow> n | None \<Rightarrow> 0)\<rparr> m)
     [] (rq_lanes s)"

definition rq_drained :: "request_queue \<Rightarrow> bool" where
  "rq_drained s \<longleftrightarrow> totalQueued s = 0 \<and> rq_total s = 0"

datatype rq_event = RqEnqueue string "request_priority option" int | RqSettle nat int

fun rq_step :: "rq_event \<Rightarrow> request_queue \<Rightarrow> request_queue" where
  "rq_step (RqEnqueue lane prio now) s = enqueue lane prio now s"
| "rq_step (RqSettle task now) s = rq_settle task now s"

section \<open>The selection rule\<close>

interpretation pick: preference rq_better
  by unfold_locales (auto simp: rq_better_def Let_def)

definition rq_wf :: "request_queue \<Rightarrow> bool" where
  "rq_wf s \<longleftrightarrow> rq_total s = int (length (rq_running s)) \<and> 1 \<le> rq_max s \<and>
     distinct (map_keys (rq_queues s)) \<and> set (map_keys (rq_queues s)) = set (rq_lanes s) \<and>
     (\<forall>lane q. map_get (rq_queues s) lane = Some q \<longrightarrow> (\<forall>item \<in> set q. qi_lane item = lane))"

definition rq_waiting :: "request_queue \<Rightarrow> queued_item set" where
  "rq_waiting s = {item. \<exists>lane q. map_get (rq_queues s) lane = Some q \<and> item \<in> set q}"

lemma candidates_set:
  assumes "rq_wf s"
  shows "fst ` set (rq_candidates s) = rq_waiting s"
proof (intro set_eqI iffI)
  fix x assume "x \<in> fst ` set (rq_candidates s)"
  then show "x \<in> rq_waiting s"
    by (auto simp: rq_candidates_def rq_waiting_def split: option.splits) metis
next
  fix x assume "x \<in> rq_waiting s"
  then obtain lane q where q: "map_get (rq_queues s) lane = Some q" "x \<in> set q"
    by (auto simp: rq_waiting_def)
  then have "lane \<in> set (map_keys (rq_queues s))" by (metis map_of_eq_None_iff option.distinct(1) list.set_map)
  with assms have "lane \<in> set (rq_lanes s)" by (simp add: rq_wf_def)
  then obtain i where "i < length (rq_lanes s)" "rq_lanes s ! i = lane" by (auto simp: in_set_conv_nth)
  then have "(i, lane) \<in> set (List.enumerate 0 (rq_lanes s))" by (auto simp: in_set_enumerate_eq)
  with q have "(x, i) \<in> set (rq_candidates s)" by (force simp: rq_candidates_def)
  then show "x \<in> fst ` set (rq_candidates s)" by force
qed

lemma totalQueued_0: "rq_wf s \<Longrightarrow> totalQueued s = 0 \<longleftrightarrow> rq_waiting s = {}"
proof -
  assume wf: "rq_wf s"
  have "totalQueued s = 0 \<longleftrightarrow> (\<forall>(lane, q) \<in> set (rq_queues s). q = [])"
    by (auto simp: totalQueued_def)
  also have "\<dots> \<longleftrightarrow> (\<forall>lane q. map_get (rq_queues s) lane = Some q \<longrightarrow> q = [])"
    using wf by (auto simp: rq_wf_def)
  also have "\<dots> \<longleftrightarrow> (\<forall>lane q item. map_get (rq_queues s) lane = Some q \<longrightarrow> item \<notin> set q)"
    by (metis list.set_sel(1) list.set(1) empty_iff)
  also have "\<dots> \<longleftrightarrow> rq_waiting s = {}" unfolding rq_waiting_def by blast
  finally show ?thesis .
qed

lemma dequeue_None:
  assumes "rq_wf s" "dequeueNext s = (s', None)"
  shows "s' = s \<and> totalQueued s = 0"
proof -
  have "best_of rq_better (rq_candidates s) = None" "s' = s"
    using assms(2) by (auto simp: dequeueNext_def split: option.splits prod.splits)
  then have "rq_candidates s = []" by (simp add: keep_best_None_iff)
  with candidates_set [OF assms(1)] \<open>s' = s\<close> show ?thesis
    by (simp add: totalQueued_0 [OF assms(1)])
qed

lemma dequeue_Some:
  assumes "rq_wf s" "dequeueNext s = (s', Some best)"
  shows "best \<in> rq_waiting s"
    and "\<And>item. item \<in> rq_waiting s \<Longrightarrow>
      PRIORITY_RANK (qi_priority best) < PRIORITY_RANK (qi_priority item) \<or>
      PRIORITY_RANK (qi_priority best) = PRIORITY_RANK (qi_priority item) \<and>
        qi_enqueuedAt best \<le> qi_enqueuedAt item"
    and "rq_wf s'" "totalQueued s = Suc (totalQueued s')"
    and "rq_total s' = rq_total s" "rq_max s' = rq_max s" "rq_running s' = rq_running s"
proof -
  from assms(2) obtain li where b: "best_of rq_better (rq_candidates s) = Some (best, li)"
    and s': "s' = s\<lparr>rq_queues := map_set (qi_lane best)
            (remove1 best (the (map_get (rq_queues s) (qi_lane best)))) (rq_queues s)\<rparr>"
    by (auto simp: dequeueNext_def split: option.splits prod.splits)
  have mem: "(best, li) \<in> set (rq_candidates s)" using b by (rule best_of_mem)
  then show waiting: "best \<in> rq_waiting s" using candidates_set [OF assms(1)] by force
  show "PRIORITY_RANK (qi_priority best) < PRIORITY_RANK (qi_priority item) \<or>
      PRIORITY_RANK (qi_priority best) = PRIORITY_RANK (qi_priority item) \<and>
        qi_enqueuedAt best \<le> qi_enqueuedAt item" if "item \<in> rq_waiting s" for item
  proof -
    from that candidates_set [OF assms(1)] obtain lj where "(item, lj) \<in> set (rq_candidates s)" by force
    from pick.best_of_optimal [OF b this] show ?thesis by (auto simp: rq_better_def Let_def not_less)
  qed
  from waiting obtain lane q where q: "map_get (rq_queues s) lane = Some q" "best \<in> set q"
    by (auto simp: rq_waiting_def)
  with assms(1) have lane: "qi_lane best = lane" by (auto simp: rq_wf_def simp del: map_of_eq_Some_iff)
  have s'': "s' = s\<lparr>rq_queues := map_set lane (remove1 best q) (rq_queues s)\<rparr>"
    using s' q lane by simp
  have keys: "lane \<in> set (map_keys (rq_queues s))"
    using q by (metis map_of_eq_None_iff option.distinct(1) list.set_map)
  show "rq_wf s'"
    using assms(1) q keys unfolding s'' rq_wf_def
    by (auto simp: map_keys_set simp del: map_of_eq_Some_iff dest: set_remove1_subset [THEN subsetD])
  have "totalQueued s' + length q = totalQueued s + length (remove1 best q)"
    using map_set_sum [of "rq_queues s" lane q length "remove1 best q"] assms(1) q
    by (simp add: totalQueued_def s'' rq_wf_def)
  moreover have "length q = Suc (length (remove1 best q))"
    using q(2) by (simp add: length_remove1) (metis Suc_pred length_pos_if_in_set)
  ultimately show "totalQueued s = Suc (totalQueued s')" by simp
  show "rq_total s' = rq_total s" "rq_max s' = rq_max s" "rq_running s' = rq_running s"
    by (simp_all add: s'')
qed

section \<open>The cap\<close>

definition rq_inv :: "request_queue \<Rightarrow> bool" where
  "rq_inv s \<longleftrightarrow> rq_wf s \<and> (0 < totalQueued s \<longrightarrow> rq_max s \<le> rq_total s)"

lemma rq_run_simps [simp]:
  "rq_wf (rq_run task lane now s) \<longleftrightarrow> rq_wf s"
  "rq_total (rq_run task lane now s) = rq_total s + 1"
  "rq_max (rq_run task lane now s) = rq_max s"
  "totalQueued (rq_run task lane now s) = totalQueued s"
  by (auto simp: rq_run_def rq_wf_def totalQueued_def)

lemma rq_drain_n_spec:
  assumes "rq_wf s" "totalQueued s \<le> n"
  shows "rq_inv (rq_drain_n n now s) \<and> rq_max (rq_drain_n n now s) = rq_max s \<and>
    rq_total (rq_drain_n n now s) \<le> max (rq_total s) (rq_max s)"
  using assms
proof (induction n arbitrary: s)
  case 0
  then show ?case by (simp add: rq_inv_def)
next
  case (Suc n)
  show ?case
  proof (cases "rq_total s < rq_max s")
    case False
    with Suc.prems show ?thesis by (simp add: rq_inv_def)
  next
    case True
    obtain s' r where d: "dequeueNext s = (s', r)" by (cases "dequeueNext s")
    show ?thesis
    proof (cases r)
      case None
      with d True dequeue_None [OF Suc.prems(1), of s'] Suc.prems show ?thesis by (simp add: rq_inv_def)
    next
      case (Some best)
      with d have "dequeueNext s = (s', Some best)" by simp
      note dq = dequeue_Some [OF Suc.prems(1) this]
      with Suc.IH [of "rq_run (qi_id best) (qi_lane best) now s'"] Suc.prems(2) True d Some
      show ?thesis by auto
    qed
  qed
qed

lemma rq_drain_spec:
  "rq_wf s \<Longrightarrow> rq_inv (rq_drain now s) \<and> rq_max (rq_drain now s) = rq_max s \<and>
    rq_total (rq_drain now s) \<le> max (rq_total s) (rq_max s)"
  unfolding rq_drain_def by (rule rq_drain_n_spec) auto

lemma settle_spec:
  assumes "rq_inv s"
  shows "rq_inv (rq_settle task now s) \<and> rq_max (rq_settle task now s) = rq_max s \<and>
    rq_total (rq_settle task now s) \<le> max (rq_total s) (rq_max s)"
proof (cases "find (\<lambda>r. rt_id r = task) (rq_running s)")
  case None
  with assms show ?thesis by (simp add: rq_settle_def)
next
  case (Some r)
  then have r: "r \<in> set (rq_running s)" by (auto simp: find_Some_iff)
  then have len: "length (rq_running s) = Suc (length (remove1 r (rq_running s)))"
    by (simp add: length_remove1) (metis Suc_pred length_pos_if_in_set)
  let ?s = "recordDuration (now - rt_start r) (s\<lparr>rq_running := remove1 r (rq_running s)\<rparr>)"
  let ?f = "\<lambda>s. s\<lparr>rq_total := rq_total s - 1, rq_perLane := map_set (rt_lane r)
      (max 0 ((case map_get (rq_perLane s) (rt_lane r) of Some n \<Rightarrow> n | None \<Rightarrow> 1) - 1)) (rq_perLane s)\<rparr>"
  have "rq_wf (?f ?s)"
    using assms len by (simp add: rq_inv_def rq_wf_def recordDuration_def Let_def)
  note drained = rq_drain_spec [OF this, of now]
  have "rq_settle task now s = rq_drain now (?f ?s)" using Some by (simp add: rq_settle_def rq_release_def)
  moreover have "rq_max (?f ?s) = rq_max s" "rq_total (?f ?s) = rq_total s - 1"
    by (simp_all add: recordDuration_def Let_def)
  ultimately show ?thesis using drained by auto
qed

lemma add_lane_wf:
  assumes "rq_wf s" "lane \<notin> set (map_keys (rq_queues s))"
  shows "rq_wf (rq_add_lane lane (s\<lparr>rq_lanes := rq_lanes s @ [lane]\<rparr>))"
    and "totalQueued (rq_add_lane lane (s\<lparr>rq_lanes := rq_lanes s @ [lane]\<rparr>)) = totalQueued s"
  using assms map_set_sum_fresh [OF assms(2), of length "[]"]
  by (auto simp: rq_add_lane_def rq_wf_def map_keys_set totalQueued_def simp del: map_of_eq_Some_iff)

lemma nextId_simps [simp]:
  "rq_wf (s\<lparr>rq_nextId := n\<rparr>) \<longleftrightarrow> rq_wf s" "totalQueued (s\<lparr>rq_nextId := n\<rparr>) = totalQueued s"
  by (simp_all add: rq_wf_def totalQueued_def)

lemma add_lane_simps [simp]:
  "rq_max (rq_add_lane lane s) = rq_max s" "rq_total (rq_add_lane lane s) = rq_total s"
  by (simp_all add: rq_add_lane_def)

lemma push_wf:
  assumes "rq_wf s" "map_get (rq_queues s) lane = Some q" "qi_lane item = lane"
  shows "rq_wf (s\<lparr>rq_queues := map_set lane (q @ [item]) (rq_queues s), rq_delayed := d\<rparr>)"
proof -
  have "lane \<in> set (map_keys (rq_queues s))"
    using assms(2) by (metis map_of_eq_None_iff option.distinct(1) list.set_map)
  then show ?thesis
    using assms unfolding rq_wf_def by (auto simp: insert_absorb simp del: map_of_eq_Some_iff)
qed

text \<open>The two outcomes of an enqueue, on the state whose lane is registered.\<close>

lemma enqueue_cases:
  assumes "rq_inv s"
  obtains s' where "rq_wf s'" "totalQueued s' = totalQueued s" "rq_max s' = rq_max s"
    "rq_total s' = rq_total s" "rq_total s < rq_max s"
    "enqueue lane prio now s = rq_run (rq_nextId s) lane now s'"
  | s' q item d where "rq_wf s'" "rq_max s' = rq_max s" "rq_total s' = rq_total s"
    "rq_max s \<le> rq_total s" "map_get (rq_queues s') lane = Some q" "qi_lane item = lane"
    "enqueue lane prio now s = s'\<lparr>rq_queues := map_set lane (q @ [item]) (rq_queues s'), rq_delayed := d\<rparr>"
proof -
  define s1 where "s1 = (if \<not> map_has (rq_queues s) lane
      then rq_add_lane lane (s\<lparr>rq_lanes := rq_lanes s @ [lane]\<rparr>) else s)"
  define s' where "s' = s1\<lparr>rq_nextId := rq_nextId s1 + 1\<rparr>"
  have s': "rq_wf s'" "totalQueued s' = totalQueued s" "rq_max s' = rq_max s" "rq_total s' = rq_total s"
    "rq_nextId s1 = rq_nextId s"
    using assms add_lane_wf [of s lane] unfolding s'_def s1_def
    by (cases "map_has (rq_queues s) lane"; simp add: rq_inv_def rq_add_lane_def)+
  have "map_has (rq_queues s') lane"
    by (cases "map_has (rq_queues s) lane") (simp_all add: s'_def s1_def rq_add_lane_def)
  then obtain q where q: "map_get (rq_queues s') lane = Some q" unfolding map_has_def by blast
  show thesis
  proof (cases "rq_total s < rq_max s")
    case True
    with s' have "enqueue lane prio now s = rq_run (rq_nextId s) lane now s'"
      unfolding enqueue_def Let_def s1_def [symmetric] s'_def [symmetric] by simp
    with that(1) [OF s'(1-4) True] show thesis by simp
  next
    case False
    let ?item = "\<lparr>qi_id = rq_nextId s1, qi_lane = lane, qi_enqueuedAt = now,
      qi_priority = (case prio of Some p \<Rightarrow> p | None \<Rightarrow> Normal)\<rparr>"
    have e: "enqueue lane prio now s = s'\<lparr>rq_queues := map_set lane (q @ [?item]) (rq_queues s'),
        rq_delayed := rq_delayed s' @ [\<lparr>dp_lane = lane,
          dp_estimatedWaitMs = estimateWait (int (length q)) s', dp_queueDepth = int (length q)\<rparr>]\<rparr>"
      using False s' q unfolding enqueue_def Let_def s1_def [symmetric] s'_def [symmetric] by simp
    show thesis by (rule that(2) [OF s'(1,3,4) _ q _ e]) (use False in simp_all)
  qed
qed

lemma enqueue_spec:
  assumes "rq_inv s"
  shows "rq_inv (enqueue lane prio now s) \<and> rq_max (enqueue lane prio now s) = rq_max s \<and>
    rq_total (enqueue lane prio now s) \<le> max (rq_total s) (rq_max s)"
proof (rule enqueue_cases [OF assms, of lane prio now])
  fix s'
  assume s': "rq_wf s'" "totalQueued s' = totalQueued s" "rq_max s' = rq_max s"
    "rq_total s' = rq_total s" "rq_total s < rq_max s"
    "enqueue lane prio now s = rq_run (rq_nextId s) lane now s'"
  with assms show ?thesis by (simp add: rq_inv_def)
next
  fix s' q item d
  assume s': "rq_wf s'" "rq_max s' = rq_max s" "rq_total s' = rq_total s"
    "rq_max s \<le> rq_total s" "map_get (rq_queues s') lane = Some q" "qi_lane item = lane"
    and e: "enqueue lane prio now s = s'\<lparr>rq_queues := map_set lane (q @ [item]) (rq_queues s'), rq_delayed := d\<rparr>"
  from push_wf [OF s'(1,5,6)] s'(2-4) show ?thesis unfolding e by (simp add: rq_inv_def)
qed

lemma rq_step_spec:
  assumes "rq_inv s"
  shows "rq_inv (rq_step e s) \<and> rq_max (rq_step e s) = rq_max s \<and>
    rq_total (rq_step e s) \<le> max (rq_total s) (rq_max s)"
  using enqueue_spec [OF assms] settle_spec [OF assms] by (cases e) auto

interpretation rq: limiter rq_step rq_inv rq_total rq_max "\<lambda>s. int (totalQueued s)"
proof unfold_locales
  fix s e
  show "rq_inv s \<Longrightarrow> rq_inv (rq_step e s)" by (simp add: rq_step_spec)
  show "rq_inv s \<Longrightarrow> 0 < int (totalQueued s) \<Longrightarrow> rq_max s \<le> rq_total s" by (simp add: rq_inv_def)
  show "rq_inv s \<Longrightarrow> rq_total (rq_step e s) \<le> max (rq_total s) (rq_max (rq_step e s))"
    by (simp add: rq_step_spec)
qed

definition rq_blank :: "string set \<Rightarrow> string list \<Rightarrow> request_queue \<Rightarrow> bool" where
  "rq_blank seen ls s \<longleftrightarrow> set (map_keys (rq_queues s)) = seen \<and> distinct (map_keys (rq_queues s)) \<and>
     (\<forall>(lane, q) \<in> set (rq_queues s). q = []) \<and> rq_total s = 0 \<and> rq_running s = [] \<and>
     1 \<le> rq_max s \<and> rq_lanes s = ls"

lemma add_lane_blank: "rq_blank seen ls s \<Longrightarrow> rq_blank (insert x seen) ls (rq_add_lane x s)"
  by (auto simp: rq_blank_def rq_add_lane_def dest!: map_set_values)

lemma add_lanes_blank:
  "rq_blank seen ls s \<Longrightarrow> rq_blank (seen \<union> set xs) ls (foldl (\<lambda>s lane. rq_add_lane lane s) s xs)"
proof (induction xs arbitrary: seen s)
  case Nil
  then show ?case by simp
next
  case (Cons x xs)
  from Cons.IH [OF add_lane_blank [OF Cons.prems, of x]] show ?case by simp
qed

lemma rq_blank_inv: "rq_blank (set ls) ls s \<Longrightarrow> rq_inv s"
  by (fastforce simp: rq_blank_def rq_inv_def rq_wf_def totalQueued_def)

lemma new_queue_inv: "rq_inv (new_request_queue mc lanes)"
  unfolding new_request_queue_def Let_def
  by (rule rq_blank_inv, rule add_lanes_blank [of "{}", simplified]) (simp add: rq_blank_def)

text \<open>
  C17. The queue respects its concurrency cap and wastes no slot: after any interleaving of requests
  and completions at most \<open>maxConcurrent\<close> tasks run, the counter equals the number of running
  tasks, and requests wait only while every slot is taken.
\<close>
theorem queue_cap_work_conserving:
  "let s = fold rq_step es (new_request_queue (Some n) lanes) in
     rq_total s = int (length (rq_running s)) \<and> rq_total s \<le> max 1 n \<and>
     (totalQueued s = 0 \<or> rq_total s = max 1 n)"
proof -
  let ?init = "new_request_queue (Some n) lanes" and ?s = "fold rq_step es (new_request_queue (Some n) lanes)"
  have fields: "rq_max (foldl (\<lambda>s lane. rq_add_lane lane s) s xs) = rq_max s"
    "rq_total (foldl (\<lambda>s lane. rq_add_lane lane s) s xs) = rq_total s" for s xs
    by (induction xs arbitrary: s) (auto simp: rq_add_lane_def)
  have s0: "rq_max ?init = max 1 n" "rq_total ?init = 0"
    by (simp_all add: new_request_queue_def Let_def fields)
  have "rq_max ?s = max 1 n"
    using rq.run_const [of rq_max ?init es] new_queue_inv rq_step_spec s0 by simp
  moreover have "rq_total ?s \<le> max 1 n"
    using rq.run_capped [OF new_queue_inv, of "Some n" lanes es] rq_step_spec s0 by simp
  moreover have "rq_inv ?s" by (rule rq.run_inv) (rule new_queue_inv)
  ultimately show ?thesis by (auto simp: Let_def rq_inv_def rq_wf_def)
qed

text \<open>
  When a slot opens the queue starts a waiting request of the highest priority, the one that
  has waited longest among those of that priority, whatever lanes they are in; a request is
  chosen whenever any is waiting.
\<close>
theorem dequeue_picks_best:
  assumes "rq_wf s"
  shows "case dequeueNext s of
      (s', None) \<Rightarrow> rq_waiting s = {}
    | (s', Some best) \<Rightarrow> best \<in> rq_waiting s \<and> totalQueued s = Suc (totalQueued s') \<and>
        (\<forall>item. item \<in> rq_waiting s \<longrightarrow>
          PRIORITY_RANK (qi_priority best) < PRIORITY_RANK (qi_priority item) \<or>
          PRIORITY_RANK (qi_priority best) = PRIORITY_RANK (qi_priority item) \<and>
            qi_enqueuedAt best \<le> qi_enqueuedAt item)"
proof (cases "dequeueNext s")
  case (Pair s' r)
  show ?thesis
  proof (cases r)
    case None
    with Pair dequeue_None [OF assms, of s'] totalQueued_0 [OF assms] show ?thesis by simp
  next
    case (Some best)
    with Pair dequeue_Some [OF assms, of s' best] show ?thesis by simp
  qed
qed

definition sample_requests :: request_queue where
  "sample_requests = fold rq_step
     [RqEnqueue ''read'' None 1, RqEnqueue ''read'' (Some Low) 2, RqEnqueue ''write'' (Some High) 3]
     (new_request_queue (Some 1) None)"

theorem dequeue_picks_best_witness:
  "totalQueued sample_requests = 2 \<and>
   (\<exists>s' best. dequeueNext sample_requests = (s', Some best) \<and> best \<in> rq_waiting sample_requests \<and>
     totalQueued s' = 1)"
proof -
  have "rq_wf sample_requests"
    using rq.run_inv [OF new_queue_inv] unfolding sample_requests_def rq_inv_def by blast
  note picked = dequeue_picks_best [OF this]
  have two: "totalQueued sample_requests = 2" unfolding sample_requests_def by code_simp
  then have "rq_waiting sample_requests \<noteq> {}"
    using totalQueued_0 [OF \<open>rq_wf sample_requests\<close>] by simp
  with picked two show ?thesis
    by (cases "dequeueNext sample_requests"; cases "snd (dequeueNext sample_requests)") auto
qed

end
