(* ===== verification/OfflineQueue.thy ===== *)
theory OfflineQueue
  imports Prelude
begin

text \<open>
  The offline write queue of \<open>src/offlineQueue.ts\<close>. \<open>drain\<close> awaits every replayed operation, so
  it is split at that await: \<open>oq_drain\<close> starts the loop and takes the first operation out,
  \<open>oq_settled\<close> is the rest of the iteration when the operation settles. Between the two,
  any other call may run. The same holds for the health check's await. \<open>oq_gone\<close> records
  the operations that have left the queue for good.
\<close>

record queued_op =
  qo_id :: string
  qo_operation :: string
  qo_queuedAt :: int
  qo_priority :: int
  qo_sequence :: nat

record replay_result =
  rr_operation :: queued_op
  rr_success :: bool

record drained_event =
  de_results :: "replay_result list"
  de_totalOperations :: nat
  de_successful :: nat
  de_failed :: nat

record offline_queue =
  oq_enabled :: bool
  oq_maxQueueSize :: nat
  oq_queue :: "queued_op list"
  oq_isDraining :: bool
  oq_isOnline :: bool
  oq_polling :: bool
  oq_nextSequence :: nat
  oq_executing :: "queued_op option"
  oq_results :: "replay_result list"
  oq_events :: "drained_event list"
  oq_gone :: "queued_op list"

definition new_offline_queue :: "bool \<Rightarrow> nat \<Rightarrow> offline_queue" where
  "new_offline_queue enabled maxSize =
     \<lparr>oq_enabled = enabled, oq_maxQueueSize = maxSize, oq_queue = [], oq_isDraining = False,
      oq_isOnline = True, oq_polling = False, oq_nextSequence = 0, oq_executing = None,
      oq_results = [], oq_events = [], oq_gone = []\<rparr>"

section \<open>Insertion\<close>

text \<open>The first entry the new one goes before: \<open>findIndex\<close> and \<open>splice\<close>.\<close>

definition goes_after :: "queued_op \<Rightarrow> queued_op \<Rightarrow> bool" where
  "goes_after x new \<longleftrightarrow> qo_priority x < qo_priority new \<or>
     (qo_priority x = qo_priority new \<and> qo_sequence x > qo_sequence new)"

fun insertSorted :: "queued_op \<Rightarrow> queued_op list \<Rightarrow> queued_op list" where
  "insertSorted new [] = [new]"
| "insertSorted new (x # xs) = (if goes_after x new then new # x # xs else x # insertSorted new xs)"

definition oq_enqueue ::
    "string \<Rightarrow> string \<Rightarrow> int \<Rightarrow> int \<Rightarrow> offline_queue \<Rightarrow> offline_queue \<times> bool" where
  "oq_enqueue ident operation priority now s =
     (if \<not> oq_enabled s then (s, False)
      else if length (oq_queue s) \<ge> oq_maxQueueSize s then (s, False)
      else
        let queuedOp = \<lparr>qo_id = ident, qo_operation = operation, qo_queuedAt = now,
              qo_priority = priority, qo_sequence = oq_nextSequence s\<rparr>
        in (s\<lparr>oq_nextSequence := oq_nextSequence s + 1,
              oq_queue := insertSorted queuedOp (oq_queue s)\<rparr>, True))"

section \<open>Draining\<close>

definition finish_drain :: "offline_queue \<Rightarrow> offline_queue" where
  "finish_drain s = s\<lparr>oq_isDraining := False, oq_executing := None, oq_results := [],
     oq_events := oq_events s @
       [\<lparr>de_results = oq_results s, de_totalOperations = length (oq_results s),
         de_successful = length (filter rr_success (oq_results s)),
         de_failed = length (filter (\<lambda>r. \<not> rr_success r) (oq_results s))\<rparr>]\<rparr>"

text \<open>The head of the loop: take the first operation out, or finish.\<close>

definition drain_next :: "offline_queue \<Rightarrow> offline_queue" where
  "drain_next s = (case oq_queue s of
     [] \<Rightarrow> finish_drain s
   | op # rest \<Rightarrow> s\<lparr>oq_queue := rest, oq_executing := Some op\<rparr>)"

definition oq_drain :: "offline_queue \<Rightarrow> offline_queue" where
  "oq_drain s =
     (if oq_isDraining s \<or> oq_queue s = [] then s
      else drain_next (s\<lparr>oq_isDraining := True, oq_results := []\<rparr>))"

text \<open>The operation taken out settles, with success or not.\<close>

definition oq_settled :: "bool \<Rightarrow> offline_queue \<Rightarrow> offline_queue" where
  "oq_settled success s = (case oq_executing s of
     None \<Rightarrow> s
   | Some op \<Rightarrow>
       let s1 = s\<lparr>oq_executing := None,
              oq_results := oq_results s @ [\<lparr>rr_operation = op, rr_success = success\<rparr>]\<rparr>
       in if success then drain_next (s1\<lparr>oq_gone := oq_gone s1 @ [op]\<rparr>)
          else if \<not> oq_isOnline s1 \<and> length (oq_queue s1) < oq_maxQueueSize s1
          then finish_drain (s1\<lparr>oq_queue := insertSorted op (oq_queue s1)\<rparr>)
          else drain_next (s1\<lparr>oq_gone := oq_gone s1 @ [op]\<rparr>))"

definition markOffline :: "offline_queue \<Rightarrow> offline_queue" where
  "markOffline s = s\<lparr>oq_isOnline := False\<rparr>"

definition markOnline :: "offline_queue \<Rightarrow> offline_queue" where
  "markOnline s = (let s1 = s\<lparr>oq_isOnline := True\<rparr>
     in if oq_queue s1 \<noteq> [] then oq_drain s1 else s1)"

definition startHealthCheck :: "offline_queue \<Rightarrow> offline_queue" where
  "startHealthCheck s =
     (if \<not> oq_enabled s \<or> oq_polling s then s else s\<lparr>oq_polling := True\<rparr>)"

definition stopHealthCheck :: "offline_queue \<Rightarrow> offline_queue" where
  "stopHealthCheck s = (if oq_polling s then s\<lparr>oq_polling := False\<rparr> else s)"

text \<open>Whether a tick of the timer asks for the connection's health.\<close>

definition health_tick_checks :: "offline_queue \<Rightarrow> bool" where
  "health_tick_checks s \<longleftrightarrow> oq_polling s \<and> \<not> (oq_isOnline s \<or> oq_queue s = [])"

text \<open>The answer of a health check; an answer that throws counts as not healthy.\<close>

definition health_answer :: "bool \<Rightarrow> offline_queue \<Rightarrow> offline_queue" where
  "health_answer healthy s = (if healthy then oq_drain (s\<lparr>oq_isOnline := True\<rparr>) else s)"

definition oq_clear :: "offline_queue \<Rightarrow> offline_queue" where
  "oq_clear s = s\<lparr>oq_queue := [], oq_gone := oq_gone s @ oq_queue s\<rparr>"

datatype oq_event =
    OqEnqueue string string int int
  | OqDrain
  | OqSettled bool
  | OqOffline
  | OqOnline
  | OqStart
  | OqStop
  | OqHealth bool
  | OqClear

fun oq_step :: "oq_event \<Rightarrow> offline_queue \<Rightarrow> offline_queue" where
  "oq_step (OqEnqueue i p pr now) s = fst (oq_enqueue i p pr now s)"
| "oq_step OqDrain s = oq_drain s"
| "oq_step (OqSettled ok) s = oq_settled ok s"
| "oq_step OqOffline s = markOffline s"
| "oq_step OqOnline s = markOnline s"
| "oq_step OqStart s = startHealthCheck s"
| "oq_step OqStop s = stopHealthCheck s"
| "oq_step (OqHealth ok) s = health_answer ok s"
| "oq_step OqClear s = oq_clear s"

section \<open>Order, size and custody\<close>

text \<open>Replay order: higher priority first, equal priorities in insertion order.\<close>

definition replays_before :: "queued_op \<Rightarrow> queued_op \<Rightarrow> bool" where
  "replays_before a b \<longleftrightarrow> qo_priority b < qo_priority a \<or>
     (qo_priority a = qo_priority b \<and> qo_sequence a < qo_sequence b)"

definition held :: "offline_queue \<Rightarrow> queued_op list" where
  "held s = (case oq_executing s of None \<Rightarrow> [] | Some op \<Rightarrow> [op]) @ oq_queue s"

definition oq_inv :: "offline_queue \<Rightarrow> bool" where
  "oq_inv s \<longleftrightarrow> sorted_wrt replays_before (oq_queue s) \<and>
     length (oq_queue s) \<le> oq_maxQueueSize s \<and>
     mset (map qo_sequence (held s @ oq_gone s)) = mset [0..<oq_nextSequence s] \<and>
     (oq_executing s \<noteq> None \<longleftrightarrow> oq_isDraining s)"

lemma insertSorted_mset [simp]: "mset (insertSorted x xs) = add_mset x (mset xs)"
  by (induction xs) auto

lemma insertSorted_set [simp]: "set (insertSorted x xs) = insert x (set xs)"
  by (induction xs) auto

lemma insertSorted_length [simp]: "length (insertSorted x xs) = Suc (length xs)"
  by (induction xs) auto

lemma replays_before_trans: "replays_before a b \<Longrightarrow> replays_before b c \<Longrightarrow> replays_before a c"
  by (auto simp: replays_before_def)

lemma insertSorted_sorted:
  assumes "sorted_wrt replays_before xs" "qo_sequence x \<notin> qo_sequence ` set xs"
  shows "sorted_wrt replays_before (insertSorted x xs)"
  using assms
proof (induction xs)
  case Nil
  then show ?case by simp
next
  case (Cons y xs)
  show ?case
  proof (cases "goes_after y x")
    case True
    then have "replays_before x y" by (auto simp: goes_after_def replays_before_def)
    with Cons.prems(1) True show ?thesis by (auto intro: replays_before_trans)
  next
    case False
    with Cons.prems(2) have "replays_before y x" by (auto simp: goes_after_def replays_before_def)
    with False Cons show ?thesis by auto
  qed
qed

lemma fresh_sequence:
  assumes "oq_inv s"
  shows "oq_nextSequence s \<notin> qo_sequence ` set (held s @ oq_gone s)"
proof -
  have "set (map qo_sequence (held s @ oq_gone s)) = set [0..<oq_nextSequence s]"
    using assms unfolding oq_inv_def by (metis set_mset_mset)
  then show ?thesis by auto
qed

lemma distinct_sequences:
  assumes "oq_inv s"
  shows "distinct (map qo_sequence (held s @ oq_gone s))"
  using assms unfolding oq_inv_def by (metis distinct_upt mset_eq_imp_distinct_iff)

lemma drain_next_inv:
  assumes "sorted_wrt replays_before (oq_queue s)" "length (oq_queue s) \<le> oq_maxQueueSize s"
    "mset (map qo_sequence (oq_queue s @ oq_gone s)) = mset [0..<oq_nextSequence s]"
    "oq_executing s = None" "oq_isDraining s"
  shows "oq_inv (drain_next s)"
  using assms
  by (cases "oq_queue s") (auto simp: drain_next_def finish_drain_def oq_inv_def held_def)

lemma oq_drain_inv: "oq_inv s \<Longrightarrow> oq_inv (oq_drain s)"
  unfolding oq_drain_def
  by (auto intro!: drain_next_inv) (auto simp: oq_inv_def held_def split: option.splits)

lemma oq_enqueue_inv:
  assumes "oq_inv s"
  shows "oq_inv (fst (oq_enqueue i p pr now s))"
  using assms fresh_sequence [OF assms]
  by (auto simp: oq_enqueue_def oq_inv_def held_def Let_def atLeast0_lessThan_Suc
      intro!: insertSorted_sorted)

lemma oq_settled_inv:
  assumes "oq_inv s"
  shows "oq_inv (oq_settled ok s)"
proof (cases "oq_executing s")
  case None
  with assms show ?thesis by (simp add: oq_settled_def)
next
  case (Some op)
  have "qo_sequence op \<notin> qo_sequence ` set (oq_queue s)"
    using distinct_sequences [OF assms] Some by (auto simp: held_def)
  then have "sorted_wrt replays_before (insertSorted op (oq_queue s))"
    using assms by (simp add: insertSorted_sorted oq_inv_def)
  with Some assms show ?thesis
    by (auto simp: oq_settled_def Let_def oq_inv_def [of "finish_drain _"] finish_drain_def held_def
        intro!: drain_next_inv) (auto simp: oq_inv_def held_def ac_simps)
qed

lemma oq_step_inv: "oq_inv s \<Longrightarrow> oq_inv (oq_step e s)"
proof (cases e)
  case OqClear
  assume "oq_inv s"
  then show ?thesis unfolding OqClear
    by (auto simp: oq_clear_def oq_inv_def held_def ac_simps split: option.splits)
qed (auto simp: oq_enqueue_inv oq_settled_inv oq_drain_inv markOffline_def markOnline_def
    startHealthCheck_def stopHealthCheck_def health_answer_def Let_def
    intro!: oq_drain_inv, auto simp: oq_inv_def held_def)

interpretation oq: step_system oq_step oq_inv
  by unfold_locales (rule oq_step_inv)

lemma oq_max_step [simp]: "oq_maxQueueSize (oq_step e s) = oq_maxQueueSize s"
proof (cases e)
  case (OqSettled ok)
  then show ?thesis
    by (simp add: oq_settled_def drain_next_def finish_drain_def Let_def split: option.splits list.splits)
qed (simp_all add: oq_enqueue_def oq_drain_def drain_next_def finish_drain_def markOffline_def
    markOnline_def startHealthCheck_def stopHealthCheck_def health_answer_def oq_clear_def Let_def
    split: list.splits)

text \<open>
  C18. The offline queue keeps its order, its size and custody of every write: after any
  interleaving of enqueues, drains, settlements and connectivity changes the queue is in
  replay order (priority first, then insertion), never longer than its limit, and every
  accepted operation is exactly once among those executing, queued or finished.
\<close>
theorem offline_queue_custody:
  "let s = fold oq_step es (new_offline_queue enabled limit) in
     sorted_wrt replays_before (oq_queue s) \<and> length (oq_queue s) \<le> limit \<and>
     mset (map qo_sequence (held s @ oq_gone s)) = mset [0..<oq_nextSequence s]"
proof -
  let ?init = "new_offline_queue enabled limit"
  have "oq_inv ?init" by (simp add: oq_inv_def new_offline_queue_def held_def)
  with oq.run_inv [of ?init es] oq.run_const [of oq_maxQueueSize ?init es]
  show ?thesis by (simp add: Let_def oq_inv_def new_offline_queue_def)
qed

text \<open>
  What the queue does not keep: an operation that fails while the connection is up (or while
  the queue is full) is not put back, it only shows in the drain's results.
\<close>

lemma failed_while_online_is_dropped:
  assumes "oq_executing s = Some op" "oq_isOnline s"
  shows "op \<in> set (oq_gone (oq_settled False s)) \<and> oq_queue (oq_settled False s) = tl (oq_queue s)"
  using assms
  by (simp add: oq_settled_def drain_next_def finish_drain_def Let_def split: list.splits)

lemma failed_while_offline_is_requeued:
  assumes "oq_inv s" "oq_executing s = Some op" "\<not> oq_isOnline s"
    "length (oq_queue s) < oq_maxQueueSize s"
  shows "op \<in> set (oq_queue (oq_settled False s)) \<and> \<not> oq_isDraining (oq_settled False s)"
  using assms by (simp add: oq_settled_def finish_drain_def Let_def)

end
