(* ===== verification/TtlCache.thy ===== *)
theory TtlCache
  imports Prelude
begin

text \<open>
  The TTL/LRU cache of \<open>src/cache.ts\<close> and the value cache of \<open>src/scValCache.ts\<close>. The first
  key of the store is the least recently used one. Each operation reads its clock once; a
  cached value is never \<open>undefined\<close>.
\<close>

record 'v cache_entry =
  ce_value :: 'v
  ce_expiresAt :: int

record ('k, 'v) cache =
  ca_store :: "('k, 'v cache_entry) jsmap"
  ca_defaultTtlMs :: int
  ca_maxSize :: int
  ca_writesSincePrune :: nat

definition new_cache :: "int option \<Rightarrow> int option \<Rightarrow> ('k, 'v) cache" where
  "new_cache ttl size' =
     \<lparr>ca_store = [], ca_defaultTtlMs = (case ttl of Some t \<Rightarrow> t | None \<Rightarrow> 60000),
      ca_maxSize = (case size' of Some n \<Rightarrow> n | None \<Rightarrow> 1000), ca_writesSincePrune = 0\<rparr>"

definition cache_get :: "'k \<Rightarrow> int \<Rightarrow> ('k, 'v) cache \<Rightarrow> ('k, 'v) cache \<times> 'v option" where
  "cache_get key now c = (case map_get (ca_store c) key of
     None \<Rightarrow> (c, None)
   | Some e \<Rightarrow>
       if now > ce_expiresAt e then (c\<lparr>ca_store := map_del key (ca_store c)\<rparr>, None)
       else (c\<lparr>ca_store := map_set key e (map_del key (ca_store c))\<rparr>, Some (ce_value e)))"

definition cache_prune :: "int \<Rightarrow> ('k, 'v) cache \<Rightarrow> ('k, 'v) cache \<times> nat" where
  "cache_prune now c =
     (let kept = filter (\<lambda>(k, e). \<not> now > ce_expiresAt e) (ca_store c)
      in (c\<lparr>ca_writesSincePrune := 0, ca_store := kept\<rparr>, length (ca_store c) - length kept))"

text \<open>Making room for a key: its old entry goes, or the least recently used one if the store is full.\<close>

definition evict_lru :: "('k, 'v) jsmap \<Rightarrow> ('k, 'v) jsmap" where
  "evict_lru store = (case store of [] \<Rightarrow> [] | (lruKey, _) # _ \<Rightarrow> map_del lruKey store)"

definition room_for :: "'k \<Rightarrow> int \<Rightarrow> ('k, 'v) jsmap \<Rightarrow> ('k, 'v) jsmap" where
  "room_for key maxSize store =
     (if map_has store key then map_del key store
      else if int (length store) \<ge> maxSize then evict_lru store
      else store)"

definition cache_set :: "'k \<Rightarrow> 'v \<Rightarrow> int option \<Rightarrow> int \<Rightarrow> ('k, 'v) cache \<Rightarrow> ('k, 'v) cache" where
  "cache_set key v ttlMs now c0 =
     (let c1 = c0\<lparr>ca_writesSincePrune := ca_writesSincePrune c0 + 1\<rparr>;
          c = (if ca_writesSincePrune c1 \<ge> 100 then fst (cache_prune now c1) else c1)
      in c\<lparr>ca_store := map_set key
             \<lparr>ce_value = v,
              ce_expiresAt = now + (case ttlMs of Some t \<Rightarrow> t | None \<Rightarrow> ca_defaultTtlMs c)\<rparr>
             (room_for key (ca_maxSize c) (ca_store c))\<rparr>)"

definition cache_has :: "'k \<Rightarrow> int \<Rightarrow> ('k, 'v) cache \<Rightarrow> ('k, 'v) cache \<times> bool" where
  "cache_has key now c = (let (c', v) = cache_get key now c in (c', v \<noteq> None))"

definition cache_delete :: "'k \<Rightarrow> ('k, 'v) cache \<Rightarrow> ('k, 'v) cache \<times> bool" where
  "cache_delete key c = (c\<lparr>ca_store := map_del key (ca_store c)\<rparr>, map_has (ca_store c) key)"

definition cache_clear :: "('k, 'v) cache \<Rightarrow> ('k, 'v) cache" where
  "cache_clear c = c\<lparr>ca_store := [], ca_writesSincePrune := 0\<rparr>"

text \<open>
  String patterns: \<open>*\<close> stands for any characters but line breaks (\<open>.*\<close> of the regular
  expression the code builds), every other character for itself.
\<close>

fun glob_match :: "string \<Rightarrow> string \<Rightarrow> bool" where
  "glob_match [] [] = True"
| "glob_match [] (c # cs) = False"
| "glob_match (p # ps) [] = (p = CHR ''*'' \<and> glob_match ps [])"
| "glob_match (p # ps) (c # cs) =
     (if p = CHR ''*''
      then glob_match ps (c # cs) \<or> (c \<noteq> CHR 0x0A \<and> c \<noteq> CHR 0x0D \<and> glob_match (p # ps) cs)
      else p = c \<and> glob_match ps cs)"

definition invalidatePattern :: "('k \<Rightarrow> bool) \<Rightarrow> ('k, 'v) cache \<Rightarrow> ('k, 'v) cache \<times> nat" where
  "invalidatePattern matches c =
     (let kept = filter (\<lambda>(k, e). \<not> matches k) (ca_store c)
      in (c\<lparr>ca_store := kept\<rparr>, length (ca_store c) - length kept))"

definition invalidateGlob :: "string \<Rightarrow> (string, 'v) cache \<Rightarrow> (string, 'v) cache \<times> nat" where
  "invalidateGlob pattern = invalidatePattern (glob_match pattern)"

text \<open>The eviction loop of \<open>setMaxSize\<close> drops first keys until the store fits or is empty.\<close>

fun shrink_store :: "int \<Rightarrow> ('k, 'v cache_entry) jsmap \<Rightarrow> ('k, 'v cache_entry) jsmap" where
  "shrink_store n [] = []"
| "shrink_store n (p # store) =
     (if int (length (p # store)) > n then shrink_store n store else p # store)"

definition cache_setMaxSize :: "int \<Rightarrow> ('k, 'v) cache \<Rightarrow> ('k, 'v) cache" where
  "cache_setMaxSize n c = c\<lparr>ca_maxSize := n, ca_store := shrink_store n (ca_store c)\<rparr>"

definition cache_setTtl :: "int \<Rightarrow> ('k, 'v) cache \<Rightarrow> ('k, 'v) cache" where
  "cache_setTtl t c = c\<lparr>ca_defaultTtlMs := t\<rparr>"

section \<open>Steps and capacity\<close>

datatype ('k, 'v) cache_event =
    CaGet 'k int
  | CaHas 'k int
  | CaSet 'k 'v "int option" int
  | CaDelete 'k
  | CaClear
  | CaPrune int
  | CaInvalidate "'k list"
  | CaSetMax int
  | CaSetTtl int

fun cache_step :: "('k, 'v) cache_event \<Rightarrow> ('k, 'v) cache \<Rightarrow> ('k, 'v) cache" where
  "cache_step (CaGet k now) c = fst (cache_get k now c)"
| "cache_step (CaHas k now) c = fst (cache_has k now c)"
| "cache_step (CaSet k v ttl now) c = cache_set k v ttl now c"
| "cache_step (CaDelete k) c = fst (cache_delete k c)"
| "cache_step CaClear c = cache_clear c"
| "cache_step (CaPrune now) c = fst (cache_prune now c)"
| "cache_step (CaInvalidate ks) c = fst (invalidatePattern (\<lambda>k. List.member ks k) c)"
| "cache_step (CaSetMax n) c = cache_setMaxSize n c"
| "cache_step (CaSetTtl t) c = cache_setTtl t c"

definition cache_inv :: "('k, 'v) cache \<Rightarrow> bool" where
  "cache_inv c \<longleftrightarrow> distinct (map_keys (ca_store c)) \<and>
     int (length (ca_store c)) \<le> max 1 (ca_maxSize c)"

lemma evict_lru_tl: "distinct (map_keys store) \<Longrightarrow> evict_lru store = tl store"
  by (cases store) (auto simp: evict_lru_def map_del_notin image_iff)

lemma distinct_tl_keys: "distinct (map_keys store) \<Longrightarrow> distinct (map_keys (tl store))"
  by (simp add: map_tl distinct_tl)

lemma room_for_fresh:
  assumes "distinct (map_keys store)"
  shows "key \<notin> set (map_keys (room_for key n store))" "distinct (map_keys (room_for key n store))"
proof -
  have "set (map_keys (tl store)) \<subseteq> set (map_keys store)" by (cases store) auto
  then show "key \<notin> set (map_keys (room_for key n store))"
    using assms by (cases "key \<in> set (map_keys store)") (simp add: room_for_def map_keys_del,
        auto simp: room_for_def evict_lru_tl)
  show "distinct (map_keys (room_for key n store))"
    using assms distinct_tl_keys [OF assms] by (simp add: room_for_def evict_lru_tl)
qed

lemma room_for_length:
  assumes "distinct (map_keys store)" "int (length store) \<le> max 1 n"
  shows "int (length (room_for key n store)) + 1 \<le> max 1 n"
proof (cases "key \<in> set (map_keys store)")
  case True
  then have "0 < length store" by (cases store) auto
  with True assms show ?thesis by (simp add: room_for_def length_map_del of_nat_diff)
next
  case False
  with assms show ?thesis by (cases store) (auto simp: room_for_def evict_lru_tl)
qed

lemma shrink_store_spec:
  "int (length (shrink_store n store)) \<le> max 0 n"
  "distinct (map_keys store) \<Longrightarrow> distinct (map_keys (shrink_store n store))"
  by (induction store) auto

lemma touch_length:
  assumes "distinct (map_keys m)" "map_get m k = Some v"
  shows "length (map_set k v (map_del k m)) = length m"
proof -
  have "k \<in> set (map_keys m)" using assms(2) by (metis map_of_eq_None_iff option.distinct(1) list.set_map)
  moreover from this have "0 < length m" by (cases m) auto
  ultimately show ?thesis using assms(1) by (simp add: length_map_set map_keys_del length_map_del)
qed

lemma cache_step_inv:
  assumes "cache_inv c"
  shows "cache_inv (cache_step e c)"
proof -
  have get: "cache_inv (fst (cache_get k now c))" for k now
    using assms touch_length [of "ca_store c" k] length_map_del [of "ca_store c" k]
    by (auto simp: cache_get_def cache_inv_def split: option.splits)
  have short: "cache_inv (c\<lparr>ca_writesSincePrune := w, ca_store := filter P (ca_store c)\<rparr>)" for P w
    using assms length_filter_le [of P "ca_store c"]
    by (auto simp: cache_inv_def distinct_map_filter simp del: length_filter_le)
  show ?thesis
  proof (cases e)
    case (CaSet k v ttl now)
    let ?c1 = "c\<lparr>ca_writesSincePrune := ca_writesSincePrune c + 1\<rparr>"
    let ?c = "if ca_writesSincePrune ?c1 \<ge> 100 then fst (cache_prune now ?c1) else ?c1"
    have "cache_inv ?c" using short assms by (auto simp: cache_prune_def Let_def cache_inv_def)
    with room_for_fresh [of "ca_store ?c" k "ca_maxSize ?c"]
      room_for_length [of "ca_store ?c" "ca_maxSize ?c" k]
    show ?thesis unfolding CaSet cache_step.simps cache_set_def Let_def cache_inv_def
      by (simp only: cache.simps) (simp add: length_map_set)
  next
    case (CaSetMax n)
    with assms shrink_store_spec [where n = n and store = "ca_store c"] show ?thesis
      by (auto simp: cache_setMaxSize_def cache_inv_def)
  next
    case (CaDelete k)
    with assms length_map_del [of "ca_store c" k] show ?thesis
      by (auto simp: cache_delete_def cache_inv_def)
  next
    case (CaInvalidate ks)
    have "cache_inv (c\<lparr>ca_store := filter P (ca_store c)\<rparr>)" for P
      using assms length_filter_le [of P "ca_store c"]
      by (auto simp: cache_inv_def distinct_map_filter simp del: length_filter_le)
    with CaInvalidate show ?thesis by (simp add: invalidatePattern_def Let_def)
  qed (use get short assms in \<open>auto simp: cache_has_def cache_prune_def cache_clear_def
      cache_setTtl_def case_prod_beta Let_def\<close>, auto simp: cache_inv_def)
qed

interpretation ca: step_system cache_step cache_inv
  by unfold_locales (rule cache_step_inv)

section \<open>Recency\<close>

text \<open>The key's entry, with at most \<open>i\<close> entries used after it.\<close>

definition recent :: "'k \<Rightarrow> 'v cache_entry \<Rightarrow> nat \<Rightarrow> ('k, 'v cache_entry) jsmap \<Rightarrow> bool" where
  "recent k e i store \<longleftrightarrow> (\<exists>xs ys. store = xs @ (k, e) # ys \<and> length ys \<le> i)"

lemma recent_get: "recent k e i store \<Longrightarrow> distinct (map_keys store) \<Longrightarrow> map_get store k = Some e"
  by (auto simp: recent_def map_add_def map_of_eq_None_iff split: option.splits)

lemma recent_filter: "recent k e i store \<Longrightarrow> P (k, e) \<Longrightarrow> recent k e i (filter P store)"
  unfolding recent_def
proof (elim exE conjE)
  fix xs ys assume "P (k, e)" "store = xs @ (k, e) # ys" "length ys \<le> i"
  then show "\<exists>xs ys. filter P store = xs @ (k, e) # ys \<and> length ys \<le> i"
    by (intro exI [of _ "filter P xs"] exI [of _ "filter P ys"]) (simp add: le_trans [OF length_filter_le])
qed

lemma recent_del: "recent k e i store \<Longrightarrow> j \<noteq> k \<Longrightarrow> recent k e i (map_del j store)"
  by (simp add: AList.delete_eq recent_filter)

lemma recent_snoc: "recent k e i store \<Longrightarrow> recent k e (Suc i) (store @ [p])"
  unfolding recent_def
proof (elim exE conjE)
  fix xs ys assume "store = xs @ (k, e) # ys" "length ys \<le> i"
  then show "\<exists>xs ys. store @ [p] = xs @ (k, e) # ys \<and> length ys \<le> Suc i"
    by (intro exI [of _ xs] exI [of _ "ys @ [p]"]) simp
qed

lemma recent_room:
  assumes "recent k e i store" "distinct (map_keys store)" "j \<noteq> k" "int i + 1 < n"
  shows "recent k e i (room_for j n store)"
proof (cases "j \<in> set (map_keys store) \<or> int (length store) < n")
  case True
  with assms show ?thesis by (auto simp: room_for_def recent_del)
next
  case False
  obtain xs ys where s: "store = xs @ (k, e) # ys" "length ys \<le> i" using assms(1) by (auto simp: recent_def)
  with False assms(4) obtain x xs' where "xs = x # xs'" by (cases xs) auto
  with False s assms(2) have "room_for j n store = xs' @ (k, e) # ys"
    by (simp add: room_for_def evict_lru_tl)
  with s(2) show ?thesis by (auto simp: recent_def)
qed

fun cache_use_ok :: "'k \<Rightarrow> int \<Rightarrow> ('k, 'v) cache_event \<Rightarrow> bool" where
  "cache_use_ok k t (CaGet j now) \<longleftrightarrow> now \<le> t"
| "cache_use_ok k t (CaHas j now) \<longleftrightarrow> now \<le> t"
| "cache_use_ok k t (CaSet j v ttl now) \<longleftrightarrow> j \<noteq> k \<and> now \<le> t"
| "cache_use_ok k t (CaPrune now) \<longleftrightarrow> now \<le> t"
| "cache_use_ok k t (CaSetTtl d) \<longleftrightarrow> True"
| "cache_use_ok k t (CaDelete j) \<longleftrightarrow> j \<noteq> k"
| "cache_use_ok k t _ \<longleftrightarrow> False"

lemma get_recent:
  assumes "recent k e i (ca_store c)" "distinct (map_keys (ca_store c))" "now \<le> ce_expiresAt e"
  shows "recent k e (Suc i) (ca_store (fst (cache_get j now c)))"
proof (cases "j = k")
  case True
  with assms recent_get [OF assms(1,2)] have
    "ca_store (fst (cache_get j now c)) = map_del k (ca_store c) @ [(k, e)]"
    by (simp add: cache_get_def map_set_fresh map_keys_del)
  then show ?thesis unfolding recent_def by (intro exI [of _ "map_del k (ca_store c)"] exI [of _ "[]"]) simp
next
  case False
  show ?thesis
  proof (cases "map_get (ca_store c) j")
    case None
    with assms(1) show ?thesis by (auto simp: cache_get_def recent_def intro: le_SucI)
  next
    case (Some f)
    have "recent k e i (map_del j (ca_store c))" using assms(1) False by (rule recent_del)
    then have "recent k e (Suc i) (map_del j (ca_store c))"
      "recent k e (Suc i) (map_del j (ca_store c) @ [(j, f)])"
      by (auto simp: recent_snoc) (auto simp: recent_def intro: le_SucI)
    with Some show ?thesis by (simp add: cache_get_def map_set_fresh map_keys_del)
  qed
qed

text \<open>What a write leaves: a pruned or unpruned store with room made, and the key at the end.\<close>

lemma cache_set_store:
  assumes "distinct (map_keys (ca_store c))"
  shows "\<exists>store. (store = ca_store c \<or> store = filter (\<lambda>(k, e). \<not> now > ce_expiresAt e) (ca_store c)) \<and>
    ca_store (cache_set j v ttl now c) = room_for j (ca_maxSize c) store @
      [(j, \<lparr>ce_value = v, ce_expiresAt = now + (case ttl of Some t \<Rightarrow> t | None \<Rightarrow> ca_defaultTtlMs c)\<rparr>)]"
proof -
  have shape: "map_set j f (room_for j n store) = room_for j n store @ [(j, f)]"
    if "distinct (map_keys store)" for f n and store :: "('a, 'b cache_entry) jsmap"
    by (rule map_set_fresh) (rule room_for_fresh [OF that])
  show ?thesis
    using shape [OF assms] shape [OF distinct_map_filter [OF assms]]
    by (intro exI [of _ "if ca_writesSincePrune c + 1 \<ge> 100
          then filter (\<lambda>(k, e). \<not> now > ce_expiresAt e) (ca_store c) else ca_store c"])
      (cases ttl; simp add: cache_set_def cache_prune_def Let_def)
qed

lemma set_recent:
  assumes "recent k e i (ca_store c)" "distinct (map_keys (ca_store c))" "now \<le> ce_expiresAt e"
    "j \<noteq> k" "int i + 1 < ca_maxSize c"
  shows "recent k e (Suc i) (ca_store (cache_set j v ttl now c))"
proof -
  obtain store where store: "store = ca_store c \<or> store = filter (\<lambda>(k, e). \<not> now > ce_expiresAt e) (ca_store c)"
    and after: "ca_store (cache_set j v ttl now c) = room_for j (ca_maxSize c) store @
      [(j, \<lparr>ce_value = v, ce_expiresAt = now + (case ttl of Some t \<Rightarrow> t | None \<Rightarrow> ca_defaultTtlMs c)\<rparr>)]"
    using cache_set_store [OF assms(2), of now j v ttl] by blast
  have "recent k e i store" "distinct (map_keys store)"
    using store assms(1-3) by (auto simp: distinct_map_filter intro: recent_filter)
  then have "recent k e i (room_for j (ca_maxSize c) store)"
    using assms(4,5) by (rule recent_room)
  then show ?thesis unfolding after by (rule recent_snoc)
qed

lemma step_recent:
  assumes "cache_inv c" "recent k e i (ca_store c)" "cache_use_ok k (ce_expiresAt e) ev"
    "int i + 1 < ca_maxSize c"
  shows "recent k e (Suc i) (ca_store (cache_step ev c)) \<and> ca_maxSize (cache_step ev c) = ca_maxSize c"
proof -
  have dist: "distinct (map_keys (ca_store c))" using assms(1) by (simp add: cache_inv_def)
  have weak: "recent k e (Suc i) store" if "recent k e i store" for store :: "('a, 'b cache_entry) jsmap"
    using that by (auto simp: recent_def intro: le_SucI)
  show ?thesis
  proof (cases ev)
    case (CaSet j v ttl now)
    with assms dist set_recent [of k e i c now j v ttl] show ?thesis
      by (simp add: cache_set_def cache_prune_def Let_def)
  next
    case (CaGet j now)
    with assms dist get_recent [of k e i c now j] show ?thesis
      by (auto simp: cache_get_def split: option.splits)
  next
    case (CaHas j now)
    with assms dist get_recent [of k e i c now j] show ?thesis
      by (auto simp: cache_has_def cache_get_def case_prod_beta Let_def split: option.splits)
  next
    case (CaDelete j)
    with assms show ?thesis by (auto simp: cache_delete_def intro: weak recent_del)
  next
    case (CaPrune now)
    with assms show ?thesis by (auto simp: cache_prune_def Let_def intro!: weak recent_filter)
  qed (use assms in \<open>auto simp: cache_setTtl_def intro: weak\<close>)
qed

lemma run_recent:
  assumes "cache_inv c" "recent k e i (ca_store c)"
    "\<forall>ev \<in> set es. cache_use_ok k (ce_expiresAt e) ev" "int i + int (length es) < ca_maxSize c"
  shows "recent k e (i + length es) (ca_store (fold cache_step es c))"
  using assms
proof (induction es arbitrary: i c)
  case Nil
  then show ?case by simp
next
  case (Cons ev es)
  with step_recent [of c k e i ev] have
    "recent k e (Suc i) (ca_store (cache_step ev c)) \<and> ca_maxSize (cache_step ev c) = ca_maxSize c"
    by simp
  with Cons.IH [of "cache_step ev c" "Suc i"] Cons.prems cache_step_inv [OF Cons.prems(1), of ev]
  show ?case by simp
qed

text \<open>
  The cache evicts by recency: a value just written is still there after any fewer than
  \<open>maxSize\<close> further reads, writes of other keys and prunes within its lifetime, and the cache
  never holds more than \<open>maxSize\<close> entries (one, if the limit is not positive).
\<close>
theorem cache_keeps_recent:
  assumes "cache_inv c" "int (length es) < ca_maxSize c"
    "\<forall>ev \<in> set es. cache_use_ok k (now + ttl) ev" "t \<le> now + ttl"
  shows "snd (cache_get k t (fold cache_step es (cache_set k v (Some ttl) now c))) = Some v \<and>
    int (length (ca_store (fold cache_step es (cache_set k v (Some ttl) now c)))) \<le>
      max 1 (ca_maxSize (fold cache_step es (cache_set k v (Some ttl) now c)))"
proof -
  let ?e = "\<lparr>ce_value = v, ce_expiresAt = now + ttl\<rparr>"
  let ?c' = "cache_set k v (Some ttl) now c"
  have inv: "cache_inv ?c'" using cache_step_inv [OF assms(1), of "CaSet k v (Some ttl) now"] by simp
  have "\<exists>xs. ca_store ?c' = xs @ [(k, ?e)]"
    using cache_set_store [of c now k v "Some ttl"] assms(1) by (auto simp: cache_inv_def)
  then have "recent k ?e 0 (ca_store ?c')" by (auto simp: recent_def)
  moreover have "ca_maxSize ?c' = ca_maxSize c" by (simp add: cache_set_def cache_prune_def Let_def)
  ultimately have "recent k ?e (0 + length es) (ca_store (fold cache_step es ?c'))"
    using run_recent [OF inv, of k ?e 0 es] assms(2,3) by simp
  moreover have final: "cache_inv (fold cache_step es ?c')" by (rule ca.run_inv [OF inv])
  ultimately have "map_get (ca_store (fold cache_step es ?c')) k = Some ?e"
    by (simp add: recent_get cache_inv_def)
  with final assms(4) show ?thesis by (simp add: cache_get_def cache_inv_def)
qed

theorem cache_keeps_recent_witness:
  "snd (cache_get ''a'' 40 (fold cache_step [CaSet ''b'' 2 None 10, CaSet ''c'' (3::int) None 20]
     (cache_set ''a'' 1 (Some 50) 0 (new_cache (Some 5) (Some 3))))) = Some 1"
  by (rule cache_keeps_recent [THEN conjunct1])
    (simp_all add: new_cache_def cache_inv_def)

text \<open>An expired entry is not returned and leaves the store.\<close>

lemma expired_is_gone:
  assumes "map_get (ca_store c) k = Some e" "ce_expiresAt e < now"
  shows "snd (cache_get k now c) = None \<and> map_get (ca_store (fst (cache_get k now c))) k = None"
  using assms by (simp add: cache_get_def)

section \<open>The value cache\<close>

text \<open>
  \<open>ScValCache\<close>: the key is the type and the printed value, \<open>native\<close> is the conversion of the
  Stellar SDK.
\<close>

record 's scval_cache =
  sv_cache :: "(string, 's) jsmap"
  sv_maxSize :: int

definition new_scval_cache :: "int option \<Rightarrow> 's scval_cache" where
  "new_scval_cache n = \<lparr>sv_cache = [], sv_maxSize = (case n of Some m \<Rightarrow> m | None \<Rightarrow> 256)\<rparr>"

definition scval_key :: "string \<Rightarrow> string \<Rightarrow> string" where
  "scval_key val ty = ty @ '':'' @ val"

definition scval_get ::
    "(string \<Rightarrow> string \<Rightarrow> 's) \<Rightarrow> string \<Rightarrow> string \<Rightarrow> 's scval_cache \<Rightarrow> 's scval_cache \<times> 's" where
  "scval_get native val ty c =
     (let key = scval_key val ty
      in case map_get (sv_cache c) key of
        Some cached \<Rightarrow> (c\<lparr>sv_cache := map_set key cached (map_del key (sv_cache c))\<rparr>, cached)
      | None \<Rightarrow>
          let scVal = native val ty;
              store = (if int (length (sv_cache c)) \<ge> sv_maxSize c
                       then evict_lru (sv_cache c) else sv_cache c)
          in (c\<lparr>sv_cache := map_set key scVal store\<rparr>, scVal))"

definition cachedScValBase64 ::
    "(string \<Rightarrow> string \<Rightarrow> string) \<Rightarrow> string \<Rightarrow> string \<Rightarrow> (string, string) jsmap
     \<Rightarrow> (string, string) jsmap \<times> string" where
  "cachedScValBase64 encode val ty m =
     (let key = scval_key val ty
      in case map_get m key of
        Some cached \<Rightarrow> (m, cached)
      | None \<Rightarrow> (map_set key (encode val ty) m, encode val ty))"

text \<open>The cache is transparent: it answers what the conversion answers, for colon-free types.\<close>

definition scval_coherent :: "(string \<Rightarrow> string \<Rightarrow> 's) \<Rightarrow> 's scval_cache \<Rightarrow> bool" where
  "scval_coherent native c \<longleftrightarrow> (\<forall>val ty x. CHR '':'' \<notin> set ty \<longrightarrow>
     map_get (sv_cache c) (scval_key val ty) = Some x \<longrightarrow> x = native val ty)"

lemma scval_key_inject:
  assumes "scval_key v t = scval_key v' t'" "CHR '':'' \<notin> set t" "CHR '':'' \<notin> set t'"
  shows "v = v' \<and> t = t'"
proof -
  have "takeWhile (\<lambda>c. c \<noteq> CHR '':'') (scval_key v t) = t"
    if "CHR '':'' \<notin> set t" for v t using that by (induction t) (auto simp: scval_key_def)
  with assms have "t = t'" by metis
  with assms(1) show ?thesis by (simp add: scval_key_def)
qed

lemma evict_lru_get: "map_get (evict_lru m) k = Some x \<Longrightarrow> map_get m k = Some x"
  by (auto simp: evict_lru_def split: list.splits if_splits)

lemma scval_transparent:
  assumes "scval_coherent native c" "CHR '':'' \<notin> set ty"
  shows "snd (scval_get native val ty c) = native val ty \<and>
    scval_coherent native (fst (scval_get native val ty c))"
  using assms
  by (auto simp: scval_get_def Let_def scval_coherent_def
      dest: scval_key_inject evict_lru_get split: option.splits if_splits)

end
