(* ===== verification/Simulator.thy ===== *)
theory Simulator
  imports MockProps
begin

text \<open>
  The stream simulator of \<open>src/simulator.ts\<close>: a virtual clock and ledger, expiry callbacks and
  storage lifetimes. \<open>real\<close> is \<open>Math.floor(Date.now() / 1000)\<close>. \<open>sim_fired\<close> is the order in
  which expiry callbacks ran. Its \<open>claimableAt\<close> is the third provider of the accrual contract.
\<close>

datatype sim_error =
  LedgerNegative | LedgersNegative | SecondsNegative | ExpiresAtNegative

record simulator =
  clockOffsetSeconds :: int
  currentLedgerSeq :: int
  expiryCallbacks :: "string list"
  firedExpiry :: "string list"
  storageTtl :: "(string, int) jsmap"
  storageTtlLedger :: "(string, int) jsmap"
  sim_fired :: "stream list"

definition new_simulator :: simulator where
  "new_simulator = \<lparr>clockOffsetSeconds = 0, currentLedgerSeq = 0, expiryCallbacks = [],
     firedExpiry = [], storageTtl = [], storageTtlLedger = [], sim_fired = []\<rparr>"

definition sim_now :: "int \<Rightarrow> simulator \<Rightarrow> int" where
  "sim_now real s = real + clockOffsetSeconds s"

definition setLedger :: "int \<Rightarrow> simulator \<Rightarrow> simulator \<times> (sim_error + unit)" where
  "setLedger ledger s =
     (if ledger < 0 then (s, Inl LedgerNegative) else (s\<lparr>currentLedgerSeq := ledger\<rparr>, Inr ()))"

definition advanceLedgers :: "int \<Rightarrow> simulator \<Rightarrow> simulator \<times> (sim_error + unit)" where
  "advanceLedgers ledgers s =
     (if ledgers < 0 then (s, Inl LedgersNegative)
      else (s\<lparr>currentLedgerSeq := currentLedgerSeq s + ledgers\<rparr>, Inr ()))"

text \<open>One iteration of the expiry loop; a callback that is not registered is not called.\<close>

definition fire_expiry :: "int \<Rightarrow> simulator \<Rightarrow> stream \<Rightarrow> simulator" where
  "fire_expiry now s st =
     (if \<not> List.member (firedExpiry s) (stream_id st) \<and> now \<ge> endTime st
      then s\<lparr>firedExpiry := firedExpiry s @ [stream_id st],
             sim_fired := (if List.member (expiryCallbacks s) (stream_id st)
                           then sim_fired s @ [st] else sim_fired s)\<rparr>
      else s)"

definition advance ::
    "int \<Rightarrow> int \<Rightarrow> stream list \<Rightarrow> int option \<Rightarrow> simulator \<Rightarrow> simulator \<times> (sim_error + unit)" where
  "advance real seconds streams ledgers s =
     (if seconds < 0 then (s, Inl SecondsNegative)
      else
        let s1 = s\<lparr>clockOffsetSeconds := clockOffsetSeconds s + seconds\<rparr>
        in if (case ledgers of Some l \<Rightarrow> l < 0 | None \<Rightarrow> False) then (s1, Inl LedgersNegative)
           else
             let s2 = (case ledgers of
                    Some l \<Rightarrow> s1\<lparr>currentLedgerSeq := currentLedgerSeq s1 + l\<rparr> | None \<Rightarrow> s1)
             in (foldl (fire_expiry (sim_now real s2)) s2 streams, Inr ()))"

definition onExpire :: "string \<Rightarrow> simulator \<Rightarrow> simulator" where
  "onExpire k s = s\<lparr>expiryCallbacks := set_add k (expiryCallbacks s)\<rparr>"

definition sim_claimable :: "stream \<Rightarrow> int \<Rightarrow> sdk_error + int" where
  "sim_claimable s now =
     (if status s = Cancelled \<or> status s = Completed then Inr 0
      else if (case lockUntil s of Some l \<Rightarrow> now < l | None \<Rightarrow> False) then Inr 0
      else if status s = Paused then
        let effectiveNow = min (case pausedAt s of Some p \<Rightarrow> p | None \<Rightarrow> now) (endTime s)
        in safeClaimable (flowRate s) (max 0 (effectiveNow - lastWithdrawTime s)) (Some (deposit s))
      else
        let effectiveNow = min now (endTime s)
        in safeClaimable (flowRate s) (max 0 (effectiveNow - lastWithdrawTime s)) (Some (deposit s)))"

definition simClaimableAt :: "int \<Rightarrow> simulator \<Rightarrow> stream \<Rightarrow> sdk_error + int" where
  "simClaimableAt real sim s = sim_claimable s (sim_now real sim)"

definition setStorageTtl :: "string \<Rightarrow> int \<Rightarrow> simulator \<Rightarrow> simulator \<times> (sim_error + unit)" where
  "setStorageTtl k expiresAt s =
     (if expiresAt < 0 then (s, Inl ExpiresAtNegative)
      else (s\<lparr>storageTtl := map_set k expiresAt (storageTtl s)\<rparr>, Inr ()))"

definition clearStorageTtl :: "string \<Rightarrow> simulator \<Rightarrow> simulator" where
  "clearStorageTtl k s = s\<lparr>storageTtl := map_del k (storageTtl s)\<rparr>"

definition setStorageTtlLedger :: "string \<Rightarrow> int \<Rightarrow> simulator \<Rightarrow> simulator \<times> (sim_error + unit)" where
  "setStorageTtlLedger k ledger s =
     (if ledger < 0 then (s, Inl LedgerNegative)
      else (s\<lparr>storageTtlLedger := map_set k ledger (storageTtlLedger s)\<rparr>, Inr ()))"

definition clearStorageTtlLedger :: "string \<Rightarrow> simulator \<Rightarrow> simulator" where
  "clearStorageTtlLedger k s = s\<lparr>storageTtlLedger := map_del k (storageTtlLedger s)\<rparr>"

definition reached :: "int option \<Rightarrow> int \<Rightarrow> bool" where
  "reached expiry now \<longleftrightarrow> (case expiry of Some e \<Rightarrow> now \<ge> e | None \<Rightarrow> False)"

definition isStorageExpired :: "string \<Rightarrow> int \<Rightarrow> simulator \<Rightarrow> bool" where
  "isStorageExpired k at s =
     (if reached (map_get (storageTtl s) k) at then True
      else reached (map_get (storageTtlLedger s) k) (currentLedgerSeq s))"

datatype withdraw_failure = StorageExpired | StreamNotActive | InsufficientClaimable

record withdraw_simulation =
  ws_success :: bool
  ws_amount :: int
  ws_claimable :: int
  ws_reason :: "withdraw_failure option"
  ws_ledger :: int

definition simulateWithdraw ::
    "int \<Rightarrow> stream \<Rightarrow> int option \<Rightarrow> int option \<Rightarrow> simulator \<Rightarrow> sdk_error + withdraw_simulation" where
  "simulateWithdraw real s amount ledgerOpt sim =
     rbind (simClaimableAt real sim s) (\<lambda>claimable.
       let ledger = (case ledgerOpt of Some l \<Rightarrow> l | None \<Rightarrow> currentLedgerSeq sim);
           fail = (\<lambda>reason. \<lparr>ws_success = False, ws_amount = 0, ws_claimable = claimable,
                            ws_reason = Some reason, ws_ledger = ledger\<rparr>);
           timestampExpired = reached (map_get (storageTtl sim) (stream_id s)) (sim_now real sim);
           ledgerExpired = reached (map_get (storageTtlLedger sim) (stream_id s)) ledger
       in if timestampExpired then Inr (fail StorageExpired)
          else if ledgerExpired then Inr (fail StorageExpired)
          else if status s = Cancelled \<or> status s = Completed then Inr (fail StreamNotActive)
          else
            let target = (case amount of Some a \<Rightarrow> a | None \<Rightarrow> claimable)
            in if target > claimable then Inr (fail InsufficientClaimable)
               else Inr \<lparr>ws_success = True, ws_amount = target, ws_claimable = claimable,
                         ws_reason = None, ws_ledger = ledger\<rparr>)"

definition sim_reset :: "simulator \<Rightarrow> simulator" where
  "sim_reset s = s\<lparr>clockOffsetSeconds := 0, currentLedgerSeq := 0, firedExpiry := [],
     storageTtl := [], storageTtlLedger := []\<rparr>"

datatype sim_event =
    SmLedger int
  | SmLedgers int
  | SmAdvance int int "stream list" "int option"
  | SmOnExpire string
  | SmTtl string int
  | SmClearTtl string
  | SmTtlLedger string int
  | SmClearTtlLedger string

fun sim_step :: "sim_event \<Rightarrow> simulator \<Rightarrow> simulator" where
  "sim_step (SmLedger l) s = fst (setLedger l s)"
| "sim_step (SmLedgers l) s = fst (advanceLedgers l s)"
| "sim_step (SmAdvance real secs sts l) s = fst (advance real secs sts l s)"
| "sim_step (SmOnExpire k) s = onExpire k s"
| "sim_step (SmTtl k e) s = fst (setStorageTtl k e s)"
| "sim_step (SmClearTtl k) s = clearStorageTtl k s"
| "sim_step (SmTtlLedger k l) s = fst (setStorageTtlLedger k l s)"
| "sim_step (SmClearTtlLedger k) s = clearStorageTtlLedger k s"

section \<open>The balance contract\<close>

interpretation sim: accrual sim_claimable
proof unfold_locales
  fix s t
  show "terminal (status s) \<Longrightarrow> sim_claimable s t = Inr 0"
    by (auto simp: sim_claimable_def terminal_def)
  show "status s = Active \<Longrightarrow> lockUntil s = None \<Longrightarrow>
      sim_claimable s t = safeClaimable (flowRate s) (elapsed_at s t) (Some (deposit s))"
    by (simp add: sim_claimable_def elapsed_at_def)
  show "wf_stream s \<Longrightarrow> \<exists>v. sim_claimable s t = Inr v \<and> 0 \<le> v \<and> v \<le> deposit s"
    by (auto simp: sim_claimable_def wf_stream_def Let_def safeClaimable_capped accrued_bounds)
qed

interpretation sim_mock: accrual_pair sim_claimable claimableAt ..

text \<open>The simulator and the mock compute the same balance in every state, locks and pauses included.\<close>

lemma sim_claimable_mock: "sim_claimable s t = claimableAt s t"
  by (simp add: sim_claimable_def claimableAt_def Let_def)

text \<open>
  A simulated withdrawal predicts the real one: if the simulator lets an active stream withdraw
  its whole balance, the mock client's withdrawal at that time succeeds and pays exactly the
  simulated amount.
\<close>
theorem simulated_withdraw_agrees:
  assumes "simulateWithdraw real s None ledger sim = Inr r" "ws_success r"
    "map_get (m_streams m) k = Some s" "status s = Active" "\<not> o_explain opts"
  shows "\<exists>m' w. withdraw (sim_now real sim) k opts m = (m', Inr (Executed w)) \<and>
    w_amount w = string_of_int (ws_amount r)"
proof -
  from assms(1,2) have "simClaimableAt real sim s = Inr (ws_amount r)"
    by (auto simp: simulateWithdraw_def rbind_Inr_iff Let_def split: if_splits)
  then have "claimableAt s (sim_now real sim) = Inr (ws_amount r)"
    by (simp add: simClaimableAt_def sim_claimable_mock)
  with assms(3-5) show ?thesis by (auto simp: withdraw_def Let_def)
qed

theorem simulated_withdraw_agrees_witness:
  "\<exists>r m' w. simulateWithdraw 10 (new_stream ''1'' ''GS'' ''GR'' ''GT'' 1000 10 0 100 False None)
       None None (fst (advance 10 20 [] None new_simulator)) = Inr r \<and>
     withdraw 30 ''1'' plain_options sample_mock = (m', Inr (Executed w)) \<and>
     w_amount w = string_of_int (ws_amount r)"
proof -
  let ?s = "new_stream ''1'' ''GS'' ''GR'' ''GT'' 1000 10 0 100 False None"
  let ?sim = "fst (advance 10 20 [] None new_simulator)"
  obtain r where r: "simulateWithdraw 10 ?s None None ?sim = Inr r" "ws_success r"
    by (simp add: simulateWithdraw_def simClaimableAt_def sim_claimable_def sim_now_def advance_def
        new_simulator_def reached_def safeClaimable_def I128_MAX_def)
  have "sim_now 10 ?sim = 30" by (simp add: sim_now_def advance_def new_simulator_def)
  with simulated_withdraw_agrees [OF r sample_mock_get, of plain_options] r(1) show ?thesis
    by (auto simp: plain_options_def)
qed

section \<open>Expiry callbacks\<close>

definition sim_inv :: "simulator \<Rightarrow> bool" where
  "sim_inv s \<longleftrightarrow> distinct (firedExpiry s) \<and> distinct (map stream_id (sim_fired s)) \<and>
     stream_id ` set (sim_fired s) \<subseteq> set (firedExpiry s)"

lemma fire_expiry_inv: "sim_inv s \<Longrightarrow> sim_inv (fire_expiry now s st)"
  by (auto simp: sim_inv_def fire_expiry_def)

lemma fire_all_inv: "sim_inv s \<Longrightarrow> sim_inv (foldl (fire_expiry now) s sts)"
  by (induction sts arbitrary: s) (auto intro: fire_expiry_inv)

lemma sim_step_inv: "sim_inv s \<Longrightarrow> sim_inv (sim_step e s)"
proof (cases e)
  case (SmAdvance real secs sts l)
  assume "sim_inv s"
  then have "sim_inv (s\<lparr>clockOffsetSeconds := c\<rparr>)" "sim_inv (s\<lparr>clockOffsetSeconds := c, currentLedgerSeq := d\<rparr>)" for c d
    by (simp_all add: sim_inv_def)
  with \<open>sim_inv s\<close> SmAdvance show ?thesis
    by (auto simp: advance_def Let_def intro!: fire_all_inv split: option.splits)
qed (auto simp: setLedger_def advanceLedgers_def onExpire_def setStorageTtl_def clearStorageTtl_def
    setStorageTtlLedger_def clearStorageTtlLedger_def sim_inv_def)

interpretation simrun: step_system sim_step sim_inv
  by unfold_locales (rule sim_step_inv)

lemma fire_expiry_mono: "set (firedExpiry s) \<subseteq> set (firedExpiry (fire_expiry now s st))"
  by (auto simp: fire_expiry_def)

lemma fire_all_mono: "set (firedExpiry s) \<subseteq> set (firedExpiry (foldl (fire_expiry now) s sts))"
proof (induction sts arbitrary: s)
  case (Cons st sts)
  from Cons [of "fire_expiry now s st"] fire_expiry_mono [of s now st] show ?case by auto
qed simp

lemma fire_all_covers:
  "st \<in> set sts \<Longrightarrow> endTime st \<le> now \<Longrightarrow> stream_id st \<in> set (firedExpiry (foldl (fire_expiry now) s sts))"
proof (induction sts arbitrary: s)
  case (Cons x sts)
  show ?case
  proof (cases "x = st")
    case True
    with Cons.prems have "stream_id st \<in> set (firedExpiry (fire_expiry now s x))"
      by (auto simp: fire_expiry_def)
    with fire_all_mono [of "fire_expiry now s x" now sts] show ?thesis by auto
  next
    case False
    with Cons show ?thesis by simp
  qed
qed simp

text \<open>
  Expiry callbacks fire once: between resets no stream's callback runs twice, however the clock
  is advanced; and an \<open>advance\<close> that reaches the end of a listed stream marks it expired.
\<close>
theorem expiry_fires_once:
  assumes "0 \<le> secs" "st \<in> set sts" "endTime st \<le> sim_now real (fold sim_step es new_simulator) + secs"
  shows "distinct (map stream_id (sim_fired (fold sim_step es new_simulator))) \<and>
    stream_id st \<in> set (firedExpiry (sim_step (SmAdvance real secs sts None) (fold sim_step es new_simulator)))"
proof -
  let ?s = "fold sim_step es new_simulator"
  have "sim_inv new_simulator" by (simp add: sim_inv_def new_simulator_def)
  then have "sim_inv ?s" by (rule simrun.run_inv)
  moreover have "endTime st \<le> sim_now real (?s\<lparr>clockOffsetSeconds := clockOffsetSeconds ?s + secs\<rparr>)"
    using assms(3) by (simp add: sim_now_def)
  ultimately show ?thesis
    using assms(1,2) fire_all_covers by (simp add: sim_inv_def advance_def Let_def)
qed

theorem expiry_fires_once_witness:
  "distinct (map stream_id (sim_fired (fold sim_step [SmOnExpire ''42'', SmAdvance 0 2000 [sample_stream] None] new_simulator)))"
  by (rule expiry_fires_once [of 0 sample_stream "[sample_stream]" "endTime sample_stream", THEN conjunct1])
    (simp_all add: sim_now_def advance_def onExpire_def new_simulator_def fire_expiry_def Let_def)

end
