(* ===== verification/ConnectionPool.thy ===== *)
theory ConnectionPool
  imports Prelude
begin

text \<open>
  The RPC connection pool of \<open>src/connectionPool.ts\<close>. A granted connection, server or poller is
  a handle: \<open>cp_handles\<close> lists the handles not yet released, with the slot they hold; a
  handle that is no longer listed is a released one, on which \<open>release\<close> does nothing. Handles
  and waiters are numbered as the calls are made. \<open>cp_granted\<close> is the order in which \<open>acquire\<close>
  calls were granted and \<open>cp_events\<close> the events the listeners saw.
\<close>

datatype connection_priority = CpHigh | CpNormal | CpLow

fun CP_RANK :: "connection_priority \<Rightarrow> nat" where
  "CP_RANK CpHigh = 0"
| "CP_RANK CpNormal = 1"
| "CP_RANK CpLow = 2"

datatype handle_kind = Connection | Server | Poller

datatype pool_event = PoolFull | PoolDrain

datatype pool_error = PoolExhausted | AbortedBeforeAcquire

record pool_slot =
  ps_subscriptions :: int
  ps_lastActive :: int

record waiter =
  wt_id :: nat
  wt_rank :: nat
  wt_seq :: nat

record handle =
  hd_id :: nat
  hd_kind :: handle_kind
  hd_slot :: nat

record pool =
  cp_slots :: "pool_slot list"
  cp_maxSubs :: int
  cp_idleTimeoutMs :: int
  cp_maxConnections :: int
  cp_active :: int
  cp_waiters :: "waiter list"
  cp_waiterSeq :: nat
  cp_nextId :: nat
  cp_handles :: "handle list"
  cp_granted :: "nat list"
  cp_events :: "pool_event list"

definition new_pool :: "nat \<Rightarrow> int option \<Rightarrow> int option \<Rightarrow> int option \<Rightarrow> int \<Rightarrow> pool" where
  "new_pool poolSize maxSubs idleTimeoutMs maxConnections now =
     \<lparr>cp_slots = replicate poolSize \<lparr>ps_subscriptions = 0, ps_lastActive = now\<rparr>,
      cp_maxSubs = (case maxSubs of Some n \<Rightarrow> n | None \<Rightarrow> 10),
      cp_idleTimeoutMs = (case idleTimeoutMs of Some t \<Rightarrow> t | None \<Rightarrow> 30000),
      cp_maxConnections = (case maxConnections of Some n \<Rightarrow> n | None \<Rightarrow> int poolSize),
      cp_active = 0, cp_waiters = [], cp_waiterSeq = 0, cp_nextId = 0, cp_handles = [],
      cp_granted = [], cp_events = []\<rparr>"

section \<open>Selection\<close>

text \<open>The index of the first slot with the fewest subscriptions; slot 0 starts as the best.\<close>

definition less_loaded :: "nat \<times> pool_slot \<Rightarrow> nat \<times> pool_slot \<Rightarrow> bool" where
  "less_loaded x y \<longleftrightarrow> ps_subscriptions (snd x) < ps_subscriptions (snd y)"

definition leastLoadedSlot :: "pool \<Rightarrow> nat" where
  "leastLoadedSlot p = (case best_of less_loaded (List.enumerate 0 (cp_slots p)) of
     Some (i, _) \<Rightarrow> i | None \<Rightarrow> 0)"

definition waits_before :: "waiter \<Rightarrow> waiter \<Rightarrow> bool" where
  "waits_before c b \<longleftrightarrow> wt_rank c < wt_rank b \<or> (wt_rank c = wt_rank b \<and> wt_seq c < wt_seq b)"

definition nextWaiter :: "pool \<Rightarrow> pool \<times> waiter option" where
  "nextWaiter p = (case best_of waits_before (cp_waiters p) of
     None \<Rightarrow> (p, None)
   | Some w \<Rightarrow> (p\<lparr>cp_waiters := remove1 w (cp_waiters p)\<rparr>, Some w))"

section \<open>Handles\<close>

definition cp_emit :: "pool_event \<Rightarrow> pool \<Rightarrow> pool" where
  "cp_emit e p = p\<lparr>cp_events := cp_events p @ [e]\<rparr>"

definition take_slot :: "nat \<Rightarrow> handle_kind \<Rightarrow> int \<Rightarrow> pool \<Rightarrow> pool" where
  "take_slot ident kind now p =
     (let i = leastLoadedSlot p
      in p\<lparr>cp_slots := (cp_slots p)[i := \<lparr>ps_subscriptions = ps_subscriptions (cp_slots p ! i) + 1,
                                         ps_lastActive = now\<rparr>],
           cp_handles := cp_handles p @ [\<lparr>hd_id = ident, hd_kind = kind, hd_slot = i\<rparr>]\<rparr>)"

definition cp_grant :: "nat \<Rightarrow> int \<Rightarrow> pool \<Rightarrow> pool" where
  "cp_grant ident now p =
     take_slot ident Connection now
       (p\<lparr>cp_active := cp_active p + 1, cp_granted := cp_granted p @ [ident]\<rparr>)"

definition drop_slot :: "handle \<Rightarrow> pool \<Rightarrow> pool" where
  "drop_slot h p =
     p\<lparr>cp_handles := remove1 h (cp_handles p),
       cp_slots := (cp_slots p)[hd_slot h := (cp_slots p ! hd_slot h)
         \<lparr>ps_subscriptions := max 0 (ps_subscriptions (cp_slots p ! hd_slot h) - 1)\<rparr>]\<rparr>"

definition emit_drain :: "pool \<Rightarrow> pool" where
  "emit_drain p =
     (if list_all (\<lambda>s. ps_subscriptions s = 0) (cp_slots p) then cp_emit PoolDrain p else p)"

section \<open>Operations\<close>

definition acquireServer :: "int \<Rightarrow> pool \<Rightarrow> pool \<times> nat" where
  "acquireServer now p =
     (take_slot (cp_nextId p) Server now (p\<lparr>cp_nextId := cp_nextId p + 1\<rparr>), cp_nextId p)"

definition cp_acquire :: "connection_priority option \<Rightarrow> bool \<Rightarrow> int \<Rightarrow> pool \<Rightarrow> pool \<times> (pool_error + nat)" where
  "cp_acquire prio aborted now p =
     (let rank = CP_RANK (case prio of Some c \<Rightarrow> c | None \<Rightarrow> CpNormal)
      in if aborted then (p, Inl AbortedBeforeAcquire)
         else
           let ident = cp_nextId p;
               p1 = p\<lparr>cp_nextId := cp_nextId p + 1\<rparr>
           in if cp_active p1 < cp_maxConnections p1 then (cp_grant ident now p1, Inr ident)
              else (p1\<lparr>cp_waiters := cp_waiters p1 @
                        [\<lparr>wt_id = ident, wt_rank = rank, wt_seq = cp_waiterSeq p1\<rparr>],
                       cp_waiterSeq := cp_waiterSeq p1 + 1\<rparr>, Inr ident))"

text \<open>The abort signal of a waiting \<open>acquire\<close>; a granted one has dropped its handler.\<close>

definition cp_abort :: "nat \<Rightarrow> pool \<Rightarrow> pool" where
  "cp_abort ident p = (case find (\<lambda>w. wt_id w = ident) (cp_waiters p) of
     None \<Rightarrow> p
   | Some w \<Rightarrow> p\<lparr>cp_waiters := remove1 w (cp_waiters p)\<rparr>)"

definition cp_release :: "nat \<Rightarrow> int \<Rightarrow> pool \<Rightarrow> pool" where
  "cp_release ident now p = (case find (\<lambda>h. hd_id h = ident) (cp_handles p) of
     None \<Rightarrow> p
   | Some h \<Rightarrow>
       let p1 = drop_slot h p
       in if hd_kind h = Connection then
            (let p2 = p1\<lparr>cp_active := max 0 (cp_active p1 - 1)\<rparr>
             in case nextWaiter p2 of
                  (p3, Some w) \<Rightarrow> emit_drain (cp_grant (wt_id w) now p3)
                | (p3, None) \<Rightarrow> emit_drain p3)
          else emit_drain p1)"

text \<open>
  A poller is released when the caller's signal aborts, at once if it already has.
\<close>

definition acquirePoller :: "bool \<Rightarrow> int \<Rightarrow> pool \<Rightarrow> pool \<times> (pool_error + nat)" where
  "acquirePoller aborted now p =
     (if ps_subscriptions (cp_slots p ! leastLoadedSlot p) \<ge> cp_maxSubs p
      then (cp_emit PoolFull p, Inl PoolExhausted)
      else
        let ident = cp_nextId p;
            p1 = take_slot ident Poller now (p\<lparr>cp_nextId := cp_nextId p + 1\<rparr>)
        in (if aborted then cp_release ident now p1 else p1, Inr ident))"

record pool_stats =
  st_total :: nat
  st_active :: nat
  st_idle :: nat

definition cp_getStats :: "pool \<Rightarrow> pool_stats" where
  "cp_getStats p =
     (let active = length (filter (\<lambda>s. ps_subscriptions s > 0) (cp_slots p))
      in \<lparr>st_total = length (cp_slots p), st_active = active,
          st_idle = length (cp_slots p) - active\<rparr>)"

text \<open>An idle slot keeps its server; only its poller is renewed.\<close>

definition sweepIdle :: "int \<Rightarrow> pool \<Rightarrow> pool" where
  "sweepIdle now p = p\<lparr>cp_slots := map (\<lambda>s.
     if ps_subscriptions s = 0 \<and> now - ps_lastActive s > cp_idleTimeoutMs p
     then s\<lparr>ps_lastActive := now\<rparr> else s) (cp_slots p)\<rparr>"

datatype cp_event =
    CpAcquire "connection_priority option" bool int
  | CpAcquireServer int
  | CpAcquirePoller bool int
  | CpAbort nat
  | CpRelease nat int
  | CpSweep int

fun cp_step :: "cp_event \<Rightarrow> pool \<Rightarrow> pool" where
  "cp_step (CpAcquire prio ab now) p = fst (cp_acquire prio ab now p)"
| "cp_step (CpAcquireServer now) p = fst (acquireServer now p)"
| "cp_step (CpAcquirePoller ab now) p = fst (acquirePoller ab now p)"
| "cp_step (CpAbort i) p = cp_abort i p"
| "cp_step (CpRelease i now) p = cp_release i now p"
| "cp_step (CpSweep now) p = sweepIdle now p"

section \<open>The selections are best choices\<close>

interpretation slots: preference less_loaded
  by unfold_locales (auto simp: less_loaded_def)

interpretation waiters: preference waits_before
  by unfold_locales (auto simp: waits_before_def)

lemma leastLoaded_spec:
  assumes "cp_slots p \<noteq> []"
  shows "leastLoadedSlot p < length (cp_slots p)"
    and "j < length (cp_slots p) \<Longrightarrow>
      ps_subscriptions (cp_slots p ! leastLoadedSlot p) \<le> ps_subscriptions (cp_slots p ! j)"
proof -
  have "List.enumerate 0 (cp_slots p) \<noteq> []" using assms by (metis length_0_conv length_enumerate)
  then obtain i s where b: "best_of less_loaded (List.enumerate 0 (cp_slots p)) = Some (i, s)"
    using slots.best_of_total by (metis surj_pair)
  from best_of_mem [OF b] have s: "i < length (cp_slots p)" "s = cp_slots p ! i"
    by (auto simp: in_set_enumerate_eq)
  with b show "leastLoadedSlot p < length (cp_slots p)" by (simp add: leastLoadedSlot_def)
  assume "j < length (cp_slots p)"
  then have "(j, cp_slots p ! j) \<in> set (List.enumerate 0 (cp_slots p))" by (simp add: in_set_enumerate_eq)
  from slots.best_of_optimal [OF b this] show
    "ps_subscriptions (cp_slots p ! leastLoadedSlot p) \<le> ps_subscriptions (cp_slots p ! j)"
    using b s by (simp add: less_loaded_def leastLoadedSlot_def not_less)
qed

lemma nextWaiter_spec:
  "nextWaiter p = (p', Some w) \<Longrightarrow> w \<in> set (cp_waiters p) \<and> p' = p\<lparr>cp_waiters := remove1 w (cp_waiters p)\<rparr> \<and>
    (\<forall>v \<in> set (cp_waiters p). \<not> waits_before v w)"
  "nextWaiter p = (p', None) \<Longrightarrow> cp_waiters p = [] \<and> p' = p"
  by (auto simp: nextWaiter_def keep_best_None_iff split: option.splits
      dest: best_of_mem waiters.best_of_optimal)

section \<open>Invariant\<close>

definition held_connections :: "pool \<Rightarrow> nat" where
  "held_connections p = length (filter (\<lambda>h. hd_kind h = Connection) (cp_handles p))"

definition cp_inv :: "pool \<Rightarrow> bool" where
  "cp_inv p \<longleftrightarrow> cp_slots p \<noteq> [] \<and> cp_active p = int (held_connections p) \<and>
     (\<forall>h \<in> set (cp_handles p). hd_slot h < length (cp_slots p)) \<and>
     (\<forall>i < length (cp_slots p). ps_subscriptions (cp_slots p ! i) =
        int (length (filter (\<lambda>h. hd_slot h = i) (cp_handles p)))) \<and>
     (cp_waiters p \<noteq> [] \<longrightarrow> cp_maxConnections p \<le> cp_active p)"

text \<open>The part of the invariant about handles and slots.\<close>

definition cp_booked :: "pool \<Rightarrow> bool" where
  "cp_booked p \<longleftrightarrow> cp_slots p \<noteq> [] \<and> cp_active p = int (held_connections p) \<and>
     (\<forall>h \<in> set (cp_handles p). hd_slot h < length (cp_slots p)) \<and>
     (\<forall>i < length (cp_slots p). ps_subscriptions (cp_slots p ! i) =
        int (length (filter (\<lambda>h. hd_slot h = i) (cp_handles p))))"

lemma cp_inv_iff:
  "cp_inv p \<longleftrightarrow> cp_booked p \<and> (cp_waiters p \<noteq> [] \<longrightarrow> cp_maxConnections p \<le> cp_active p)"
  by (auto simp: cp_inv_def cp_booked_def)

lemma take_slot_simps [simp]:
  "cp_active (take_slot i k now p) = cp_active p"
  "cp_maxConnections (take_slot i k now p) = cp_maxConnections p"
  "cp_waiters (take_slot i k now p) = cp_waiters p"
  by (simp_all add: take_slot_def Let_def)

lemma leastLoaded_cong: "cp_slots p = cp_slots q \<Longrightarrow> leastLoadedSlot p = leastLoadedSlot q"
  by (simp add: leastLoadedSlot_def)

lemma take_slot_booked:
  assumes "cp_booked (p\<lparr>cp_active := int (held_connections p)\<rparr>)"
    "cp_active p = int (held_connections p) + (if kind = Connection then 1 else 0)"
  shows "cp_booked (take_slot i kind now p)"
proof -
  have ne: "cp_slots p \<noteq> []" using assms(1) by (simp add: cp_booked_def)
  from leastLoaded_spec(1) [OF ne] assms show ?thesis
    by (auto simp: cp_booked_def take_slot_def Let_def held_connections_def nth_list_update)
qed

lemma length_filter_remove1:
  "h \<in> set hs \<Longrightarrow> length (filter P (remove1 h hs)) = (if P h then length (filter P hs) - 1 else length (filter P hs))"
  by (auto simp: filter_remove1 length_remove1)

lemma drop_slot_booked:
  assumes "cp_booked p" "h \<in> set (cp_handles p)"
  shows "cp_booked ((drop_slot h p)\<lparr>cp_active := (if hd_kind h = Connection
           then max 0 (cp_active p - 1) else cp_active p)\<rparr>)"
proof -
  let ?count = "\<lambda>P. length (filter P (cp_handles p))"
  let ?q = "(drop_slot h p)\<lparr>cp_active := (if hd_kind h = Connection
           then max 0 (cp_active p - 1) else cp_active p)\<rparr>"
  have pos: "P h \<Longrightarrow> int (?count P - 1) = int (?count P) - 1 \<and> 1 \<le> int (?count P)" for P
  proof -
    assume "P h"
    with assms(2) have "filter P (cp_handles p) \<noteq> []" by (auto simp: filter_empty_conv)
    then show ?thesis by (cases "filter P (cp_handles p)") simp_all
  qed
  have gone: "length (filter P (cp_handles ?q)) = (if P h then ?count P - 1 else ?count P)" for P
    using length_filter_remove1 [OF assms(2)] by (simp add: drop_slot_def)
  have p: "cp_slots p \<noteq> []" "cp_active p = int (held_connections p)" "hd_slot h < length (cp_slots p)"
    "\<forall>i < length (cp_slots p). ps_subscriptions (cp_slots p ! i) = int (?count (\<lambda>h. hd_slot h = i))"
    using assms by (auto simp: cp_booked_def)
  have slot: "ps_subscriptions (cp_slots ?q ! i) = int (length (filter (\<lambda>x. hd_slot x = i) (cp_handles ?q)))"
    if "i < length (cp_slots p)" for i
  proof (cases "i = hd_slot h")
    case True
    have "ps_subscriptions (cp_slots ?q ! i) = max 0 (int (?count (\<lambda>x. hd_slot x = i)) - 1)"
      using True p(3,4) by (simp add: drop_slot_def)
    moreover have "max 0 (int (?count (\<lambda>x. hd_slot x = i)) - 1) = int (?count (\<lambda>x. hd_slot x = i) - 1)"
      using pos [of "\<lambda>x. hd_slot x = i"] True by linarith
    ultimately show ?thesis using gone [of "\<lambda>x. hd_slot x = i"] True by simp
  next
    case False
    with p(4) that gone [of "\<lambda>x. hd_slot x = i"] show ?thesis by (simp add: drop_slot_def)
  qed
  have "cp_active ?q = int (held_connections ?q)"
    using gone [of "\<lambda>h. hd_kind h = Connection"] pos [of "\<lambda>h. hd_kind h = Connection"] p(2)
    by (auto simp: held_connections_def)
  moreover have "\<forall>x \<in> set (cp_handles ?q). hd_slot x < length (cp_slots ?q)"
    using assms set_remove1_subset [of h "cp_handles p"] by (auto simp: cp_booked_def drop_slot_def)
  ultimately show ?thesis
    unfolding cp_booked_def using slot p(1) by (simp add: drop_slot_def)
qed

lemma cp_booked_fields [simp]:
  "cp_booked (p\<lparr>cp_waiters := w\<rparr>) = cp_booked p"
  "cp_booked (p\<lparr>cp_waiterSeq := q\<rparr>) = cp_booked p"
  "cp_booked (p\<lparr>cp_nextId := n\<rparr>) = cp_booked p"
  "cp_booked (p\<lparr>cp_granted := g\<rparr>) = cp_booked p"
  "cp_booked (cp_emit e p) = cp_booked p"
  "cp_booked (emit_drain p) = cp_booked p"
  by (auto simp: cp_booked_def cp_emit_def emit_drain_def held_connections_def)

lemma cp_emit_fields [simp]:
  "cp_active (cp_emit e p) = cp_active p" "cp_active (emit_drain p) = cp_active p"
  "cp_maxConnections (cp_emit e p) = cp_maxConnections p"
  "cp_maxConnections (emit_drain p) = cp_maxConnections p"
  "cp_waiters (cp_emit e p) = cp_waiters p" "cp_waiters (emit_drain p) = cp_waiters p"
  by (auto simp: cp_emit_def emit_drain_def)

lemma drop_slot_fields [simp]:
  "cp_active (drop_slot h p) = cp_active p" "cp_waiters (drop_slot h p) = cp_waiters p"
  "cp_maxConnections (drop_slot h p) = cp_maxConnections p"
  by (simp_all add: drop_slot_def)

lemma take_other_booked:
  assumes "cp_booked p" "kind \<noteq> Connection"
  shows "cp_booked (take_slot i kind now p)"
proof -
  have "p\<lparr>cp_active := int (held_connections p)\<rparr> = p" "cp_active p = int (held_connections p)"
    using assms(1) by (simp_all add: cp_booked_def)
  then show ?thesis using assms by (intro take_slot_booked) (simp_all only: if_False add_0_right)
qed

lemma grant_booked:
  assumes "cp_booked p"
  shows "cp_booked (cp_grant i now p)"
  unfolding cp_grant_def
  by (rule take_slot_booked) (use assms in \<open>auto simp: cp_booked_def held_connections_def\<close>)

lemma grant_fields [simp]:
  "cp_active (cp_grant i now p) = cp_active p + 1" "cp_waiters (cp_grant i now p) = cp_waiters p"
  "cp_maxConnections (cp_grant i now p) = cp_maxConnections p"
  by (simp_all add: cp_grant_def)

text \<open>What a step may do to the bookkeeping, the counter and the queue.\<close>

definition pool_step_ok :: "pool \<Rightarrow> pool \<Rightarrow> bool" where
  "pool_step_ok p p' \<longleftrightarrow> cp_inv p' \<and> cp_maxConnections p' = cp_maxConnections p \<and>
     cp_active p' \<le> max (cp_active p) (cp_maxConnections p)"

lemma acquire_ok:
  assumes "cp_inv p"
  shows "pool_step_ok p (fst (cp_acquire prio ab now p))"
  using assms by (auto simp: cp_acquire_def Let_def pool_step_ok_def cp_inv_iff grant_booked)

lemma drop_connection_booked:
  assumes "cp_booked p" "h \<in> set (cp_handles p)" "hd_kind h = Connection"
  shows "cp_booked ((drop_slot h p)\<lparr>cp_active := cp_active p - 1\<rparr>)"
    "max 0 (cp_active p - 1) = cp_active p - 1"
proof -
  have "filter (\<lambda>h. hd_kind h = Connection) (cp_handles p) \<noteq> []"
    using assms(2,3) by (auto simp: filter_empty_conv)
  then have "1 \<le> cp_active p" using assms(1) by (cases "filter (\<lambda>h. hd_kind h = Connection) (cp_handles p)")
      (auto simp: cp_booked_def held_connections_def)
  then show m: "max 0 (cp_active p - 1) = cp_active p - 1" by simp
  show "cp_booked ((drop_slot h p)\<lparr>cp_active := cp_active p - 1\<rparr>)"
    using drop_slot_booked [OF assms(1,2)] assms(3) unfolding m by simp
qed

lemma drop_other_booked:
  assumes "cp_booked p" "h \<in> set (cp_handles p)" "hd_kind h \<noteq> Connection"
  shows "cp_booked (drop_slot h p)"
proof -
  have "(drop_slot h p)\<lparr>cp_active := cp_active p\<rparr> = drop_slot h p" by (simp add: drop_slot_def)
  with drop_slot_booked [OF assms(1,2)] assms(3) show ?thesis by simp
qed

lemma release_ok:
  assumes "cp_inv p"
  shows "pool_step_ok p (cp_release i now p)"
proof (cases "find (\<lambda>h. hd_id h = i) (cp_handles p)")
  case None
  with assms show ?thesis by (simp add: cp_release_def pool_step_ok_def)
next
  case (Some h)
  then have h: "h \<in> set (cp_handles p)" by (auto simp: find_Some_iff)
  from assms have p: "cp_booked p" "cp_waiters p \<noteq> [] \<Longrightarrow> cp_maxConnections p \<le> cp_active p"
    by (simp_all add: cp_inv_iff)
  show ?thesis
  proof (cases "hd_kind h = Connection")
    case False
    with Some p drop_other_booked [OF p(1) h False] show ?thesis
      by (simp add: cp_release_def Let_def pool_step_ok_def cp_inv_iff)
  next
    case True
    let ?p2 = "(drop_slot h p)\<lparr>cp_active := cp_active p - 1\<rparr>"
    note dropped = drop_connection_booked [OF p(1) h True]
    obtain p3 r where nw: "nextWaiter ?p2 = (p3, r)" by (cases "nextWaiter ?p2")
    show ?thesis
    proof (cases r)
      case None
      with nw nextWaiter_spec(2) [of ?p2 p3] have "cp_waiters p = []" "p3 = ?p2" by simp_all
      with Some True nw None dropped show ?thesis
        by (simp add: cp_release_def Let_def pool_step_ok_def cp_inv_iff)
    next
      case (Some w)
      with nw nextWaiter_spec(1) [of ?p2 p3 w] have "w \<in> set (cp_waiters p)"
        "p3 = ?p2\<lparr>cp_waiters := remove1 w (cp_waiters p)\<rparr>" by auto
      moreover from this(1) have "cp_waiters p \<noteq> []" by auto
      ultimately show ?thesis
        using \<open>find _ _ = Some h\<close> True nw Some dropped p(2) grant_booked [of p3 "wt_id w" now]
        by (simp add: cp_release_def Let_def pool_step_ok_def cp_inv_iff)
    qed
  qed
qed

lemma pool_step_trans: "pool_step_ok p q \<Longrightarrow> pool_step_ok q r \<Longrightarrow> pool_step_ok p r"
  by (auto simp: pool_step_ok_def)

lemma cp_step_ok:
  assumes "cp_inv p"
  shows "pool_step_ok p (cp_step e p)"
proof (cases e)
  case (CpAcquirePoller ab now)
  let ?q = "take_slot (cp_nextId p) Poller now (p\<lparr>cp_nextId := cp_nextId p + 1\<rparr>)"
  have q: "pool_step_ok p ?q"
    using assms by (simp add: pool_step_ok_def cp_inv_iff take_other_booked)
  then have "cp_inv ?q" by (simp add: pool_step_ok_def)
  then have "pool_step_ok ?q (cp_release (cp_nextId p) now ?q)" by (rule release_ok)
  with q have "pool_step_ok p (cp_release (cp_nextId p) now ?q)" by (rule pool_step_trans)
  moreover have "pool_step_ok p (cp_emit PoolFull p)"
    using assms by (simp add: pool_step_ok_def cp_inv_iff)
  ultimately show ?thesis using q CpAcquirePoller by (simp add: acquirePoller_def Let_def)
next
  case (CpSweep now)
  have "length (filter Q (cp_handles (sweepIdle now p))) = length (filter Q (cp_handles p))" for Q
    by (simp add: sweepIdle_def)
  with assms CpSweep show ?thesis
    by (auto simp: pool_step_ok_def cp_inv_def sweepIdle_def held_connections_def)
next
  case (CpAbort i)
  with assms show ?thesis
    by (auto simp: cp_abort_def pool_step_ok_def cp_inv_iff split: option.splits)
next
  case (CpAcquireServer now)
  with assms show ?thesis
    by (simp add: acquireServer_def pool_step_ok_def cp_inv_iff take_other_booked)
qed (use acquire_ok [OF assms] release_ok [OF assms] in simp_all)

lemma cp_release_length: "length (cp_slots (cp_release i now p)) = length (cp_slots p)"
  by (auto simp: cp_release_def Let_def drop_slot_def nextWaiter_def cp_grant_def take_slot_def
      emit_drain_def cp_emit_def split: option.splits)

lemma cp_step_length [simp]: "length (cp_slots (cp_step e p)) = length (cp_slots p)"
  by (cases e) (auto simp: cp_release_length cp_acquire_def acquireServer_def acquirePoller_def
      cp_abort_def sweepIdle_def cp_grant_def take_slot_def cp_emit_def Let_def split: option.splits)

interpretation cp: limiter cp_step cp_inv cp_active cp_maxConnections "\<lambda>p. int (length (cp_waiters p))"
proof unfold_locales
  fix p e
  show "cp_inv p \<Longrightarrow> cp_inv (cp_step e p)" using cp_step_ok by (simp add: pool_step_ok_def)
  show "cp_inv p \<Longrightarrow> 0 < int (length (cp_waiters p)) \<Longrightarrow> cp_maxConnections p \<le> cp_active p"
    by (simp add: cp_inv_def)
  show "cp_inv p \<Longrightarrow> cp_active (cp_step e p) \<le> max (cp_active p) (cp_maxConnections (cp_step e p))"
    using cp_step_ok by (simp add: pool_step_ok_def)
qed

text \<open>
  C19. The pool honours \<open>maxConnections\<close>: after any interleaving of acquires, releases (double
  releases included), aborts and sweeps, at most that many connections are held, callers wait
  only while that many are held, and every slot's load is the number of handles on it.
\<close>
theorem pool_caps_connections:
  "let p = fold cp_step es (new_pool (Suc n) maxSubs idle (Some c) t0) in
     int (held_connections p) \<le> max 0 c \<and> (cp_waiters p = [] \<or> c \<le> int (held_connections p)) \<and>
     map ps_subscriptions (cp_slots p) =
       map (\<lambda>i. int (length (filter (\<lambda>h. hd_slot h = i) (cp_handles p)))) [0..<Suc n]"
proof -
  let ?init = "new_pool (Suc n) maxSubs idle (Some c) t0" and ?p = "fold cp_step es (new_pool (Suc n) maxSubs idle (Some c) t0)"
  have inv: "cp_inv ?init" "cp_active ?init = 0" "cp_maxConnections ?init = c"
    by (auto simp: cp_inv_def new_pool_def held_connections_def nth_append simp flip: replicate_Suc)
  have const: "cp_maxConnections (fold cp_step xs ?init) = c" for xs
    using cp.run_const [of cp_maxConnections ?init xs] inv cp_step_ok by (simp add: pool_step_ok_def)
  have "cp_active ?p \<le> max 0 c"
    by (rule cp.run_within [OF inv(1)]) (simp_all add: inv const)
  moreover have p: "cp_inv ?p" by (rule cp.run_inv [OF inv(1)])
  moreover have len: "length (cp_slots ?p) = Suc n"
    using cp.run_const [of "\<lambda>p. length (cp_slots p)" ?init es] inv(1) by (simp add: new_pool_def)
  moreover have "map ps_subscriptions (cp_slots ?p) =
      map (\<lambda>i. int (length (filter (\<lambda>h. hd_slot h = i) (cp_handles ?p)))) [0..<Suc n]"
    by (rule nth_equalityI) (use p len in \<open>simp_all del: upt_Suc add: cp_inv_def\<close>)
  ultimately show ?thesis using const [of es] unfolding Let_def cp_inv_def by auto
qed

end
