(* ===== verification/Retry.thy ===== *)
theory Retry
  imports Prelude
begin

text \<open>
  Retries (\<open>src/retry.ts\<close>, \<open>src/internal.ts\<close>): the backoff delay, the classification of transient
  errors, the per-request backoff state and the retry loop. Delays are integers; a value that
  is not a finite double (at least \<open>2 ^ 1024\<close> in size, or the answer of a custom strategy that
  is not a number) is \<open>NonFinite\<close>. \<open>Math.random()\<close> enters as the jitter the code draws.
\<close>

section \<open>Backoff delays\<close>

datatype js_number = Finite int | NonFinite

datatype backoff_strategy = Exponential | Linear | Constant | Custom "nat \<Rightarrow> int \<Rightarrow> js_number"

definition to_number :: "int \<Rightarrow> js_number" where
  "to_number x = (if \<bar>x\<bar> < 2 ^ 1024 then Finite x else NonFinite)"

definition computeBackoffDelay :: "nat \<Rightarrow> int \<Rightarrow> int \<Rightarrow> backoff_strategy \<Rightarrow> int" where
  "computeBackoffDelay attempt baseDelayMs maxDelayMs strategy =
     (let raw = (case strategy of
            Custom f \<Rightarrow> f attempt baseDelayMs
          | Linear \<Rightarrow> to_number (baseDelayMs * (int attempt + 1))
          | Constant \<Rightarrow> to_number baseDelayMs
          | Exponential \<Rightarrow> to_number (baseDelayMs * 2 ^ attempt));
          raw' = (case raw of NonFinite \<Rightarrow> 0 | Finite x \<Rightarrow> if x < 0 then 0 else x)
      in min maxDelayMs raw')"

text \<open>
  \<open>jitterDelay\<close> for a draw of \<open>num / den\<close> from \<open>[0, 1)\<close>: a quarter down, plus that share of half
  the delay, rounded down.
\<close>

definition jitterDelay :: "int \<Rightarrow> int \<Rightarrow> int \<Rightarrow> int" where
  "jitterDelay num den rawDelayMs =
     (if rawDelayMs \<le> 0 then 0 else (rawDelayMs * 3 * den + num * (2 * rawDelayMs)) div (4 * den))"

lemma delay_bounds: "0 \<le> maxD \<Longrightarrow> 0 \<le> computeBackoffDelay a b maxD s \<and> computeBackoffDelay a b maxD s \<le> maxD"
  by (auto simp: computeBackoffDelay_def Let_def split: js_number.splits)

lemma jitter_bounds:
  assumes "0 \<le> num" "num < den" "0 \<le> d"
  shows "3 * d div 4 \<le> jitterDelay num den d \<and> 4 * jitterDelay num den d \<le> 5 * d"
proof (cases "d = 0")
  case True
  then show ?thesis by (simp add: jitterDelay_def)
next
  case False
  with assms have d: "0 < d" "0 < den" by simp_all
  let ?x = "d * 3 * den + num * (2 * d)"
  have j: "jitterDelay num den d = ?x div (4 * den)" using d by (simp add: jitterDelay_def)
  have "3 * d div 4 = (3 * d * den) div (4 * den)" using d by simp
  also have "\<dots> \<le> ?x div (4 * den)"
    using d assms by (intro zdiv_mono1) (auto simp: algebra_simps)
  finally have low: "3 * d div 4 \<le> jitterDelay num den d" by (simp add: j)
  have "num * (2 * d) \<le> den * (2 * d)" using assms d by (intro mult_right_mono) auto
  then have "?x \<le> 5 * d * den" by (simp add: algebra_simps)
  then have "?x div (4 * den) \<le> (5 * d * den) div (4 * den)" using d by (intro zdiv_mono1) auto
  also have "\<dots> = 5 * d div 4" using d by simp
  finally have "jitterDelay num den d \<le> 5 * d div 4" by (simp add: j)
  with low show ?thesis by linarith
qed

section \<open>Transient errors\<close>

text \<open>What the classification reads of an error value.\<close>

record error_value =
  er_message :: string
  er_isObject :: bool
  er_status :: "int option"
  er_responseStatus :: "int option"
  er_code :: "int option"
  er_errorCode :: "int option"
  er_errorName :: "string option"

definition to_lower :: "char \<Rightarrow> char" where
  "to_lower c = (if 65 \<le> (of_char c :: nat) \<and> (of_char c :: nat) \<le> 90
     then char_of ((of_char c :: nat) + 32) else c)"

fun starts_with :: "string \<Rightarrow> string \<Rightarrow> bool" where
  "starts_with [] s = True"
| "starts_with (p # ps) [] = False"
| "starts_with (p # ps) (c # cs) = (p = c \<and> starts_with ps cs)"

fun str_includes :: "string \<Rightarrow> string \<Rightarrow> bool" where
  "str_includes p [] = (p = [])"
| "str_includes p (c # cs) = (starts_with p (c # cs) \<or> str_includes p cs)"

definition TRANSIENT_PATTERNS :: "string list" where
  "TRANSIENT_PATTERNS =
     [''timeout'', ''timed out'', ''econnreset'', ''etimedout'', ''network'', ''fetch failed'',
      ''socket'', ''connection refused'', ''enotfound'', ''epipe'', ''503'', ''502'', ''504'',
      ''500'', ''429'', ''service unavailable'', ''rate limit'', ''too many requests'']"

definition first_some :: "'a option \<Rightarrow> 'a option \<Rightarrow> 'a option" where
  "first_some a b = (case a of Some x \<Rightarrow> Some x | None \<Rightarrow> b)"

definition isTransientRpcError :: "error_value option \<Rightarrow> bool" where
  "isTransientRpcError err = (case err of
     None \<Rightarrow> False
   | Some e \<Rightarrow>
       let lowerMsg = map to_lower (er_message e)
       in if list_ex (\<lambda>p. str_includes p lowerMsg) TRANSIENT_PATTERNS then True
          else if er_isObject e then
            (let status = first_some (er_status e) (er_responseStatus e);
                 code = first_some (er_code e) (er_errorCode e)
             in if status = Some 429 \<or> status = Some 502 \<or> status = Some 503 \<or> status = Some 504
                then True
                else if code = Some (-32005) \<or> code = Some (-32603) \<or> code = Some (-32002) then True
                else if er_errorName e = Some ''NetworkError'' then True
                else False)
          else False)"

section \<open>Backoff state\<close>

record retry_backoff =
  rb_baseDelayMs :: int
  rb_maxDelayMs :: int
  rb_backoff :: backoff_strategy
  rb_jitter :: bool
  rb_attemptCounts :: "(string, nat) jsmap"

definition new_backoff ::
    "int option \<Rightarrow> int option \<Rightarrow> backoff_strategy option \<Rightarrow> bool option \<Rightarrow> retry_backoff" where
  "new_backoff base maxD strategy jitter =
     \<lparr>rb_baseDelayMs = (case base of Some b \<Rightarrow> b | None \<Rightarrow> 200),
      rb_maxDelayMs = (case maxD of Some m \<Rightarrow> m | None \<Rightarrow> 30000),
      rb_backoff = (case strategy of Some s \<Rightarrow> s | None \<Rightarrow> Exponential),
      rb_jitter = (case jitter of Some j \<Rightarrow> j | None \<Rightarrow> True), rb_attemptCounts = []\<rparr>"

definition rb_onSuccess :: "string \<Rightarrow> retry_backoff \<Rightarrow> retry_backoff" where
  "rb_onSuccess key s = s\<lparr>rb_attemptCounts := map_del key (rb_attemptCounts s)\<rparr>"

definition rb_getAttemptCount :: "string \<Rightarrow> retry_backoff \<Rightarrow> nat" where
  "rb_getAttemptCount key s =
     (case map_get (rb_attemptCounts s) key of Some n \<Rightarrow> n | None \<Rightarrow> 0)"

definition rb_onFailure :: "int \<Rightarrow> int \<Rightarrow> string \<Rightarrow> retry_backoff \<Rightarrow> retry_backoff \<times> int" where
  "rb_onFailure num den key s =
     (let attempt = rb_getAttemptCount key s;
          s1 = s\<lparr>rb_attemptCounts := map_set key (attempt + 1) (rb_attemptCounts s)\<rparr>;
          delay = computeBackoffDelay attempt (rb_baseDelayMs s) (rb_maxDelayMs s) (rb_backoff s)
      in (s1, if rb_jitter s then jitterDelay num den delay else delay))"

definition rb_reset :: "string \<Rightarrow> retry_backoff \<Rightarrow> retry_backoff" where
  "rb_reset key s = s\<lparr>rb_attemptCounts := map_del key (rb_attemptCounts s)\<rparr>"

definition rb_resetAll :: "retry_backoff \<Rightarrow> retry_backoff" where
  "rb_resetAll s = s\<lparr>rb_attemptCounts := []\<rparr>"

datatype rb_event = RbSuccess string | RbFailure string int int | RbReset string | RbResetAll

fun rb_step :: "rb_event \<Rightarrow> retry_backoff \<Rightarrow> retry_backoff" where
  "rb_step (RbSuccess k) s = rb_onSuccess k s"
| "rb_step (RbFailure k num den) s = fst (rb_onFailure num den k s)"
| "rb_step (RbReset k) s = rb_reset k s"
| "rb_step RbResetAll s = rb_resetAll s"

text \<open>The failures of a key since it last succeeded or was reset.\<close>

fun streak :: "string \<Rightarrow> nat \<Rightarrow> rb_event list \<Rightarrow> nat" where
  "streak k n [] = n"
| "streak k n (RbSuccess j # es) = streak k (if j = k then 0 else n) es"
| "streak k n (RbFailure j a b # es) = streak k (if j = k then n + 1 else n) es"
| "streak k n (RbReset j # es) = streak k (if j = k then 0 else n) es"
| "streak k n (RbResetAll # es) = streak k 0 es"

lemma count_step: "rb_getAttemptCount k (rb_step e s) = streak k (rb_getAttemptCount k s) [e]"
  by (cases e) (auto simp: rb_onSuccess_def rb_onFailure_def rb_reset_def rb_resetAll_def
      rb_getAttemptCount_def Let_def)

lemma streak_Cons: "streak k n (e # es) = streak k (streak k n [e]) es"
  by (cases e) simp_all

lemma count_after:
  "rb_getAttemptCount k (fold rb_step es s) = streak k (rb_getAttemptCount k s) es"
proof (induction es arbitrary: s)
  case Nil
  then show ?case by simp
next
  case (Cons e es)
  have "rb_getAttemptCount k (fold rb_step (e # es) s) = streak k (rb_getAttemptCount k (rb_step e s)) es"
    by (simp add: Cons.IH)
  also have "\<dots> = streak k (rb_getAttemptCount k s) (e # es)"
    by (simp only: count_step streak_Cons [symmetric])
  finally show ?case .
qed

lemma backoff_config:
  "rb_baseDelayMs (fold rb_step es s) = rb_baseDelayMs s \<and> rb_maxDelayMs (fold rb_step es s) = rb_maxDelayMs s \<and>
   rb_backoff (fold rb_step es s) = rb_backoff s \<and> rb_jitter (fold rb_step es s) = rb_jitter s"
proof (induction es arbitrary: s)
  case Nil
  then show ?case by simp
next
  case (Cons e es)
  show ?case
    by (cases e) (simp_all add: Cons.IH rb_onSuccess_def rb_onFailure_def rb_reset_def rb_resetAll_def Let_def)
qed

text \<open>
  Backoff is per request and doubles: after any history of all requests, the next delay of a
  request that failed \<open>n\<close> times since its last success is the base delay times \<open>2 ^ n\<close>, capped
  at the maximum, and with jitter it stays within a quarter of that and below five quarters
  of the cap; the histories of other requests do not matter.
\<close>
theorem backoff_per_request:
  assumes "0 \<le> base" "0 \<le> cap" "0 \<le> num" "num < den"
    "n = streak key 0 es" "base * 2 ^ n < 2 ^ 1024"
  shows "(let s = fold rb_step es (new_backoff (Some base) (Some cap) None (Some jitter));
              d = min cap (base * 2 ^ n); delay = snd (rb_onFailure num den key s)
          in if jitter then 3 * d div 4 \<le> delay \<and> 4 * delay \<le> 5 * d else delay = d)"
proof -
  let ?init = "new_backoff (Some base) (Some cap) None (Some jitter)" and ?d = "min cap (base * 2 ^ n)"
  have "rb_getAttemptCount key (fold rb_step es ?init) = n"
    using assms(5) by (simp add: count_after) (simp add: new_backoff_def rb_getAttemptCount_def)
  moreover have "computeBackoffDelay n base cap Exponential = ?d"
    using assms(6) mult_nonneg_nonneg [OF assms(1), of "2 ^ n"]
    by (simp add: computeBackoffDelay_def to_number_def)
  ultimately have "snd (rb_onFailure num den key (fold rb_step es ?init)) =
      (if jitter then jitterDelay num den ?d else ?d)"
    using backoff_config [of es ?init] by (simp add: rb_onFailure_def Let_def new_backoff_def)
  with jitter_bounds [OF assms(3,4), of ?d] assms(1,2) show ?thesis
    by (cases jitter) (simp_all add: Let_def)
qed

theorem backoff_per_request_witness:
  "snd (rb_onFailure 0 1 ''a'' (fold rb_step [RbFailure ''a'' 0 1, RbFailure ''b'' 0 1, RbFailure ''a'' 0 1]
     (new_backoff (Some 200) (Some 30000) None (Some False)))) = 800"
  using backoff_per_request [of 200 30000 0 1 2 "''a''"
      "[RbFailure ''a'' 0 1, RbFailure ''b'' 0 1, RbFailure ''a'' 0 1]" False]
  by simp

text \<open>
  The exponential delay collapses once it overflows: at attempt 1024 the doubled delay is not a
  finite number any more and counts as 0, not as the maximum.
\<close>

lemma overflowing_backoff: "computeBackoffDelay 1024 200 30000 Exponential = 0"
proof -
  have "(2::int) ^ 1024 \<le> 200 * 2 ^ 1024" by simp
  then show ?thesis by (simp add: computeBackoffDelay_def to_number_def)
qed

section \<open>The retry loop\<close>

text \<open>
  The options of a call and how their defaults resolve: an explicit predicate wins over
  \<open>transientOnly\<close>, which wins over retrying every error. Errors are any values, read by \<open>view\<close>
  for the classification.
\<close>

record 'e retry_options =
  ro_maxAttempts :: "nat option"
  ro_baseDelayMs :: "int option"
  ro_maxDelayMs :: "int option"
  ro_backoff :: "backoff_strategy option"
  ro_jitter :: "bool option"
  ro_transientOnly :: bool
  ro_shouldRetry :: "('e \<Rightarrow> bool) option"

record 'e retry_config =
  rc_maxAttempts :: nat
  rc_baseDelayMs :: int
  rc_maxDelayMs :: int
  rc_backoff :: backoff_strategy
  rc_jitter :: bool
  rc_canRetry :: "'e \<Rightarrow> bool"

definition resolve_options :: "('e \<Rightarrow> error_value option) \<Rightarrow> 'e retry_options \<Rightarrow> 'e retry_config" where
  "resolve_options view opts =
     \<lparr>rc_maxAttempts = (case ro_maxAttempts opts of Some n \<Rightarrow> n | None \<Rightarrow> 3),
      rc_baseDelayMs = (case ro_baseDelayMs opts of Some b \<Rightarrow> b | None \<Rightarrow> 200),
      rc_maxDelayMs = (case ro_maxDelayMs opts of Some m \<Rightarrow> m | None \<Rightarrow> 30000),
      rc_backoff = (case ro_backoff opts of Some s \<Rightarrow> s | None \<Rightarrow> Exponential),
      rc_jitter = (case ro_jitter opts of Some j \<Rightarrow> j | None \<Rightarrow> True),
      rc_canRetry = (case ro_shouldRetry opts of
          Some p \<Rightarrow> p
        | None \<Rightarrow> if ro_transientOnly opts then isTransientRpcError \<circ> view else (\<lambda>_. True))\<rparr>"

datatype ('e, 'a) retry_outcome =
    Returned 'a
  | Rethrown 'e
  | Aborted
  | RetryExhausted "'e option" nat "(nat \<times> 'e) list" "string option"

text \<open>\<open>body\<close> and \<open>rbody\<close> read \<open>err.body\<close> and \<open>err.response.body\<close>, where that is a non-empty string.\<close>

definition capture_body ::
    "('e \<Rightarrow> string option) \<Rightarrow> ('e \<Rightarrow> string option) \<Rightarrow> 'e \<Rightarrow> string option \<Rightarrow> string option" where
  "capture_body body rbody err old =
     (let b1 = (case body err of Some b \<Rightarrow> Some b | None \<Rightarrow> old)
      in case rbody err of Some b \<Rightarrow> Some b | None \<Rightarrow> b1)"

definition retry_delay :: "'e retry_config \<Rightarrow> (nat \<Rightarrow> int \<times> int) \<Rightarrow> nat \<Rightarrow> int" where
  "retry_delay cfg draws attempt =
     (let cap = computeBackoffDelay attempt (rc_baseDelayMs cfg) (rc_maxDelayMs cfg) (rc_backoff cfg)
      in if rc_jitter cfg then jitterDelay (fst (draws attempt)) (snd (draws attempt)) cap else cap)"

text \<open>
  The loop with \<open>left\<close> attempts to go. The outcome of the call number \<open>i\<close> is \<open>outcomes i\<close> (\<open>Inl\<close>
  the rejection), \<open>aborted i\<close> the signal before it and \<open>draws i\<close> the random draw after it; the
  result lists the delays slept.
\<close>

fun retry_loop ::
    "('e \<Rightarrow> string option) \<Rightarrow> ('e \<Rightarrow> string option) \<Rightarrow> 'e retry_config \<Rightarrow> (nat \<Rightarrow> int \<times> int) \<Rightarrow>
     (nat \<Rightarrow> bool) \<Rightarrow> (nat \<Rightarrow> 'e + 'a) \<Rightarrow> nat \<Rightarrow> nat \<Rightarrow> (nat \<times> 'e) list \<Rightarrow> string option \<Rightarrow> int list \<Rightarrow>
     int list \<times> ('e, 'a) retry_outcome" where
  "retry_loop body rbody cfg draws aborted outcomes 0 attempt attempts finalBody slept =
     (slept, RetryExhausted (if attempts = [] then None else Some (snd (last attempts)))
        (rc_maxAttempts cfg) attempts finalBody)"
| "retry_loop body rbody cfg draws aborted outcomes (Suc left) attempt attempts finalBody slept =
     (if aborted attempt then (slept, Aborted)
      else case outcomes attempt of
        Inr v \<Rightarrow> (slept, Returned v)
      | Inl err \<Rightarrow>
          let attempts' = attempts @ [(attempt + 1, err)];
              finalBody' = capture_body body rbody err finalBody
          in if \<not> rc_canRetry cfg err then (slept, Rethrown err)
             else retry_loop body rbody cfg draws aborted outcomes left (attempt + 1) attempts' finalBody'
                    (if attempt + 1 < rc_maxAttempts cfg then slept @ [retry_delay cfg draws attempt]
                     else slept))"

definition withRetry ::
    "('e \<Rightarrow> error_value option) \<Rightarrow> ('e \<Rightarrow> string option) \<Rightarrow> ('e \<Rightarrow> string option) \<Rightarrow> 'e retry_options \<Rightarrow>
     (nat \<Rightarrow> int \<times> int) \<Rightarrow> (nat \<Rightarrow> bool) \<Rightarrow> (nat \<Rightarrow> 'e + 'a) \<Rightarrow> int list \<times> ('e, 'a) retry_outcome" where
  "withRetry view body rbody opts draws aborted outcomes =
     (let cfg = resolve_options view opts
      in retry_loop body rbody cfg draws aborted outcomes (rc_maxAttempts cfg) 0 [] None [])"

text \<open>A call that is made, fails and may be tried again.\<close>

definition retried :: "('e \<Rightarrow> bool) \<Rightarrow> (nat \<Rightarrow> bool) \<Rightarrow> (nat \<Rightarrow> 'e + 'a) \<Rightarrow> nat \<Rightarrow> bool" where
  "retried canRetry aborted outcomes i \<longleftrightarrow>
     \<not> aborted i \<and> (case outcomes i of Inl e \<Rightarrow> canRetry e | Inr _ \<Rightarrow> False)"

text \<open>How a call that is not retried ends the loop.\<close>

definition stop_outcome :: "(nat \<Rightarrow> bool) \<Rightarrow> (nat \<Rightarrow> 'e + 'a) \<Rightarrow> nat \<Rightarrow> ('e, 'a) retry_outcome" where
  "stop_outcome aborted outcomes k =
     (if aborted k then Aborted else case outcomes k of Inr v \<Rightarrow> Returned v | Inl e \<Rightarrow> Rethrown e)"

definition failure_log :: "(nat \<Rightarrow> 'e + 'a) \<Rightarrow> nat list \<Rightarrow> (nat \<times> 'e) list" where
  "failure_log outcomes is = map (\<lambda>i. (i + 1, projl (outcomes i))) is"

lemma retry_loop_eq:
  assumes "a + left = rc_maxAttempts cfg"
    and "k = length (takeWhile (retried (rc_canRetry cfg) aborted outcomes) [a ..< a + left])"
    and "att = attempts @ failure_log outcomes [a ..< a + k]"
  shows "retry_loop body rbody cfg draws aborted outcomes left a attempts finalBody slept =
    (slept @ map (retry_delay cfg draws) [a ..< min (a + k) (rc_maxAttempts cfg - 1)],
     if k = left
     then RetryExhausted (if att = [] then None else Some (snd (last att))) (rc_maxAttempts cfg) att
            (fold (capture_body body rbody) (map (\<lambda>i. projl (outcomes i)) [a ..< a + k]) finalBody)
     else stop_outcome aborted outcomes (a + k))"
  using assms
proof (induction left arbitrary: a k attempts att finalBody slept)
  case 0
  then show ?case by (simp add: failure_log_def)
next
  case (Suc left)
  have upt: "[a ..< a + Suc left] = a # [a + 1 ..< a + 1 + left]" by (simp add: upt_conv_Cons)
  show ?case
  proof (cases "retried (rc_canRetry cfg) aborted outcomes a")
    case False
    then have "k = 0" by (simp add: Suc.prems(2) [unfolded upt])
    with False show ?thesis
      by (auto simp: retried_def stop_outcome_def Let_def split: sum.splits)
  next
    case True
    then obtain e where e: "\<not> aborted a" "outcomes a = Inl e" "rc_canRetry cfg e"
      by (auto simp: retried_def split: sum.splits)
    obtain j where j: "k = Suc j"
      "j = length (takeWhile (retried (rc_canRetry cfg) aborted outcomes) [a + 1 ..< a + 1 + left])"
      using True by (simp add: Suc.prems(2) [unfolded upt])
    have upk: "[a ..< a + k] = a # [a + 1 ..< a + 1 + j]" using j(1) by (simp add: upt_conv_Cons del: upt_Suc)
    have max: "a + 1 + left = rc_maxAttempts cfg" using Suc.prems(1) by simp
    have att: "att = (attempts @ [(a + 1, e)]) @ failure_log outcomes [a + 1 ..< a + 1 + j]"
      using Suc.prems(3) e by (simp add: upk failure_log_def)
    have ups: "[a ..< min (a + k) (rc_maxAttempts cfg - 1)] =
        (if a + 1 < rc_maxAttempts cfg then a # [a + 1 ..< min (a + 1 + j) (rc_maxAttempts cfg - 1)] else [])"
      using j(1) Suc.prems(1) by (auto simp: upt_conv_Cons min_def simp del: upt_Suc)
    have rest: "\<not> a + 1 < rc_maxAttempts cfg \<Longrightarrow> [a + 1 ..< min (a + 1 + j) (rc_maxAttempts cfg - 1)] = []"
      by auto
    let ?slept = "if a + 1 < rc_maxAttempts cfg then slept @ [retry_delay cfg draws a] else slept"
    have step: "retry_loop body rbody cfg draws aborted outcomes (Suc left) a attempts finalBody slept =
        retry_loop body rbody cfg draws aborted outcomes left (a + 1) (attempts @ [(a + 1, e)])
          (capture_body body rbody e finalBody) ?slept"
      using e by (simp add: Let_def)
    have sl: "?slept @ map (retry_delay cfg draws) [a + 1 ..< min (a + 1 + j) (rc_maxAttempts cfg - 1)] =
        slept @ map (retry_delay cfg draws) [a ..< min (a + k) (rc_maxAttempts cfg - 1)]"
      by (cases "a + 1 < rc_maxAttempts cfg") (simp_all only: ups rest if_True if_False list.map append_assoc append.simps simp_thms)
    have bodies: "fold (capture_body body rbody) (map (\<lambda>i. projl (outcomes i)) [a ..< a + k]) finalBody =
        fold (capture_body body rbody) (map (\<lambda>i. projl (outcomes i)) [a + 1 ..< a + 1 + j])
          (capture_body body rbody e finalBody)"
      using e(2) by (simp add: upk del: upt_Suc)
    have k: "(k = Suc left) = (j = left)" "a + k = a + 1 + j" using j(1) by auto
    show ?thesis
      unfolding step bodies k(1) sl [symmetric]
      by (subst Suc.IH [OF max j(2) att]) (simp only: k(2))
  qed
qed

text \<open>Which call decides the outcome, if one does.\<close>

lemma withRetry_outcome:
  assumes "cfg = resolve_options view opts"
    and "k = length (takeWhile (retried (rc_canRetry cfg) aborted outcomes) [0 ..< rc_maxAttempts cfg])"
    and "k \<noteq> rc_maxAttempts cfg"
  shows "snd (withRetry view body rbody opts draws aborted outcomes) = stop_outcome aborted outcomes k"
  using retry_loop_eq [of 0 "rc_maxAttempts cfg" cfg k aborted outcomes _ "[]" body rbody draws None "[]"] assms
  by (simp add: Let_def withRetry_def)

text \<open>
  C20. \<open>withRetry\<close> in full: let \<open>k\<close> be the number of calls from the first on that fail and may be
  retried. If they use up the budget, the call rejects with the exhaustion error that carries
  the last error, every failure numbered from 1 and the latest response body seen; otherwise
  the next call decides: aborted before it, its value, or its error unchanged. Between the
  calls it slept once each, by the strategy and jitter configured.
\<close>
theorem withRetry_decides:
  shows "(let cfg = resolve_options view opts; m = rc_maxAttempts cfg;
              k = length (takeWhile (retried (rc_canRetry cfg) aborted outcomes) [0 ..< m]);
              failures = failure_log outcomes [0 ..< k]
          in withRetry view body rbody opts draws aborted outcomes =
               (map (retry_delay cfg draws) [0 ..< min k (m - 1)],
                if k = m
                then RetryExhausted (if failures = [] then None else Some (snd (last failures))) m failures
                       (fold (capture_body body rbody) (map snd failures) None)
                else stop_outcome aborted outcomes k))"
  using retry_loop_eq [of 0 _ "resolve_options view opts" _ aborted outcomes _ "[]" body rbody draws None "[]"]
  by (simp add: Let_def withRetry_def failure_log_def o_def)

text \<open>Every delay it sleeps is within the cap, and within a quarter more with jitter.\<close>

lemma retry_delays_bounded:
  assumes "0 \<le> rc_maxDelayMs cfg" "\<forall>i. 0 \<le> fst (draws i) \<and> fst (draws i) < snd (draws i)"
  shows "0 \<le> retry_delay cfg draws i \<and> 4 * retry_delay cfg draws i \<le> 5 * rc_maxDelayMs cfg"
proof -
  let ?d = "computeBackoffDelay i (rc_baseDelayMs cfg) (rc_maxDelayMs cfg) (rc_backoff cfg)"
  have d: "0 \<le> ?d" "?d \<le> rc_maxDelayMs cfg" using delay_bounds [OF assms(1)] by auto
  then have "3 * ?d div 4 \<le> jitterDelay (fst (draws i)) (snd (draws i)) ?d \<and>
      4 * jitterDelay (fst (draws i)) (snd (draws i)) ?d \<le> 5 * ?d"
    using assms(2) by (intro jitter_bounds) auto
  moreover have "0 \<le> 3 * ?d div 4" using d(1) by simp
  ultimately show ?thesis using d by (auto simp: retry_delay_def Let_def)
qed

text \<open>
  The transient classification reads the message first: an error of any kind whose message
  holds one of the patterns (\<open>''500''\<close> in an amount, say) is retried.
\<close>

lemma message_decides: "er_message e = ''amount 1500 exceeds'' \<Longrightarrow> isTransientRpcError (Some e)"
  by (simp add: isTransientRpcError_def TRANSIENT_PATTERNS_def to_lower_def Let_def)

end
