(* ===== verification/StreamMonitor.thy ===== *)
theory StreamMonitor
  imports StreamData
begin

text \<open>
  The monitoring daemon of \<open>src/stream-monitor.ts\<close>. A poll cycle asks for every stream at once;
  the answers arrive one by one, in any order and possibly after the next cycle has begun, so
  \<open>pollStream\<close> is split at its two awaits. Events go to the log \<open>sm_log\<close> in the order they are
  emitted (the listeners of an event cannot disturb the daemon: what they throw is swallowed).
  Every cycle has its own abort controller; the monitor keeps the latest one.
\<close>

datatype monitor_event =
    StreamStatusChanged string "stream_status option" stream_status
  | StreamExpired string int
  | StreamExpiringSoon string int int
  | StreamLowBalance string int int
  | MonitorError string

record monitor =
  sm_streamIds :: "string list"
  sm_expiryWarningMs :: int
  sm_lowBalanceThreshold :: "int option"
  sm_lowBalanceDebounceMs :: int
  sm_lastStatus :: "(string, stream_status) jsmap"
  sm_expiringSoonFired :: "string list"
  sm_expiredFired :: "string list"
  sm_lastLowBalanceAlertAt :: "(string, int) jsmap"
  sm_timer :: bool
  sm_stopped :: bool
  sm_controller :: "nat option"
  sm_aborted :: "nat list"
  sm_cycles :: nat
  sm_askedStream :: "(string \<times> nat) list"
  sm_askedClaimable :: "(string \<times> nat) list"
  sm_log :: "monitor_event list"

definition sm_emit :: "monitor_event \<Rightarrow> monitor \<Rightarrow> monitor" where
  "sm_emit e s = s\<lparr>sm_log := sm_log s @ [e]\<rparr>"

section \<open>Operations\<close>

text \<open>Asking for every stream happens in the turn of \<open>poll\<close>, so its own guards cannot fire yet.\<close>

definition sm_poll :: "monitor \<Rightarrow> monitor" where
  "sm_poll s =
     (if sm_stopped s then s
      else s\<lparr>sm_cycles := sm_cycles s + 1, sm_controller := Some (sm_cycles s),
             sm_askedStream := sm_askedStream s @ map (\<lambda>k. (k, sm_cycles s)) (sm_streamIds s)\<rparr>)"

definition sm_scheduleNextPoll :: "monitor \<Rightarrow> monitor" where
  "sm_scheduleNextPoll s = (if sm_stopped s then s else (sm_poll s)\<lparr>sm_timer := True\<rparr>)"

definition new_monitor ::
    "string list \<Rightarrow> int option \<Rightarrow> int option \<Rightarrow> int option \<Rightarrow> monitor" where
  "new_monitor streamIds expiryWarningMs lowBalanceThreshold lowBalanceDebounceMs =
     sm_scheduleNextPoll
       \<lparr>sm_streamIds = streamIds,
        sm_expiryWarningMs = (case expiryWarningMs of Some w \<Rightarrow> w | None \<Rightarrow> 60 * 60 * 1000),
        sm_lowBalanceThreshold = lowBalanceThreshold,
        sm_lowBalanceDebounceMs = (case lowBalanceDebounceMs of Some d \<Rightarrow> d | None \<Rightarrow> 0),
        sm_lastStatus = [], sm_expiringSoonFired = [], sm_expiredFired = [],
        sm_lastLowBalanceAlertAt = [], sm_timer = False, sm_stopped = False,
        sm_controller = None, sm_aborted = [], sm_cycles = 0, sm_askedStream = [],
        sm_askedClaimable = [], sm_log = []\<rparr>"

fun sm_addStreams :: "string list \<Rightarrow> monitor \<Rightarrow> monitor" where
  "sm_addStreams [] s = s"
| "sm_addStreams (k # ks) s =
     sm_addStreams ks (if k \<in> set (sm_streamIds s) then s else s\<lparr>sm_streamIds := sm_streamIds s @ [k]\<rparr>)"

definition sm_forget :: "string \<Rightarrow> monitor \<Rightarrow> monitor" where
  "sm_forget k s = s\<lparr>sm_streamIds := remove1 k (sm_streamIds s),
     sm_lastStatus := map_del k (sm_lastStatus s),
     sm_expiringSoonFired := removeAll k (sm_expiringSoonFired s),
     sm_expiredFired := removeAll k (sm_expiredFired s),
     sm_lastLowBalanceAlertAt := map_del k (sm_lastLowBalanceAlertAt s)\<rparr>"

fun sm_removeStreams :: "string list \<Rightarrow> monitor \<Rightarrow> monitor" where
  "sm_removeStreams [] s = s"
| "sm_removeStreams (k # ks) s = sm_removeStreams ks (sm_forget k s)"

definition sm_stop :: "monitor \<Rightarrow> monitor" where
  "sm_stop s =
     (if sm_stopped s then s
      else s\<lparr>sm_stopped := True, sm_timer := False,
             sm_aborted := (case sm_controller s of Some c \<Rightarrow> c # sm_aborted s | None \<Rightarrow> sm_aborted s),
             sm_controller := None\<rparr>)"

section \<open>Answers\<close>

definition sm_see_status :: "string \<Rightarrow> stream \<Rightarrow> monitor \<Rightarrow> monitor" where
  "sm_see_status k st s =
     (let previousStatus = map_get (sm_lastStatus s) k
      in if previousStatus \<noteq> Some (status st)
         then sm_emit (StreamStatusChanged k previousStatus (status st))
                (s\<lparr>sm_lastStatus := map_set k (status st) (sm_lastStatus s)\<rparr>)
         else s)"

definition sm_see_expiry :: "string \<Rightarrow> stream \<Rightarrow> int \<Rightarrow> monitor \<Rightarrow> monitor" where
  "sm_see_expiry k st nowMs s =
     (let secondsLeft = endTime st - nowMs div 1000
      in if secondsLeft \<le> 0 \<and> k \<notin> set (sm_expiredFired s)
         then sm_emit (StreamExpired k (endTime st)) (s\<lparr>sm_expiredFired := sm_expiredFired s @ [k]\<rparr>)
         else if secondsLeft > 0 \<and> secondsLeft * 1000 \<le> sm_expiryWarningMs s \<and>
                 k \<notin> set (sm_expiringSoonFired s)
         then sm_emit (StreamExpiringSoon k secondsLeft (endTime st))
                (s\<lparr>sm_expiringSoonFired := sm_expiringSoonFired s @ [k]\<rparr>)
         else s)"

text \<open>The answer of \<open>getStream\<close> to a request of the given cycle; \<open>None\<close> is a rejection.\<close>

definition sm_gotStream :: "string \<Rightarrow> nat \<Rightarrow> stream option \<Rightarrow> int \<Rightarrow> monitor \<Rightarrow> monitor" where
  "sm_gotStream k c answer nowMs s =
     (if (k, c) \<notin> set (sm_askedStream s) then s
      else
        let s1 = s\<lparr>sm_askedStream := remove1 (k, c) (sm_askedStream s)\<rparr>
        in case answer of
             None \<Rightarrow> sm_emit (MonitorError k) s1
           | Some st \<Rightarrow>
               if c \<in> set (sm_aborted s1) then s1
               else
                 let s2 = sm_see_expiry k st nowMs (sm_see_status k st s1)
                 in if sm_lowBalanceThreshold s2 \<noteq> None
                    then s2\<lparr>sm_askedClaimable := sm_askedClaimable s2 @ [(k, c)]\<rparr>
                    else s2)"

definition sm_see_balance :: "string \<Rightarrow> int \<Rightarrow> int \<Rightarrow> int \<Rightarrow> monitor \<Rightarrow> monitor" where
  "sm_see_balance k claimable threshold nowMs s =
     (if claimable < threshold then
        (let lastAlertAt = map_get (sm_lastLowBalanceAlertAt s) k
         in if sm_lowBalanceDebounceMs s = 0 \<or>
               (case lastAlertAt of None \<Rightarrow> True | Some a \<Rightarrow> nowMs - a \<ge> sm_lowBalanceDebounceMs s)
            then sm_emit (StreamLowBalance k claimable threshold)
                   (s\<lparr>sm_lastLowBalanceAlertAt := map_set k nowMs (sm_lastLowBalanceAlertAt s)\<rparr>)
            else s)
      else s\<lparr>sm_lastLowBalanceAlertAt := map_del k (sm_lastLowBalanceAlertAt s)\<rparr>)"

definition sm_gotClaimable :: "string \<Rightarrow> nat \<Rightarrow> int option \<Rightarrow> int \<Rightarrow> monitor \<Rightarrow> monitor" where
  "sm_gotClaimable k c answer nowMs s =
     (if (k, c) \<notin> set (sm_askedClaimable s) then s
      else
        let s1 = s\<lparr>sm_askedClaimable := remove1 (k, c) (sm_askedClaimable s)\<rparr>
        in case answer of
             None \<Rightarrow> sm_emit (MonitorError k) s1
           | Some claimable \<Rightarrow>
               (case sm_lowBalanceThreshold s1 of
                  None \<Rightarrow> s1
                | Some threshold \<Rightarrow> sm_see_balance k claimable threshold nowMs s1))"

datatype sm_event =
    SmTick
  | SmGotStream string nat "stream option" int
  | SmGotClaimable string nat "int option" int
  | SmAdd "string list"
  | SmRemove "string list"
  | SmStop

fun sm_step :: "sm_event \<Rightarrow> monitor \<Rightarrow> monitor" where
  "sm_step SmTick s = (if sm_timer s then sm_poll s else s)"
| "sm_step (SmGotStream k c answer t) s = sm_gotStream k c answer t s"
| "sm_step (SmGotClaimable k c answer t) s = sm_gotClaimable k c answer t s"
| "sm_step (SmAdd ks) s = sm_addStreams ks s"
| "sm_step (SmRemove ks) s = sm_removeStreams ks s"
| "sm_step SmStop s = sm_stop s"

section \<open>Each alert once, and a status history without gaps\<close>

fun status_of :: "string \<Rightarrow> monitor_event \<Rightarrow> (stream_status option \<times> stream_status) list" where
  "status_of k (StreamStatusChanged j p c) = (if j = k then [(p, c)] else [])"
| "status_of k (StreamExpired j e) = []"
| "status_of k (StreamExpiringSoon j n e) = []"
| "status_of k (StreamLowBalance j c t) = []"
| "status_of k (MonitorError j) = []"

fun is_expired :: "string \<Rightarrow> monitor_event \<Rightarrow> bool" where
  "is_expired k (StreamExpired j e) = (j = k)"
| "is_expired k (StreamStatusChanged j p c) = False"
| "is_expired k (StreamExpiringSoon j n e) = False"
| "is_expired k (StreamLowBalance j c t) = False"
| "is_expired k (MonitorError j) = False"

fun is_expiring :: "string \<Rightarrow> monitor_event \<Rightarrow> bool" where
  "is_expiring k (StreamExpiringSoon j n e) = (j = k)"
| "is_expiring k (StreamStatusChanged j p c) = False"
| "is_expiring k (StreamExpired j e) = False"
| "is_expiring k (StreamLowBalance j c t) = False"
| "is_expiring k (MonitorError j) = False"

definition status_history ::
    "string \<Rightarrow> monitor_event list \<Rightarrow> (stream_status option \<times> stream_status) list" where
  "status_history k log = concat (map (status_of k) log)"

text \<open>Every change starts from the status the previous one announced, and is a change.\<close>

fun linked :: "'c option \<Rightarrow> ('c option \<times> 'c) list \<Rightarrow> bool" where
  "linked p [] = True"
| "linked p ((q, c) # rest) = (q = p \<and> p \<noteq> Some c \<and> linked (Some c) rest)"

definition chain_end ::
    "'c option \<Rightarrow> ('c option \<times> 'c) list \<Rightarrow> 'c option" where
  "chain_end p xs = (if xs = [] then p else Some (snd (last xs)))"

lemma linked_append: "linked p (xs @ [(q, c)]) \<longleftrightarrow> linked p xs \<and> q = chain_end p xs \<and> q \<noteq> Some c"
  by (induction p xs rule: linked.induct) (auto simp: chain_end_def)

definition sm_inv :: "string \<Rightarrow> monitor \<Rightarrow> bool" where
  "sm_inv k s \<longleftrightarrow>
     linked None (status_history k (sm_log s)) \<and>
     map_get (sm_lastStatus s) k = chain_end None (status_history k (sm_log s)) \<and>
     length (filter (is_expired k) (sm_log s)) = (if k \<in> set (sm_expiredFired s) then 1 else 0) \<and>
     length (filter (is_expiring k) (sm_log s)) = (if k \<in> set (sm_expiringSoonFired s) then 1 else 0)"

lemma sm_inv_cong:
  assumes "sm_log s' = sm_log s" "map_get (sm_lastStatus s') k = map_get (sm_lastStatus s) k"
    "k \<in> set (sm_expiredFired s') \<longleftrightarrow> k \<in> set (sm_expiredFired s)"
    "k \<in> set (sm_expiringSoonFired s') \<longleftrightarrow> k \<in> set (sm_expiringSoonFired s)"
  shows "sm_inv k s' \<longleftrightarrow> sm_inv k s"
  using assms by (simp add: sm_inv_def)

lemma sm_inv_error: "sm_inv k s \<Longrightarrow> sm_inv k (sm_emit (MonitorError j) s)"
  by (simp add: sm_inv_def sm_emit_def status_history_def)

lemma sm_inv_status: "sm_inv k s \<Longrightarrow> sm_inv k (sm_see_status j st s)"
  by (auto simp: sm_inv_def sm_see_status_def sm_emit_def status_history_def Let_def linked_append)
    (simp_all add: chain_end_def)

lemma sm_inv_expiry: "sm_inv k s \<Longrightarrow> sm_inv k (sm_see_expiry j st t s)"
  by (auto simp: sm_inv_def sm_see_expiry_def sm_emit_def status_history_def Let_def)

lemma sm_inv_balance: "sm_inv k s \<Longrightarrow> sm_inv k (sm_see_balance j c n t s)"
  by (auto simp: sm_inv_def sm_see_balance_def sm_emit_def status_history_def Let_def split: option.splits)

lemma sm_inv_asked:
  "sm_inv k (s\<lparr>sm_askedStream := q\<rparr>) \<longleftrightarrow> sm_inv k s" "sm_inv k (s\<lparr>sm_askedClaimable := q\<rparr>) \<longleftrightarrow> sm_inv k s"
  by (rule sm_inv_cong; simp)+

lemma sm_inv_gotStream: "sm_inv k s \<Longrightarrow> sm_inv k (sm_gotStream j c answer t s)"
  by (auto simp: sm_gotStream_def Let_def sm_inv_asked sm_inv_error sm_inv_status sm_inv_expiry
      split: option.splits)

lemma sm_inv_gotClaimable: "sm_inv k s \<Longrightarrow> sm_inv k (sm_gotClaimable j c answer t s)"
  by (auto simp: sm_gotClaimable_def Let_def sm_inv_asked sm_inv_error sm_inv_balance split: option.splits)

lemma sm_inv_poll: "sm_inv k (sm_poll s) \<longleftrightarrow> sm_inv k s"
  by (rule sm_inv_cong) (simp_all add: sm_poll_def)

lemma sm_inv_stop: "sm_inv k (sm_stop s) \<longleftrightarrow> sm_inv k s"
  by (rule sm_inv_cong) (simp_all add: sm_stop_def)

lemma sm_inv_add: "sm_inv k (sm_addStreams ks s) \<longleftrightarrow> sm_inv k s"
proof (induction ks s rule: sm_addStreams.induct)
  case (2 j ks s)
  have "sm_inv k (s\<lparr>sm_streamIds := q\<rparr>) \<longleftrightarrow> sm_inv k s" for q by (rule sm_inv_cong) simp_all
  with 2 show ?case by simp
qed simp

lemma sm_inv_remove: "k \<notin> set ks \<Longrightarrow> sm_inv k (sm_removeStreams ks s) \<longleftrightarrow> sm_inv k s"
proof (induction ks s rule: sm_removeStreams.induct)
  case (2 j ks s)
  from 2(2) have "sm_inv k (sm_forget j s) \<longleftrightarrow> sm_inv k s"
    by (intro sm_inv_cong) (auto simp: sm_forget_def)
  with 2 show ?case by simp
qed simp

text \<open>The monitor as long as one stream stays watched.\<close>

fun sm_removes :: "string \<Rightarrow> sm_event \<Rightarrow> bool" where
  "sm_removes k (SmRemove ks) = (k \<in> set ks)"
| "sm_removes k e = False"

definition sm_watch :: "string \<Rightarrow> sm_event \<Rightarrow> monitor \<Rightarrow> monitor" where
  "sm_watch k e s = (if sm_removes k e then s else sm_step e s)"

interpretation smon: step_system "sm_watch k" "sm_inv k" for k
proof unfold_locales
  fix s e assume "sm_inv k s"
  then show "sm_inv k (sm_watch k e s)"
    by (cases e) (simp_all add: sm_watch_def sm_inv_poll sm_inv_gotStream sm_inv_gotClaimable
        sm_inv_add sm_inv_remove sm_inv_stop)
qed

lemma watched_run: "list_all (\<lambda>e. \<not> sm_removes k e) es \<Longrightarrow> fold (sm_watch k) es s = fold sm_step es s"
  by (induction es arbitrary: s) (simp_all add: sm_watch_def)

lemma new_monitor_inv: "sm_inv k (new_monitor ids w thr deb)"
  by (simp add: sm_inv_def new_monitor_def sm_scheduleNextPoll_def sm_poll_def status_history_def
      chain_end_def)

text \<open>
  C22. However the answers of overlapping poll cycles interleave, while a stream is watched its
  expiry and its expiry warning are each announced at most once, and its status changes form a
  history without gaps: each starts from the status announced last, and really changes it.
\<close>
theorem monitor_alerts_once:
  assumes "list_all (\<lambda>e. \<not> sm_removes k e) es"
  shows "(let log = sm_log (fold sm_step es (new_monitor ids w thr deb))
          in length (filter (is_expired k) log) \<le> 1 \<and> length (filter (is_expiring k) log) \<le> 1 \<and>
             linked None (status_history k log))"
  using smon.run_inv [OF new_monitor_inv, of k es ids w thr deb] watched_run [OF assms]
  by (simp add: sm_inv_def Let_def)

definition watched :: stream where
  "watched = \<lparr>stream_id = ''7'', sender = ''S'', recipient = ''R'', token = ''T'', deposit = 100,
     flowRate = 1, startTime = 0, endTime = 100, lastWithdrawTime = 0, status = Active,
     autoRenew = False, pausedAt = None, lockUntil = None, namespace = None, tag = None\<rparr>"

theorem monitor_alerts_once_witness:
  "(let log = sm_log (fold sm_step
       [SmTick, SmGotStream ''7'' 1 (Some watched) 150000, SmGotStream ''7'' 0 (Some watched) 151000]
       (new_monitor [''7''] None None None))
    in length (filter (is_expired ''7'') log) \<le> 1 \<and> length (filter (is_expiring ''7'') log) \<le> 1 \<and>
       linked None (status_history ''7'' log)) \<and>
   sm_log (fold sm_step
       [SmTick, SmGotStream ''7'' 1 (Some watched) 150000, SmGotStream ''7'' 0 (Some watched) 151000]
       (new_monitor [''7''] None None None)) =
     [StreamStatusChanged ''7'' None Active, StreamExpired ''7'' 100]"
  by (rule conjI, rule monitor_alerts_once)
    (simp_all add: new_monitor_def sm_scheduleNextPoll_def sm_poll_def sm_gotStream_def
      sm_see_status_def sm_see_expiry_def sm_emit_def watched_def Let_def)

section \<open>Stopping\<close>

lemma sm_stop_ends_polling: "sm_step SmTick (sm_stop s) = sm_stop s \<or> sm_stopped s"
  by (simp add: sm_stop_def)

text \<open>
  After \<open>stop\<close>, the answers of the latest cycle change nothing any more (a failure is still
  reported) - but only of the latest: the controllers of older cycles are forgotten when a new
  cycle starts, so an answer still due from one of them is processed after \<open>stop\<close>.
\<close>

lemma stop_silences_latest:
  assumes "sm_controller s = Some c" "\<not> sm_stopped s"
  shows "sm_log (sm_step (SmGotStream k c (Some st) t) (sm_stop s)) = sm_log s"
  using assms by (simp add: sm_stop_def sm_gotStream_def Let_def)

lemma stop_leaks_older_cycles:
  "sm_log (fold sm_step [SmTick, SmStop, SmGotStream ''7'' 0 (Some watched) 150000]
     (new_monitor [''7''] None None None)) =
   [StreamStatusChanged ''7'' None Active, StreamExpired ''7'' 100]"
  by (simp add: new_monitor_def sm_scheduleNextPoll_def sm_poll_def sm_gotStream_def sm_stop_def
      sm_see_status_def sm_see_expiry_def sm_emit_def watched_def Let_def)

end
