(* ===== verification/Effects.thy ===== *)
theory Effects
  imports Prelude
begin

text \<open>
  Asynchronous code that changes state and may throw: a program takes a state and returns the new
  one with a value or an exception, or does not return at all. The combinators are those of the
  code: sequencing, reading and updating the state, \<open>throw\<close>, \<open>try\<close>/\<open>catch\<close> and a \<open>for\<close> loop. Triples
  and \<open>returns\<close> give one rule for each of them.
\<close>

section \<open>Programs\<close>

type_synonym ('s, 'x, 'a) prog = "'s \<Rightarrow> ('s \<times> ('x + 'a)) option"

definition sbind :: "('s, 'x, 'a) prog \<Rightarrow> ('a \<Rightarrow> ('s, 'x, 'b) prog) \<Rightarrow> ('s, 'x, 'b) prog" where
  "sbind m f = (\<lambda>s. case m s of
     None \<Rightarrow> None | Some (s', Inl e) \<Rightarrow> Some (s', Inl e) | Some (s', Inr a) \<Rightarrow> f a s')"

definition slift :: "'x + 'a \<Rightarrow> ('s, 'x, 'a) prog" where
  "slift r = (\<lambda>s. Some (s, r))"

abbreviation sreturn :: "'a \<Rightarrow> ('s, 'x, 'a) prog" where
  "sreturn a \<equiv> slift (Inr a)"

abbreviation sthrow :: "'x \<Rightarrow> ('s, 'x, 'a) prog" where
  "sthrow e \<equiv> slift (Inl e)"

definition sget :: "('s \<Rightarrow> 'a) \<Rightarrow> ('s, 'x, 'a) prog" where
  "sget f = (\<lambda>s. Some (s, Inr (f s)))"

definition smodify :: "('s \<Rightarrow> 's) \<Rightarrow> ('s, 'x, unit) prog" where
  "smodify f = (\<lambda>s. Some (f s, Inr ()))"

definition scheck :: "bool \<Rightarrow> 'x \<Rightarrow> ('s, 'x, unit) prog" where
  "scheck ok e = (if ok then sreturn () else sthrow e)"

definition stry :: "('s, 'x, 'a) prog \<Rightarrow> ('x \<Rightarrow> ('s, 'y, 'a) prog) \<Rightarrow> ('s, 'y, 'a) prog" where
  "stry m h = (\<lambda>s. case m s of
     None \<Rightarrow> None | Some (s', Inl e) \<Rightarrow> h e s' | Some (s', Inr a) \<Rightarrow> Some (s', Inr a))"

fun sforeach :: "('i \<Rightarrow> ('s, 'x, unit) prog) \<Rightarrow> 'i list \<Rightarrow> ('s, 'x, unit) prog" where
  "sforeach f [] = sreturn ()"
| "sforeach f (x # xs) = sbind (f x) (\<lambda>_. sforeach f xs)"

text \<open>A loop that collects the values of its rounds.\<close>

fun smap :: "('i \<Rightarrow> ('s, 'x, 'a) prog) \<Rightarrow> 'i list \<Rightarrow> ('s, 'x, 'a list) prog" where
  "smap f [] = sreturn []"
| "smap f (x # xs) = sbind (f x) (\<lambda>a. sbind (smap f xs) (\<lambda>as. sreturn (a # as)))"

section \<open>Triples\<close>

text \<open>
  A triple: from \<open>P\<close>, the program returns normally with \<open>Q\<close> or throws with \<open>E\<close>, if it returns.
\<close>

definition sub_triple ::
    "('s \<Rightarrow> bool) \<Rightarrow> ('s, 'x, 'a) prog \<Rightarrow> ('a \<Rightarrow> 's \<Rightarrow> bool) \<Rightarrow> ('s \<Rightarrow> bool) \<Rightarrow> bool" where
  "sub_triple P m Q E \<longleftrightarrow> (\<forall>s s' r. P s \<longrightarrow> m s = Some (s', r) \<longrightarrow>
     (case r of Inl _ \<Rightarrow> E s' | Inr a \<Rightarrow> Q a s'))"

lemma triple_bind:
  assumes "sub_triple P m R E" "\<And>a. sub_triple (R a) (f a) Q E"
  shows "sub_triple P (sbind m f) Q E"
  unfolding sub_triple_def
proof (intro allI impI)
  fix s s' r assume P: "P s" and run: "sbind m f s = Some (s', r)"
  from run obtain s1 r1 where m: "m s = Some (s1, r1)" by (auto simp: sbind_def split: option.splits)
  with assms(1) P have r1: "case r1 of Inl _ \<Rightarrow> E s1 | Inr a \<Rightarrow> R a s1" unfolding sub_triple_def by blast
  show "case r of Inl _ \<Rightarrow> E s' | Inr a \<Rightarrow> Q a s'"
  proof (cases r1)
    case (Inl e)
    with run m r1 show ?thesis by (auto simp: sbind_def)
  next
    case (Inr a)
    with run m have "f a s1 = Some (s', r)" by (simp add: sbind_def)
    moreover from r1 Inr have "R a s1" by simp
    ultimately show ?thesis using assms(2) [of a] unfolding sub_triple_def by blast
  qed
qed

lemma triple_lift:
  "(\<And>s. P s \<Longrightarrow> E s) \<Longrightarrow> (\<And>s a. P s \<Longrightarrow> r = Inr a \<Longrightarrow> Q a s) \<Longrightarrow> sub_triple P (slift r) Q E"
  by (auto simp: sub_triple_def slift_def split: sum.splits)

lemma triple_get: "(\<And>s. P s \<Longrightarrow> Q (f s) s) \<Longrightarrow> sub_triple P (sget f) Q E"
  by (auto simp: sub_triple_def sget_def)

lemma triple_modify: "(\<And>s. P s \<Longrightarrow> Q () (f s)) \<Longrightarrow> sub_triple P (smodify f) Q E"
  by (auto simp: sub_triple_def smodify_def)

lemma triple_check:
  "(\<And>s. P s \<Longrightarrow> \<not> ok \<Longrightarrow> E s) \<Longrightarrow> (\<And>s. P s \<Longrightarrow> ok \<Longrightarrow> Q () s) \<Longrightarrow> sub_triple P (scheck ok e) Q E"
  by (auto simp: sub_triple_def scheck_def slift_def split: sum.splits)

lemma triple_try:
  assumes "sub_triple P m Q R" "\<And>e. sub_triple R (h e) Q E"
  shows "sub_triple P (stry m h) Q E"
  unfolding sub_triple_def
proof (intro allI impI)
  fix s s' r assume P: "P s" and run: "stry m h s = Some (s', r)"
  from run obtain s1 r1 where m: "m s = Some (s1, r1)" by (auto simp: stry_def split: option.splits)
  with assms(1) P have r1: "case r1 of Inl _ \<Rightarrow> R s1 | Inr a \<Rightarrow> Q a s1" unfolding sub_triple_def by blast
  show "case r of Inl _ \<Rightarrow> E s' | Inr a \<Rightarrow> Q a s'"
  proof (cases r1)
    case (Inl e)
    with run m have "h e s1 = Some (s', r)" by (simp add: stry_def)
    with r1 Inl assms(2) [of e] show ?thesis unfolding sub_triple_def by auto
  next
    case (Inr a)
    with run m r1 show ?thesis by (auto simp: stry_def)
  qed
qed

lemma triple_if:
  "(c \<Longrightarrow> sub_triple P m Q E) \<Longrightarrow> (\<not> c \<Longrightarrow> sub_triple P m' Q E) \<Longrightarrow> sub_triple P (if c then m else m') Q E"
  by simp

lemma triple_option:
  "(x = None \<Longrightarrow> sub_triple P m Q E) \<Longrightarrow> (\<And>a. x = Some a \<Longrightarrow> sub_triple P (f a) Q E) \<Longrightarrow>
   sub_triple P (case x of None \<Rightarrow> m | Some a \<Rightarrow> f a) Q E"
  by (cases x) simp_all

lemma triple_foreach:
  "(\<And>x. x \<in> set xs \<Longrightarrow> sub_triple I (f x) (\<lambda>_. I) I) \<Longrightarrow> sub_triple I (sforeach f xs) (\<lambda>_. I) I"
proof (induction xs)
  case Nil
  show ?case by (simp, rule triple_lift) simp_all
next
  case (Cons x xs)
  show ?case by (simp, rule triple_bind [where R = "\<lambda>_. I"]) (simp_all add: Cons)
qed

lemma triple_map:
  "(\<And>x. x \<in> set xs \<Longrightarrow> sub_triple I (f x) (\<lambda>_. I) I) \<Longrightarrow> sub_triple I (smap f xs) (\<lambda>_. I) I"
proof (induction xs)
  case Nil
  show ?case by (simp, rule triple_lift) simp_all
next
  case (Cons x xs)
  then have "sub_triple I (f x) (\<lambda>_. I) I" "sub_triple I (smap f xs) (\<lambda>_. I) I" by simp_all
  then show ?case
    by simp (rule triple_bind, assumption, rule triple_bind, assumption, rule triple_lift; simp)
qed

lemma triple_conseq:
  assumes "sub_triple P' m Q' E'" "\<And>s. P s \<Longrightarrow> P' s" "\<And>a s. Q' a s \<Longrightarrow> Q a s" "\<And>s. E' s \<Longrightarrow> E s"
  shows "sub_triple P m Q E"
  using assms unfolding sub_triple_def by (fastforce split: sum.splits)

text \<open>A property of the state that a program keeps, however it ends.\<close>

abbreviation keeps :: "('s \<Rightarrow> bool) \<Rightarrow> ('s, 'x, 'a) prog \<Rightarrow> bool" where
  "keeps I m \<equiv> sub_triple I m (\<lambda>_. I) I"

lemma keeps_bind: "keeps I m \<Longrightarrow> (\<And>a. keeps I (f a)) \<Longrightarrow> keeps I (sbind m f)"
  by (rule triple_bind)

lemma keeps_try: "keeps I m \<Longrightarrow> (\<And>e. keeps I (h e)) \<Longrightarrow> keeps I (stry m h)"
  by (rule triple_try)

lemma keeps_lift: "keeps I (slift r)" by (rule triple_lift)

lemma keeps_get: "keeps I (sget f)" by (rule triple_get)

lemma keeps_check: "keeps I (scheck ok e)" by (rule triple_check)

lemma keeps_modify: "(\<And>s. I s \<Longrightarrow> I (f s)) \<Longrightarrow> keeps I (smodify f)"
  by (rule triple_modify)

lemma keeps_then:
  assumes "keeps I m" "\<And>s. I s \<Longrightarrow> E s" "\<And>a. sub_triple I (f a) Q E"
  shows "sub_triple I (sbind m f) Q E"
  by (rule triple_bind [where R = "\<lambda>_. I"], rule triple_conseq [OF assms(1)]) (auto intro: assms(2,3))

lemmas keeps_intros = keeps_bind keeps_try keeps_lift keeps_get keeps_check triple_if triple_option
  triple_foreach triple_map

section \<open>Programs that return\<close>

definition returns :: "('s, 'x, 'a) prog \<Rightarrow> bool" where
  "returns m \<longleftrightarrow> (\<forall>s. m s \<noteq> None)"

lemma returns_bind: "returns m \<Longrightarrow> (\<And>a. returns (f a)) \<Longrightarrow> returns (sbind m f)"
  by (fastforce simp: returns_def sbind_def split: option.splits prod.splits sum.splits)

lemma returns_try: "returns m \<Longrightarrow> (\<And>e. returns (h e)) \<Longrightarrow> returns (stry m h)"
  by (fastforce simp: returns_def stry_def split: option.splits prod.splits sum.splits)

lemma returns_simple:
  "returns (slift r)" "returns (sget f)" "returns (smodify u)" "returns (scheck ok e)"
  by (simp_all add: returns_def slift_def sget_def smodify_def scheck_def)

lemma returns_foreach: "(\<And>x. x \<in> set xs \<Longrightarrow> returns (f x)) \<Longrightarrow> returns (sforeach f xs)"
  by (induction xs) (auto intro: returns_bind returns_simple)

lemma returns_map: "(\<And>x. x \<in> set xs \<Longrightarrow> returns (f x)) \<Longrightarrow> returns (smap f xs)"
  by (induction xs) (auto intro!: returns_bind returns_simple)

lemma returns_Some: "returns m \<Longrightarrow> \<exists>s' r. m s = Some (s', r)"
  unfolding returns_def by (metis not_Some_eq surj_pair)

lemma sbind_Some:
  "sbind m f s = Some (s', Inr b) \<longleftrightarrow> (\<exists>s1 a. m s = Some (s1, Inr a) \<and> f a s1 = Some (s', Inr b))"
  by (auto simp: sbind_def split: option.splits prod.splits sum.splits)

lemma sbind_simps [simp]:
  "sbind (slift (Inr a)) f = f a" "sbind (slift (Inl e)) f = slift (Inl e)"
  by (simp_all add: sbind_def slift_def)

end
