(* ===== verification/GuardedRpc.thy ===== *)
theory GuardedRpc
  imports Retry CircuitBreaker Digits
begin

text \<open>
  How the client issues an RPC call (\<open>src/SoroStreamClient.ts\<close>): \<open>withRetry(() => this.withBreaker(...))\<close>.
  The retry loop of \<^theory_text>\<open>Retry\<close> runs over attempts that each pass the circuit breaker of
  \<^theory_text>\<open>CircuitBreaker\<close>. What the network would do in attempt \<open>i\<close> is \<open>re_raw i\<close>, begun and settled at
  the given times; without a breaker every attempt reaches the network.
\<close>

datatype 'e call_error = RpcError 'e | BreakerRejected breaker_error

text \<open>The message of the breaker's errors, which is what the retry classification reads.\<close>

fun breaker_message :: "breaker_error \<Rightarrow> string" where
  "breaker_message BreakerPaused = ''RPC endpoint unavailable (circuit breaker manually paused)''"
| "breaker_message BreakerOpen = ''RPC endpoint unavailable (circuit breaker open)''"
| "breaker_message (BreakerHalfOpen ms) =
     ''RPC endpoint unavailable (circuit breaker half-open, next probe in '' @ string_of_int ms @ ''ms)''"

fun call_view :: "('e \<Rightarrow> error_value option) \<Rightarrow> 'e call_error \<Rightarrow> error_value option" where
  "call_view view (RpcError e) = view e"
| "call_view view (BreakerRejected b) =
     Some \<lparr>er_message = breaker_message b, er_isObject = True, er_status = None,
           er_responseStatus = None, er_code = None, er_errorCode = None, er_errorName = Some ''Error''\<rparr>"

fun call_body :: "('e \<Rightarrow> string option) \<Rightarrow> 'e call_error \<Rightarrow> string option" where
  "call_body body (RpcError e) = body e"
| "call_body body (BreakerRejected b) = None"

record ('e, 'a) rpc_env =
  re_begin :: "nat \<Rightarrow> int"
  re_end :: "nat \<Rightarrow> int"
  re_raw :: "nat \<Rightarrow> 'e + 'a"
  re_aborted :: "nat \<Rightarrow> bool"
  re_draws :: "nat \<Rightarrow> int \<times> int"

record 'e error_reader =
  ev_view :: "'e \<Rightarrow> error_value option"
  ev_body :: "'e \<Rightarrow> string option"
  ev_rbody :: "'e \<Rightarrow> string option"

text \<open>\<open>withBreaker\<close>: one attempt.\<close>

definition withBreaker ::
    "int \<Rightarrow> int \<Rightarrow> 'e + 'a \<Rightarrow> breaker option \<Rightarrow> breaker option \<times> ('e call_error + 'a)" where
  "withBreaker t t' raw br =
     (case br of
        None \<Rightarrow> (None, case raw of Inl e \<Rightarrow> Inl (RpcError e) | Inr v \<Rightarrow> Inr v)
      | Some b \<Rightarrow>
          (case cb_begin t b of
             (b', Inl e) \<Rightarrow> (Some b', Inl (BreakerRejected e))
           | (b', Inr _) \<Rightarrow>
               (case raw of
                  Inr v \<Rightarrow> (Some (cb_success b'), Inr v)
                | Inl e \<Rightarrow> (Some (cb_failure t' b'), Inl (RpcError e)))))"

fun breaker_after :: "('e, 'a) rpc_env \<Rightarrow> breaker option \<Rightarrow> nat \<Rightarrow> breaker option" where
  "breaker_after env br 0 = br"
| "breaker_after env br (Suc n) =
     fst (withBreaker (re_begin env n) (re_end env n) (re_raw env n) (breaker_after env br n))"

definition attempt_outcome :: "('e, 'a) rpc_env \<Rightarrow> breaker option \<Rightarrow> nat \<Rightarrow> 'e call_error + 'a" where
  "attempt_outcome env br n =
     snd (withBreaker (re_begin env n) (re_end env n) (re_raw env n) (breaker_after env br n))"

definition reaches_network :: "('e call_error + 'a) \<Rightarrow> bool" where
  "reaches_network r = (case r of Inl (BreakerRejected e) \<Rightarrow> False | _ \<Rightarrow> True)"

record ('e, 'a) rpc_result =
  rr_breaker :: "breaker option"
  rr_network_calls :: nat
  rr_outcome :: "('e call_error, 'a) retry_outcome"

text \<open>The attempts the retry loop makes: those it retries, and the one that decides.\<close>

definition attempts_made :: "'c retry_config \<Rightarrow> (nat \<Rightarrow> bool) \<Rightarrow> (nat \<Rightarrow> 'c + 'a) \<Rightarrow> nat" where
  "attempts_made cfg aborted outcomes =
     (let k = length (takeWhile (retried (rc_canRetry cfg) aborted outcomes) [0 ..< rc_maxAttempts cfg])
      in if k = rc_maxAttempts cfg \<or> aborted k then k else k + 1)"

definition guarded_rpc ::
    "'e error_reader \<Rightarrow> 'e call_error retry_options \<Rightarrow> ('e, 'a) rpc_env \<Rightarrow> breaker option \<Rightarrow>
     ('e, 'a) rpc_result" where
  "guarded_rpc rd opts env br =
     (let outcomes = attempt_outcome env br;
          n = attempts_made (resolve_options (call_view (ev_view rd)) opts) (re_aborted env) outcomes
      in \<lparr>rr_breaker = breaker_after env br n,
          rr_network_calls = length (filter (\<lambda>i. reaches_network (outcomes i)) [0 ..< n]),
          rr_outcome = snd (withRetry (call_view (ev_view rd)) (call_body (ev_body rd))
             (call_body (ev_rbody rd)) opts (re_draws env) (re_aborted env) outcomes)\<rparr>)"

text \<open>The default of \<open>submitRetry\<close>.\<close>

definition submit_retry :: "'c retry_options" where
  "submit_retry = \<lparr>ro_maxAttempts = None, ro_baseDelayMs = None, ro_maxDelayMs = None,
     ro_backoff = None, ro_jitter = None, ro_transientOnly = True, ro_shouldRetry = None\<rparr>"

section \<open>The budget\<close>

lemma attempts_made_le: "attempts_made cfg aborted outcomes \<le> rc_maxAttempts cfg"
proof -
  have "length (takeWhile P [0 ..< m]) \<le> m" for P m
    using length_takeWhile_le [of P "[0 ..< m]"] by simp
  from this [of "retried (rc_canRetry cfg) aborted outcomes" "rc_maxAttempts cfg"]
  show ?thesis unfolding attempts_made_def Let_def by simp
qed

lemma network_calls_bounded:
  "rr_network_calls (guarded_rpc rd opts env br) \<le> rc_maxAttempts (resolve_options (call_view (ev_view rd)) opts)"
proof -
  have "length (filter P [0 ..< n]) \<le> n" for P n using length_filter_le [of P "[0 ..< n]"] by simp
  then show ?thesis
    unfolding guarded_rpc_def Let_def rpc_result.simps by (rule order_trans) (rule attempts_made_le)
qed

text \<open>An attempt succeeds only if its network call was made and succeeded.\<close>

lemma withBreaker_Inr: "snd (withBreaker t t' raw br) = Inr v \<Longrightarrow> raw = Inr v"
  by (auto simp: withBreaker_def split: option.splits sum.splits prod.splits)

lemma guarded_rpc_returned:
  assumes "rr_outcome (guarded_rpc rd opts env br) = Returned v"
  shows "\<exists>i. re_raw env i = Inr v"
proof -
  let ?cfg = "resolve_options (call_view (ev_view rd)) opts" and ?o = "attempt_outcome env br"
  let ?k = "length (takeWhile (retried (rc_canRetry ?cfg) (re_aborted env) ?o) [0 ..< rc_maxAttempts ?cfg])"
  have "?k \<noteq> rc_maxAttempts ?cfg"
  proof
    assume full: "?k = rc_maxAttempts ?cfg"
    have "\<exists>att. snd (withRetry (call_view (ev_view rd)) (call_body (ev_body rd)) (call_body (ev_rbody rd)) opts
        (re_draws env) (re_aborted env) ?o) = RetryExhausted (if att = [] then None else Some (snd (last att)))
          (rc_maxAttempts ?cfg) att
          (fold (capture_body (call_body (ev_body rd)) (call_body (ev_rbody rd)))
            (map (\<lambda>i. projl (?o i)) [0 ..< 0 + ?k]) None)"
      using retry_loop_eq [of 0 "rc_maxAttempts ?cfg" ?cfg ?k "re_aborted env" ?o _ "[]"] full
      by (intro exI [of _ "[] @ failure_log ?o [0 ..< 0 + ?k]"]) (simp add: withRetry_def Let_def)
    with assms show False by (auto simp: guarded_rpc_def Let_def)
  qed
  from withRetry_outcome [OF refl refl this] assms
  have "stop_outcome (re_aborted env) ?o ?k = Returned v" by (simp add: guarded_rpc_def Let_def)
  then have "?o ?k = Inr v" by (auto simp: stop_outcome_def split: if_splits sum.splits)
  then show ?thesis unfolding attempt_outcome_def by (blast dest: withBreaker_Inr)
qed

section \<open>The breaker shields the network\<close>

definition breaker_open_until :: "int \<Rightarrow> breaker \<Rightarrow> bool" where
  "breaker_open_until T b \<longleftrightarrow> cb_state b = OPEN \<and> \<not> manuallyPaused b \<and> lastFailureTime b + cooldownMs b = T"

lemma takeWhile_upt_Nil: "\<not> P a \<Longrightarrow> takeWhile P [a ..< b] = []"
  by (cases "a < b") (simp_all add: upt_conv_Cons)

lemma open_message_permanent: "\<not> isTransientRpcError (call_view view (BreakerRejected BreakerOpen))"
  by (simp only: call_view.simps) code_simp

text \<open>
  The breaker shields the network from retries: while it is open, a submission call (default
  \<open>submitRetry\<close>) fails at once with the breaker's error, without a single network call, without
  using its retry budget and without changing the breaker.
\<close>
theorem open_breaker_stops_submission:
  assumes "breaker_open_until T b" "re_begin env 0 < T" "\<not> re_aborted env 0"
  shows "guarded_rpc rd submit_retry env (Some b) =
    \<lparr>rr_breaker = Some b, rr_network_calls = 0, rr_outcome = Rethrown (BreakerRejected BreakerOpen)\<rparr>"
proof -
  let ?o = "attempt_outcome env (Some b)" and ?cfg = "resolve_options (call_view (ev_view rd)) submit_retry"
  have wb: "withBreaker (re_begin env 0) (re_end env 0) (re_raw env 0) (Some b) =
      (Some b, Inl (BreakerRejected BreakerOpen))"
    using assms(1,2) by (simp add: withBreaker_def cb_begin_def breaker_open_until_def)
  then have o0: "?o 0 = Inl (BreakerRejected BreakerOpen)" by (simp add: attempt_outcome_def)
  have cfg: "rc_maxAttempts ?cfg = 3" "rc_canRetry ?cfg = isTransientRpcError \<circ> call_view (ev_view rd)"
    by (simp_all add: resolve_options_def submit_retry_def)
  have "\<not> retried (isTransientRpcError \<circ> call_view (ev_view rd)) (re_aborted env) ?o 0"
    using open_message_permanent [of "ev_view rd"] by (simp add: retried_def o0 cfg)
  then have k: "takeWhile (retried (rc_canRetry ?cfg) (re_aborted env) ?o) [0 ..< rc_maxAttempts ?cfg] = []"
    unfolding cfg by (rule takeWhile_upt_Nil)
  then have n: "attempts_made ?cfg (re_aborted env) ?o = 1"
    using assms(3) by (simp add: attempts_made_def cfg)
  have "snd (withRetry (call_view (ev_view rd)) (call_body (ev_body rd)) (call_body (ev_rbody rd)) submit_retry
      (re_draws env) (re_aborted env) ?o) = stop_outcome (re_aborted env) ?o 0"
    by (rule withRetry_outcome [OF refl]) (simp_all only: k list.size(3), simp add: cfg)
  then show ?thesis
    using wb assms(3) by (simp add: guarded_rpc_def Let_def n stop_outcome_def o0 reaches_network_def)
qed

theorem open_breaker_stops_submission_witness:
  "rr_outcome (guarded_rpc \<lparr>ev_view = \<lambda>_. None, ev_body = \<lambda>_. None, ev_rbody = \<lambda>_. None\<rparr> submit_retry
     \<lparr>re_begin = \<lambda>i. 1000 * int i, re_end = \<lambda>i. 1000 * int i, re_raw = \<lambda>i. Inr i, re_aborted = \<lambda>_. False,
      re_draws = \<lambda>_. (0, 1)\<rparr> (Some (new_breaker None None None \<lparr>cb_state := OPEN\<rparr>))) =
   (Rethrown (BreakerRejected BreakerOpen) :: (string call_error, nat) retry_outcome)"
  by (subst open_breaker_stops_submission [where T = 30000])
    (simp_all add: breaker_open_until_def new_breaker_def default_to_def DEFAULT_COOLDOWN_MS_def)

text \<open>
  The half-open error carries the milliseconds to the next probe in its message, so it counts as
  transient exactly when these digits happen to look like an HTTP status.
\<close>

lemma half_open_message_by_chance:
  "isTransientRpcError (call_view view (BreakerRejected (BreakerHalfOpen 503)))"
  "\<not> isTransientRpcError (call_view view (BreakerRejected (BreakerHalfOpen 7)))"
  by (simp_all only: call_view.simps) code_simp+

end
