(* ===== verification/Polling.thy ===== *)
theory Polling
  imports Prelude
begin

text \<open>
  The loops that wait for the network: the confirmation of a submitted transaction
  (\<open>buildAndSubmitInner\<close> and \<open>buildAndSubmitBatchInner\<close> in \<open>src/SoroStreamClient.ts\<close>) and
  \<open>waitForLedger\<close> (\<open>src/readConsistency.ts\<close>). Times are milliseconds; \<open>lag i\<close> is what round \<open>i\<close>
  takes beyond its sleep (the RPC call and a late timer), \<open>polled i\<close> the answer to poll \<open>i\<close> and
  \<open>aborted i\<close> the signal when round \<open>i\<close> looks at it. A loop that does not return is \<open>None\<close>.
\<close>

section \<open>Confirming a transaction\<close>

text \<open>\<open>RequestFailed\<close> is a rejected \<open>getTransaction\<close>, whose exception ends the loop.\<close>

datatype tx_status = NotFound | Succeeded "int option" | Failed | RequestFailed

datatype confirm_error = PollingAborted | ConfirmationTimedOut nat

record confirm_state =
  cf_round :: nat
  cf_elapsed :: nat
  cf_delay :: nat

text \<open>One turn of the loop, entered with the answer to poll \<open>cf_round\<close> at hand.\<close>

definition confirm_step ::
    "(nat \<Rightarrow> tx_status) \<Rightarrow> (nat \<Rightarrow> nat) \<Rightarrow> (nat \<Rightarrow> bool) \<Rightarrow> nat \<Rightarrow> confirm_state \<Rightarrow>
     confirm_state + (confirm_state \<times> (confirm_error + tx_status))" where
  "confirm_step polled lag aborted timeoutMs s =
     (if polled (cf_round s) = NotFound then
        if aborted (cf_round s) then Inr (s, Inl PollingAborted)
        else if cf_elapsed s \<ge> timeoutMs then Inr (s, Inl (ConfirmationTimedOut timeoutMs))
        else Inl \<lparr>cf_round = cf_round s + 1,
                  cf_elapsed = cf_elapsed s + cf_delay s + lag (cf_round s + 1),
                  cf_delay = min (cf_delay s * 2) 10000\<rparr>
      else Inr (s, Inr (polled (cf_round s))))"

partial_function (option) confirm_loop ::
    "(nat \<Rightarrow> tx_status) \<Rightarrow> (nat \<Rightarrow> nat) \<Rightarrow> (nat \<Rightarrow> bool) \<Rightarrow> nat \<Rightarrow> confirm_state \<Rightarrow>
     (confirm_state \<times> (confirm_error + tx_status)) option" where
  "confirm_loop polled lag aborted timeoutMs s =
     (case confirm_step polled lag aborted timeoutMs s of
        Inl s' \<Rightarrow> confirm_loop polled lag aborted timeoutMs s'
      | Inr r \<Rightarrow> Some r)"

definition confirm ::
    "(nat \<Rightarrow> tx_status) \<Rightarrow> (nat \<Rightarrow> nat) \<Rightarrow> (nat \<Rightarrow> bool) \<Rightarrow> nat \<Rightarrow>
     (confirm_state \<times> (confirm_error + tx_status)) option" where
  "confirm polled lag aborted timeoutMs =
     confirm_loop polled lag aborted timeoutMs \<lparr>cf_round = 0, cf_elapsed = lag 0, cf_delay = 500\<rparr>"

interpretation cf: ranked_loop "confirm_loop polled lag aborted timeoutMs"
    "confirm_step polled lag aborted timeoutMs" "\<lambda>s. 0 < cf_delay s" "\<lambda>s. timeoutMs - cf_elapsed s"
  for polled lag aborted timeoutMs
proof unfold_locales
  show "confirm_loop polled lag aborted timeoutMs s =
      (case confirm_step polled lag aborted timeoutMs s of
         Inl s' \<Rightarrow> confirm_loop polled lag aborted timeoutMs s' | Inr r \<Rightarrow> Some r)" for s
    by (rule confirm_loop.simps)
qed (auto simp: confirm_step_def split: if_splits)

lemma confirm_answer:
  assumes "confirm polled lag aborted timeoutMs = Some (s, Inr st)"
  shows "st = polled (cf_round s) \<and> st \<noteq> NotFound"
proof -
  let ?Q = "\<lambda>r :: confirm_state \<times> (confirm_error + tx_status).
    case snd r of Inl _ \<Rightarrow> True | Inr st \<Rightarrow> st = polled (cf_round (fst r)) \<and> st \<noteq> NotFound"
  have "?Q (s, Inr st)"
    by (rule cf.result_inv [where J = "\<lambda>_. True" and Q = ?Q, OF _ _ assms [unfolded confirm_def]])
      (auto simp: confirm_step_def split: if_splits)
  then show ?thesis by force
qed

text \<open>
  The invariant of the rounds: all answers so far were missing, none was aborted, and while the
  loop goes on the time spent is at least the sleeps (500 at first, never less) and the last
  round started before the deadline.
\<close>

definition confirm_inv ::
    "(nat \<Rightarrow> tx_status) \<Rightarrow> (nat \<Rightarrow> nat) \<Rightarrow> (nat \<Rightarrow> bool) \<Rightarrow> nat \<Rightarrow> nat \<Rightarrow> confirm_state \<Rightarrow> bool" where
  "confirm_inv polled lag aborted timeoutMs B s \<longleftrightarrow>
     500 \<le> cf_delay s \<and> cf_delay s \<le> 10000 \<and> 500 * cf_round s \<le> cf_elapsed s \<and>
     (cf_round s = 0 \<and> cf_elapsed s \<le> B \<or> cf_elapsed s < timeoutMs + 10000 + B) \<and>
     (0 < cf_round s \<longrightarrow> 500 * (cf_round s - 1) < timeoutMs) \<and>
     list_all (\<lambda>i. polled i = NotFound \<and> \<not> aborted i) [0 ..< cf_round s]"

lemma confirm_step_inv:
  assumes "list_all (\<lambda>i. lag i \<le> B) [0 ..< Suc (cf_round s + 1)]"
    "confirm_inv polled lag aborted timeoutMs B s"
    "confirm_step polled lag aborted timeoutMs s = Inl s'"
  shows "confirm_inv polled lag aborted timeoutMs B s'"
proof -
  from assms(3) have s': "s' = \<lparr>cf_round = cf_round s + 1,
      cf_elapsed = cf_elapsed s + cf_delay s + lag (cf_round s + 1), cf_delay = min (cf_delay s * 2) 10000\<rparr>"
    and now: "polled (cf_round s) = NotFound" "\<not> aborted (cf_round s)" "cf_elapsed s < timeoutMs"
    by (auto simp: confirm_step_def split: if_splits)
  have "lag (cf_round s + 1) \<le> B" using assms(1) by (simp add: list_all_iff)
  with assms(2) now show ?thesis by (auto simp: confirm_inv_def s')
qed



section \<open>Confirming a batch\<close>

text \<open>The loop of the batch path sleeps a second per round and has neither deadline nor signal.\<close>

partial_function (option) batch_confirm :: "(nat \<Rightarrow> tx_status) \<Rightarrow> nat \<Rightarrow> (nat \<times> tx_status) option" where
  "batch_confirm polled i =
     (if polled i = NotFound then batch_confirm polled (i + 1) else Some (i, polled i))"

lemma batch_confirm_found:
  assumes "polled j \<noteq> NotFound" "i \<le> j"
  shows "\<exists>k. i \<le> k \<and> k \<le> j \<and> batch_confirm polled i = Some (k, polled k) \<and> polled k \<noteq> NotFound"
  using assms(2)
proof (induction "j - i" arbitrary: i)
  case 0
  with assms(1) show ?case by (intro exI [of _ i]) (simp add: batch_confirm.simps)
next
  case (Suc n)
  show ?case
  proof (cases "polled i = NotFound")
    case True
    from Suc have "n = j - (i + 1)" "i + 1 \<le> j" by simp_all
    from Suc.hyps(1) [OF this] True show ?thesis
      by (subst batch_confirm.simps) (auto intro: Suc_leD)
  next
    case False
    with Suc.prems show ?thesis by (intro exI [of _ i]) (simp add: batch_confirm.simps)
  qed
qed

lemma batch_confirm_result:
  assumes "batch_confirm polled i = Some y"
  shows "i \<le> fst y \<and> snd y = polled (fst y) \<and> snd y \<noteq> NotFound"
proof (rule batch_confirm.raw_induct
    [where P = "\<lambda>polled i y. i \<le> fst y \<and> snd y = polled (fst y) \<and> snd y \<noteq> NotFound", OF _ assms])
  fix f :: "(nat \<Rightarrow> tx_status) \<Rightarrow> nat \<Rightarrow> (nat \<times> tx_status) option" and polled i and y :: "nat \<times> tx_status"
  assume IH: "\<And>polled i y. f polled i = Some y \<Longrightarrow> i \<le> fst y \<and> snd y = polled (fst y) \<and> snd y \<noteq> NotFound"
    and y: "(if polled i = NotFound then f polled (i + 1) else Some (i, polled i)) = Some y"
  show "i \<le> fst y \<and> snd y = polled (fst y) \<and> snd y \<noteq> NotFound"
  proof (cases "polled i = NotFound")
    case True
    with y have "f polled (i + 1) = Some y" by simp
    from IH [OF this] show ?thesis by auto
  qed (use y in auto)
qed

text \<open>
  The batch path waits without a deadline: it returns exactly when the network ever answers
  something other than "not found", and then with that answer; if a submitted batch is dropped
  by the network, \<open>executeBatch\<close> (and so \<open>batchWithdraw\<close>, \<open>batchCancel\<close> and \<open>createStreams\<close>) never returns.
\<close>
theorem batch_confirm_may_hang:
  shows "(if \<exists>j. polled j \<noteq> NotFound
          then \<exists>k. batch_confirm polled 0 = Some (k, polled k) \<and> polled k \<noteq> NotFound
          else batch_confirm polled 0 = None)"
proof (cases "\<exists>j. polled j \<noteq> NotFound")
  case True
  then obtain j where "polled j \<noteq> NotFound" by blast
  with batch_confirm_found [where polled = polled and j = j and i = 0] True show ?thesis by auto
next
  case False
  then have "batch_confirm polled 0 = None"
    using batch_confirm_result [of polled 0] by (cases "batch_confirm polled 0") auto
  with False show ?thesis by simp
qed

section \<open>Waiting for a ledger\<close>

datatype wait_error = WaitAborted | LedgerRpcFailed | WaitTimedOut nat int

text \<open>The signal is looked at before a request, during it and during the sleep.\<close>

record abort_signal =
  ab_before :: "nat \<Rightarrow> bool"
  ab_during :: "nat \<Rightarrow> bool"
  ab_asleep :: "nat \<Rightarrow> bool"

record wait_state =
  wt_round :: nat
  wt_elapsed :: nat

definition wait_step ::
    "(nat \<Rightarrow> int option) \<Rightarrow> (nat \<Rightarrow> nat) \<Rightarrow> abort_signal \<Rightarrow> int \<Rightarrow> nat \<Rightarrow> nat \<Rightarrow> wait_state \<Rightarrow>
     wait_state + (nat \<times> (wait_error + unit))" where
  "wait_step latest lag ab target timeoutMs pollIntervalMs s =
     (let i = wt_round s; now = wt_elapsed s + lag i
      in if ab_before ab i \<or> ab_during ab i then Inr (i, Inl WaitAborted)
         else (case latest i of
             None \<Rightarrow> Inr (i, Inl LedgerRpcFailed)
           | Some current \<Rightarrow>
               if current \<ge> target then Inr (i, Inr ())
               else if timeoutMs \<le> now then Inr (i, Inl (WaitTimedOut timeoutMs current))
               else if ab_asleep ab i then Inr (i, Inl WaitAborted)
               else Inl \<lparr>wt_round = i + 1, wt_elapsed = now + min pollIntervalMs (timeoutMs - now)\<rparr>))"

partial_function (option) wait_loop ::
    "(nat \<Rightarrow> int option) \<Rightarrow> (nat \<Rightarrow> nat) \<Rightarrow> abort_signal \<Rightarrow> int \<Rightarrow> nat \<Rightarrow> nat \<Rightarrow> wait_state \<Rightarrow>
     (nat \<times> (wait_error + unit)) option" where
  "wait_loop latest lag ab target timeoutMs pollIntervalMs s =
     (case wait_step latest lag ab target timeoutMs pollIntervalMs s of
        Inl s' \<Rightarrow> wait_loop latest lag ab target timeoutMs pollIntervalMs s'
      | Inr r \<Rightarrow> Some r)"

definition waitForLedger ::
    "(nat \<Rightarrow> int option) \<Rightarrow> (nat \<Rightarrow> nat) \<Rightarrow> abort_signal \<Rightarrow> int \<Rightarrow> nat option \<Rightarrow> nat option \<Rightarrow>
     (nat \<times> (wait_error + unit)) option" where
  "waitForLedger latest lag ab target timeoutMs pollIntervalMs =
     wait_loop latest lag ab target (case timeoutMs of Some t \<Rightarrow> t | None \<Rightarrow> 10000)
       (case pollIntervalMs of Some p \<Rightarrow> p | None \<Rightarrow> 500) \<lparr>wt_round = 0, wt_elapsed = 0\<rparr>"

interpretation wt: ranked_loop "wait_loop latest lag ab target timeoutMs pollIntervalMs"
    "wait_step latest lag ab target timeoutMs pollIntervalMs" "\<lambda>s. 0 < pollIntervalMs"
    "\<lambda>s. timeoutMs - wt_elapsed s"
  for latest lag ab target timeoutMs pollIntervalMs
proof unfold_locales
  show "wait_loop latest lag ab target timeoutMs pollIntervalMs s =
      (case wait_step latest lag ab target timeoutMs pollIntervalMs s of
         Inl s' \<Rightarrow> wait_loop latest lag ab target timeoutMs pollIntervalMs s' | Inr r \<Rightarrow> Some r)" for s
    by (rule wait_loop.simps)
qed (auto simp: wait_step_def Let_def split: if_splits option.splits)

text \<open>
  \<open>waitForLedger\<close> returns, and what it reports is true: success means the last answer had
  reached the target ledger, a timeout means it had not; every earlier answer was behind too.
\<close>
theorem waitForLedger_sound:
  assumes "0 < (case pollIntervalMs of Some p \<Rightarrow> p | None \<Rightarrow> 500)"
  shows "\<exists>n out. waitForLedger latest lag ab target timeoutMs pollIntervalMs = Some (n, out) \<and>
    list_all (\<lambda>i. \<exists>c. latest i = Some c \<and> c < target) [0 ..< n] \<and>
    (case out of
       Inr _ \<Rightarrow> \<exists>c. latest n = Some c \<and> target \<le> c
     | Inl (WaitTimedOut t c) \<Rightarrow> latest n = Some c \<and> c < target
     | Inl LedgerRpcFailed \<Rightarrow> latest n = None
     | Inl WaitAborted \<Rightarrow> ab_before ab n \<or> ab_during ab n \<or> ab_asleep ab n)"
proof -
  let ?T = "case timeoutMs of Some t \<Rightarrow> t | None \<Rightarrow> 10000"
  let ?P = "case pollIntervalMs of Some p \<Rightarrow> p | None \<Rightarrow> 500" and ?init = "\<lparr>wt_round = 0, wt_elapsed = 0\<rparr>"
  let ?J = "\<lambda>s. list_all (\<lambda>i. \<exists>c. latest i = Some c \<and> c < target) [0 ..< wt_round s]"
  let ?Q = "\<lambda>(n, out). list_all (\<lambda>i. \<exists>c. latest i = Some c \<and> c < target) [0 ..< n] \<and>
    (case out of
       Inr _ \<Rightarrow> \<exists>c. latest n = Some c \<and> target \<le> c
     | Inl (WaitTimedOut t c) \<Rightarrow> latest n = Some c \<and> c < target
     | Inl LedgerRpcFailed \<Rightarrow> latest n = None
     | Inl WaitAborted \<Rightarrow> ab_before ab n \<or> ab_during ab n \<or> ab_asleep ab n)"
  have "\<exists>r. wait_loop latest lag ab target ?T ?P ?init = Some r" by (rule wt.returns) (rule assms)
  then obtain r where r: "wait_loop latest lag ab target ?T ?P ?init = Some r" by blast
  have "?Q r"
  proof (rule wt.result_inv [where J = ?J, OF assms _ r])
    show "?J ?init" by simp
    show "?J u'" if "?J u" "wait_step latest lag ab target ?T ?P u = Inl u'" for u u'
      using that by (auto simp: wait_step_def Let_def split: if_splits option.splits)
    show "?Q v" if "?J u" "wait_step latest lag ab target ?T ?P u = Inr v" for u v
      using that by (auto simp: wait_step_def Let_def split: if_splits option.splits)
  qed
  with r show ?thesis by (cases r) (auto simp: waitForLedger_def)
qed

theorem waitForLedger_sound_witness:
  "\<exists>n out. waitForLedger (\<lambda>i. Some (100 + int i)) (\<lambda>i. 40)
     \<lparr>ab_before = \<lambda>_. False, ab_during = \<lambda>_. False, ab_asleep = \<lambda>_. False\<rparr> 103 None None = Some (n, out)"
  using waitForLedger_sound [of None "\<lambda>i. Some (100 + int i)" "\<lambda>i. 40"
      "\<lparr>ab_before = \<lambda>_. False, ab_during = \<lambda>_. False, ab_asleep = \<lambda>_. False\<rparr>" 103 None]
  by (simp del: split_paired_Ex) blast

end
