(* ===== verification/Amounts.thy ===== *)
theory Amounts
  imports Digits "HOL-Library.Signed_Division"
begin

text \<open>
  Token amounts (\<open>src/utils.ts\<close>): \<open>BigInt\<close> on strings and on the values a contract returns, the
  decimal parser \<open>toStroops\<close> with its expansion of scientific notation, and the fixed-point
  printer \<open>formatUSDC\<close> (without locale options, which are the host's number formatter).
\<close>

datatype amount_error = BigIntSyntaxError string | PrecisionLoss int

section \<open>Strings to integers\<close>

definition js_space :: "char \<Rightarrow> bool" where
  "js_space c \<longleftrightarrow> (let n = (of_char c :: nat) in 9 \<le> n \<and> n \<le> 13 \<or> n = 32 \<or> n = 160)"

definition js_trim :: "string \<Rightarrow> string" where
  "js_trim s = rev (dropWhile js_space (rev (dropWhile js_space s)))"

definition radix_digit :: "nat \<Rightarrow> char \<Rightarrow> bool" where
  "radix_digit b c \<longleftrightarrow> (let n = (of_char c :: nat) in
     48 \<le> n \<and> n \<le> 57 \<and> n < 48 + b \<or>
     b = 16 \<and> (97 \<le> n \<and> n \<le> 102 \<or> 65 \<le> n \<and> n \<le> 70))"

definition radix_val :: "char \<Rightarrow> nat" where
  "radix_val c = (let n = (of_char c :: nat) in
     if n \<le> 57 then n - 48 else if 97 \<le> n then n - 87 else n - 55)"

definition radix_literal :: "nat \<Rightarrow> string \<Rightarrow> int option" where
  "radix_literal b s =
     (if s \<noteq> [] \<and> list_all (radix_digit b) s then Some (int (from_digits b (map radix_val s)))
      else None)"

definition decimal_literal :: "string \<Rightarrow> int option" where
  "decimal_literal s =
     (if s \<noteq> [] \<and> list_all is_digit s then Some (int (decimal_value s)) else None)"

text \<open>\<open>BigInt(s)\<close>: blank is 0, a decimal literal may have a sign, the prefixed radices may not.\<close>

definition big_literal :: "string \<Rightarrow> int option" where
  "big_literal s =
     (case s of
        [] \<Rightarrow> Some 0
      | c # t \<Rightarrow>
          if c = CHR ''-'' then map_option uminus (decimal_literal t)
          else if c = CHR ''+'' then decimal_literal t
          else if c = CHR ''0'' \<and> t \<noteq> [] \<and> (hd t = CHR ''x'' \<or> hd t = CHR ''X'')
            then radix_literal 16 (tl t)
          else if c = CHR ''0'' \<and> t \<noteq> [] \<and> (hd t = CHR ''o'' \<or> hd t = CHR ''O'')
            then radix_literal 8 (tl t)
          else if c = CHR ''0'' \<and> t \<noteq> [] \<and> (hd t = CHR ''b'' \<or> hd t = CHR ''B'')
            then radix_literal 2 (tl t)
          else decimal_literal s)"

definition big_of_string :: "string \<Rightarrow> amount_error + int" where
  "big_of_string s =
     (case big_literal (js_trim s) of Some n \<Rightarrow> Inr n | None \<Rightarrow> Inl (BigIntSyntaxError s))"

text \<open>What \<open>scValToNative\<close> may give for an integer: a bigint, a number, or a string.\<close>

datatype native = NBig int | NNumber int | NString string

definition MAX_SAFE_INTEGER :: int where
  "MAX_SAFE_INTEGER = 2 ^ 53 - 1"

fun safeBigInt :: "native \<Rightarrow> amount_error + int" where
  "safeBigInt (NBig n) = Inr n"
| "safeBigInt (NNumber n) = (if \<bar>n\<bar> \<le> MAX_SAFE_INTEGER then Inr n else Inl (PrecisionLoss n))"
| "safeBigInt (NString s) = big_of_string s"

fun safeIdString :: "native \<Rightarrow> amount_error + string" where
  "safeIdString (NBig n) = Inr (string_of_int n)"
| "safeIdString (NNumber n) =
     (if \<bar>n\<bar> \<le> MAX_SAFE_INTEGER then Inr (string_of_int n) else Inl (PrecisionLoss n))"
| "safeIdString (NString s) = Inr s"

section \<open>Scientific notation\<close>

text \<open>
  The groups of the pattern \<open>^(-?)(\d+)(?:\.(\d+))?[eE]([+-]?\d+)$\<close>; its parts cannot overlap, so
  taking each as far as it goes is the only way to match.
\<close>

definition split_digits :: "string \<Rightarrow> string \<times> string" where
  "split_digits s = (takeWhile is_digit s, dropWhile is_digit s)"

definition match_exponent :: "string \<Rightarrow> int option" where
  "match_exponent s =
     (case s of
        [] \<Rightarrow> None
      | e # t \<Rightarrow>
          if e \<noteq> CHR ''e'' \<and> e \<noteq> CHR ''E'' then None
          else (case t of
             [] \<Rightarrow> None
           | c # u \<Rightarrow>
               if c = CHR ''-'' then map_option uminus (decimal_literal u)
               else if c = CHR ''+'' then decimal_literal u
               else decimal_literal t))"

definition match_scientific :: "string \<Rightarrow> (string \<times> string \<times> string \<times> int) option" where
  "match_scientific s =
     (let (sign, r) = (if s \<noteq> [] \<and> hd s = CHR ''-'' then (''-'', tl s) else ('''', s));
          (intPart, r1) = split_digits r;
          (fracPart, r2) = (if r1 \<noteq> [] \<and> hd r1 = CHR ''.'' \<and> fst (split_digits (tl r1)) \<noteq> []
              then split_digits (tl r1) else ('''', r1))
      in if intPart = [] then None
         else (case match_exponent r2 of None \<Rightarrow> None | Some e \<Rightarrow> Some (sign, intPart, fracPart, e)))"

definition expandScientific :: "string \<Rightarrow> string" where
  "expandScientific s =
     (case match_scientific s of
        None \<Rightarrow> s
      | Some (sign, intPart, fracPart, e) \<Rightarrow>
          (let ds = intPart @ fracPart; dotPos = int (length intPart) + e
           in if dotPos \<le> 0 then sign @ ''0.'' @ replicate (nat (- dotPos)) CHR ''0'' @ ds
              else if dotPos \<ge> int (length ds)
              then sign @ ds @ replicate (nat dotPos - length ds) CHR ''0''
              else sign @ take (nat dotPos) ds @ ''.'' @ drop (nat dotPos) ds))"

section \<open>Amounts\<close>

datatype rounding = HalfUp | Truncate

text \<open>The first two parts of \<open>unsigned.split('.')\<close>.\<close>

definition split_dot :: "string \<Rightarrow> string \<times> string" where
  "split_dot s =
     (let p = (\<lambda>c. c \<noteq> CHR ''.'')
      in (takeWhile p s, takeWhile p (drop 1 (dropWhile p s))))"

definition big_or_zero :: "string \<Rightarrow> amount_error + int" where
  "big_or_zero s = big_of_string (if s = [] then ''0'' else s)"

definition toStroops :: "string \<Rightarrow> nat \<Rightarrow> rounding \<Rightarrow> amount_error + int" where
  "toStroops amount decimals rounding =
     (let trimmed = js_trim amount;
          expanded = (if CHR ''e'' \<in> set trimmed \<or> CHR ''E'' \<in> set trimmed
                      then expandScientific trimmed else trimmed);
          negative = (expanded \<noteq> [] \<and> hd expanded = CHR ''-'');
          unsigned = (if negative then tl expanded else expanded);
          (whole, decimal) = split_dot unsigned;
          factor = 10 ^ decimals;
          value =
            (if length decimal \<le> decimals then
               rbind (big_or_zero whole) (\<lambda>w.
               rbind (big_or_zero (decimal @ replicate (decimals - length decimal) CHR ''0'')) (\<lambda>d.
               Inr (w * factor + d)))
             else
               rbind (big_or_zero whole) (\<lambda>w.
               rbind (big_or_zero (take decimals decimal)) (\<lambda>d.
               Inr (w * factor + d +
                    (if rounding = HalfUp \<and> (of_char (decimal ! decimals) :: nat) \<ge> 53 then 1 else 0)))))
      in rbind value (\<lambda>v. Inr (if negative then - v else v)))"

definition formatUSDC :: "int \<Rightarrow> nat \<Rightarrow> string" where
  "formatUSDC stroops decimals =
     (let factor = 10 ^ decimals;
          whole = stroops sdiv factor;
          r = string_of_int (stroops smod factor)
      in string_of_int whole @ ''.'' @ replicate (decimals - length r) CHR ''0'' @ r)"

definition formatToken :: "int \<Rightarrow> nat \<Rightarrow> string" where
  "formatToken stroops decimals = formatUSDC stroops decimals"

section \<open>Strings of digits\<close>

lemma is_digit_less: "is_digit c \<Longrightarrow> c \<noteq> CHR ''-'' \<and> c \<noteq> CHR ''+'' \<and> c \<noteq> CHR ''.'' \<and> c \<noteq> CHR ''e'' \<and>
    c \<noteq> CHR ''E'' \<and> c \<noteq> CHR ''x'' \<and> c \<noteq> CHR ''X'' \<and> c \<noteq> CHR ''o'' \<and> c \<noteq> CHR ''O'' \<and> c \<noteq> CHR ''b'' \<and>
    c \<noteq> CHR ''B'' \<and> \<not> js_space c"
  by (auto simp: is_digit_def js_space_def Let_def)

lemma not_space_dot [simp]: "\<not> js_space CHR ''.''"
  by (simp add: js_space_def)

lemma js_trim_id: "list_all (\<lambda>c. \<not> js_space c) s \<Longrightarrow> js_trim s = s"
proof -
  assume "list_all (\<lambda>c. \<not> js_space c) s"
  then have "dropWhile js_space s = s" "dropWhile js_space (rev s) = rev s"
    by (auto simp: dropWhile_eq_self_iff list_all_iff hd_rev)
  then show ?thesis by (simp add: js_trim_def)
qed

lemma digits_not_space: "list_all is_digit s \<Longrightarrow> list_all (\<lambda>c. \<not> js_space c) s"
  using is_digit_less by (auto simp: list_all_iff)

lemma big_of_digits: "s \<noteq> [] \<Longrightarrow> list_all is_digit s \<Longrightarrow> big_of_string s = Inr (int (decimal_value s))"
  using is_digit_less
  by (cases s; cases "tl s")
    (auto simp: big_of_string_def js_trim_id digits_not_space big_literal_def decimal_literal_def)

lemma big_or_zero_digits: "list_all is_digit s \<Longrightarrow> big_or_zero s = Inr (int (decimal_value s))"
  by (cases "s = []") (simp_all add: big_or_zero_def big_of_digits is_digit_def decimal_value_def digit_val_def)

lemma takeWhile_all_append: "list_all P xs \<Longrightarrow> \<not> P y \<Longrightarrow> takeWhile P (xs @ y # ys) = xs"
  by (induction xs) auto

lemma dropWhile_all_append: "list_all P xs \<Longrightarrow> \<not> P y \<Longrightarrow> dropWhile P (xs @ y # ys) = y # ys"
  by (induction xs) auto

lemma split_dot_digits:
  assumes "list_all is_digit w" "list_all is_digit f"
  shows "split_dot (w @ CHR ''.'' # f) = (w, f)"
proof -
  have "list_all (\<lambda>c. c \<noteq> CHR ''.'') w" "list_all (\<lambda>c. c \<noteq> CHR ''.'') f"
    using assms is_digit_less by (auto simp: list_all_iff)
  then show ?thesis
    by (simp add: split_dot_def Let_def takeWhile_all_append dropWhile_all_append)
      (auto simp: takeWhile_eq_all_conv list_all_iff)
qed

lemma decimal_value_less: "list_all is_digit s \<Longrightarrow> decimal_value s < 10 ^ length s"
proof (induction s rule: rev_induct)
  case Nil
  then show ?case by (simp add: decimal_value_def)
next
  case (snoc c s)
  then have "decimal_value s < 10 ^ length s" "digit_val c < 10" by (simp_all add: digit_val_less)
  then show ?case by (simp add: decimal_value_snoc)
qed

text \<open>A plain decimal: the digits kept, and the carry.\<close>

lemma toStroops_plain:
  assumes w: "w \<noteq> []" "list_all is_digit w" and f: "list_all is_digit f"
  shows "toStroops (w @ CHR ''.'' # f) d rnd =
    Inr (if length f \<le> d then int (decimal_value (w @ f)) * 10 ^ (d - length f)
         else int (decimal_value (w @ take d f)) + (if rnd = HalfUp \<and> 5 \<le> digit_val (f ! d) then 1 else 0))"
proof -
  let ?s = "w @ CHR ''.'' # f"
  have clean: "list_all (\<lambda>c. \<not> js_space c) ?s" using w f digits_not_space by auto
  have noE: "CHR ''e'' \<notin> set ?s" "CHR ''E'' \<notin> set ?s"
    using w f is_digit_less by (auto simp: list_all_iff)
  have sign: "hd ?s \<noteq> CHR ''-''" using w is_digit_less by (cases w) auto
  have pad: "list_all is_digit (f @ replicate k CHR ''0'')" for k
    using f by (auto simp: list_all_iff is_digit_def)
  have cut: "list_all is_digit (take d f)" using f by (auto simp: list_all_iff dest: in_set_takeD)
  have ge: "(53 \<le> (of_char (f ! d) :: nat)) = (5 \<le> digit_val (f ! d))" if "d < length f"
    using f that by (auto simp: list_all_length is_digit_def digit_val_def)
  show ?thesis
  proof (cases "length f \<le> d")
    case True
    have "int (decimal_value w) * 10 ^ d + int (decimal_value (f @ replicate (d - length f) CHR ''0'')) =
        int (decimal_value (w @ f)) * 10 ^ (d - length f)"
      using True by (simp add: decimal_value_append decimal_value_zeros algebra_simps flip: power_add)
    then show ?thesis
      using True w sign noE pad
      by (simp add: toStroops_def Let_def js_trim_id [OF clean] split_dot_digits [OF w(2) f]
          big_or_zero_digits)
  next
    case False
    then show ?thesis
      using w sign noE cut ge
      by (simp add: toStroops_def Let_def js_trim_id [OF clean] split_dot_digits [OF w(2) f]
          big_or_zero_digits decimal_value_append min_def)
  qed
qed

text \<open>The digits that are cut off, as a number below the unit, decide by their first one.\<close>

lemma cut_digits_div:
  fixes c m r n :: nat
  defines "v \<equiv> m * 10 ^ Suc n + (c * 10 ^ n + r)"
  assumes "c < 10" and "r < 10 ^ n"
  shows "v div 10 ^ Suc n = m"
    and "(2 * v + 10 ^ Suc n) div (2 * 10 ^ Suc n) = m + (if 5 \<le> c then 1 else 0)"
proof -
  define u :: nat where "u = 10 ^ n"
  define p where "p = c * u"
  define q where "q = p + r"
  have r: "r < u" and u: "10 ^ Suc n = 10 * u" using assms(3) by (simp_all add: u_def)
  have "p \<le> 9 * u" unfolding p_def using assms(2) by (intro mult_right_mono) auto
  then have lt: "q < 10 * u" using r unfolding q_def by linarith
  then show "v div 10 ^ Suc n = m" by (simp add: v_def u q_def p_def flip: u_def)
  have half: "(10 * u \<le> 2 * q) = (5 \<le> c)"
  proof (cases "5 \<le> c")
    case True
    then have "5 * u \<le> p" unfolding p_def by (rule mult_right_mono) simp
    then have "10 * u \<le> 2 * q" by (simp add: q_def)
    with True show ?thesis by simp
  next
    case False
    then have "p \<le> 4 * u" unfolding p_def by (intro mult_right_mono) auto
    then have "\<not> 10 * u \<le> 2 * q" using r by (simp add: q_def)
    with False show ?thesis by simp
  qed
  have "2 * v + 10 ^ Suc n = (2 * q + 10 * u) + m * (2 * (10 * u))"
    by (simp add: v_def u q_def p_def algebra_simps flip: u_def)
  then have "(2 * v + 10 ^ Suc n) div (2 * 10 ^ Suc n) = ((2 * q + 10 * u) + m * (2 * (10 * u))) div (2 * (10 * u))"
    by (simp only: u)
  also have "\<dots> = m + (2 * q + 10 * u) div (2 * (10 * u))" using r by (intro div_mult_self1) auto
  also have "(2 * q + 10 * u) div (2 * (10 * u)) = (if 10 * u \<le> 2 * q then 1 else 0)"
    using lt by (auto simp: div_nat_eqI)
  finally show "(2 * v + 10 ^ Suc n) div (2 * 10 ^ Suc n) = m + (if 5 \<le> c then 1 else 0)"
    by (simp only: half)
qed

text \<open>
  C30. \<open>toStroops\<close> is exact: on a decimal numeral \<open>w.f\<close> with \<open>k\<close> fraction digits it returns the
  scaled value, and when the token has fewer than \<open>k\<close> decimals it rounds the exact quotient half up
  or down, as asked. Looking at a single digit is enough for that.
\<close>
theorem toStroops_rounds:
  assumes "w \<noteq> []" "list_all is_digit w" "list_all is_digit f"
  shows "toStroops (w @ ''.'' @ f) d rnd =
    (let v = int (decimal_value (w @ f)); unit = 10 ^ (length f - d)
     in Inr (if length f \<le> d then v * 10 ^ (d - length f)
             else if rnd = HalfUp then (2 * v + unit) div (2 * unit) else v div unit))"
proof (cases "length f \<le> d")
  case True
  with assms show ?thesis by (simp add: toStroops_plain Let_def)
next
  case False
  then obtain c r where cr: "drop d f = c # r" by (cases "drop d f") auto
  then have nth: "f ! d = c" and len: "length f - d = Suc (length r)" using False
    by (metis hd_drop_conv_nth list.sel(1) not_le, metis length_drop length_Cons)
  have "list_all is_digit (c # r)" using assms(3) by (auto simp: list_all_iff dest: in_set_dropD simp flip: cr)
  then have small: "digit_val c < 10" "decimal_value r < 10 ^ length r"
    by (simp_all add: decimal_value_less digit_val_less)
  let ?m = "decimal_value (w @ take d f)" and ?u = "10 ^ (length f - d) :: int"
  let ?v = "decimal_value (w @ f)"
  have "?v = decimal_value ((w @ take d f) @ [c] @ r)" using cr by (metis append_Cons append_Nil append_assoc append_take_drop_id)
  then have v: "?v = ?m * 10 ^ Suc (length r) + (digit_val c * 10 ^ length r + decimal_value r)"
    by (subst (asm) (1 2) decimal_value_append) (simp add: decimal_value_def)
  have "int ?v div ?u = int (?v div 10 ^ Suc (length r))"
    "(2 * int ?v + ?u) div (2 * ?u) = int ((2 * ?v + 10 ^ Suc (length r)) div (2 * 10 ^ Suc (length r)))"
    by (simp_all add: zdiv_int len)
  then have "int ?v div ?u = int ?m"
    "(2 * int ?v + ?u) div (2 * ?u) = int (?m + (if 5 \<le> digit_val c then 1 else 0))"
    by (simp_all only: v cut_digits_div [OF small])
  moreover have "toStroops (w @ ''.'' @ f) d rnd = Inr (int ?m + (if rnd = HalfUp \<and> 5 \<le> digit_val c then 1 else 0))"
    using False nth by (simp add: toStroops_plain [OF assms])
  ultimately show ?thesis using False by (auto simp: Let_def)
qed

theorem toStroops_rounds_witness:
  "toStroops ''12.3456'' 3 HalfUp = Inr 12346 \<and> toStroops ''12.3456'' 3 Truncate = Inr 12345"
proof -
  have d: "list_all is_digit ''12''" "list_all is_digit ''3456''" by (simp_all add: is_digit_def)
  show ?thesis
    using toStroops_rounds [OF _ d, of 3 HalfUp] toStroops_rounds [OF _ d, of 3 Truncate]
    by (simp add: Let_def decimal_value_def from_digits_def digit_val_def)
qed

text \<open>
  C31. Printing an amount and reading it back gives the amount, for every non-negative amount,
  every number of decimals and either rounding.
\<close>
theorem amount_roundtrip:
  assumes "0 \<le> n"
  shows "toStroops (formatUSDC n d) d rnd = Inr n"
proof -
  define m where "m = nat n"
  have n: "n = int m" using assms by (simp add: m_def)
  let ?w = "string_of_nat (m div 10 ^ d)" and ?r = "string_of_nat (m mod 10 ^ d)"
  let ?f = "replicate (d - length ?r) CHR ''0'' @ ?r"
  have fmt: "formatUSDC n d = ?w @ CHR ''.'' # ?f"
  proof -
    have sdiv: "n sdiv 10 ^ d = int (m div 10 ^ d)" "n smod 10 ^ d = int (m mod 10 ^ d)"
      by (simp_all add: n signed_divide_int_def signed_modulo_int_def sgn_if zdiv_int zmod_int)
    show ?thesis by (simp add: formatUSDC_def Let_def sdiv string_of_int_def)
  qed
  have w: "?w \<noteq> []" "list_all is_digit ?w" and r: "list_all is_digit ?r"
    using string_of_nat_digits by (auto simp: list_all_iff)
  then have f: "list_all is_digit ?f" by (auto simp: list_all_iff is_digit_def)
  have fv: "decimal_value ?f = m mod 10 ^ d" by (simp add: decimal_value_pad)
  show ?thesis
  proof (cases "d = 0")
    case True
    then have "?f = ''0''" by (simp add: string_of_nat_def)
    with toStroops_plain [OF w f, of d rnd] True
    have "toStroops (formatUSDC n d) d rnd = Inr (int (decimal_value ?w))"
      unfolding fmt by (simp add: digit_val_def)
    with True show ?thesis by (simp add: n)
  next
    case False
    then have "length ?r \<le> d" by (intro length_string_of_nat_less) simp_all
    then have len: "length ?f = d" by simp
    have "decimal_value (?w @ ?f) = m"
      by (subst decimal_value_append) (simp only: len fv decimal_value_string div_mult_mod_eq)
    with toStroops_plain [OF w f, of d rnd] len show ?thesis unfolding fmt by (simp add: n)
  qed
qed

theorem amount_roundtrip_witness: "toStroops (formatUSDC 1005000000 7) 7 HalfUp = Inr 1005000000"
  by (rule amount_roundtrip) simp

text \<open>Negative amounts print with two signs, and the parser is more liberal than a numeral.\<close>

lemma negative_amounts_malformed: "formatUSDC (- 15) 1 = ''-1.-5''"
  by code_simp

end
