(* ===== verification/SubmitTx.thy ===== *)
theory SubmitTx
  imports Effects GuardedRpc Polling Amounts "HOL-Library.Word"
begin

text \<open>
  Submitting a transaction (\<open>src/SoroStreamClient.ts\<close>, \<open>src/xdrValidation.ts\<close>, \<open>src/memo.ts\<close>): the
  memo with its nonce, the wallet's signature and the check of what it signed, the broadcast and
  the confirmation. The Stellar SDK (building, preparing, decoding and hashing of transactions)
  is the parameter \<open>sdk\<close>; RPC calls run through \<^theory_text>\<open>GuardedRpc\<close>, the confirmation through \<^theory_text>\<open>Polling\<close>.
\<close>

section \<open>Memos\<close>

type_synonym bytes = "8 word list"

text \<open>\<open>TextEncoder\<close> on strings of 8-bit characters.\<close>

definition utf8_char :: "char \<Rightarrow> bytes" where
  "utf8_char c = (let n = (of_char c :: nat) in
     if n < 128 then [of_nat n] else [of_nat (192 + n div 64), of_nat (128 + n mod 64)])"

definition utf8 :: "string \<Rightarrow> bytes" where
  "utf8 s = concat (map utf8_char s)"

datatype memo_input = MemoString string | MemoBytes bytes

text \<open>The declared type of a nonce provider is a string; the built-in one returns 16 bytes.\<close>

datatype nonce = NonceBytes bytes | NonceString string

datatype memo = TextMemo string | HashMemo bytes

datatype memo_error = MemoTooLong nat | HashMemoWrongLength nat

definition MEMO_TEXT_MAX_BYTES :: nat where "MEMO_TEXT_MAX_BYTES = 28"

definition assertMemoTextWithinLimit :: "string \<Rightarrow> memo_error + unit" where
  "assertMemoTextWithinLimit text =
     (if length (utf8 text) > MEMO_TEXT_MAX_BYTES then Inl (MemoTooLong (length (utf8 text))) else Inr ())"

definition encodeMemo :: "string \<Rightarrow> memo_error + memo" where
  "encodeMemo text = rbind (assertMemoTextWithinLimit text) (\<lambda>_. Inr (TextMemo text))"

definition zero_pad :: "bytes \<Rightarrow> bytes" where
  "zero_pad b = b @ replicate (32 - length b) 0"

definition encodeMemoHash :: "bytes \<Rightarrow> memo" where
  "encodeMemoHash data = HashMemo (zero_pad (take 32 data))"

definition buildMemo :: "memo_input \<Rightarrow> memo_error + memo" where
  "buildMemo m =
     (case m of
        MemoString s \<Rightarrow> encodeMemo s
      | MemoBytes b \<Rightarrow> if length b \<noteq> 32 then Inl (HashMemoWrongLength (length b)) else Inr (HashMemo b))"

text \<open>
  A string copied into a byte array element by element: a digit becomes its value, every other
  character is not a number and becomes 0.
\<close>

definition bytes_of_chars :: "string \<Rightarrow> bytes" where
  "bytes_of_chars s = map (\<lambda>c. if is_digit c then of_nat (digit_val c) else 0) s"

fun nonce_bytes :: "nonce \<Rightarrow> bytes" where
  "nonce_bytes (NonceBytes b) = b"
| "nonce_bytes (NonceString s) = bytes_of_chars s"

definition fit32 :: "bytes \<Rightarrow> bytes" where
  "fit32 b = (if length b > 32 then take 32 b else if length b < 32 then zero_pad b else b)"

text \<open>The memo a transaction gets. A string nonce that is not padded stays a string.\<close>

definition finalMemo :: "memo_input option \<Rightarrow> nonce option \<Rightarrow> memo_input option" where
  "finalMemo memo nonce =
     (case nonce of
        None \<Rightarrow> memo
      | Some n \<Rightarrow>
          (case memo of
             Some (MemoString s) \<Rightarrow> Some (MemoBytes (fit32 (nonce_bytes n @ utf8 s)))
           | Some (MemoBytes b) \<Rightarrow> Some (MemoBytes (fit32 (nonce_bytes n @ b)))
           | None \<Rightarrow>
               (case n of
                  NonceBytes b \<Rightarrow> Some (MemoBytes (fit32 b))
                | NonceString s \<Rightarrow>
                    if length s > 32 then Some (MemoString (take 32 s))
                    else if length s < 32 then Some (MemoBytes (zero_pad (bytes_of_chars s)))
                    else Some (MemoString s))))"

lemma length_fit32 [simp]: "length (fit32 b) = 32"
  by (simp add: fit32_def zero_pad_def)

fun memo_bytes :: "memo_input option \<Rightarrow> bytes" where
  "memo_bytes None = []"
| "memo_bytes (Some (MemoString s)) = utf8 s"
| "memo_bytes (Some (MemoBytes b)) = b"

text \<open>
  With a nonce of bytes every transaction carries a hash memo of exactly 32 bytes: the nonce,
  then the caller's memo, cut off or filled with zeros. So building it never fails, whatever memo
  the caller passed - and a text memo never arrives as text.
\<close>
theorem nonce_memo_total:
  shows "buildMemo (the (finalMemo memo (Some (NonceBytes n)))) =
    Inr (HashMemo (take 32 (n @ memo_bytes memo @ replicate 32 0)))"
proof -
  have fit: "fit32 b = take 32 (b @ replicate 32 0)" for b
    by (auto simp: fit32_def zero_pad_def min_def)
  show ?thesis
    by (cases memo; cases "the memo") (simp_all add: finalMemo_def buildMemo_def fit)
qed

text \<open>
  A nonce provider of the declared type that returns a UUID (36 ASCII characters) makes every
  submission without a memo fail: its first 32 characters are taken as a text memo, which is too
  long. With a memo its letters are lost, because the characters become numbers.
\<close>

lemma uuid_nonce_rejected:
  assumes "length s = 36" "list_all (\<lambda>c. (of_char c :: nat) < 128) s"
  shows "buildMemo (the (finalMemo None (Some (NonceString s)))) = Inl (MemoTooLong 32)"
proof -
  have len: "list_all (\<lambda>c. (of_char c :: nat) < 128) u \<Longrightarrow> length (utf8 u) = length u" for u
    by (induction u) (auto simp: utf8_def utf8_char_def Let_def)
  have "list_all (\<lambda>c. (of_char c :: nat) < 128) (take 32 s)"
    using assms(2) by (auto simp: list_all_iff dest: in_set_takeD)
  from len [OF this] assms(1) show ?thesis
    by (simp add: finalMemo_def buildMemo_def encodeMemo_def assertMemoTextWithinLimit_def
        MEMO_TEXT_MAX_BYTES_def)
qed

lemma letters_of_string_nonce_lost: "bytes_of_chars ''a7f-'' = bytes_of_chars ''b7c_''"
  by (simp add: bytes_of_chars_def is_digit_def)

text \<open>The default nonce has 16 bytes, so of a text memo 16 bytes survive, of the 28 promised.\<close>

lemma long_memos_collide:
  assumes "length n = 16" "take 16 (utf8 s) = take 16 (utf8 s')" "16 \<le> length (utf8 s)" "16 \<le> length (utf8 s')"
  shows "finalMemo (Some (MemoString s)) (Some (NonceBytes n)) =
    finalMemo (Some (MemoString s')) (Some (NonceBytes n))"
proof -
  have "fit32 (n @ b) = n @ take 16 b" if "16 \<le> length b" for b :: bytes
    using that assms(1) by (auto simp: fit32_def)
  then show ?thesis using assms by (simp add: finalMemo_def)
qed

section \<open>Checking the signed envelope\<close>

record tx_body =
  tx_source :: string
  tx_sequence :: string
  tx_fee :: string
  tx_operations :: "string list"
  tx_hash :: bytes

datatype envelope = Transaction tx_body | FeeBumpTransaction

datatype xdr_error =
    UnexpectedPreparedType
  | InvalidXdr string
  | UnexpectedTransactionType
  | EnvelopeMutated string
  | OperationTypeMutated nat

text \<open>\<open>fromXDR\<close> is the SDK's decoder at the client's network; the fields are compared in the code's order.\<close>

definition first_type_change :: "string list \<Rightarrow> string list \<Rightarrow> nat option" where
  "first_type_change xs ys = (case filter (\<lambda>i. xs ! i \<noteq> ys ! i) [0 ..< length ys] of [] \<Rightarrow> None | i # _ \<Rightarrow> Some i)"

definition assertEnvelopeUnmutated ::
    "(string \<Rightarrow> string + envelope) \<Rightarrow> envelope \<Rightarrow> string \<Rightarrow> xdr_error + unit" where
  "assertEnvelopeUnmutated fromXDR prepared signedXdr =
     (case prepared of
        FeeBumpTransaction \<Rightarrow> Inl UnexpectedPreparedType
      | Transaction p \<Rightarrow>
          (case fromXDR signedXdr of
             Inl msg \<Rightarrow> Inl (InvalidXdr msg)
           | Inr FeeBumpTransaction \<Rightarrow> Inl UnexpectedTransactionType
           | Inr (Transaction d) \<Rightarrow>
               if tx_source d \<noteq> tx_source p then Inl (EnvelopeMutated ''source'')
               else if tx_sequence d \<noteq> tx_sequence p then Inl (EnvelopeMutated ''sequence'')
               else if tx_fee d \<noteq> tx_fee p then Inl (EnvelopeMutated ''fee'')
               else if length (tx_operations d) \<noteq> length (tx_operations p)
                 then Inl (EnvelopeMutated ''operations.length'')
               else (case first_type_change (tx_operations d) (tx_operations p) of
                   Some i \<Rightarrow> Inl (OperationTypeMutated i)
                 | None \<Rightarrow> if tx_hash d \<noteq> tx_hash p then Inl (EnvelopeMutated ''hash'') else Inr ())))"

lemma first_type_change_None:
  assumes "length xs = length ys"
  shows "first_type_change xs ys = None \<longleftrightarrow> xs = ys"
proof -
  have "filter (\<lambda>i. xs ! i \<noteq> ys ! i) [0 ..< length ys] = [] \<longleftrightarrow> xs = ys"
    unfolding filter_empty_conv by (auto simp: assms intro: nth_equalityI)
  then show ?thesis
    by (cases "filter (\<lambda>i. xs ! i \<noteq> ys ! i) [0 ..< length ys]") (simp_all add: first_type_change_def)
qed

text \<open>What passing the check means.\<close>

definition same_transaction :: "(string \<Rightarrow> string + envelope) \<Rightarrow> envelope \<Rightarrow> string \<Rightarrow> bool" where
  "same_transaction fromXDR prepared x \<longleftrightarrow> (\<exists>p d. prepared = Transaction p \<and> fromXDR x = Inr (Transaction d) \<and>
     tx_hash d = tx_hash p \<and> tx_source d = tx_source p \<and> tx_sequence d = tx_sequence p \<and>
     tx_fee d = tx_fee p \<and> tx_operations d = tx_operations p)"

lemma unmutated_same:
  assumes "assertEnvelopeUnmutated fromXDR prepared x = Inr u"
  shows "same_transaction fromXDR prepared x"
proof (cases prepared)
  case (Transaction p)
  note prep = this
  show ?thesis
  proof (cases "fromXDR x")
    case (Inr e)
    show ?thesis
    proof (cases e)
      case (Transaction d)
      from assms have "length (tx_operations d) = length (tx_operations p)"
        by (simp add: assertEnvelopeUnmutated_def prep Inr Transaction split: if_splits)
      with assms show ?thesis
        by (simp add: assertEnvelopeUnmutated_def same_transaction_def prep Inr Transaction
            first_type_change_None split: if_splits option.splits)
    qed (use assms prep Inr in \<open>simp add: assertEnvelopeUnmutated_def\<close>)
  qed (use assms prep in \<open>simp add: assertEnvelopeUnmutated_def\<close>)
qed (use assms in \<open>simp add: assertEnvelopeUnmutated_def\<close>)

section \<open>The submission\<close>

datatype wallet_answer = SignedXdr string | NotAString

datatype send_status = SendError string | SendAccepted string

datatype 'e submit_error =
    WalletFailed 'e
  | CallFailed "('e call_error, unit) retry_outcome"
  | MemoRejected memo_error
  | MalformedWalletResponse wallet_answer
  | XdrRejected xdr_error
  | TransactionFailed string
  | ConfirmFailed confirm_error
  | PollFailed

text \<open>
  The SDK and the environment of one submission. \<open>build\<close> assembles the transaction of the given
  account and memo around the operation, \<open>to_xdr\<close> serialises the prepared one.
\<close>

record ('e, 'acc, 'tx) submit_env =
  en_publicKey :: "'e + string"
  en_account :: "string \<Rightarrow> ('e, 'acc) rpc_env"
  en_build :: "'acc \<Rightarrow> memo option \<Rightarrow> 'tx"
  en_prepare :: "'tx \<Rightarrow> ('e, envelope) rpc_env"
  en_sign :: "string \<Rightarrow> 'e + wallet_answer"
  en_send :: "string \<Rightarrow> ('e, send_status) rpc_env"
  en_polled :: "string \<Rightarrow> nat \<Rightarrow> tx_status"
  en_lag :: "nat \<Rightarrow> nat"
  en_aborted :: "nat \<Rightarrow> bool"
  en_to_xdr :: "envelope \<Rightarrow> string"
  en_from_xdr :: "string \<Rightarrow> string + envelope"
  en_finished :: int

text \<open>A failed call keeps how it failed, whatever it would have returned.\<close>

fun outcome_error :: "('c, 'a) retry_outcome \<Rightarrow> ('c, unit) retry_outcome" where
  "outcome_error (Returned v) = Returned ()"
| "outcome_error (Rethrown e) = Rethrown e"
| "outcome_error Aborted = Aborted"
| "outcome_error (RetryExhausted e n att b) = RetryExhausted e n att b"

definition rpc_value :: "('e, 'a) rpc_result \<Rightarrow> 'e submit_error + 'a" where
  "rpc_value r = (case rr_outcome r of Returned v \<Rightarrow> Inr v | o' \<Rightarrow> Inl (CallFailed (outcome_error o')))"

text \<open>The client's state that a submission touches, and what the network was given.\<close>

record submit_state =
  sb_breaker :: "breaker option"
  sb_broadcast :: "string list"
  sb_audit :: "(string \<times> string) list"
  sb_lastRpcTimestampMs :: "int option"

text \<open>A step of a submission: it changes the state and then throws or goes on; it may not return.\<close>

type_synonym ('e, 'a) sub = "(submit_state, 'e submit_error, 'a) prog"

definition srpc :: "'e error_reader \<Rightarrow> ('e, 'a) rpc_env \<Rightarrow> ('e, 'a) sub" where
  "srpc rd env = (\<lambda>s. let r = guarded_rpc rd submit_retry env (sb_breaker s)
     in Some (s\<lparr>sb_breaker := rr_breaker r\<rparr>, rpc_value r))"

text \<open>The batch path calls without the breaker and without the signal.\<close>

definition srpc_plain :: "'e error_reader \<Rightarrow> ('e, 'a) rpc_env \<Rightarrow> ('e, 'a) sub" where
  "srpc_plain rd env = (\<lambda>s. Some (s, rpc_value (guarded_rpc rd submit_retry (env\<lparr>re_aborted := \<lambda>_. False\<rparr>) None)))"

definition ssend :: "'e error_reader \<Rightarrow> ('e, send_status) rpc_env \<Rightarrow> string \<Rightarrow> ('e, send_status) sub" where
  "ssend rd env x = (\<lambda>s. let r = guarded_rpc rd submit_retry env (sb_breaker s)
     in Some (s\<lparr>sb_breaker := rr_breaker r,
                sb_broadcast := sb_broadcast s @ replicate (rr_network_calls r) x\<rparr>, rpc_value r))"

definition ssend_plain :: "'e error_reader \<Rightarrow> ('e, send_status) rpc_env \<Rightarrow> string \<Rightarrow> ('e, send_status) sub" where
  "ssend_plain rd env x = (\<lambda>s. let r = guarded_rpc rd submit_retry (env\<lparr>re_aborted := \<lambda>_. False\<rparr>) None
     in Some (s\<lparr>sb_broadcast := sb_broadcast s @ replicate (rr_network_calls r) x\<rparr>, rpc_value r))"

text \<open>The wallet's signature, with the guards both paths share.\<close>

definition sign_checked :: "('e, 'acc, 'tx) submit_env \<Rightarrow> envelope \<Rightarrow> 'e submit_error + string" where
  "sign_checked env prepared =
     (case en_sign env (en_to_xdr env prepared) of
        Inl e \<Rightarrow> Inl (WalletFailed e)
      | Inr NotAString \<Rightarrow> Inl (MalformedWalletResponse NotAString)
      | Inr (SignedXdr x) \<Rightarrow>
          if js_trim x = [] then Inl (MalformedWalletResponse (SignedXdr x))
          else (case assertEnvelopeUnmutated (en_from_xdr env) prepared x of
                  Inl e \<Rightarrow> Inl (XdrRejected e) | Inr _ \<Rightarrow> Inr x))"

definition sent_hash :: "send_status \<Rightarrow> 'e submit_error + string" where
  "sent_hash r = (case r of SendError e \<Rightarrow> Inl (TransactionFailed e) | SendAccepted h \<Rightarrow> Inr h)"

text \<open>What the confirmed status of transaction \<open>h\<close> means: its ledger, or 0 when the answer names none.\<close>

definition settled_status :: "string \<Rightarrow> tx_status \<Rightarrow> 'e submit_error + int" where
  "settled_status h st =
     (case st of Failed \<Rightarrow> Inl (TransactionFailed h) | RequestFailed \<Rightarrow> Inl PollFailed
      | Succeeded (Some l) \<Rightarrow> Inr l | _ \<Rightarrow> Inr 0)"

definition sconfirm :: "('e, 'acc, 'tx) submit_env \<Rightarrow> nat \<Rightarrow> string \<Rightarrow> ('e, int) sub" where
  "sconfirm env timeoutMs h = (\<lambda>s.
     case confirm (en_polled env h) (en_lag env) (en_aborted env) timeoutMs of
       None \<Rightarrow> None
     | Some (_, Inl e) \<Rightarrow> Some (s, Inl (ConfirmFailed e))
     | Some (_, Inr st) \<Rightarrow> Some (s, settled_status h st))"

definition sconfirm_batch :: "('e, 'acc, 'tx) submit_env \<Rightarrow> string \<Rightarrow> ('e, int) sub" where
  "sconfirm_batch env h = (\<lambda>s.
     case batch_confirm (en_polled env h) 0 of
       None \<Rightarrow> None | Some (_, st) \<Rightarrow> Some (s, settled_status h st))"

definition saudit :: "('e, 'acc, 'tx) submit_env \<Rightarrow> string option \<Rightarrow> string \<Rightarrow> ('e, unit) sub" where
  "saudit env operationName h = (\<lambda>s.
     Some (s\<lparr>sb_audit := sb_audit s @ (case operationName of None \<Rightarrow> [] | Some n \<Rightarrow> if n = [] then [] else [(n, h)]),
             sb_lastRpcTimestampMs := Some (en_finished env)\<rparr>, Inr ()))"

definition memo_for :: "memo_input option \<Rightarrow> nonce option \<Rightarrow> 'e submit_error + memo option" where
  "memo_for memo nonce =
     (case finalMemo memo nonce of
        None \<Rightarrow> Inr None | Some m \<Rightarrow> map_sum MemoRejected Some (buildMemo m))"

definition buildAndSubmitInner ::
    "'e error_reader \<Rightarrow> ('e, 'acc, 'tx) submit_env \<Rightarrow> memo_input option \<Rightarrow> nonce option \<Rightarrow> string option \<Rightarrow>
     nat \<Rightarrow> ('e, string \<times> int) sub" where
  "buildAndSubmitInner rd env memo nonce operationName timeoutMs =
     sbind (slift (map_sum WalletFailed id (en_publicKey env))) (\<lambda>publicKey.
     sbind (srpc rd (en_account env publicKey)) (\<lambda>account.
     sbind (slift (memo_for memo nonce)) (\<lambda>m.
     sbind (srpc rd (en_prepare env (en_build env account m))) (\<lambda>prepared.
     sbind (slift (sign_checked env prepared)) (\<lambda>signedXdr.
     sbind (ssend rd (en_send env signedXdr) signedXdr) (\<lambda>result.
     sbind (slift (sent_hash result)) (\<lambda>h.
     sbind (sconfirm env timeoutMs h) (\<lambda>ledger.
     sbind (saudit env operationName h) (\<lambda>_. slift (Inr (h, ledger)))))))))))"

definition buildAndSubmitBatchInner ::
    "'e error_reader \<Rightarrow> ('e, 'acc, 'tx) submit_env \<Rightarrow> ('e, string) sub" where
  "buildAndSubmitBatchInner rd env =
     sbind (slift (map_sum WalletFailed id (en_publicKey env))) (\<lambda>publicKey.
     sbind (srpc_plain rd (en_account env publicKey)) (\<lambda>account.
     sbind (srpc_plain rd (en_prepare env (en_build env account None))) (\<lambda>prepared.
     sbind (slift (sign_checked env prepared)) (\<lambda>signedXdr.
     sbind (ssend_plain rd (en_send env signedXdr) signedXdr) (\<lambda>result.
     sbind (slift (sent_hash result)) (\<lambda>h.
     sbind (sconfirm_batch env h) (\<lambda>_. slift (Inr h))))))))"

section \<open>Reasoning about submissions\<close>

lemma map_sum_Inr_iff: "map_sum f g x = Inr b \<longleftrightarrow> (\<exists>a. x = Inr a \<and> b = g a)"
  by (cases x) auto

lemma rpc_value_Inr:
  assumes "rpc_value (guarded_rpc rd opts env br) = Inr v"
  shows "\<exists>i. re_raw env i = Inr v"
proof -
  have "rr_outcome (guarded_rpc rd opts env br) = Returned v"
    using assms by (simp add: rpc_value_def split: retry_outcome.splits)
  then show ?thesis by (rule guarded_rpc_returned)
qed

lemma submit_calls_le: "rr_network_calls (guarded_rpc rd submit_retry env br) \<le> 3"
  using network_calls_bounded [of rd submit_retry env br] by (simp add: resolve_options_def submit_retry_def)

lemma triple_rpc:
  assumes "\<And>s b. P s \<Longrightarrow> E (s\<lparr>sb_breaker := b\<rparr>)"
    "\<And>s b v i. P s \<Longrightarrow> re_raw env i = Inr v \<Longrightarrow> Q v (s\<lparr>sb_breaker := b\<rparr>)"
  shows "sub_triple P (srpc rd env) Q E"
  unfolding sub_triple_def srpc_def Let_def
  using assms by (auto split: sum.split dest: rpc_value_Inr)

lemma triple_send:
  assumes "\<And>s b n. P s \<Longrightarrow> n \<le> 3 \<Longrightarrow>
      E (s\<lparr>sb_breaker := b, sb_broadcast := sb_broadcast s @ replicate n x\<rparr>)"
    "\<And>s b n v i. P s \<Longrightarrow> n \<le> 3 \<Longrightarrow> re_raw env i = Inr v \<Longrightarrow>
      Q v (s\<lparr>sb_breaker := b, sb_broadcast := sb_broadcast s @ replicate n x\<rparr>)"
  shows "sub_triple P (ssend rd env x) Q E"
  unfolding sub_triple_def ssend_def Let_def
  by (auto split: sum.split dest!: rpc_value_Inr intro: assms submit_calls_le)

lemma triple_confirm:
  fixes env :: "('e, 'acc, 'tx) submit_env"
  assumes "\<And>s. P s \<Longrightarrow> E s"
    "\<And>s i l. P s \<Longrightarrow> en_polled env h i = Succeeded l \<Longrightarrow> Q (case l of Some n \<Rightarrow> n | None \<Rightarrow> 0) s"
  shows "sub_triple P (sconfirm env timeoutMs h) Q E"
  unfolding sub_triple_def
proof (intro allI impI)
  fix s s' r assume P: "P s" and run: "sconfirm env timeoutMs h s = Some (s', r)"
  from run have s': "s' = s" by (auto simp: sconfirm_def split: option.splits sum.splits)
  show "case r of Inl _ \<Rightarrow> E s' | Inr a \<Rightarrow> Q a s'"
  proof (cases r)
    case (Inr a)
    with run obtain c st where conf: "confirm (en_polled env h) (en_lag env) (en_aborted env) timeoutMs = Some (c, Inr st)"
      and st: "(settled_status h st :: 'e submit_error + int) = Inr a" by (auto simp: sconfirm_def split: option.splits sum.splits)
    from confirm_answer [OF conf] st obtain l where "en_polled env h (cf_round c) = Succeeded l"
      "a = (case l of Some n \<Rightarrow> n | None \<Rightarrow> 0)"
      by (auto simp: settled_status_def split: tx_status.splits option.splits)
    with P assms(2) Inr s' show ?thesis by simp
  qed (use P assms(1) s' in simp)
qed

text \<open>The state is the initial one up to the breaker; a signature that came from the wallet.\<close>

definition untouched :: "submit_state \<Rightarrow> submit_state \<Rightarrow> bool" where
  "untouched s0 s \<longleftrightarrow> sb_broadcast s = sb_broadcast s0 \<and> sb_audit s = sb_audit s0 \<and>
     sb_lastRpcTimestampMs s = sb_lastRpcTimestampMs s0"

definition prepared_from :: "('e, 'acc, 'tx) submit_env \<Rightarrow> memo option \<Rightarrow> envelope \<Rightarrow> bool" where
  "prepared_from env m prepared \<longleftrightarrow> (\<exists>publicKey account i j. en_publicKey env = Inr publicKey \<and>
     re_raw (en_account env publicKey) i = Inr account \<and>
     re_raw (en_prepare env (en_build env account m)) j = Inr prepared)"

definition authorised :: "('e, 'acc, 'tx) submit_env \<Rightarrow> memo option \<Rightarrow> string \<Rightarrow> bool" where
  "authorised env m x \<longleftrightarrow> (\<exists>prepared. prepared_from env m prepared \<and>
     en_sign env (en_to_xdr env prepared) = Inr (SignedXdr x) \<and> same_transaction (en_from_xdr env) prepared x)"

lemma sign_checked_Inr:
  assumes "sign_checked env prepared = Inr x"
  shows "en_sign env (en_to_xdr env prepared) = Inr (SignedXdr x) \<and> same_transaction (en_from_xdr env) prepared x"
  using assms unmutated_same [of "en_from_xdr env" prepared x]
  by (auto simp: sign_checked_def split: sum.splits wallet_answer.splits if_splits)

text \<open>What holds of the state when the submission ends, with or without an exception.\<close>

definition sent_only ::
    "('e, 'acc, 'tx) submit_env \<Rightarrow> (memo option \<Rightarrow> bool) \<Rightarrow> submit_state \<Rightarrow> submit_state \<Rightarrow> bool" where
  "sent_only env ok s0 s \<longleftrightarrow> (\<exists>n x m. n \<le> 3 \<and> sb_broadcast s = sb_broadcast s0 @ replicate n x \<and>
     (n = 0 \<or> ok m \<and> authorised env m x))"

definition quiet :: "submit_state \<Rightarrow> submit_state \<Rightarrow> bool" where
  "quiet s0 s \<longleftrightarrow> sb_audit s = sb_audit s0 \<and> sb_lastRpcTimestampMs s = sb_lastRpcTimestampMs s0"

lemma untouched_sent: "untouched s0 s \<Longrightarrow> sent_only env ok s0 s \<and> quiet s0 s"
  unfolding untouched_def sent_only_def quiet_def by (intro conjI exI [of _ 0]) auto

lemma breaker_irrelevant [simp]:
  "untouched s0 (s\<lparr>sb_breaker := b\<rparr>) = untouched s0 s"
  "sent_only env ok s0 (s\<lparr>sb_breaker := b\<rparr>) = sent_only env ok s0 s"
  "quiet s0 (s\<lparr>sb_breaker := b\<rparr>) = quiet s0 s"
  by (simp_all add: untouched_def sent_only_def quiet_def)

lemma submit_triple:
  "sub_triple (untouched s0) (buildAndSubmitInner rd env memo nonce operationName timeoutMs)
     (\<lambda>(h, ledger) s. sent_only env (\<lambda>m. memo_for memo nonce = (Inr m :: 'e submit_error + memo option)) s0 s \<and>
        (\<exists>x m k i l. memo_for memo nonce = (Inr m :: 'e submit_error + memo option) \<and> authorised env m x \<and>
           re_raw (en_send env x) k = Inr (SendAccepted h) \<and> en_polled env h i = Succeeded l \<and>
           ledger = (case l of Some n \<Rightarrow> n | None \<Rightarrow> 0)) \<and>
        sb_audit s = sb_audit s0 @ (case operationName of None \<Rightarrow> [] | Some n \<Rightarrow> if n = [] then [] else [(n, h)]) \<and>
        sb_lastRpcTimestampMs s = Some (en_finished env))
     (\<lambda>s. sent_only env (\<lambda>m. memo_for memo nonce = (Inr m :: 'e submit_error + memo option)) s0 s \<and> quiet s0 s)"
  (is "sub_triple _ _ ?Q ?E")
  for env :: "('e, 'acc, 'tx) submit_env"
proof -
  let ?ok = "\<lambda>m. memo_for memo nonce = (Inr m :: 'e submit_error + memo option)"
  let ?acc = "\<lambda>account. \<exists>publicKey i. en_publicKey env = Inr publicKey \<and>
      re_raw (en_account env publicKey) i = Inr account"
  let ?sent = "\<lambda>r s. sent_only env ?ok s0 s \<and> quiet s0 s \<and>
      (\<exists>x m k. ?ok m \<and> authorised env m x \<and> re_raw (en_send env x) k = Inr r)"
  have finish: "sub_triple (\<lambda>s. ?sent (SendAccepted h) s \<and> (\<exists>i l. en_polled env h i = Succeeded l \<and>
        ledger = (case l of Some n \<Rightarrow> n | None \<Rightarrow> 0)))
      (sbind (saudit env operationName h) (\<lambda>_. slift (Inr (h, ledger)))) ?Q ?E" for h ledger
    by (auto simp: sub_triple_def sbind_def saudit_def slift_def sent_only_def quiet_def)
  have settle: "sub_triple (?sent (SendAccepted h)) (sbind (sconfirm env timeoutMs h) (\<lambda>ledger.
      sbind (saudit env operationName h) (\<lambda>_. slift (Inr (h, ledger))))) ?Q ?E" for h
    by (rule triple_bind [OF triple_confirm finish]) auto
  have accepted: "sub_triple (?sent r) (sbind (slift (sent_hash r)) (\<lambda>h. sbind (sconfirm env timeoutMs h) (\<lambda>ledger.
      sbind (saudit env operationName h) (\<lambda>_. slift (Inr (h, ledger)))))) ?Q ?E" for r
    by (rule triple_bind [OF triple_lift settle]) (auto simp: sent_hash_def split: send_status.splits)
  have send: "sub_triple (\<lambda>s. untouched s0 s \<and> ?ok m \<and> authorised env m x) (ssend rd (en_send env x) x) ?sent ?E" for m x
    by (rule triple_send) (auto simp: untouched_def sent_only_def quiet_def)
  show ?thesis
    unfolding buildAndSubmitInner_def
    apply (rule triple_bind [where R = "\<lambda>pk s. untouched s0 s \<and> en_publicKey env = Inr pk"])
     apply (rule triple_lift; auto simp: map_sum_Inr_iff dest: untouched_sent)
    apply (rule triple_bind [where R = "\<lambda>account s. untouched s0 s \<and> ?acc account"])
     apply (rule triple_rpc; auto dest: untouched_sent)
    apply (rule triple_bind [where R = "\<lambda>m s. untouched s0 s \<and> ?acc account \<and> ?ok m" for account])
     apply (rule triple_lift; auto dest: untouched_sent)
    apply (rule triple_bind [where R = "\<lambda>prepared s. untouched s0 s \<and> ?ok m \<and> prepared_from env m prepared" for m])
     apply (rule triple_rpc; auto simp: prepared_from_def dest: untouched_sent)
    apply (rule triple_bind [where R = "\<lambda>x s. untouched s0 s \<and> ?ok m \<and> authorised env m x" for m])
     apply (rule triple_lift)
      apply (blast dest: untouched_sent)
     apply (auto simp: authorised_def dest: sign_checked_Inr)[1]
    apply (rule triple_bind [OF send accepted])
    done
qed

lemma returns_steps:
  "returns (slift r)" "returns (srpc rd env')" "returns (ssend rd env'' x)" "returns (saudit env op h)"
  by (simp_all add: returns_def slift_def srpc_def ssend_def saudit_def Let_def)

lemma confirm_returns: "confirm polled lag aborted timeoutMs \<noteq> None"
proof -
  have "\<exists>r. confirm_loop polled lag aborted timeoutMs \<lparr>cf_round = 0, cf_elapsed = lag 0, cf_delay = 500\<rparr> = Some r"
    by (rule cf.returns) simp
  then show ?thesis by (auto simp: confirm_def)
qed

lemma returns_confirm: "returns (sconfirm env timeoutMs h)"
  using confirm_returns
  by (fastforce simp: returns_def sconfirm_def split: option.splits prod.splits sum.splits)

lemma submission_returns: "returns (buildAndSubmitInner rd env memo nonce operationName timeoutMs)"
  unfolding buildAndSubmitInner_def by (intro returns_bind returns_steps returns_confirm)


end
