(* ===== verification/Dedup.thy ===== *)
theory Dedup
  imports Digits
begin

text \<open>
  In-flight request deduplication (\<open>src/requestDeduplicator.ts\<close>), with the microtask queue its
  correctness rests on. Callers and underlying requests are numbered; a promise is the number of
  its request. Events are the calls, the settlement of a request by its environment, the run of
  the next microtask, \<open>clear\<close> and \<open>resetStats\<close>, in any order. The log (newest entry first) records
  what each call was answered with.
\<close>

section \<open>The component\<close>

datatype dedup_log =
    LCall nat string "int option"
  | LStart nat string nat int
  | LJoin nat string nat int
  | LTurn nat
  | LSettle nat

text \<open>The reactions the code registers: end of the creation turn, deferred join decision, settle cleanup.\<close>

datatype micro = Leave nat | Decide nat string "int option" | Cleanup string nat

record inflight_entry =
  ie_promise :: nat
  ie_creationTick :: bool

record dedup =
  du_enabled :: bool
  du_maxAgeMs :: "int option"
  du_inFlight :: "(string, inflight_entry) jsmap"
  du_startedAt :: "(string, int) jsmap"
  du_requests :: nat
  du_started :: nat
  du_deduplicated :: nat
  du_peakInFlight :: nat
  du_micro :: "micro list"
  du_pending :: "(nat, string) jsmap"
  du_next :: nat
  du_callers :: nat
  du_log :: "dedup_log list"

text \<open>\<open>None\<close> as an age limit is \<open>Infinity\<close>.\<close>

definition new_dedup :: "bool option \<Rightarrow> int option \<Rightarrow> dedup" where
  "new_dedup enabled maxAgeMs =
     \<lparr>du_enabled = (enabled \<noteq> Some False), du_maxAgeMs = maxAgeMs, du_inFlight = [], du_startedAt = [],
      du_requests = 0, du_started = 0, du_deduplicated = 0, du_peakInFlight = 0, du_micro = [],
      du_pending = [], du_next = 0, du_callers = 0, du_log = []\<rparr>"

definition young :: "string \<Rightarrow> int option \<Rightarrow> int \<Rightarrow> dedup \<Rightarrow> bool" where
  "young key maxAge now s =
     (case maxAge of None \<Rightarrow> True
      | Some a \<Rightarrow> now - (case map_get (du_startedAt s) key of Some t \<Rightarrow> t | None \<Rightarrow> now) \<le> a)"

definition du_start :: "nat \<Rightarrow> string \<Rightarrow> int \<Rightarrow> dedup \<Rightarrow> dedup" where
  "du_start c key now s =
     (let r = du_next s; inf = map_set key \<lparr>ie_promise = r, ie_creationTick = True\<rparr> (du_inFlight s) in
      s\<lparr>du_started := du_started s + 1, du_next := r + 1, du_inFlight := inf,
        du_startedAt := map_set key now (du_startedAt s), du_micro := du_micro s @ [Leave r],
        du_peakInFlight := max (du_peakInFlight s) (length inf),
        du_pending := map_set r key (du_pending s), du_log := LStart c key r now # du_log s\<rparr>)"

definition du_join :: "nat \<Rightarrow> string \<Rightarrow> inflight_entry \<Rightarrow> int \<Rightarrow> dedup \<Rightarrow> dedup" where
  "du_join c key e now s =
     s\<lparr>du_deduplicated := du_deduplicated s + 1, du_log := LJoin c key (ie_promise e) now # du_log s\<rparr>"

text \<open>A disabled deduplicator starts every request and tracks none.\<close>

definition dedupe :: "string \<Rightarrow> bool \<Rightarrow> int option \<Rightarrow> int \<Rightarrow> dedup \<Rightarrow> dedup" where
  "dedupe key fresh maxAgeMs now s0 =
     (let c = du_callers s0; maxAge = (case maxAgeMs of Some a \<Rightarrow> Some a | None \<Rightarrow> du_maxAgeMs s0);
          s = s0\<lparr>du_requests := du_requests s0 + 1, du_callers := c + 1, du_log := LCall c key maxAge # du_log s0\<rparr>
      in if \<not> du_enabled s then
           s\<lparr>du_started := du_started s + 1, du_next := du_next s + 1, du_log := LStart c key (du_next s) now # du_log s\<rparr>
         else (case map_get (du_inFlight s) key of
             Some e \<Rightarrow>
               if \<not> fresh \<and> young key maxAge now s then
                 if ie_creationTick e then du_join c key e now s
                 else s\<lparr>du_micro := du_micro s @ [Decide c key maxAge]\<rparr>
               else du_start c key now s
           | None \<Rightarrow> du_start c key now s))"

fun run_micro :: "micro \<Rightarrow> int \<Rightarrow> dedup \<Rightarrow> dedup" where
  "run_micro (Leave r) now s =
     s\<lparr>du_inFlight := map (\<lambda>(k, e). (k, if ie_promise e = r then e\<lparr>ie_creationTick := False\<rparr> else e)) (du_inFlight s),
       du_log := LTurn r # du_log s\<rparr>"
| "run_micro (Decide c key maxAge) now s =
     (case map_get (du_inFlight s) key of
        Some e \<Rightarrow> if young key maxAge now s then du_join c key e now s else du_start c key now s
      | None \<Rightarrow> du_start c key now s)"
| "run_micro (Cleanup key r) now s =
     (case map_get (du_inFlight s) key of
        Some e \<Rightarrow>
          if ie_promise e = r
          then s\<lparr>du_inFlight := map_del key (du_inFlight s), du_startedAt := map_del key (du_startedAt s)\<rparr>
          else s
      | None \<Rightarrow> s)"

text \<open>When a tracked request settles, its \<open>finally\<close> reaction is queued.\<close>

definition du_settle :: "nat \<Rightarrow> dedup \<Rightarrow> dedup" where
  "du_settle r s =
     (case map_get (du_pending s) r of
        None \<Rightarrow> s
      | Some key \<Rightarrow> s\<lparr>du_pending := map_del r (du_pending s), du_micro := du_micro s @ [Cleanup key r],
                      du_log := LSettle r # du_log s\<rparr>)"

definition du_clear :: "dedup \<Rightarrow> dedup" where
  "du_clear s = s\<lparr>du_inFlight := [], du_startedAt := []\<rparr>"

definition du_has :: "string \<Rightarrow> dedup \<Rightarrow> bool" where
  "du_has key s = map_has (du_inFlight s) key"

definition du_stats :: "dedup \<Rightarrow> nat \<times> nat \<times> nat \<times> nat \<times> nat" where
  "du_stats s = (length (du_inFlight s), du_requests s, du_started s, du_deduplicated s, du_peakInFlight s)"

definition du_resetStats :: "dedup \<Rightarrow> dedup" where
  "du_resetStats s = s\<lparr>du_requests := 0, du_started := 0, du_deduplicated := 0,
     du_peakInFlight := length (du_inFlight s)\<rparr>"

datatype dedup_event = Call string bool "int option" int | Settle nat | RunMicro int | ClearAll | ResetStats

fun dedup_step :: "dedup_event \<Rightarrow> dedup \<Rightarrow> dedup" where
  "dedup_step (Call key fresh maxAgeMs now) s = dedupe key fresh maxAgeMs now s"
| "dedup_step (Settle r) s = du_settle r s"
| "dedup_step (RunMicro now) s =
     (case du_micro s of [] \<Rightarrow> s | m # ms \<Rightarrow> run_micro m now (s\<lparr>du_micro := ms\<rparr>))"
| "dedup_step ClearAll s = du_clear s"
| "dedup_step ResetStats s = du_resetStats s"

section \<open>Keys\<close>

datatype key_part = PNull | PUndefined | PString string | PNumber int | PBool bool

fun part_text :: "key_part \<Rightarrow> string" where
  "part_text PNull = ''*''"
| "part_text PUndefined = ''*''"
| "part_text (PString s) = s"
| "part_text (PNumber n) = string_of_int n"
| "part_text (PBool b) = (if b then ''true'' else ''false'')"

fun join_with :: "string \<Rightarrow> string list \<Rightarrow> string" where
  "join_with sep [] = []"
| "join_with sep [x] = x"
| "join_with sep (x # y # xs) = x @ sep @ join_with sep (y # xs)"

definition dedupKey :: "key_part list \<Rightarrow> string" where
  "dedupKey parts = join_with ''|'' (map part_text parts)"

section \<open>Invariants\<close>

text \<open>The log as it was when caller \<open>c\<close> called, and the microtasks ahead of its decision.\<close>

fun history :: "nat \<Rightarrow> dedup_log list \<Rightarrow> dedup_log list" where
  "history c [] = []"
| "history c (x # log) = (case x of LCall c' k m \<Rightarrow> if c' = c then log else history c log | _ \<Rightarrow> history c log)"

definition ahead :: "nat \<Rightarrow> micro list \<Rightarrow> micro list" where
  "ahead c ms = takeWhile (\<lambda>x. case x of Decide c' k m \<Rightarrow> c' \<noteq> c | _ \<Rightarrow> True) ms"

fun deciders :: "micro list \<Rightarrow> nat list" where
  "deciders [] = []"
| "deciders (Decide c k m # ms) = c # deciders ms"
| "deciders (Leave r # ms) = deciders ms"
| "deciders (Cleanup k r # ms) = deciders ms"

definition bounded :: "dedup \<Rightarrow> bool" where
  "bounded s \<longleftrightarrow> (\<forall>r. LSettle r \<in> set (du_log s) \<longrightarrow> r < du_next s \<and> map_get (du_pending s) r = None) \<and>
     (\<forall>r. LTurn r \<in> set (du_log s) \<longrightarrow> r < du_next s) \<and>
     (\<forall>r. Leave r \<in> set (du_micro s) \<longrightarrow> r < du_next s) \<and>
     (\<forall>r k. map_get (du_pending s) r = Some k \<longrightarrow> r < du_next s) \<and>
     (\<forall>c k m. LCall c k m \<in> set (du_log s) \<longrightarrow> c < du_callers s) \<and>
     distinct (deciders (du_micro s)) \<and> (\<forall>c \<in> set (deciders (du_micro s)). c < du_callers s)"

definition entry_ok :: "dedup \<Rightarrow> string \<Rightarrow> inflight_entry \<Rightarrow> bool" where
  "entry_ok s k e \<longleftrightarrow> ie_promise e < du_next s \<and>
     (\<exists>t c. map_get (du_startedAt s) k = Some t \<and> LStart c k (ie_promise e) t \<in> set (du_log s)) \<and>
     (map_get (du_pending s) (ie_promise e) = Some k \<or> Cleanup k (ie_promise e) \<in> set (du_micro s)) \<and>
     (LTurn (ie_promise e) \<in> set (du_log s) \<longrightarrow> \<not> ie_creationTick e)"

definition decision_ok :: "dedup \<Rightarrow> nat \<Rightarrow> string \<Rightarrow> int option \<Rightarrow> bool" where
  "decision_ok s c k m \<longleftrightarrow> LCall c k m \<in> set (du_log s) \<and>
     (\<forall>e. map_get (du_inFlight s) k = Some e \<longrightarrow> LSettle (ie_promise e) \<in> set (history c (du_log s)) \<longrightarrow>
        Cleanup k (ie_promise e) \<in> set (ahead c (du_micro s)))"

text \<open>
  What a join promises: the request was started for the same key, is no older than the call
  allows, and was not settled when the call was made unless it was still in its creation turn.
\<close>

definition join_ok :: "dedup_log list \<Rightarrow> nat \<Rightarrow> string \<Rightarrow> nat \<Rightarrow> int \<Rightarrow> bool" where
  "join_ok log c k r t \<longleftrightarrow> (\<exists>c' t' m. LStart c' k r t' \<in> set log \<and> LCall c k m \<in> set log \<and>
     (case m of None \<Rightarrow> True | Some a \<Rightarrow> t - t' \<le> a)) \<and>
     (LSettle r \<in> set (history c log) \<longrightarrow> LTurn r \<notin> set (history c log))"

definition dedup_inv :: "dedup \<Rightarrow> bool" where
  "dedup_inv s \<longleftrightarrow> bounded s \<and>
     (\<forall>k e. map_get (du_inFlight s) k = Some e \<longrightarrow> entry_ok s k e) \<and>
     (\<forall>c k m. Decide c k m \<in> set (du_micro s) \<longrightarrow> decision_ok s c k m) \<and>
     (\<forall>c k r t. LJoin c k r t \<in> set (du_log s) \<longrightarrow> c < du_callers s \<and> join_ok (du_log s) c k r t)"

lemma deciders_append [simp]: "deciders (ms @ ms') = deciders ms @ deciders ms'"
  by (induction ms rule: deciders.induct) auto

lemma in_deciders: "Decide c k m \<in> set ms \<Longrightarrow> c \<in> set (deciders ms)"
  by (induction ms rule: deciders.induct) auto

lemma ahead_append: "c \<in> set (deciders ms) \<Longrightarrow> ahead c (ms @ ms') = ahead c ms"
  by (induction ms rule: deciders.induct) (auto simp: ahead_def)

lemma ahead_snoc: "c \<notin> set (deciders ms) \<Longrightarrow> ahead c (ms @ [Decide c k m]) = ms"
  by (induction ms rule: deciders.induct) (auto simp: ahead_def)

lemma ahead_Cons: "ahead c (x # ms) = (case x of Decide c' k m \<Rightarrow> if c' = c then [] else x # ahead c ms | _ \<Rightarrow> x # ahead c ms)"
  by (simp add: ahead_def split: micro.split)

lemma history_mono: "x \<in> set (history c log) \<Longrightarrow> x \<in> set log"
  by (induction c log rule: history.induct) (auto split: dedup_log.splits if_splits)

lemma join_ok_mono:
  assumes "join_ok log c k r t" "\<And>k m. x \<noteq> LCall c k m"
  shows "join_ok (x # log) c k r t"
  using assms by (fastforce simp: join_ok_def split: dedup_log.splits)

lemma inv_join:
  assumes "dedup_inv s" "map_get (du_inFlight s) key = Some e" "young key maxAge now s"
    "LCall c key maxAge \<in> set (du_log s)"
    "LSettle (ie_promise e) \<in> set (history c (du_log s)) \<longrightarrow> LTurn (ie_promise e) \<notin> set (history c (du_log s))"
  shows "dedup_inv (du_join c key e now s)"
proof -
  let ?s = "du_join c key e now s"
  from assms(1) have b: "bounded s" and en: "\<And>k e. map_get (du_inFlight s) k = Some e \<Longrightarrow> entry_ok s k e"
    and de: "\<And>c k m. Decide c k m \<in> set (du_micro s) \<Longrightarrow> decision_ok s c k m"
    and jo: "\<And>c k r t. LJoin c k r t \<in> set (du_log s) \<Longrightarrow> c < du_callers s \<and> join_ok (du_log s) c k r t"
    unfolding dedup_inv_def by blast+
  have "bounded ?s" using b by (auto simp: bounded_def du_join_def)
  moreover have "entry_ok ?s k e'" if "map_get (du_inFlight ?s) k = Some e'" for k e'
    using en [of k e'] that by (auto simp: entry_ok_def du_join_def)
  moreover have "decision_ok ?s c' k m" if "Decide c' k m \<in> set (du_micro ?s)" for c' k m
    using de [of c' k m] that by (auto simp: decision_ok_def du_join_def)
  moreover have "c' < du_callers ?s \<and> join_ok (du_log ?s) c' k r t" if "LJoin c' k r t \<in> set (du_log ?s)" for c' k r t
  proof (cases "LJoin c' k r t \<in> set (du_log s)")
    case True
    with jo show ?thesis by (auto simp: du_join_def intro: join_ok_mono)
  next
    case False
    with that have eq: "c' = c" "k = key" "r = ie_promise e" "t = now" by (auto simp: du_join_def)
    from en [OF assms(2)] obtain t' d where t': "map_get (du_startedAt s) key = Some t'"
      and st: "LStart d key (ie_promise e) t' \<in> set (du_log s)" by (auto simp: entry_ok_def)
    have "join_ok (du_log s) c key (ie_promise e) now"
      unfolding join_ok_def
      using assms(3-5) st t' by (auto simp: young_def intro!: exI [of _ d] exI [of _ t'] exI [of _ maxAge] split: option.splits)
    moreover have "c < du_callers s" using b assms(4) unfolding bounded_def by blast
    ultimately show ?thesis by (auto simp: eq du_join_def intro: join_ok_mono)
  qed
  ultimately show ?thesis unfolding dedup_inv_def by blast
qed

lemma inv_start:
  assumes "dedup_inv s" "LCall c key lim \<in> set (du_log s)"
  shows "dedup_inv (du_start c key now s)"
proof -
  let ?s = "du_start c key now s"
  from assms(1) have b: "bounded s" and en: "\<And>k e. map_get (du_inFlight s) k = Some e \<Longrightarrow> entry_ok s k e"
    and de: "\<And>c k m. Decide c k m \<in> set (du_micro s) \<Longrightarrow> decision_ok s c k m"
    and jo: "\<And>c k r t. LJoin c k r t \<in> set (du_log s) \<Longrightarrow> c < du_callers s \<and> join_ok (du_log s) c k r t"
    unfolding dedup_inv_def by blast+
  have log: "du_log ?s = LStart c key (du_next s) now # du_log s" by (simp add: du_start_def Let_def)
  have pend: "map_get (du_pending s) (du_next s) = None"
    using b by (cases "map_get (du_pending s) (du_next s)") (auto simp: bounded_def)
  have "bounded ?s" using b pend by (auto simp: bounded_def du_start_def Let_def less_Suc_eq)
  moreover have "entry_ok ?s k e" if "map_get (du_inFlight ?s) k = Some e" for k e
  proof (cases "k = key")
    case True
    with that b show ?thesis by (auto simp: entry_ok_def du_start_def Let_def bounded_def)
  next
    case False
    with that en [of k e] show ?thesis by (auto simp: entry_ok_def du_start_def Let_def)
  qed
  moreover have "decision_ok ?s c' k m" if "Decide c' k m \<in> set (du_micro ?s)" for c' k m
  proof -
    from that have d: "Decide c' k m \<in> set (du_micro s)" by (simp add: du_start_def Let_def)
    have "LSettle (du_next s) \<notin> set (history c' (du_log s))"
      using b history_mono by (fastforce simp: bounded_def)
    with de [OF d] show ?thesis
      using ahead_append [OF in_deciders [OF d]] by (auto simp: decision_ok_def du_start_def Let_def)
  qed
  moreover have "c' < du_callers ?s \<and> join_ok (du_log ?s) c' k r t" if "LJoin c' k r t \<in> set (du_log ?s)" for c' k r t
    using that jo [of c' k r t] by (auto simp: du_start_def Let_def intro: join_ok_mono)
  ultimately show ?thesis unfolding dedup_inv_def by blast
qed

lemma dedup_inv_cases:
  assumes "dedup_inv s"
  shows "bounded s" "\<And>k e. map_get (du_inFlight s) k = Some e \<Longrightarrow> entry_ok s k e"
    "\<And>c k m. Decide c k m \<in> set (du_micro s) \<Longrightarrow> decision_ok s c k m"
    "\<And>c k r t. LJoin c k r t \<in> set (du_log s) \<Longrightarrow> c < du_callers s \<and> join_ok (du_log s) c k r t"
  using assms unfolding dedup_inv_def by blast+

lemma inv_called:
  assumes "dedup_inv s"
  shows "dedup_inv (s\<lparr>du_requests := n, du_callers := du_callers s + 1,
    du_log := LCall (du_callers s) key lim # du_log s\<rparr>)" (is "dedup_inv ?s")
proof -
  note inv = dedup_inv_cases [OF assms]
  have "bounded ?s" using inv(1) by (auto simp: bounded_def less_Suc_eq)
  moreover have "entry_ok ?s k e" if "map_get (du_inFlight ?s) k = Some e" for k e
    using inv(2) [of k e] that by (auto simp: entry_ok_def)
  moreover have "decision_ok ?s c k m" if d: "Decide c k m \<in> set (du_micro ?s)" for c k m
  proof -
    from d have d': "Decide c k m \<in> set (du_micro s)" by simp
    have "c < du_callers s" using inv(1) in_deciders [OF d'] by (simp add: bounded_def)
    with inv(3) [OF d'] show ?thesis by (auto simp: decision_ok_def)
  qed
  moreover have "c < du_callers ?s \<and> join_ok (du_log ?s) c k r t" if "LJoin c k r t \<in> set (du_log ?s)" for c k r t
    using that inv(4) [of c k r t] by (auto intro!: join_ok_mono)
  ultimately show ?thesis unfolding dedup_inv_def by blast
qed

lemma inv_defer:
  assumes "dedup_inv s" "LCall c key lim \<in> set (du_log s)" "c \<notin> set (deciders (du_micro s))"
  shows "dedup_inv (s\<lparr>du_micro := du_micro s @ [Decide c key lim]\<rparr>)" (is "dedup_inv ?u")
proof -
  note inv = dedup_inv_cases [OF assms(1)]
  have "c < du_callers s" using inv(1) assms(2) unfolding bounded_def by blast
  with inv(1) assms(3) have "bounded ?u" by (auto simp: bounded_def)
  moreover have "entry_ok ?u k e" if "map_get (du_inFlight ?u) k = Some e" for k e
    using inv(2) [of k e] that by (auto simp: entry_ok_def)
  moreover have "decision_ok ?u d k m" if d: "Decide d k m \<in> set (du_micro ?u)" for d k m
  proof (cases "Decide d k m \<in> set (du_micro s)")
    case True
    with inv(3) [of d k m] ahead_append [OF in_deciders [OF True]] show ?thesis by (auto simp: decision_ok_def)
  next
    case False
    with d have eq: "d = c" "k = key" "m = lim" by auto
    have "ahead c (du_micro s @ [Decide c key lim]) = du_micro s"
      by (rule ahead_snoc [OF assms(3)])
    moreover have "Cleanup key (ie_promise e) \<in> set (du_micro s)"
      if "map_get (du_inFlight s) key = Some e" "LSettle (ie_promise e) \<in> set (history c (du_log s))" for e
      using inv(2) [OF that(1)] history_mono [OF that(2)] inv(1) by (auto simp: entry_ok_def bounded_def)
    ultimately show ?thesis using assms(2) by (auto simp: decision_ok_def eq)
  qed
  moreover have "d < du_callers ?u \<and> join_ok (du_log ?u) d k r t" if "LJoin d k r t \<in> set (du_log ?u)" for d k r t
    using that inv(4) [of d k r t] by simp
  ultimately show ?thesis unfolding dedup_inv_def by blast
qed

lemma inv_untracked:
  assumes "dedup_inv s"
  shows "dedup_inv (s\<lparr>du_started := n, du_next := du_next s + 1, du_log := LStart c key (du_next s) now # du_log s\<rparr>)"
    (is "dedup_inv ?u")
proof -
  note inv = dedup_inv_cases [OF assms]
  have "bounded ?u" using inv(1) by (auto simp: bounded_def less_Suc_eq)
  moreover have "entry_ok ?u k e" if "map_get (du_inFlight ?u) k = Some e" for k e
    using inv(2) [of k e] that by (auto simp: entry_ok_def)
  moreover have "decision_ok ?u d k m" if "Decide d k m \<in> set (du_micro ?u)" for d k m
    using inv(3) [of d k m] that by (auto simp: decision_ok_def)
  moreover have "d < du_callers ?u \<and> join_ok (du_log ?u) d k r t" if "LJoin d k r t \<in> set (du_log ?u)" for d k r t
    using that inv(4) [of d k r t] by (auto intro!: join_ok_mono)
  ultimately show ?thesis unfolding dedup_inv_def by blast
qed

lemma inv_dedupe:
  assumes "dedup_inv s"
  shows "dedup_inv (dedupe key fresh maxAgeMs now s)"
proof -
  let ?c = "du_callers s" and ?m = "case maxAgeMs of Some a \<Rightarrow> Some a | None \<Rightarrow> du_maxAgeMs s"
  let ?s = "s\<lparr>du_requests := du_requests s + 1, du_callers := ?c + 1, du_log := LCall ?c key ?m # du_log s\<rparr>"
  note inv = dedup_inv_cases [OF assms]
  have inv1: "dedup_inv ?s" by (rule inv_called [OF assms])
  have start: "dedup_inv (du_start ?c key now ?s)" by (rule inv_start [where lim = ?m, OF inv1]) simp
  have defer_ok: "dedup_inv (?s\<lparr>du_micro := du_micro ?s @ [Decide ?c key ?m]\<rparr>)"
    by (rule inv_defer [OF inv1]) (use inv(1) in \<open>auto simp: bounded_def\<close>)
  have join_now: "dedup_inv (du_join ?c key e now ?s)"
    if "map_get (du_inFlight s) key = Some e" "young key ?m now ?s" "ie_creationTick e" for e
    by (rule inv_join [OF inv1 _ that(2)]) (use that inv(2) [of key e] in \<open>auto simp: entry_ok_def\<close>)
  have off: "dedup_inv (?s\<lparr>du_started := du_started s + 1, du_next := du_next s + 1,
      du_log := LStart ?c key (du_next s) now # du_log ?s\<rparr>)"
    using inv_untracked [OF inv1, where n = "du_started s + 1" and c = ?c and key = key and now = now] by simp
  show ?thesis
    unfolding dedupe_def Let_def using start defer_ok join_now off
    by (auto split: option.split simp del: du_start_def)
qed

text \<open>Running a microtask that is at the head of the queue.\<close>

lemma inv_leave:
  assumes "dedup_inv s" "du_micro s = Leave r # ms"
  shows "dedup_inv (run_micro (Leave r) now (s\<lparr>du_micro := ms\<rparr>))" (is "dedup_inv ?u")
proof -
  note inv = dedup_inv_cases [OF assms(1)]
  have get: "map_get (du_inFlight ?u) k = map_option
      (\<lambda>e. if ie_promise e = r then e\<lparr>ie_creationTick := False\<rparr> else e) (map_get (du_inFlight s) k)" for k
    by (simp add: map_of_map)
  have "bounded ?u" using inv(1) assms(2) by (auto simp: bounded_def)
  moreover have "entry_ok ?u k e" if "map_get (du_inFlight ?u) k = Some e" for k e
  proof -
    from that obtain z where z: "map_get (du_inFlight s) k = Some z"
      and e: "e = (if ie_promise z = r then z\<lparr>ie_creationTick := False\<rparr> else z)" unfolding get by auto
    from inv(2) [OF z] have "entry_ok s k z" .
    then show ?thesis
      using assms(2) unfolding e entry_ok_def by (cases "ie_promise z = r") auto
  qed
  moreover have "decision_ok ?u d k m" if "Decide d k m \<in> set (du_micro ?u)" for d k m
    using inv(3) [of d k m] that assms(2) unfolding decision_ok_def get by (auto simp: ahead_Cons split: if_splits)
  moreover have "d < du_callers ?u \<and> join_ok (du_log ?u) d k r t" if "LJoin d k r t \<in> set (du_log ?u)" for d k r t
    using that inv(4) [of d k r t] by (auto intro!: join_ok_mono)
  ultimately show ?thesis unfolding dedup_inv_def by blast
qed

lemma inv_decide:
  assumes "dedup_inv s" "du_micro s = Decide c key lim # ms"
  shows "dedup_inv (run_micro (Decide c key lim) now (s\<lparr>du_micro := ms\<rparr>))"
proof -
  let ?s = "s\<lparr>du_micro := ms\<rparr>"
  note inv = dedup_inv_cases [OF assms(1)]
  have c: "decision_ok s c key lim" using inv(3) assms(2) by simp
  have "bounded ?s" using inv(1) assms(2) by (auto simp: bounded_def)
  moreover have "entry_ok ?s k e" if "map_get (du_inFlight ?s) k = Some e" for k e
    using that inv(2) [of k e] assms(2) by (auto simp: entry_ok_def)
  moreover have "decision_ok ?s d k m" if d: "Decide d k m \<in> set (du_micro ?s)" for d k m
  proof -
    have "d \<noteq> c" using inv(1) in_deciders [of d k m ms] d assms(2) by (auto simp: bounded_def)
    with inv(3) [of d k m] d assms(2) show ?thesis by (auto simp: decision_ok_def ahead_Cons)
  qed
  moreover have "d < du_callers ?s \<and> join_ok (du_log ?s) d k r t" if "LJoin d k r t \<in> set (du_log ?s)" for d k r t
    using that inv(4) [of d k r t] by simp
  ultimately have s: "dedup_inv ?s" unfolding dedup_inv_def by blast
  have start: "dedup_inv (du_start c key now ?s)"
    by (rule inv_start [where lim = lim, OF s]) (use c in \<open>simp add: decision_ok_def\<close>)
  have "dedup_inv (du_join c key e now ?s)"
    if "map_get (du_inFlight s) key = Some e" "young key lim now ?s" for e
    by (rule inv_join [OF s _ that(2)]) (use c that assms(2) in \<open>auto simp: decision_ok_def ahead_Cons\<close>)
  with start show ?thesis by (auto split: option.split)
qed

lemma inv_cleanup:
  assumes "dedup_inv s" "du_micro s = Cleanup key r # ms"
  shows "dedup_inv (run_micro (Cleanup key r) now (s\<lparr>du_micro := ms\<rparr>))" (is "dedup_inv ?u")
proof -
  note inv = dedup_inv_cases [OF assms(1)]
  have get: "map_get (du_inFlight ?u) k = Some e \<longleftrightarrow>
      map_get (du_inFlight s) k = Some e \<and> (k = key \<longrightarrow> ie_promise e \<noteq> r)" for k e
    by (auto split: option.split)
  have log: "du_log ?u = du_log s" "du_micro ?u = ms" "du_next ?u = du_next s" "du_pending ?u = du_pending s"
    "du_callers ?u = du_callers s"
    "map_get (du_inFlight ?u) k = Some e \<Longrightarrow> map_get (du_startedAt ?u) k = map_get (du_startedAt s) k" for k e
    by (auto split: option.splits if_splits)
  have "bounded ?u" using inv(1) assms(2) unfolding bounded_def log by auto
  moreover have "entry_ok ?u k e" if "map_get (du_inFlight ?u) k = Some e" for k e
    using that inv(2) [of k e] assms(2) log(6) [OF that] unfolding get entry_ok_def log(1-5) by auto
  moreover have "decision_ok ?u d k m" if "Decide d k m \<in> set (du_micro ?u)" for d k m
    using inv(3) [of d k m] that assms(2) unfolding decision_ok_def get log(1-5) by (auto simp: ahead_Cons)
  moreover have "d < du_callers ?u \<and> join_ok (du_log ?u) d k q t" if "LJoin d k q t \<in> set (du_log ?u)" for d k q t
    using that inv(4) [of d k q t] unfolding log by simp
  ultimately show ?thesis unfolding dedup_inv_def by blast
qed

lemma inv_settle:
  assumes "dedup_inv s"
  shows "dedup_inv (du_settle r s)"
proof (cases "map_get (du_pending s) r")
  case (Some key)
  let ?u = "du_settle r s"
  note inv = dedup_inv_cases [OF assms]
  have u: "?u = s\<lparr>du_pending := map_del r (du_pending s), du_micro := du_micro s @ [Cleanup key r],
      du_log := LSettle r # du_log s\<rparr>" using Some by (simp add: du_settle_def)
  have "bounded ?u" using inv(1) Some unfolding u by (auto simp: bounded_def)
  moreover have "entry_ok ?u k e" if "map_get (du_inFlight ?u) k = Some e" for k e
    using inv(2) [of k e] that Some unfolding u by (auto simp: entry_ok_def)
  moreover have "decision_ok ?u d k m" if d: "Decide d k m \<in> set (du_micro ?u)" for d k m
  proof -
    from d have d': "Decide d k m \<in> set (du_micro s)" unfolding u by simp
    with inv(3) [OF d'] ahead_append [OF in_deciders [OF d']] show ?thesis unfolding u by (auto simp: decision_ok_def)
  qed
  moreover have "d < du_callers ?u \<and> join_ok (du_log ?u) d k q t" if "LJoin d k q t \<in> set (du_log ?u)" for d k q t
    using that inv(4) [of d k q t] unfolding u by (auto intro!: join_ok_mono)
  ultimately show ?thesis unfolding dedup_inv_def by blast
qed (use assms in \<open>simp add: du_settle_def\<close>)

lemma inv_reset:
  "dedup_inv s \<Longrightarrow> dedup_inv (du_clear s)" "dedup_inv s \<Longrightarrow> dedup_inv (du_resetStats s)"
  by (auto simp: dedup_inv_def du_clear_def du_resetStats_def bounded_def entry_ok_def decision_ok_def)

lemma inv_micro:
  "dedup_inv s \<Longrightarrow> du_micro s = m # ms \<Longrightarrow> dedup_inv (run_micro m now (s\<lparr>du_micro := ms\<rparr>))"
  by (cases m) (simp_all only: inv_leave inv_decide inv_cleanup)

interpretation dd: step_system dedup_step dedup_inv
proof unfold_locales
  fix s e assume "dedup_inv s"
  then show "dedup_inv (dedup_step e s)"
    by (cases e) (auto simp: inv_dedupe inv_settle inv_reset inv_micro split: list.split)
qed

lemma inv_new: "dedup_inv (new_dedup enabled maxAgeMs)"
  by (simp add: dedup_inv_def new_dedup_def bounded_def)

text \<open>
  C38. A joiner gets a live, matching answer: whatever calls, settlements, microtasks and clears
  interleave, a call that is handed an in-flight request gets one started for the same key and no
  older than the call allows, and one that was not settled when the call was made - unless the
  call falls into the very turn that started it.
\<close>
theorem joiners_get_live_requests:
  assumes "LJoin c key r t \<in> set (du_log s)" "s = fold dedup_step es (new_dedup enabled maxAgeMs)"
  shows "(\<exists>c' t' lim. LStart c' key r t' \<in> set (du_log s) \<and> LCall c key lim \<in> set (du_log s) \<and>
      (case lim of None \<Rightarrow> True | Some a \<Rightarrow> t - t' \<le> a)) \<and>
    (LSettle r \<in> set (history c (du_log s)) \<longrightarrow> LTurn r \<notin> set (history c (du_log s)))"
proof -
  have "dedup_inv s" unfolding assms(2) by (rule dd.run_inv) (rule inv_new)
  with dedup_inv_cases(4) assms(1) show ?thesis unfolding join_ok_def by blast
qed

definition dedup_demo :: "dedup_event list" where
  "dedup_demo = [Call ''k'' False None 0, RunMicro 1, Call ''k'' False None 5, RunMicro 6, Settle 0, RunMicro 7,
     Call ''k'' False None 8]"

theorem joiners_get_live_requests_witness:
  "\<exists>c' t' lim. LStart c' ''k'' 0 t' \<in> set (du_log (fold dedup_step dedup_demo (new_dedup None (Some 10)))) \<and>
     LCall 1 ''k'' lim \<in> set (du_log (fold dedup_step dedup_demo (new_dedup None (Some 10))))"
proof -
  have "LJoin 1 ''k'' 0 6 \<in> set (du_log (fold dedup_step dedup_demo (new_dedup None (Some 10))))"
    by code_simp
  from joiners_get_live_requests [OF this refl] show ?thesis by blast
qed

end
