(* ===== verification/ClientReads.thy ===== *)
theory ClientReads
  imports Dedup TtlCache StreamQuery Amounts
begin

text \<open>
  The read side of \<open>src/SoroStreamClient.ts\<close>: \<open>getStream\<close>, \<open>getClaimable\<close> and the list reads, with their
  caches, the in-flight deduplication of \<^theory_text>\<open>Dedup\<close>, read-your-own-writes and \<open>setNetwork\<close>. A read is
  split where it awaits: at the call, after the ledger wait, when its request is answered and when
  a caller resumes after the shared request. What the contract answers is an input; caches are
  those of \<^theory_text>\<open>TtlCache\<close>, a network-prefixed key is a pair.
\<close>

section \<open>State\<close>

datatype network = Mainnet | Testnet | Futurenet

fun network_text :: "network \<Rightarrow> string" where
  "network_text Mainnet = ''mainnet''"
| "network_text Testnet = ''testnet''"
| "network_text Futurenet = ''futurenet''"

datatype list_kind = BySender | ByRecipient | ByTag

type_synonym read_page = "nat option \<times> string option"

text \<open>A read that went to the network: what its closure has captured.\<close>

datatype read_call =
    ReadStream string network bool
  | ReadClaimable string
  | ReadList list_kind string network "read_page option" "stream_filter option"

text \<open>
  \<open>GotNothing\<close> is a simulation error or a missing return value, \<open>ReadFailed\<close> a rejected request.
\<close>

datatype read_answer = GotStream stream | GotAmount int | GotList "stream list" | GotNothing | ReadFailed

text \<open>What a call returned without a request of its own.\<close>

datatype served =
    ServedStream string stream
  | ServedAmount string int
  | ServedList list_kind string "stream list"
  | JoinedClaimable string nat
  | WaitFailed string

record read_wait =
  rw_id :: string
  rw_refresh :: bool
  rw_network :: network
  rw_target :: "int option"

record client =
  cl_network :: network
  cl_streams :: "(network \<times> string, stream) cache"
  cl_senders :: "(network \<times> string, stream list) cache"
  cl_recipients :: "(network \<times> string, stream list) cache"
  cl_tags :: "(network \<times> string, stream list) cache"
  cl_claimable :: "(string, int) cache"
  cl_claimableInflight :: "(string, nat) jsmap"
  cl_lastWriteLedger :: "(string, int) jsmap"
  cl_lastWriteAt :: "(string, int) jsmap"
  cl_ryowTimeoutMs :: int
  cl_ryowBypassWindowMs :: int
  cl_dedup :: dedup
  cl_calls :: "(nat, read_call) jsmap"
  cl_waiting :: "read_wait list"
  cl_answers :: "(nat, read_answer) jsmap"
  cl_results :: "(read_call \<times> read_answer) list"
  cl_resumed :: "nat list"
  cl_served :: "served list"

definition STREAM_CACHE_TTL_MS :: int where "STREAM_CACHE_TTL_MS = 5000"

definition new_client :: "network \<Rightarrow> int \<Rightarrow> int \<Rightarrow> client" where
  "new_client net ryow window =
     \<lparr>cl_network = net, cl_streams = new_cache (Some STREAM_CACHE_TTL_MS) None,
      cl_senders = new_cache (Some STREAM_CACHE_TTL_MS) None,
      cl_recipients = new_cache (Some STREAM_CACHE_TTL_MS) None,
      cl_tags = new_cache (Some STREAM_CACHE_TTL_MS) None,
      cl_claimable = new_cache (Some 5000) (Some 1000), cl_claimableInflight = [],
      cl_lastWriteLedger = [], cl_lastWriteAt = [], cl_ryowTimeoutMs = ryow, cl_ryowBypassWindowMs = window,
      cl_dedup = new_dedup None None, cl_calls = [], cl_waiting = [], cl_answers = [], cl_results = [],
      cl_resumed = [], cl_served = []\<rparr>"

section \<open>Going to the network\<close>

text \<open>The start of a request runs its factory: a bypassing read consumes the write record.\<close>

fun begin_read :: "read_call \<Rightarrow> client \<Rightarrow> client" where
  "begin_read (ReadStream i net byp) s =
     (if byp then s\<lparr>cl_lastWriteAt := map_del i (cl_lastWriteAt s)\<rparr> else s)"
| "begin_read (ReadClaimable i) s = s"
| "begin_read (ReadList kind addr net page flt) s = s"

text \<open>If the deduplicator has just started a request, the factory of its caller runs.\<close>

definition after_dedup :: "dedup \<Rightarrow> client \<Rightarrow> client" where
  "after_dedup d0 s =
     (if du_next (cl_dedup s) = du_next d0 then s
      else (case du_log (cl_dedup s) of
          LStart c k r t # _ \<Rightarrow> (case map_get (cl_calls s) c of Some call \<Rightarrow> begin_read call s | None \<Rightarrow> s)
        | _ \<Rightarrow> s))"

definition dedupe_read :: "string \<Rightarrow> read_call \<Rightarrow> int \<Rightarrow> client \<Rightarrow> client" where
  "dedupe_read key call now s =
     after_dedup (cl_dedup s)
       (s\<lparr>cl_calls := map_set (du_callers (cl_dedup s)) call (cl_calls s),
          cl_dedup := dedupe key False None now (cl_dedup s)\<rparr>)"

definition read_micro :: "int \<Rightarrow> client \<Rightarrow> client" where
  "read_micro now s = after_dedup (cl_dedup s) (s\<lparr>cl_dedup := dedup_step (RunMicro now) (cl_dedup s)\<rparr>)"

text \<open>The read_page object in a key: its entries in sorted order; strings that JSON need not escape.\<close>

definition page_text :: "read_page option \<Rightarrow> string" where
  "page_text p =
     (case p of None \<Rightarrow> ''*''
      | Some (lim, cur) \<Rightarrow> CHR ''{'' # join_with '',''
          ((case cur of None \<Rightarrow> [] | Some c \<Rightarrow> [CHR 0x22 # ''cursor'' @ [CHR 0x22, CHR '':'', CHR 0x22] @ c @ [CHR 0x22]]) @
           (case lim of None \<Rightarrow> [] | Some n \<Rightarrow> [CHR 0x22 # ''limit'' @ [CHR 0x22, CHR '':''] @ string_of_int (int n)]))
          @ ''}'')"

section \<open>Single streams\<close>

definition shouldBypassCache :: "string \<Rightarrow> int \<Rightarrow> client \<Rightarrow> bool" where
  "shouldBypassCache i now s =
     (if cl_ryowBypassWindowMs s = 0 then False
      else (case map_get (cl_lastWriteAt s) i of
          None \<Rightarrow> False | Some t \<Rightarrow> now - t < cl_ryowBypassWindowMs s))"

definition recordWriteLedger :: "string \<Rightarrow> int \<Rightarrow> client \<Rightarrow> client" where
  "recordWriteLedger i ledger s =
     (if ledger \<le> 0 \<or> cl_ryowTimeoutMs s = 0 then s
      else s\<lparr>cl_lastWriteLedger := map_set i ledger (cl_lastWriteLedger s)\<rparr>)"

definition recordWriteTimestamp :: "string \<Rightarrow> int \<Rightarrow> int \<Rightarrow> client \<Rightarrow> client" where
  "recordWriteTimestamp i ledger now s =
     (if cl_ryowBypassWindowMs s = 0 then s
      else recordWriteLedger i ledger (s\<lparr>cl_lastWriteAt := map_set i now (cl_lastWriteAt s)\<rparr>))"

text \<open>\<open>await this._waitForStreamLedger(streamId)\<close>: the target is the record at the time of the call.\<close>

definition await_ledger :: "string \<Rightarrow> bool \<Rightarrow> client \<Rightarrow> client" where
  "await_ledger i refresh s =
     s\<lparr>cl_waiting := cl_waiting s @ [\<lparr>rw_id = i, rw_refresh = refresh, rw_network = cl_network s,
       rw_target = if cl_ryowTimeoutMs s = 0 then None else map_get (cl_lastWriteLedger s) i\<rparr>]\<rparr>"

definition cached_stream :: "string \<Rightarrow> int \<Rightarrow> client \<Rightarrow> client \<times> stream option" where
  "cached_stream i now s =
     (let (c, hit) = cache_get (cl_network s, i) now (cl_streams s) in (s\<lparr>cl_streams := c\<rparr>, hit))"

text \<open>The persistent cache is \<open>LocalStorageStreamCache\<close>, here its \<open>get\<close> (nothing when not configured).\<close>

definition getCachedStream ::
    "(network \<Rightarrow> string \<Rightarrow> stream option) \<Rightarrow> string \<Rightarrow> int \<Rightarrow> client \<Rightarrow> client \<times> stream option" where
  "getCachedStream persistent i now s =
     (case cached_stream i now s of
        (s', Some v) \<Rightarrow> (s', Some v) | (s', None) \<Rightarrow> (s', persistent (cl_network s) i))"

definition client_getStream :: "string \<Rightarrow> bool \<Rightarrow> int \<Rightarrow> client \<Rightarrow> client" where
  "client_getStream i refresh now s =
     (if \<not> refresh \<and> \<not> map_has (cl_lastWriteLedger s) i \<and> \<not> map_has (cl_lastWriteAt s) i then
        (case cached_stream i now s of
           (s', Some v) \<Rightarrow> s'\<lparr>cl_served := ServedStream i v # cl_served s\<rparr>
         | (s', None) \<Rightarrow> await_ledger i refresh s')
      else await_ledger i refresh s)"

definition getStream_ready :: "read_wait \<Rightarrow> int \<Rightarrow> client \<Rightarrow> client" where
  "getStream_ready w now s =
     (let i = rw_id w; net = rw_network w; byp = (\<not> rw_refresh w \<and> shouldBypassCache i now s);
          fetch = (\<lambda>s. dedupe_read (dedupKey [PString ''getStream'', PString (network_text net), PString i])
                     (ReadStream i net byp) now s)
      in if \<not> rw_refresh w \<and> \<not> byp then
           (case cache_get (net, i) now (cl_streams s) of
              (c, Some v) \<Rightarrow> s\<lparr>cl_streams := c, cl_served := ServedStream i v # cl_served s\<rparr>
            | (c, None) \<Rightarrow> fetch (s\<lparr>cl_streams := c\<rparr>))
         else fetch s)"

text \<open>The end of the ledger wait of the \<open>n\<close>th waiting read; only a wait with a target can fail.\<close>

definition ledger_waited :: "nat \<Rightarrow> bool \<Rightarrow> int \<Rightarrow> client \<Rightarrow> client" where
  "ledger_waited n reached now s0 =
     (if n < length (cl_waiting s0) then
        (let w = cl_waiting s0 ! n; s = s0\<lparr>cl_waiting := take n (cl_waiting s0) @ drop (Suc n) (cl_waiting s0)\<rparr>
         in case rw_target w of
              None \<Rightarrow> getStream_ready w now s
            | Some t \<Rightarrow>
                if reached then getStream_ready w now (s\<lparr>cl_lastWriteLedger := map_del (rw_id w) (cl_lastWriteLedger s)\<rparr>)
                else s\<lparr>cl_served := WaitFailed (rw_id w) # cl_served s\<rparr>)
      else s0)"

section \<open>Claimable amounts and lists\<close>

definition client_getClaimable :: "string \<Rightarrow> int \<Rightarrow> client \<Rightarrow> client" where
  "client_getClaimable i now s =
     (case cache_get i now (cl_claimable s) of
        (c, Some v) \<Rightarrow> s\<lparr>cl_claimable := c, cl_served := ServedAmount i v # cl_served s\<rparr>
      | (c, None) \<Rightarrow>
          (case map_get (cl_claimableInflight s) i of
             Some p \<Rightarrow> s\<lparr>cl_claimable := c, cl_served := JoinedClaimable i p # cl_served s\<rparr>
           | None \<Rightarrow>
               let s' = dedupe_read (dedupKey [PString ''getClaimable'', PString (network_text (cl_network s)), PString i])
                   (ReadClaimable i) now (s\<lparr>cl_claimable := c\<rparr>)
               in s'\<lparr>cl_claimableInflight := map_set i (du_callers (cl_dedup s)) (cl_claimableInflight s')\<rparr>))"

definition list_cache :: "list_kind \<Rightarrow> client \<Rightarrow> (network \<times> string, stream list) cache" where
  "list_cache kind s = (case kind of BySender \<Rightarrow> cl_senders s | ByRecipient \<Rightarrow> cl_recipients s | ByTag \<Rightarrow> cl_tags s)"

definition set_list_cache :: "list_kind \<Rightarrow> (network \<times> string, stream list) cache \<Rightarrow> client \<Rightarrow> client" where
  "set_list_cache kind c s =
     (case kind of BySender \<Rightarrow> s\<lparr>cl_senders := c\<rparr> | ByRecipient \<Rightarrow> s\<lparr>cl_recipients := c\<rparr> | ByTag \<Rightarrow> s\<lparr>cl_tags := c\<rparr>)"

definition list_method :: "list_kind \<Rightarrow> string" where
  "list_method kind = (case kind of BySender \<Rightarrow> ''getStreamsBySender''
     | ByRecipient \<Rightarrow> ''getStreamsByRecipient:rpc'' | ByTag \<Rightarrow> ''getStreamsByTag'')"

definition getStreamsBy ::
    "list_kind \<Rightarrow> string \<Rightarrow> read_page option \<Rightarrow> stream_filter option \<Rightarrow> int \<Rightarrow> client \<Rightarrow> client" where
  "getStreamsBy kind addr page flt now s =
     (let net = cl_network s;
          fetch = (\<lambda>s. dedupe_read (dedupKey [PString (list_method kind), PString (network_text net), PString addr,
                      PString (page_text page)]) (ReadList kind addr net page flt) now s)
      in if page = None \<and> flt = None then
           (case cache_get (net, addr) now (list_cache kind s) of
              (c, Some vs) \<Rightarrow> (set_list_cache kind c s)\<lparr>cl_served := ServedList kind addr vs # cl_served s\<rparr>
            | (c, None) \<Rightarrow> fetch (set_list_cache kind c s))
         else fetch s)"

definition page_result :: "read_page \<Rightarrow> stream list \<Rightarrow> stream list \<times> string option \<times> bool" where
  "page_result p vs =
     (vs, if vs = [] then None else Some (stream_id (last vs)), (case fst p of Some n \<Rightarrow> n | None \<Rightarrow> 20) \<le> length vs)"

section \<open>Answers\<close>

text \<open>The caller that started a request, and the request a caller was given.\<close>

fun starter :: "nat \<Rightarrow> dedup_log list \<Rightarrow> nat option" where
  "starter r [] = None"
| "starter r (x # log) = (case x of LStart c k r' t \<Rightarrow> if r' = r then Some c else starter r log | _ \<Rightarrow> starter r log)"

fun request_of :: "nat \<Rightarrow> dedup_log list \<Rightarrow> nat option" where
  "request_of c [] = None"
| "request_of c (x # log) = (case x of
     LStart c' k r t \<Rightarrow> if c' = c then Some r else request_of c log
   | LJoin c' k r t \<Rightarrow> if c' = c then Some r else request_of c log
   | _ \<Rightarrow> request_of c log)"

text \<open>A tag query for a blank tag throws before it asks the contract.\<close>

fun real_answer :: "read_call \<Rightarrow> read_answer \<Rightarrow> read_answer" where
  "real_answer (ReadList ByTag addr net page flt) a = (if js_trim addr = [] then ReadFailed else a)"
| "real_answer _ a = a"

definition filtered :: "stream_filter option \<Rightarrow> int \<Rightarrow> stream list \<Rightarrow> stream list" where
  "filtered flt now vs = (case flt of None \<Rightarrow> vs | Some f \<Rightarrow> filterStreams vs f now)"

text \<open>
  The rest of the shared factory: what it puts into the caches. A claimable amount is cached under
  the bare id; a missing stream counts as 0 and a negative amount is clamped.
\<close>

fun finish_read :: "read_call \<Rightarrow> read_answer \<Rightarrow> int \<Rightarrow> client \<Rightarrow> client" where
  "finish_read (ReadStream i net byp) (GotStream v) now s =
     (if net = cl_network s then s\<lparr>cl_streams := cache_set (net, i) v None now (cl_streams s)\<rparr> else s)"
| "finish_read (ReadClaimable i) (GotAmount n) now s =
     s\<lparr>cl_claimable := cache_set i (if n < 0 then 0 else n) None now (cl_claimable s)\<rparr>"
| "finish_read (ReadClaimable i) GotNothing now s =
     s\<lparr>cl_claimable := cache_set i 0 None now (cl_claimable s)\<rparr>"
| "finish_read (ReadList kind addr net page flt) (GotList vs) now s =
     (if page = None \<and> net = cl_network s \<and> kind \<noteq> ByRecipient
      then set_list_cache kind (cache_set (net, addr) (if kind = ByTag then filtered flt now vs else vs) None now
             (list_cache kind s)) s
      else s)"
| "finish_read call a now s = s"

definition answer_read :: "nat \<Rightarrow> read_answer \<Rightarrow> int \<Rightarrow> client \<Rightarrow> client" where
  "answer_read r a0 now s =
     (case (map_get (du_pending (cl_dedup s)) r, starter r (du_log (cl_dedup s))) of
        (Some k, Some c) \<Rightarrow>
          (case map_get (cl_calls s) c of
             None \<Rightarrow> s
           | Some call \<Rightarrow>
               let a = real_answer call a0
               in finish_read call a now (s\<lparr>cl_dedup := du_settle r (cl_dedup s),
                    cl_answers := map_set r a (cl_answers s), cl_results := (call, a) # cl_results s\<rparr>))
      | _ \<Rightarrow> s)"

text \<open>
  A caller goes on after its request was answered: the recipient query filters and caches, and the
  \<open>finally\<close> of a claimable read forgets the shared promise.
\<close>

fun resume_call :: "read_call \<Rightarrow> read_answer \<Rightarrow> int \<Rightarrow> client \<Rightarrow> client" where
  "resume_call (ReadClaimable i) a now s = s\<lparr>cl_claimableInflight := map_del i (cl_claimableInflight s)\<rparr>"
| "resume_call (ReadList ByRecipient addr net page flt) (GotList vs) now s =
     (if page = None \<and> flt = None \<and> net = cl_network s
      then s\<lparr>cl_recipients := cache_set (net, addr) vs None now (cl_recipients s)\<rparr> else s)"
| "resume_call call a now s = s"

definition resume_read :: "nat \<Rightarrow> int \<Rightarrow> client \<Rightarrow> client" where
  "resume_read c now s =
     (if c \<in> set (cl_resumed s) then s
      else (case (request_of c (du_log (cl_dedup s)), map_get (cl_calls s) c) of
          (Some r, Some call) \<Rightarrow>
            (case map_get (cl_answers s) r of
               None \<Rightarrow> s
             | Some a \<Rightarrow> resume_call call a now (s\<lparr>cl_resumed := c # cl_resumed s\<rparr>))
        | _ \<Rightarrow> s))"

section \<open>Switching and clearing\<close>

definition client_setNetwork :: "network \<Rightarrow> bool \<Rightarrow> client \<Rightarrow> client" where
  "client_setNetwork net rpcUrl s =
     (if cl_network s = net \<and> \<not> rpcUrl then s
      else s\<lparr>cl_streams := cache_clear (cl_streams s), cl_senders := cache_clear (cl_senders s),
             cl_recipients := cache_clear (cl_recipients s), cl_tags := cache_clear (cl_tags s),
             cl_dedup := du_clear (cl_dedup s), cl_claimable := cache_clear (cl_claimable s),
             cl_lastWriteLedger := [], cl_network := net\<rparr>)"

text \<open>The part of \<open>updateConfig\<close> that changes the contract.\<close>

definition change_contract :: "client \<Rightarrow> client" where
  "change_contract s =
     s\<lparr>cl_streams := cache_clear (cl_streams s), cl_senders := cache_clear (cl_senders s),
       cl_recipients := cache_clear (cl_recipients s), cl_claimable := cache_clear (cl_claimable s),
       cl_dedup := du_clear (cl_dedup s)\<rparr>"

definition clearStreamCache :: "string option \<Rightarrow> client \<Rightarrow> client" where
  "clearStreamCache streamId s =
     (case streamId of
        None \<Rightarrow> s\<lparr>cl_streams := cache_clear (cl_streams s), cl_claimable := cache_clear (cl_claimable s),
                   cl_senders := cache_clear (cl_senders s), cl_recipients := cache_clear (cl_recipients s)\<rparr>
      | Some i \<Rightarrow> s\<lparr>cl_claimable := fst (cache_delete i (cl_claimable s)),
                    cl_streams := fold (\<lambda>net c. fst (cache_delete (net, i) c)) [Mainnet, Testnet, Futurenet] (cl_streams s)\<rparr>)"

datatype read_event =
    GetStream string bool int
  | LedgerWaited nat bool int
  | GetClaimable string int
  | GetList list_kind string "read_page option" "stream_filter option" int
  | Answer nat read_answer int
  | ReadMicro int
  | Resume nat int
  | Written string int int
  | SetNetwork network bool
  | ChangeContract
  | ClearStreamCache "string option"

fun read_step :: "read_event \<Rightarrow> client \<Rightarrow> client" where
  "read_step (GetStream i refresh now) s = client_getStream i refresh now s"
| "read_step (LedgerWaited n reached now) s = ledger_waited n reached now s"
| "read_step (GetClaimable i now) s = client_getClaimable i now s"
| "read_step (GetList kind addr page flt now) s = getStreamsBy kind addr page flt now s"
| "read_step (Answer r a now) s = answer_read r a now s"
| "read_step (ReadMicro now) s = read_micro now s"
| "read_step (Resume c now) s = resume_read c now s"
| "read_step (Written i ledger now) s = recordWriteTimestamp i ledger now s"
| "read_step (SetNetwork net rpcUrl) s = client_setNetwork net rpcUrl s"
| "read_step ChangeContract s = change_contract s"
| "read_step (ClearStreamCache i) s = clearStreamCache i s"

section \<open>The caches belong to the current network\<close>

text \<open>\<open>holds P c\<close>: every entry of cache \<open>c\<close> satisfies \<open>P\<close>.\<close>

definition holds :: "('k \<Rightarrow> 'v \<Rightarrow> bool) \<Rightarrow> ('k, 'v) cache \<Rightarrow> bool" where
  "holds P c \<longleftrightarrow> (\<forall>(k, e) \<in> set (ca_store c). P k (ce_value e))"

lemma holds_at: "holds P c \<Longrightarrow> map_get (ca_store c) k = Some e \<Longrightarrow> P k (ce_value e)"
  by (auto simp: holds_def dest!: map_of_SomeD)

lemma holds_get: "holds P c \<Longrightarrow> holds P (fst (cache_get k now c))"
proof (cases "map_get (ca_store c) k")
  case (Some e)
  assume "holds P c"
  moreover from Some have "(k, e) \<in> set (ca_store c)" by (rule map_of_SomeD)
  ultimately show ?thesis
    using Some map_set_subset [of k e "map_del k (ca_store c)"] map_del_subset [of k "ca_store c"]
    by (auto simp: holds_def cache_get_def)
qed (simp add: cache_get_def)

lemma holds_hit: "holds P c \<Longrightarrow> cache_get k now c = (c', Some v) \<Longrightarrow> P k v"
  by (auto simp: holds_def cache_get_def split: option.splits if_splits dest!: map_of_SomeD)

lemma room_for_subset: "set (room_for k n store) \<subseteq> set store"
proof -
  have "set (evict_lru store) \<subseteq> set store"
  proof (cases store)
    case (Cons p ps)
    then show ?thesis using map_del_subset [of "fst p" store] by (cases p) (simp add: evict_lru_def)
  qed (simp add: evict_lru_def)
  then show ?thesis using map_del_subset [of k store] by (auto simp: room_for_def)
qed

lemma holds_set:
  assumes "holds P c" "P k v"
  shows "holds P (cache_set k v ttl now c)"
proof -
  define c1 where "c1 = (if ca_writesSincePrune (c\<lparr>ca_writesSincePrune := ca_writesSincePrune c + 1\<rparr>) \<ge> 100
    then fst (cache_prune now (c\<lparr>ca_writesSincePrune := ca_writesSincePrune c + 1\<rparr>))
    else c\<lparr>ca_writesSincePrune := ca_writesSincePrune c + 1\<rparr>)"
  have "set (ca_store c1) \<subseteq> set (ca_store c)" by (auto simp: c1_def cache_prune_def Let_def)
  with room_for_subset [of k "ca_maxSize c1" "ca_store c1"]
  have "set (room_for k (ca_maxSize c1) (ca_store c1)) \<subseteq> set (ca_store c)" by blast
  then show ?thesis
    using assms map_set_subset [of k _ "room_for k (ca_maxSize c1) (ca_store c1)"]
    unfolding holds_def cache_set_def Let_def c1_def [symmetric] by fastforce
qed

lemma holds_clear [simp]: "holds P (cache_clear c)"
  by (simp add: holds_def cache_clear_def)

lemma holds_delete: "holds P c \<Longrightarrow> holds P (fst (cache_delete k c))"
  using map_del_subset [of k "ca_store c"] by (auto simp: holds_def cache_delete_def)

lemma holds_mono: "holds P c \<Longrightarrow> (\<And>k v. P k v \<Longrightarrow> Q k v) \<Longrightarrow> holds Q c"
  by (auto simp: holds_def)

text \<open>What a cached list stands for. A tag list may be the filtered answer of some filtered query.\<close>

definition list_from :: "(read_call \<times> read_answer) list \<Rightarrow> list_kind \<Rightarrow> network \<times> string \<Rightarrow> stream list \<Rightarrow> bool" where
  "list_from results kind k vs \<longleftrightarrow>
     (case kind of
        BySender \<Rightarrow> \<exists>flt. (ReadList BySender (snd k) (fst k) None flt, GotList vs) \<in> set results
      | ByTag \<Rightarrow> \<exists>flt vs0 now. (ReadList ByTag (snd k) (fst k) None flt, GotList vs0) \<in> set results \<and>
          vs = filtered flt now vs0
      | ByRecipient \<Rightarrow> True)"

definition reads_inv :: "client \<Rightarrow> bool" where
  "reads_inv s \<longleftrightarrow>
     holds (\<lambda>k v. fst k = cl_network s \<and>
       (\<exists>byp. (ReadStream (snd k) (fst k) byp, GotStream v) \<in> set (cl_results s))) (cl_streams s) \<and>
     (\<forall>kind. holds (\<lambda>k vs. fst k = cl_network s \<and> list_from (cl_results s) kind k vs) (list_cache kind s))"

lemma reads_inv_iff: "reads_inv s \<longleftrightarrow>
  holds (\<lambda>k v. fst k = cl_network s \<and>
    (\<exists>byp. (ReadStream (snd k) (fst k) byp, GotStream v) \<in> set (cl_results s))) (cl_streams s) \<and>
  holds (\<lambda>k vs. fst k = cl_network s \<and> list_from (cl_results s) BySender k vs) (cl_senders s) \<and>
  holds (\<lambda>k vs. fst k = cl_network s \<and> list_from (cl_results s) ByRecipient k vs) (cl_recipients s) \<and>
  holds (\<lambda>k vs. fst k = cl_network s \<and> list_from (cl_results s) ByTag k vs) (cl_tags s)"
proof -
  have "(\<forall>kind. Q kind) \<longleftrightarrow> Q BySender \<and> Q ByRecipient \<and> Q ByTag" for Q
    by (metis list_kind.exhaust)
  then show ?thesis by (simp add: reads_inv_def list_cache_def)
qed

lemma list_from_mono: "list_from rs kind k vs \<Longrightarrow> list_from (r # rs) kind k vs"
  by (auto simp: list_from_def split: list_kind.splits)

lemma list_cache_set: "list_cache kind (set_list_cache kind' c s) = (if kind = kind' then c else list_cache kind s)"
  by (cases kind; cases kind') (simp_all add: list_cache_def set_list_cache_def)

text \<open>Two states whose caches, network and results agree satisfy the same invariant.\<close>

definition same_caches :: "client \<Rightarrow> client \<Rightarrow> bool" where
  "same_caches s s' \<longleftrightarrow> cl_network s = cl_network s' \<and> cl_streams s = cl_streams s' \<and> cl_results s = cl_results s' \<and>
     cl_senders s = cl_senders s' \<and> cl_recipients s = cl_recipients s' \<and> cl_tags s = cl_tags s'"

lemma inv_same: "same_caches s s' \<Longrightarrow> reads_inv s = reads_inv s'"
  by (simp add: same_caches_def reads_inv_def list_cache_def cong: list_kind.case_cong)

lemma same_begin: "same_caches (begin_read call s) s"
  by (cases call) (simp_all add: same_caches_def)

lemma same_after: "same_caches (after_dedup d0 s) s"
  using same_begin by (simp add: after_dedup_def same_caches_def split: list.split dedup_log.split option.split)

lemma same_dedupe: "same_caches (dedupe_read key call now s) s"
  using same_after [of "cl_dedup s" "s\<lparr>cl_calls := map_set (du_callers (cl_dedup s)) call (cl_calls s),
      cl_dedup := dedupe key False None now (cl_dedup s)\<rparr>"]
  by (simp add: dedupe_read_def same_caches_def)

lemma same_micro: "same_caches (read_micro now s) s"
  using same_after [of "cl_dedup s" "s\<lparr>cl_dedup := dedup_step (RunMicro now) (cl_dedup s)\<rparr>"]
  by (simp add: read_micro_def same_caches_def)

lemmas inv_dedupe_read = same_dedupe [THEN inv_same] same_micro [THEN inv_same]

lemma inv_streams:
  assumes "reads_inv s"
    "holds (\<lambda>k v. fst k = cl_network s \<and> (\<exists>byp. (ReadStream (snd k) (fst k) byp, GotStream v) \<in> set (cl_results s))) c"
  shows "reads_inv (s\<lparr>cl_streams := c\<rparr>)"
  using assms by (simp add: reads_inv_def list_cache_def cong: list_kind.case_cong)

lemma inv_list:
  assumes "reads_inv s" "holds (\<lambda>k vs. fst k = cl_network s \<and> list_from (cl_results s) kind k vs) c"
  shows "reads_inv (set_list_cache kind c s)"
proof -
  have "cl_network (set_list_cache kind c s) = cl_network s" "cl_results (set_list_cache kind c s) = cl_results s"
    "cl_streams (set_list_cache kind c s) = cl_streams s"
    by (cases kind; simp add: set_list_cache_def)+
  with assms show ?thesis by (auto simp: reads_inv_def list_cache_set)
qed

lemma inv_streams_get: "reads_inv s \<Longrightarrow> reads_inv (s\<lparr>cl_streams := fst (cache_get k now (cl_streams s))\<rparr>)"
  by (rule inv_streams, assumption) (simp add: reads_inv_def holds_get)

lemma inv_list_get: "reads_inv s \<Longrightarrow> reads_inv (set_list_cache kind (fst (cache_get k now (list_cache kind s))) s)"
  by (rule inv_list, assumption) (simp add: reads_inv_def holds_get)

lemma inv_getStream:
  assumes "reads_inv s"
  shows "reads_inv (client_getStream i refresh now s)"
proof -
  have other: "reads_inv (await_ledger i b u) = reads_inv u" "reads_inv (u\<lparr>cl_served := x\<rparr>) = reads_inv u" for u x b
    by (rule inv_same, simp add: same_caches_def await_ledger_def)+
  from inv_streams_get [OF assms, of "(cl_network s, i)" now] assms show ?thesis
    by (cases "cache_get (cl_network s, i) now (cl_streams s)")
      (auto simp: client_getStream_def cached_stream_def other split: option.split)
qed

lemma inv_ready:
  assumes "reads_inv s"
  shows "reads_inv (getStream_ready w now s)"
proof -
  have other: "reads_inv (u\<lparr>cl_served := x\<rparr>) = reads_inv u" for u x
    by (rule inv_same) (simp add: same_caches_def)
  from inv_streams_get [OF assms, of "(rw_network w, rw_id w)" now] assms show ?thesis
    by (cases "cache_get (rw_network w, rw_id w) now (cl_streams s)")
      (auto simp: getStream_ready_def Let_def other inv_dedupe_read split: option.split)
qed

lemma inv_waited:
  assumes "reads_inv s"
  shows "reads_inv (ledger_waited n reached now s)"
proof -
  have other: "reads_inv (u\<lparr>cl_waiting := x\<rparr>) = reads_inv u" "reads_inv (u\<lparr>cl_lastWriteLedger := y\<rparr>) = reads_inv u"
    "reads_inv (u\<lparr>cl_served := z\<rparr>) = reads_inv u" for u x y z
    by (rule inv_same, simp add: same_caches_def)+
  show ?thesis
    using assms unfolding ledger_waited_def Let_def
    by (simp add: inv_ready other split: option.split)
qed

lemma inv_claimable:
  assumes "reads_inv s"
  shows "reads_inv (client_getClaimable i now s)"
proof -
  have other: "reads_inv (u\<lparr>cl_claimable := x\<rparr>) = reads_inv u" "reads_inv (u\<lparr>cl_claimableInflight := y\<rparr>) = reads_inv u"
    "reads_inv (u\<lparr>cl_served := z\<rparr>) = reads_inv u" for u x y z
    by (rule inv_same, simp add: same_caches_def)+
  show ?thesis
    using assms unfolding client_getClaimable_def Let_def
    by (simp add: inv_dedupe_read other split: prod.split option.split)
qed

lemma inv_getStreamsBy:
  assumes "reads_inv s"
  shows "reads_inv (getStreamsBy kind addr page flt now s)"
proof -
  have other: "reads_inv (u\<lparr>cl_served := z\<rparr>) = reads_inv u" for u z
    by (rule inv_same) (simp add: same_caches_def)
  from inv_list_get [OF assms, of kind "(cl_network s, addr)" now] assms show ?thesis
    by (cases "cache_get (cl_network s, addr) now (list_cache kind s)")
      (auto simp: getStreamsBy_def Let_def other inv_dedupe_read split: option.split)
qed

lemma inv_result:
  assumes "reads_inv s"
  shows "reads_inv (s\<lparr>cl_dedup := d, cl_answers := m, cl_results := x # cl_results s\<rparr>)"
  using assms unfolding reads_inv_iff
  by (auto elim: holds_mono intro: list_from_mono)

lemma inv_finish:
  assumes "reads_inv s" "(call, a) \<in> set (cl_results s)"
  shows "reads_inv (finish_read call a now s)"
  using assms
proof (induction call a now s rule: finish_read.induct)
  case (1 i net byp v now s)
  then show ?case by (auto intro!: holds_set simp: reads_inv_iff)
next
  case (4 kind addr net page flt vs now s)
  then have "holds (\<lambda>k vs. fst k = cl_network s \<and> list_from (cl_results s) kind k vs) (list_cache kind s)"
    by (simp add: reads_inv_def)
  moreover have "list_from (cl_results s) kind (net, addr) (if kind = ByTag then filtered flt now vs else vs)"
    if "page = None" using 4 that unfolding list_from_def by (cases kind) (simp_all, blast+)
  ultimately show ?case using 4 by (auto intro!: inv_list holds_set simp del: if_split)
qed (simp_all add: reads_inv_iff)

lemma inv_answer:
  assumes "reads_inv s"
  shows "reads_inv (answer_read r a now s)"
  using assms unfolding answer_read_def Let_def
  by (auto split: option.split intro!: inv_finish inv_result)

lemma inv_resume:
  assumes "reads_inv s"
  shows "reads_inv (resume_read c now s)"
proof -
  have call: "reads_inv (resume_call call a now u)" if "reads_inv u" for call a u
    using that
  proof (induction call a now u rule: resume_call.induct)
    case (2 addr net page flt vs now s)
    then show ?case by (auto intro!: holds_set simp: reads_inv_iff list_from_def)
  qed (simp_all add: reads_inv_iff)
  have "reads_inv (s\<lparr>cl_resumed := x\<rparr>)" for x
    using assms by (simp add: inv_same [of "s\<lparr>cl_resumed := x\<rparr>" s] same_caches_def)
  with assms call show ?thesis by (auto simp: resume_read_def split: option.split)
qed

lemma inv_written:
  assumes "reads_inv s"
  shows "reads_inv (recordWriteTimestamp i ledger now s)"
  using assms inv_same [of "recordWriteTimestamp i ledger now s" s]
  by (simp add: recordWriteTimestamp_def recordWriteLedger_def same_caches_def)

lemma inv_switch:
  assumes "reads_inv s"
  shows "reads_inv (client_setNetwork net rpcUrl s)" "reads_inv (change_contract s)" "reads_inv (clearStreamCache i s)"
proof -
  show "reads_inv (client_setNetwork net rpcUrl s)"
    using assms by (auto simp: client_setNetwork_def reads_inv_iff)
  show "reads_inv (change_contract s)"
    using assms by (auto simp: change_contract_def reads_inv_iff)
  show "reads_inv (clearStreamCache i s)"
    using assms by (cases i) (auto simp: clearStreamCache_def reads_inv_iff holds_delete)
qed

interpretation rd: step_system read_step reads_inv
proof unfold_locales
  fix s e assume "reads_inv s"
  then show "reads_inv (read_step e s)"
    by (cases e) (simp_all add: inv_getStream inv_waited inv_claimable inv_getStreamsBy inv_answer
        inv_dedupe_read inv_resume inv_written inv_switch)
qed

lemma inv_new_client: "reads_inv (new_client net ryow window)"
  by (simp add: reads_inv_iff new_client_def new_cache_def holds_def)


definition demo_stream :: "string \<Rightarrow> int \<Rightarrow> stream" where
  "demo_stream i d = \<lparr>stream_id = i, sender = ''S'', recipient = ''R'', token = ''T'', deposit = d, flowRate = 1,
     startTime = 0, endTime = d, lastWithdrawTime = 0, status = Active, autoRenew = False, pausedAt = None,
     lockUntil = None, namespace = None, tag = None\<rparr>"

definition demo_reads :: "read_event list" where
  "demo_reads = [GetStream ''7'' False 0, LedgerWaited 0 True 0, SetNetwork Mainnet False,
     GetStream ''7'' False 1, LedgerWaited 0 True 1, Answer 0 (GotStream (demo_stream ''7'' 5)) 2,
     Answer 1 (GotStream (demo_stream ''7'' 9)) 3]"


text \<open>
  The claimable amounts are not scoped. A claimable read that is in flight when the network is
  switched is handed to callers on the new network, and its answer is then served there.
\<close>

lemma claimable_join_survives_switch:
  assumes "map_get (cl_claimableInflight s) i = Some p" "cl_network s \<noteq> net"
  shows "JoinedClaimable i p \<in> set (cl_served (client_getClaimable i now (client_setNetwork net False s)))"
  using assms by (simp add: client_setNetwork_def client_getClaimable_def cache_get_def cache_clear_def)

lemma claimable_crosses_networks:
  "ServedAmount ''7'' 5 \<in> set (cl_served (fold read_step
     [GetClaimable ''7'' 0, SetNetwork Mainnet False, Answer 0 (GotAmount 5) 1, GetClaimable ''7'' 2] (new_client Testnet 0 0)))"
  by code_simp

text \<open>
  Read-your-own-writes: within the window a read does not use the cache, but it can join a
  request that started before the write and be given the state before it.
\<close>

lemma bypass_skips_cache:
  assumes "map_get (cl_lastWriteAt s) i = Some t" "now - t < cl_ryowBypassWindowMs s"
    "cl_ryowBypassWindowMs s \<noteq> 0" "rw_id w = i"
  shows "cl_served (getStream_ready w now s) = cl_served s"
    "cl_served (client_getStream i refresh now s) = cl_served s"
proof -
  have begin_served: "cl_served (begin_read call u) = cl_served u" for call u by (cases call) simp_all
  then have dedupe_served: "cl_served (dedupe_read key call now u) = cl_served u" for key call u
    by (simp add: dedupe_read_def after_dedup_def split: list.split dedup_log.split option.split)
  have has: "map_has (cl_lastWriteAt s) i" unfolding map_has_def assms(1) by simp
  show "cl_served (getStream_ready w now s) = cl_served s"
    using assms by (simp add: getStream_ready_def shouldBypassCache_def Let_def dedupe_served)
  show "cl_served (client_getStream i refresh now s) = cl_served s"
    using has by (simp add: client_getStream_def await_ledger_def)
qed

lemma write_joins_stale_read:
  "let s = fold read_step [GetStream ''7'' False 0, LedgerWaited 0 True 0, ReadMicro 0, Written ''7'' 100 5,
        GetStream ''7'' False 6, LedgerWaited 0 True 6, ReadMicro 6] (new_client Testnet 10000 2000)
   in LJoin 1 (dedupKey [PString ''getStream'', PString ''testnet'', PString ''7'']) 0 6 \<in> set (du_log (cl_dedup s))"
  by code_simp

text \<open>A write that completes while a read waits for an earlier one loses its ledger record.\<close>

lemma later_write_forgotten:
  "cl_lastWriteLedger (fold read_step [Written ''7'' 100 0, GetStream ''7'' False 1, Written ''7'' 200 2,
     LedgerWaited 0 True 3] (new_client Testnet 10000 2000)) = []"
  by code_simp

text \<open>
  A filtered tag query fills the cache of the unfiltered one, and a contract change keeps it.
\<close>

lemma tag_filter_poisons_cache:
  "let done = demo_stream ''1'' 5\<lparr>status := Completed\<rparr>; live = demo_stream ''2'' 6;
       s = fold read_step [GetList ByTag ''t'' None (Some (no_filter\<lparr>flt_status := Some Active\<rparr>)) 0,
             Answer 0 (GotList [done, live]) 1, ChangeContract, GetList ByTag ''t'' None None 2] (new_client Testnet 0 0)
   in cl_served s = [ServedList ByTag ''t'' [live]]"
  by code_simp

text \<open>
  Writes leave the list caches alone, so for five seconds the sender's list lacks a stream that has
  been created meanwhile; \<open>createStream\<close> takes the last entry of this list for the new stream.
\<close>

lemma sender_list_survives_write:
  "ServedList BySender ''S'' [demo_stream ''1'' 5] \<in> set (cl_served (fold read_step
     [GetList BySender ''S'' None None 0, Answer 0 (GotList [demo_stream ''1'' 5]) 1, Written ''2'' 100 2000,
      GetList BySender ''S'' None None 2001] (new_client Testnet 10000 2000)))"
  by code_simp

end
