(* ===== verification/PluginRegistry.thy ===== *)
theory PluginRegistry
  imports Prelude
begin

text \<open>
  The plugin registry (\<open>src/pluginRegistry.ts\<close>), which orders plugins by their before/after
  constraints with Kahn's algorithm, and the hook runners: its own and \<open>runWithMiddleware\<close> of
  \<open>src/SoroStreamClient.ts\<close>. A plugin is an object identity \<open>'p\<close>; its hooks are given by what they throw.
\<close>

section \<open>The registry\<close>

record plugin_entry =
  pe_name :: "string option"
  pe_before :: "string list"
  pe_after :: "string list"

datatype constraint = Unconstrained | OneName string | Names "string list"

type_synonym 'p registry = "('p, plugin_entry) jsmap"

text \<open>The empty string is no constraint.\<close>

fun constraint_list :: "constraint \<Rightarrow> string list" where
  "constraint_list Unconstrained = []"
| "constraint_list (OneName n) = (if n = [] then [] else [n])"
| "constraint_list (Names ns) = ns"

text \<open>Of plugins with the same name the last registered one is meant.\<close>

definition nameToPlugin :: "'p registry \<Rightarrow> (string, 'p) jsmap" where
  "nameToPlugin entries =
     fold (\<lambda>(p, e) m. case pe_name e of Some n \<Rightarrow> if n = [] then m else map_set n p m | None \<Rightarrow> m) entries []"

text \<open>The constraints as (earlier, later) pairs, in the order the code meets them, with repetitions.\<close>

definition constraint_edges :: "'p registry \<Rightarrow> ('p \<times> 'p) list" where
  "constraint_edges entries =
     (let named = map_get (nameToPlugin entries)
      in concat (map (\<lambda>(p, e).
           concat (map (\<lambda>n. case named n of Some t \<Rightarrow> if t \<noteq> p then [(p, t)] else [] | None \<Rightarrow> []) (pe_before e)) @
           concat (map (\<lambda>n. case named n of Some t \<Rightarrow> if t \<noteq> p then [(t, p)] else [] | None \<Rightarrow> []) (pe_after e)))
         entries))"

text \<open>\<open>edges\<close> holds sets (first insertion order), \<open>inDegree\<close> counts every constraint.\<close>

definition edge_sets :: "'p list \<Rightarrow> ('p \<times> 'p) list \<Rightarrow> ('p, 'p list) jsmap" where
  "edge_sets plugins es = map (\<lambda>p. (p, first_occurrences (map snd (filter (\<lambda>(u, v). u = p) es)))) plugins"

definition in_degrees :: "'p list \<Rightarrow> ('p \<times> 'p) list \<Rightarrow> ('p, int) jsmap" where
  "in_degrees plugins es = map (\<lambda>p. (p, int (length (filter (\<lambda>(u, v). v = p) es)))) plugins"

definition kahn_visit :: "'p \<Rightarrow> ('p, int) jsmap \<times> 'p list \<Rightarrow> ('p, int) jsmap \<times> 'p list" where
  "kahn_visit neighbor dq =
     (let newDeg = (case map_get (fst dq) neighbor of Some d \<Rightarrow> d | None \<Rightarrow> 1) - 1
      in (map_set neighbor newDeg (fst dq), if newDeg = 0 then snd dq @ [neighbor] else snd dq))"

definition neighbors :: "('p, 'p list) jsmap \<Rightarrow> 'p \<Rightarrow> 'p list" where
  "neighbors edges p = (case map_get edges p of Some ns \<Rightarrow> ns | None \<Rightarrow> [])"

text \<open>
  The rank of the loop: queued plugins, plugins with a positive degree, and edge targets that
  have no degree yet. A visit that queues a plugin lowers one of the other two.
\<close>

definition kahn_rank :: "('p, 'p list) jsmap \<Rightarrow> ('p, int) jsmap \<times> 'p list \<Rightarrow> nat" where
  "kahn_rank edges dq = length (snd dq) + length (filter (\<lambda>(p, d). 0 < d) (fst dq)) +
     card (set (concat (map snd edges)) - set (map_keys (fst dq)))"

lemma length_filter_map_set:
  "length (filter (\<lambda>(k, v). P v) (map_set k v m)) + (case map_get m k of Some w \<Rightarrow> if P w then 1 else 0 | None \<Rightarrow> 0) =
   length (filter (\<lambda>(k, v). P v) m) + (if P v then 1 else 0)"
  by (induction m) auto

lemma kahn_visit_rank:
  assumes "n \<in> set (concat (map snd edges))"
  shows "kahn_rank edges (kahn_visit n (deg, q)) \<le> kahn_rank edges (deg, q)"
proof (cases "map_get deg n")
  case None
  let ?T = "set (concat (map snd edges))"
  have n: "n \<in> ?T - set (map_keys deg)" using assms None by (simp add: map_of_eq_None_iff)
  have "?T - set (map_keys (map_set n 0 deg)) = (?T - set (map_keys deg)) - {n}" by auto
  with card_Suc_Diff1 [OF _ n] have "Suc (card (?T - set (map_keys (map_set n 0 deg)))) = card (?T - set (map_keys deg))"
    by simp
  with length_filter_map_set [of "\<lambda>d. 0 < d" n 0 deg] show ?thesis
    unfolding kahn_rank_def kahn_visit_def Let_def fst_conv snd_conv None by simp
next
  case (Some d)
  then have "n \<in> set (map_keys deg)" by (metis map_of_eq_None_iff list.set_map option.distinct(1))
  then have "set (map_keys (map_set n (d - 1) deg)) = set (map_keys deg)" by (auto simp: image_iff)
  with length_filter_map_set [of "\<lambda>d. 0 < d" n "d - 1" deg] show ?thesis
    unfolding kahn_rank_def kahn_visit_def Let_def fst_conv snd_conv Some
    by (cases "d = 1") (auto split: if_splits)
qed

lemma kahn_fold_rank:
  "set ns \<subseteq> set (concat (map snd edges)) \<Longrightarrow> kahn_rank edges (fold kahn_visit ns dq) \<le> kahn_rank edges dq"
proof (induction ns arbitrary: dq)
  case (Cons n ns)
  then have "kahn_rank edges (fold kahn_visit ns (kahn_visit n dq)) \<le> kahn_rank edges (kahn_visit n dq)" by simp
  also have "\<dots> \<le> kahn_rank edges dq" using Cons.prems by (cases dq) (simp only:, intro kahn_visit_rank, simp)
  finally show ?case by simp
qed simp

lemma neighbors_targets: "set (neighbors edges p) \<subseteq> set (concat (map snd edges))"
  by (cases "map_get edges p") (auto simp: neighbors_def dest: map_of_SomeD)

function kahn_loop :: "('p, 'p list) jsmap \<Rightarrow> ('p, int) jsmap \<Rightarrow> 'p list \<Rightarrow> 'p list \<Rightarrow> 'p list" where
  "kahn_loop edges deg [] srt = srt"
| "kahn_loop edges deg (current # queue) srt =
     (let dq = fold kahn_visit (neighbors edges current) (deg, queue)
      in kahn_loop edges (fst dq) (snd dq) (srt @ [current]))"
  by pat_completeness auto

termination
proof (relation "measure (\<lambda>(edges, deg, queue, srt). kahn_rank edges (deg, queue))")
  fix edges :: "('p, 'p list) jsmap" and deg current queue srt dq
  assume dq: "dq = fold kahn_visit (neighbors edges current) (deg, queue)"
  have "kahn_rank edges dq \<le> kahn_rank edges (deg, queue)"
    unfolding dq by (rule kahn_fold_rank [OF neighbors_targets])
  then show "((edges, fst dq, snd dq, srt @ [current]), edges, deg, current # queue, srt)
      \<in> measure (\<lambda>(edges, deg, queue, srt). kahn_rank edges (deg, queue))"
    by (simp add: kahn_rank_def)
qed simp

datatype registry_error = CircularDependency nat nat

definition topologicalSort :: "'p registry \<Rightarrow> registry_error + 'p list" where
  "topologicalSort entries =
     (let plugins = map_keys entries; es = constraint_edges entries; deg = in_degrees plugins es
      in if plugins = [] then Inr []
         else let srt = kahn_loop (edge_sets plugins es) deg (map_keys (filter (\<lambda>(p, d). d = 0) deg)) []
         in if length srt \<noteq> length plugins then Inl (CircularDependency (length srt) (length plugins)) else Inr srt)"

definition registry_list :: "'p registry \<Rightarrow> registry_error + 'p list" where
  "registry_list entries = topologicalSort entries"

text \<open>On a failed sort the last key of the map is removed.\<close>

definition ensureNoCycles :: "'p registry \<Rightarrow> 'p registry \<times> (registry_error + unit)" where
  "ensureNoCycles entries =
     (case topologicalSort entries of
        Inr _ \<Rightarrow> (entries, Inr ())
      | Inl e \<Rightarrow> (if entries = [] then entries else map_del (fst (last entries)) entries, Inl e))"

definition register ::
    "'p \<Rightarrow> string option \<Rightarrow> constraint \<Rightarrow> constraint \<Rightarrow> 'p registry \<Rightarrow> 'p registry \<times> (registry_error + unit)" where
  "register p name before after entries =
     ensureNoCycles (map_set p \<lparr>pe_name = name, pe_before = constraint_list before,
       pe_after = constraint_list after\<rparr> entries)"

definition unregister :: "'p \<Rightarrow> 'p registry \<Rightarrow> 'p registry \<times> bool" where
  "unregister p entries = (map_del p entries, map_has entries p)"

definition unregister_name :: "string \<Rightarrow> 'p registry \<Rightarrow> 'p registry \<times> bool" where
  "unregister_name n entries =
     (filter (\<lambda>(p, e). pe_name e \<noteq> Some n) entries, list_ex (\<lambda>(p, e). pe_name e = Some n) entries)"

section \<open>The order\<close>

text \<open>
  What one turn of Kahn's loop does: every (different) neighbour loses one degree, those that
  reach zero are queued in order.
\<close>

lemma kahn_fold:
  assumes "distinct ns" "set ns \<subseteq> set (map_keys deg)"
  shows "snd (fold kahn_visit ns (deg, q)) = q @ filter (\<lambda>n. map_get deg n = Some 1) ns"
    "map_get (fst (fold kahn_visit ns (deg, q))) v =
      map_option (\<lambda>d. if v \<in> set ns then d - 1 else d) (map_get deg v)"
    "map_keys (fst (fold kahn_visit ns (deg, q))) = map_keys deg"
proof -
  have "snd (fold kahn_visit ns (deg, q)) = q @ filter (\<lambda>n. map_get deg n = Some 1) ns \<and>
    (\<forall>v. map_get (fst (fold kahn_visit ns (deg, q))) v =
      map_option (\<lambda>d. if v \<in> set ns then d - 1 else d) (map_get deg v)) \<and>
    map_keys (fst (fold kahn_visit ns (deg, q))) = map_keys deg"
    using assms
  proof (induction ns arbitrary: deg q)
    case Nil
    then show ?case by (simp add: option.map_ident)
  next
    case (Cons n ns)
    then obtain d where d: "map_get deg n = Some d" by (cases "map_get deg n") (auto simp: map_of_eq_None_iff)
    have keys: "map_keys (map_set n (d - 1) deg) = map_keys deg"
      using Cons.prems by (simp add: map_keys_set)
    then have "set ns \<subseteq> set (map_keys (map_set n (d - 1) deg))" using Cons.prems by auto
    moreover have "filter (\<lambda>m. map_get (map_set n (d - 1) deg) m = Some 1) ns = filter (\<lambda>m. map_get deg m = Some 1) ns"
      using Cons.prems by (intro filter_cong) auto
    moreover have "kahn_visit n (deg, q) = (map_set n (d - 1) deg, if d = 1 then q @ [n] else q)"
      by (simp add: kahn_visit_def d Let_def)
    ultimately show ?case
      using Cons.IH [of "map_set n (d - 1) deg" "if d = 1 then q @ [n] else q"] Cons.prems d keys
      by (auto simp: option.map_comp)
  qed
  then show "snd (fold kahn_visit ns (deg, q)) = q @ filter (\<lambda>n. map_get deg n = Some 1) ns"
    "map_get (fst (fold kahn_visit ns (deg, q))) v =
      map_option (\<lambda>d. if v \<in> set ns then d - 1 else d) (map_get deg v)"
    "map_keys (fst (fold kahn_visit ns (deg, q))) = map_keys deg" by blast+
qed

text \<open>Every element comes after all its predecessors.\<close>

definition ordered :: "('p \<times> 'p) list \<Rightarrow> 'p list \<Rightarrow> bool" where
  "ordered es xs \<longleftrightarrow> (\<forall>ys v zs. xs = ys @ v # zs \<longrightarrow> (\<forall>u. (u, v) \<in> set es \<longrightarrow> u \<in> set ys))"

lemma ordered_Nil: "ordered es []"
  by (simp add: ordered_def)

lemma ordered_snoc: "ordered es (xs @ [v]) \<longleftrightarrow> ordered es xs \<and> (\<forall>u. (u, v) \<in> set es \<longrightarrow> u \<in> set xs)"
proof -
  have "xs @ [v] = ys @ w # zs \<longleftrightarrow> zs = [] \<and> ys = xs \<and> w = v \<or> (\<exists>zs'. zs = zs' @ [v] \<and> xs = ys @ w # zs')" for ys w zs
    by (cases zs rule: rev_cases) auto
  then show ?thesis by (auto simp: ordered_def)
qed

definition preds :: "('p \<times> 'p) list \<Rightarrow> 'p \<Rightarrow> 'p set" where
  "preds es v = {u. (u, v) \<in> set es}"

definition indeg :: "('p \<times> 'p) list \<Rightarrow> 'p \<Rightarrow> nat" where
  "indeg es v = length (filter (\<lambda>(u, w). w = v) es)"

text \<open>
  The invariant of the loop: degrees count the constraints whose source is not sorted yet, the
  sorted and the queued plugins are those of degree zero, and predecessors are sorted first.
\<close>

definition kahn_inv :: "'p list \<Rightarrow> ('p \<times> 'p) list \<Rightarrow> ('p, int) jsmap \<Rightarrow> 'p list \<Rightarrow> 'p list \<Rightarrow> bool" where
  "kahn_inv nodes es deg queue srt \<longleftrightarrow> map_keys deg = nodes \<and> distinct (srt @ queue) \<and>
     set (srt @ queue) \<subseteq> set nodes \<and>
     (\<forall>v \<in> set nodes. map_get deg v = Some (int (indeg es v) - int (card (preds es v \<inter> set srt)))) \<and>
     (\<forall>v \<in> set nodes. v \<in> set (srt @ queue) \<longleftrightarrow> map_get deg v = Some 0) \<and>
     ordered es srt \<and> (\<forall>v \<in> set queue. preds es v \<subseteq> set srt)"

lemma preds_indeg: "card (preds es v) \<le> indeg es v" "finite (preds es v)"
  "distinct es \<Longrightarrow> card (preds es v) = indeg es v"
proof -
  have p: "preds es v = fst ` set (filter (\<lambda>(u, w). w = v) es)" by (force simp: preds_def)
  have inj: "inj_on fst (set (filter (\<lambda>(u, w). w = v) es))" by (auto simp: inj_on_def)
  show "finite (preds es v)" by (simp add: p)
  have c: "card (preds es v) = card (set (filter (\<lambda>(u, w). w = v) es))" by (simp only: p card_image [OF inj])
  show "card (preds es v) \<le> indeg es v" unfolding c indeg_def by (rule card_length)
  show "distinct es \<Longrightarrow> card (preds es v) = indeg es v"
    unfolding c indeg_def by (intro distinct_card distinct_filter)
qed

lemma all_preds_sorted:
  assumes "int (indeg es v) - int (card (preds es v \<inter> S)) \<le> 0"
  shows "preds es v \<subseteq> S"
proof -
  have "card (preds es v) \<le> card (preds es v \<inter> S)" using assms preds_indeg(1) [of es v] by linarith
  then have "preds es v \<inter> S = preds es v" using preds_indeg(2) [of es v] by (intro card_seteq) auto
  then show ?thesis by blast
qed

lemma neighbors_edge_sets:
  assumes "p \<in> set nodes"
  shows "set (neighbors (edge_sets nodes es) p) = {v. (p, v) \<in> set es}" "distinct (neighbors (edge_sets nodes es) p)"
proof -
  have "map_get (edge_sets nodes es) p = Some (first_occurrences (map snd (filter (\<lambda>(u, v). u = p) es)))"
    using assms unfolding edge_sets_def by (simp add: map_of_map_restrict)
  then have n: "neighbors (edge_sets nodes es) p = first_occurrences (map snd (filter (\<lambda>(u, v). u = p) es))"
    by (simp add: neighbors_def)
  show "set (neighbors (edge_sets nodes es) p) = {v. (p, v) \<in> set es}" unfolding n by force
  show "distinct (neighbors (edge_sets nodes es) p)" unfolding n by simp
qed

lemma ordered_preds: "ordered es xs \<Longrightarrow> v \<in> set xs \<Longrightarrow> preds es v \<subseteq> set xs"
  by (fastforce simp: ordered_def preds_def dest: split_list)

lemma kahn_step:
  assumes inv: "kahn_inv nodes es deg (cur # queue) srt" and es: "set es \<subseteq> set nodes \<times> set nodes"
    and dq: "dq = fold kahn_visit (neighbors (edge_sets nodes es) cur) (deg, queue)"
  shows "kahn_inv nodes es (fst dq) (snd dq) (srt @ [cur])"
proof -
  let ?ns = "neighbors (edge_sets nodes es) cur" and ?new = "filter (\<lambda>n. map_get deg n = Some 1) (neighbors (edge_sets nodes es) cur)"
  from inv have keys: "map_keys deg = nodes" and dist: "distinct (srt @ cur # queue)"
    and sub: "set (srt @ cur # queue) \<subseteq> set nodes"
    and deg: "\<And>v. v \<in> set nodes \<Longrightarrow> map_get deg v = Some (int (indeg es v) - int (card (preds es v \<inter> set srt)))"
    and zero: "\<And>v. v \<in> set nodes \<Longrightarrow> v \<in> set (srt @ cur # queue) \<longleftrightarrow> map_get deg v = Some 0"
    and ord: "ordered es srt" and ready: "\<And>v. v \<in> set (cur # queue) \<Longrightarrow> preds es v \<subseteq> set srt"
    unfolding kahn_inv_def by blast+
  have cur: "cur \<in> set nodes" "cur \<notin> set srt" using sub dist by auto
  note ns = neighbors_edge_sets [OF cur(1), of es]
  have nsub: "set ?ns \<subseteq> set (map_keys deg)" using es ns(1) keys by auto
  note f = kahn_fold [OF ns(2) nsub, of queue, folded dq]
  have q: "snd dq = queue @ ?new" by (rule f(1))
  have get: "map_get (fst dq) v = map_option (\<lambda>d. if (cur, v) \<in> set es then d - 1 else d) (map_get deg v)" for v
    using f(2) [of v] ns(1) by (simp cong: if_cong)
  have new: "v \<in> set ?new \<longleftrightarrow> (cur, v) \<in> set es \<and> map_get deg v = Some 1" for v using ns(1) by auto
  have done_preds: "(cur, v) \<notin> set es" if "v \<in> set (srt @ cur # queue)" for v
    using that ready [of v] ordered_preds [OF ord, of v] cur(2) by (auto simp: preds_def)
  have deg': "map_get (fst dq) v = Some (int (indeg es v) - int (card (preds es v \<inter> set (srt @ [cur]))))"
    if "v \<in> set nodes" for v
  proof -
    have "preds es v \<inter> set (srt @ [cur]) = (if (cur, v) \<in> set es then insert cur (preds es v \<inter> set srt) else preds es v \<inter> set srt)"
      by (auto simp: preds_def)
    then have "card (preds es v \<inter> set (srt @ [cur])) = card (preds es v \<inter> set srt) + (if (cur, v) \<in> set es then 1 else 0)"
      using cur(2) by simp
    then show ?thesis using deg [OF that] by (simp add: get)
  qed
  have nodes_new: "v \<in> set nodes" if "v \<in> set ?new" for v using that es new by auto
  have zero': "v \<in> set ((srt @ [cur]) @ snd dq) \<longleftrightarrow> map_get (fst dq) v = Some 0" if "v \<in> set nodes" for v
    using zero [OF that] done_preds [of v] new [of v] deg [OF that] unfolding q by (auto simp: get)
  have "preds es v \<subseteq> set (srt @ [cur])" if "v \<in> set (snd dq)" for v
  proof -
    have v: "v \<in> set nodes" using that sub nodes_new unfolding q by auto
    with zero' [OF v] that have "map_get (fst dq) v = Some 0" by simp
    with deg' [OF v] show ?thesis by (intro all_preds_sorted) simp
  qed
  moreover have "distinct ((srt @ [cur]) @ snd dq)"
    using dist ns(2) zero new nodes_new unfolding q by fastforce
  moreover have "set ((srt @ [cur]) @ snd dq) \<subseteq> set nodes" using sub nodes_new unfolding q by auto
  moreover have "ordered es (srt @ [cur])" using ord ready [of cur] by (auto simp: ordered_snoc preds_def)
  ultimately show ?thesis using f(3) keys deg' zero' unfolding kahn_inv_def by blast
qed

lemma kahn_result:
  assumes "kahn_inv nodes es deg queue srt" "set es \<subseteq> set nodes \<times> set nodes"
  shows "\<exists>deg'. kahn_inv nodes es deg' [] (kahn_loop (edge_sets nodes es) deg queue srt)"
  using assms(1)
proof (induction "edge_sets nodes es" deg queue srt rule: kahn_loop.induct)
  case (2 deg cur queue srt)
  let ?dq = "fold kahn_visit (neighbors (edge_sets nodes es) cur) (deg, queue)"
  have "kahn_inv nodes es (fst ?dq) (snd ?dq) (srt @ [cur])" by (rule kahn_step [OF 2(2) assms(2) refl])
  from 2(1) [OF refl this] show ?case by (simp add: Let_def)
qed auto

lemma nameToPlugin_keys:
  assumes "map_get (nameToPlugin entries) n = Some p"
  shows "p \<in> set (map_keys entries)"
proof -
  have "p \<in> set (map_keys xs) \<union> S"
    if "map_get (fold (\<lambda>(p, e) m. case pe_name e of Some n \<Rightarrow> if n = [] then m else map_set n p m | None \<Rightarrow> m) xs m) n = Some p"
      "\<And>n q. map_get m n = Some q \<Longrightarrow> q \<in> S" for xs :: "'a registry" and m S
    using that
  proof (induction xs arbitrary: m S)
    case (Cons x xs)
    obtain q e where x: "x = (q, e)" by (cases x)
    let ?m = "case pe_name e of Some n \<Rightarrow> if n = [] then m else map_set n q m | None \<Rightarrow> m"
    have "\<And>n r. map_get ?m n = Some r \<Longrightarrow> r \<in> insert q S"
      using Cons.prems(2) by (auto split: option.splits if_splits)
    from Cons.IH [OF _ this] Cons.prems(1) x show ?case by auto
  qed auto
  from this [of entries "[]" "{}"] assms show ?thesis by (simp add: nameToPlugin_def)
qed

lemma constraint_edges_keys: "set (constraint_edges entries) \<subseteq> set (map_keys entries) \<times> set (map_keys entries)"
proof
  fix uv assume "uv \<in> set (constraint_edges entries)"
  then obtain p e n t where "(p, e) \<in> set entries" "map_get (nameToPlugin entries) n = Some t"
    "uv = (p, t) \<or> uv = (t, p)"
    by (auto simp: constraint_edges_def Let_def split: option.splits if_splits) metis+
  with nameToPlugin_keys show "uv \<in> set (map_keys entries) \<times> set (map_keys entries)" by force
qed

lemma in_degrees_get: "v \<in> set nodes \<Longrightarrow> map_get (in_degrees nodes es) v = Some (int (indeg es v))"
  unfolding in_degrees_def indeg_def by (simp add: map_of_map_restrict)

lemma kahn_start:
  assumes "distinct nodes"
  shows "kahn_inv nodes es (in_degrees nodes es)
    (map_keys (filter (\<lambda>(p, d). d = 0) (in_degrees nodes es))) []"
proof -
  have keys: "map_keys (in_degrees nodes es) = nodes" by (simp add: in_degrees_def comp_def)
  have q: "map_keys (filter (\<lambda>(p, d). d = 0) (in_degrees nodes es)) = filter (\<lambda>v. indeg es v = 0) nodes"
    by (induction nodes) (auto simp: in_degrees_def indeg_def)
  have "preds es v = {}" if "indeg es v = 0" for v
    using that preds_indeg(1,2) [of es v] by simp
  then show ?thesis
    unfolding kahn_inv_def keys q using assms by (auto simp: in_degrees_get ordered_Nil)
qed


definition demo_registry :: "nat registry" where
  "demo_registry = [(1, \<lparr>pe_name = Some ''log'', pe_before = [], pe_after = [''auth'']\<rparr>),
     (2, \<lparr>pe_name = Some ''auth'', pe_before = [''cache''], pe_after = []\<rparr>),
     (3, \<lparr>pe_name = Some ''cache'', pe_before = [''log''], pe_after = []\<rparr>)]"


text \<open>Registering a plugin for the first time either keeps the registry sortable or changes nothing.\<close>

lemma register_fresh:
  assumes "p \<notin> set (map_keys entries)"
  shows "case register p name before after entries of
      (entries', Inr _) \<Rightarrow> \<exists>srt. topologicalSort entries' = Inr srt
    | (entries', Inl _) \<Rightarrow> entries' = entries"
  using assms map_set_fresh [OF assms]
  by (auto simp: register_def ensureNoCycles_def map_del_notin AList.delete_eq split: sum.split)
    (metis (mono_tags, lifting) case_prod_unfold filter_True fst_conv image_eqI)

text \<open>
  Two plugins that state the same constraint are refused as circular, and registering a known
  plugin again with a constraint that is circular removes another plugin and leaves the cycle.
\<close>

lemma repeated_constraint_refused:
  "let r = fst (register 1 (Some ''a'') (OneName ''b'') Unconstrained [])
   in snd (register (2 :: nat) (Some ''b'') Unconstrained (OneName ''a'') r) = Inl (CircularDependency 1 2)"
  by code_simp

lemma reregistration_leaves_cycle:
  "let r1 = fst (register (1 :: nat) (Some ''a'') Unconstrained Unconstrained []);
       r2 = fst (register 2 (Some ''b'') (OneName ''a'') Unconstrained r1);
       r3 = fst (register 3 (Some ''c'') Unconstrained Unconstrained r2);
       (r4, err) = register 1 (Some ''a'') (OneName ''b'') Unconstrained r3
   in err = Inl (CircularDependency 1 3) \<and> map_keys r4 = [1, 2] \<and> registry_list r4 = Inl (CircularDependency 0 2)"
  by code_simp

section \<open>Running hooks\<close>

text \<open>Hooks run one after another until one throws; a plugin without the hook is skipped.\<close>

fun run_hooks :: "('p \<Rightarrow> bool) \<Rightarrow> ('p \<Rightarrow> 'e option) \<Rightarrow> 'p list \<Rightarrow> 'p list \<times> 'e option" where
  "run_hooks has hook [] = ([], None)"
| "run_hooks has hook (p # ps) =
     (if \<not> has p then run_hooks has hook ps
      else (case hook p of
          Some e \<Rightarrow> ([p], Some e)
        | None \<Rightarrow> (let (xs, e) = run_hooks has hook ps in (p # xs, e))))"

record ('p, 'e) hook_set =
  hk_has_before :: "'p \<Rightarrow> bool"
  hk_has_after :: "'p \<Rightarrow> bool"
  hk_has_onError :: "'p \<Rightarrow> bool"
  hk_before :: "'p \<Rightarrow> 'e option"
  hk_after :: "'p \<Rightarrow> 'e option"
  hk_onError :: "'p \<Rightarrow> 'e option"

datatype 'p hook_event = Before 'p | Operation | After 'p | OnError 'p

text \<open>\<open>runWithMiddleware\<close>: the hooks that ran around the operation, and what the caller gets.\<close>

definition runWithMiddleware ::
    "('p, 'e) hook_set \<Rightarrow> 'p list \<Rightarrow> 'e + 'a \<Rightarrow> 'p hook_event list \<times> ('e + 'a)" where
  "runWithMiddleware h plugins outcome =
     (case run_hooks (hk_has_before h) (hk_before h) plugins of
        (xs, Some e) \<Rightarrow> (map Before xs, Inl e)
      | (xs, None) \<Rightarrow>
          (case outcome of
             Inl err \<Rightarrow>
               (case run_hooks (hk_has_onError h) (hk_onError h) (rev plugins) of
                  (ys, e') \<Rightarrow> (map Before xs @ Operation # map OnError ys, Inl (case e' of Some e \<Rightarrow> e | None \<Rightarrow> err)))
           | Inr v \<Rightarrow>
               (case run_hooks (hk_has_after h) (hk_after h) (rev plugins) of
                  (ys, Some e) \<Rightarrow> (map Before xs @ Operation # map After ys, Inl e)
                | (ys, None) \<Rightarrow> (map Before xs @ Operation # map After ys, Inr v))))"

text \<open>The registry's own runners: its after-hooks swallow what they throw.\<close>

definition runBefore :: "('p, 'e) hook_set \<Rightarrow> 'p registry \<Rightarrow> registry_error + ('p list \<times> 'e option)" where
  "runBefore h entries = rbind (registry_list entries) (\<lambda>ps. Inr (run_hooks (hk_has_before h) (hk_before h) ps))"

definition runAfter :: "('p, 'e) hook_set \<Rightarrow> 'p registry \<Rightarrow> registry_error + 'p list" where
  "runAfter h entries = rbind (registry_list entries) (\<lambda>ps. Inr (filter (hk_has_after h) ps))"

lemma run_hooks_quiet: "(\<forall>p \<in> set ps. hook p = None) \<Longrightarrow> run_hooks has hook ps = (filter has ps, None)"
  by (induction ps) auto

text \<open>Around an operation whose hooks do not throw, after-hooks run in the reverse order of before-hooks.\<close>

lemma middleware_nests:
  assumes "\<forall>p. hk_before h p = None \<and> hk_after h p = None \<and> hk_onError h p = None"
  shows "runWithMiddleware h plugins outcome =
    (map Before (filter (hk_has_before h) plugins) @ Operation #
      (case outcome of Inl _ \<Rightarrow> map OnError (filter (hk_has_onError h) (rev plugins))
       | Inr _ \<Rightarrow> map After (filter (hk_has_after h) (rev plugins))), outcome)"
  using assms by (auto simp: runWithMiddleware_def run_hooks_quiet split: sum.split)

text \<open>An after-hook that throws turns a completed operation into a failure.\<close>

lemma after_hook_hides_success:
  assumes "hk_before h p = None" "hk_has_after h p" "hk_after h p = Some e"
  shows "snd (runWithMiddleware h [p] (Inr v)) = Inl e"
  using assms by (simp add: runWithMiddleware_def)

end
