(* ===== verification/EventPoller.thy ===== *)
theory EventPoller
  imports Amounts
begin

text \<open>
  The event poller (\<open>src/events.ts\<close>): subscribers, the poll with its cursor and its reconnect policy,
  the push subscription it prefers, and the batching of events. A poll is split at its await, so
  polls can overlap; \<open>throws\<close> tells which callback throws on which event. Everything a subscriber
  sees goes to the log, newest entry first. Timers fire as events.
\<close>

section \<open>Events\<close>

text \<open>A raw event with its topics and data decoded by the SDK (\<open>scValToNative\<close>).\<close>

record 'd raw_event =
  rv_inSuccessfulContractCall :: bool
  rv_topic :: "native list"
  rv_txHash :: string
  rv_ledger :: int
  rv_closedAt :: int
  rv_data :: 'd

record 'd poll_event =
  pv_type :: string
  pv_streamId :: string
  pv_txHash :: string
  pv_ledger :: int
  pv_timestamp :: int
  pv_data :: 'd

definition STREAM_EVENT_NAMES :: "string list" where
  "STREAM_EVENT_NAMES = [''StreamCreated'', ''StreamWithdrawn'', ''StreamCancelled'', ''StreamCompleted'',
     ''StreamToppedUp'', ''StreamPaused'', ''StreamResumed'', ''StreamTransferred'', ''WithdrawalMade'']"

text \<open>No event, an event, or the exception of an imprecise stream id.\<close>

definition parseStreamEvent :: "'d raw_event \<Rightarrow> amount_error + 'd poll_event option" where
  "parseStreamEvent raw =
     (if \<not> rv_inSuccessfulContractCall raw then Inr None
      else (case rv_topic raw of
          NString ty # rest \<Rightarrow>
            if ty \<notin> set STREAM_EVENT_NAMES then Inr None
            else rbind (case rest of [] \<Rightarrow> Inr ''0'' | i # _ \<Rightarrow> safeIdString i) (\<lambda>sid.
              Inr (Some \<lparr>pv_type = ty, pv_streamId = sid, pv_txHash = rv_txHash raw, pv_ledger = rv_ledger raw,
                pv_timestamp = rv_closedAt raw, pv_data = rv_data raw\<rparr>))
        | _ \<Rightarrow> Inr None))"

section \<open>The poller\<close>

datatype 'd poller_log =
    Delivered string "'d poll_event"
  | DeliveredBatch string "'d poll_event list"
  | Buffered "'d poll_event"
  | Flushed "'d poll_event list"
  | Dropped "'d poll_event list"
  | Reconnecting nat int
  | Reconnected
  | Disconnected

datatype poll_cursor = Cursor "string option" "int option"

record batch_metrics =
  bm_totalBatches :: nat
  bm_totalEvents :: nat
  bm_lastFlushAt :: "int option"

text \<open>\<open>ep_push\<close> is whether a push subscription is open; \<open>ep_polls\<close> are the polls in flight.\<close>

record 'd poller =
  ep_cursor :: "string option"
  ep_interval :: bool
  ep_entries :: "(string, 'd poll_event \<Rightarrow> bool) jsmap"
  ep_startLedger :: "int option"
  ep_canPush :: bool
  ep_push :: bool
  ep_pushFailed :: bool
  ep_retryMaxAttempts :: nat
  ep_retryBaseDelayMs :: int
  ep_retryMaxDelayMs :: int
  ep_consecutiveFailures :: nat
  ep_reconnecting :: bool
  ep_batchEntries :: "(string, 'd poll_event \<Rightarrow> bool) jsmap"
  ep_maxBatchSize :: nat
  ep_batchBuffer :: "'d poll_event list"
  ep_flushTimer :: bool
  ep_batchMetrics :: batch_metrics
  ep_polls :: "poll_cursor list"
  ep_log :: "'d poller_log list"

definition new_poller ::
    "bool \<Rightarrow> nat option \<Rightarrow> int option \<Rightarrow> int option \<Rightarrow> nat option \<Rightarrow> 'd poller" where
  "new_poller canPush maxAttempts baseDelayMs maxDelayMs maxBatchSize =
     \<lparr>ep_cursor = None, ep_interval = False, ep_entries = [], ep_startLedger = None, ep_canPush = canPush,
      ep_push = False, ep_pushFailed = False,
      ep_retryMaxAttempts = (case maxAttempts of Some n \<Rightarrow> n | None \<Rightarrow> 5),
      ep_retryBaseDelayMs = (case baseDelayMs of Some n \<Rightarrow> n | None \<Rightarrow> 1000),
      ep_retryMaxDelayMs = (case maxDelayMs of Some n \<Rightarrow> n | None \<Rightarrow> 30000),
      ep_consecutiveFailures = 0, ep_reconnecting = False, ep_batchEntries = [],
      ep_maxBatchSize = (case maxBatchSize of Some n \<Rightarrow> n | None \<Rightarrow> 50), ep_batchBuffer = [],
      ep_flushTimer = False, ep_batchMetrics = \<lparr>bm_totalBatches = 0, bm_totalEvents = 0, bm_lastFlushAt = None\<rparr>,
      ep_polls = [], ep_log = []\<rparr>"

definition begin_poll :: "'d poller \<Rightarrow> 'd poller" where
  "begin_poll s = s\<lparr>ep_polls := ep_polls s @ [Cursor (ep_cursor s) (ep_startLedger s)]\<rparr>"

text \<open>The push subscription fails at once or not; a push transport that fails later is \<open>push_failed\<close>.\<close>

definition startPolling :: "bool \<Rightarrow> 'd poller \<Rightarrow> 'd poller" where
  "startPolling pushFails s =
     (if ep_canPush s \<and> \<not> ep_pushFailed s \<and> \<not> pushFails then s\<lparr>ep_push := True\<rparr>
      else (begin_poll (if ep_canPush s then s\<lparr>ep_pushFailed := True\<rparr> else s))\<lparr>ep_interval := True\<rparr>)"

definition stopPolling :: "'d poller \<Rightarrow> 'd poller" where
  "stopPolling s = s\<lparr>ep_push := False, ep_interval := False\<rparr>"

definition ensure_started :: "bool \<Rightarrow> 'd poller \<Rightarrow> 'd poller" where
  "ensure_started pushFails s = (if \<not> ep_interval s \<and> \<not> ep_push s then startPolling pushFails s else s)"

definition ep_subscribe :: "string \<Rightarrow> ('d poll_event \<Rightarrow> bool) \<Rightarrow> bool \<Rightarrow> 'd poller \<Rightarrow> 'd poller" where
  "ep_subscribe key flt pushFails s = ensure_started pushFails (s\<lparr>ep_entries := map_set key flt (ep_entries s)\<rparr>)"

definition ep_unsubscribe :: "string \<Rightarrow> 'd poller \<Rightarrow> 'd poller" where
  "ep_unsubscribe key s0 =
     (let s = s0\<lparr>ep_entries := map_del key (ep_entries s0)\<rparr>
      in if ep_entries s = [] then stopPolling s else s)"

definition subscribeBatch :: "string \<Rightarrow> ('d poll_event \<Rightarrow> bool) \<Rightarrow> bool \<Rightarrow> 'd poller \<Rightarrow> 'd poller" where
  "subscribeBatch key flt pushFails s = ensure_started pushFails (s\<lparr>ep_batchEntries := map_set key flt (ep_batchEntries s)\<rparr>)"

definition unsubscribeBatch :: "string \<Rightarrow> 'd poller \<Rightarrow> 'd poller" where
  "unsubscribeBatch key s0 =
     (let s = s0\<lparr>ep_batchEntries := map_del key (ep_batchEntries s0)\<rparr>
      in if ep_entries s = [] \<and> ep_batchEntries s = [] then stopPolling s else s)"

text \<open>
  Calling subscribers in turn; a callback that throws ends the turn after its call. The result
  says whether an exception is on its way.
\<close>

fun call_entries ::
    "(string \<Rightarrow> 'd poll_event list \<Rightarrow> bool) \<Rightarrow> (string \<Rightarrow> 'd poll_event list \<Rightarrow> 'd poller_log) \<Rightarrow> 'd poll_event list \<Rightarrow>
     (string, 'd poll_event \<Rightarrow> bool) jsmap \<Rightarrow> 'd poller_log list \<times> bool" where
  "call_entries throws entry evs [] = ([], False)"
| "call_entries throws entry evs ((key, flt) # es) =
     (if filter flt evs = [] then call_entries throws entry evs es
      else if throws key (filter flt evs) then ([entry key (filter flt evs)], True)
      else (let (log, ex) = call_entries throws entry evs es in (log @ [entry key (filter flt evs)], ex)))"

definition flushBatch :: "(string \<Rightarrow> 'd poll_event list \<Rightarrow> bool) \<Rightarrow> int \<Rightarrow> 'd poller \<Rightarrow> 'd poller \<times> bool" where
  "flushBatch throws now s0 =
     (let s = s0\<lparr>ep_flushTimer := False\<rparr>; batch = ep_batchBuffer s
      in if batch = [] then (s, False)
         else (let m = ep_batchMetrics s; (log, ex) = call_entries throws DeliveredBatch batch (ep_batchEntries s)
               in (s\<lparr>ep_batchBuffer := [],
                     ep_batchMetrics := \<lparr>bm_totalBatches = bm_totalBatches m + 1,
                       bm_totalEvents = bm_totalEvents m + length batch, bm_lastFlushAt = Some now\<rparr>,
                     ep_log := log @ Flushed batch # ep_log s\<rparr>, ex)))"

definition dispatch :: "(string \<Rightarrow> 'd poll_event list \<Rightarrow> bool) \<Rightarrow> int \<Rightarrow> 'd raw_event \<Rightarrow> 'd poller \<Rightarrow> 'd poller \<times> bool" where
  "dispatch throws now raw s =
     (case parseStreamEvent raw of
        Inl e \<Rightarrow> (s, True)
      | Inr None \<Rightarrow> (s, False)
      | Inr (Some ev) \<Rightarrow>
          (let (log, ex) = call_entries throws (\<lambda>key evs. Delivered key (hd evs)) [ev] (ep_entries s);
               s1 = s\<lparr>ep_log := log @ ep_log s\<rparr>
           in if ex then (s1, True)
              else if ep_batchEntries s1 = [] then (s1, False)
              else (let s2 = s1\<lparr>ep_batchBuffer := ep_batchBuffer s1 @ [ev], ep_log := Buffered ev # ep_log s1\<rparr>
                    in if length (ep_batchBuffer s2) \<ge> ep_maxBatchSize s2 then flushBatch throws now s2
                       else (s2\<lparr>ep_flushTimer := True\<rparr>, False))))"

text \<open>An exception leaves the rest of the page undelivered.\<close>

fun dispatch_all :: "(string \<Rightarrow> 'd poll_event list \<Rightarrow> bool) \<Rightarrow> int \<Rightarrow> 'd raw_event list \<Rightarrow> 'd poller \<Rightarrow> 'd poller \<times> bool" where
  "dispatch_all throws now [] s = (s, False)"
| "dispatch_all throws now (raw # raws) s =
     (case dispatch throws now raw s of (s', True) \<Rightarrow> (s', True) | (s', False) \<Rightarrow> dispatch_all throws now raws s')"

text \<open>The failure branch; \<open>draw\<close> is the jittered delay the code computes from \<open>cap\<close>.\<close>

definition poll_cap :: "'d poller \<Rightarrow> nat \<Rightarrow> int" where
  "poll_cap s failures = min (ep_retryMaxDelayMs s) (ep_retryBaseDelayMs s * 2 ^ (failures - 1))"

definition poll_failed :: "(int \<Rightarrow> int) \<Rightarrow> 'd poller \<Rightarrow> 'd poller" where
  "poll_failed draw s0 =
     (if ep_retryMaxAttempts s0 = 0 then s0
      else (let s = s0\<lparr>ep_consecutiveFailures := ep_consecutiveFailures s0 + 1\<rparr>
            in if ep_consecutiveFailures s > ep_retryMaxAttempts s
               then stopPolling (s\<lparr>ep_log := Disconnected # ep_log s\<rparr>)
               else s\<lparr>ep_reconnecting := True,
                      ep_log := Reconnecting (ep_consecutiveFailures s) (draw (poll_cap s (ep_consecutiveFailures s))) # ep_log s\<rparr>))"

record 'd poll_response =
  pr_events :: "'d raw_event list"
  pr_cursor :: string
  pr_latestLedger :: int

definition poll_answered ::
    "(string \<Rightarrow> 'd poll_event list \<Rightarrow> bool) \<Rightarrow> (int \<Rightarrow> int) \<Rightarrow> int \<Rightarrow> 'd poll_response \<Rightarrow> 'd poller \<Rightarrow> 'd poller" where
  "poll_answered throws draw now r s0 =
     (let s = (if 0 < ep_consecutiveFailures s0
               then s0\<lparr>ep_consecutiveFailures := 0, ep_reconnecting := False,
                       ep_log := (if ep_reconnecting s0 then [Reconnected] else []) @ ep_log s0\<rparr>
               else s0);
          s1 = (if ep_startLedger s = None then s\<lparr>ep_startLedger := Some (pr_latestLedger r)\<rparr> else s)
      in if pr_events r = [] then s1
         else (case dispatch_all throws now (pr_events r) (s1\<lparr>ep_cursor := Some (pr_cursor r)\<rparr>) of
             (s2, True) \<Rightarrow> poll_failed draw s2 | (s2, False) \<Rightarrow> s2))"

definition ep_destroy :: "'d poller \<Rightarrow> 'd poller" where
  "ep_destroy s = (stopPolling s)\<lparr>ep_entries := [], ep_batchEntries := [], ep_flushTimer := False,
     ep_batchBuffer := [], ep_log := Dropped (ep_batchBuffer s) # ep_log s\<rparr>"

datatype 'd poller_event =
    Subscribe string "'d poll_event \<Rightarrow> bool" bool
  | Unsubscribe string
  | SubscribeBatch string "'d poll_event \<Rightarrow> bool" bool
  | UnsubscribeBatch string
  | Tick
  | Answered nat int "'d poll_response"
  | RequestRejected nat
  | Pushed int "'d raw_event"
  | PushFailed
  | FlushTimer int
  | Destroy

definition take_poll :: "nat \<Rightarrow> 'd poller \<Rightarrow> 'd poller" where
  "take_poll n s = s\<lparr>ep_polls := take n (ep_polls s) @ drop (Suc n) (ep_polls s)\<rparr>"

text \<open>\<open>Tick\<close> is the interval or the wake handler; timers and the push transport act only while set up.\<close>

fun poller_step ::
    "(string \<Rightarrow> 'd poll_event list \<Rightarrow> bool) \<Rightarrow> (int \<Rightarrow> int) \<Rightarrow> 'd poller_event \<Rightarrow> 'd poller \<Rightarrow> 'd poller" where
  "poller_step throws draw (Subscribe key flt pushFails) s = ep_subscribe key flt pushFails s"
| "poller_step throws draw (Unsubscribe key) s = ep_unsubscribe key s"
| "poller_step throws draw (SubscribeBatch key flt pushFails) s = subscribeBatch key flt pushFails s"
| "poller_step throws draw (UnsubscribeBatch key) s = unsubscribeBatch key s"
| "poller_step throws draw Tick s = (if ep_interval s then begin_poll s else s)"
| "poller_step throws draw (Answered n now r) s =
     (if n < length (ep_polls s) then poll_answered throws draw now r (take_poll n s) else s)"
| "poller_step throws draw (RequestRejected n) s =
     (if n < length (ep_polls s) then poll_failed draw (take_poll n s) else s)"
| "poller_step throws draw (Pushed now raw) s = (if ep_push s then fst (dispatch throws now raw s) else s)"
| "poller_step throws draw PushFailed s =
     (if ep_push s then startPolling True (s\<lparr>ep_pushFailed := True, ep_push := False\<rparr>)
      else if ep_canPush s then s\<lparr>ep_pushFailed := True\<rparr> else s)"
| "poller_step throws draw (FlushTimer now) s = (if ep_flushTimer s then fst (flushBatch throws now s) else s)"
| "poller_step throws draw Destroy s = ep_destroy s"

section \<open>Batching loses nothing\<close>

text \<open>In order: the events put into the buffer, those taken out again, and the batches.\<close>

fun buffered :: "'d poller_log list \<Rightarrow> 'd poll_event list" where
  "buffered [] = []"
| "buffered (x # log) = buffered log @ (case x of Buffered ev \<Rightarrow> [ev] | _ \<Rightarrow> [])"

fun batches :: "'d poller_log list \<Rightarrow> 'd poll_event list list" where
  "batches [] = []"
| "batches (x # log) = batches log @ (case x of Flushed b \<Rightarrow> [b] | _ \<Rightarrow> [])"

fun taken_out :: "'d poller_log list \<Rightarrow> 'd poll_event list" where
  "taken_out [] = []"
| "taken_out (x # log) = taken_out log @ (case x of Flushed b \<Rightarrow> b | Dropped b \<Rightarrow> b | _ \<Rightarrow> [])"

definition batch_inv :: "'d poller \<Rightarrow> bool" where
  "batch_inv s \<longleftrightarrow> buffered (ep_log s) = taken_out (ep_log s) @ ep_batchBuffer s \<and>
     ep_flushTimer s = (ep_batchBuffer s \<noteq> []) \<and> length (ep_batchBuffer s) < max 1 (ep_maxBatchSize s) \<and>
     list_all (\<lambda>b. b \<noteq> [] \<and> length b \<le> max 1 (ep_maxBatchSize s)) (batches (ep_log s)) \<and>
     bm_totalBatches (ep_batchMetrics s) = length (batches (ep_log s)) \<and>
     bm_totalEvents (ep_batchMetrics s) = length (concat (batches (ep_log s)))"

text \<open>Entries that only report deliveries or reconnections do not matter to the buffer.\<close>

fun batch_entry :: "'d poller_log \<Rightarrow> bool" where
  "batch_entry (Buffered ev) = True"
| "batch_entry (Flushed b) = True"
| "batch_entry (Dropped b) = True"
| "batch_entry _ = False"

lemma quiet_log:
  assumes "list_all (\<lambda>x. \<not> batch_entry x) log"
  shows "buffered (log @ log') = buffered log'" "batches (log @ log') = batches log'" "taken_out (log @ log') = taken_out log'"
proof -
  have "buffered (log @ log') = buffered log' \<and> batches (log @ log') = batches log' \<and> taken_out (log @ log') = taken_out log'"
    using assms
  proof (induction log)
    case (Cons x log)
    then show ?case by (cases x) simp_all
  qed simp
  then show "buffered (log @ log') = buffered log'" "batches (log @ log') = batches log'" "taken_out (log @ log') = taken_out log'"
    by simp_all
qed

lemma call_entries_quiet:
  assumes "call_entries throws entry evs es = (log, ex)" "\<And>k vs. \<not> batch_entry (entry k vs)"
  shows "list_all (\<lambda>x. \<not> batch_entry x) log"
  using assms(1)
proof (induction es arbitrary: log ex)
  case (Cons e es)
  obtain key flt where e: "e = (key, flt)" by (cases e)
  obtain log' ex' where "call_entries throws entry evs es = (log', ex')" by fastforce
  with Cons assms(2) e show ?case by (auto split: if_splits)
qed simp

text \<open>The same with a buffer that may be full and a timer in any state.\<close>

definition flushable :: "'d poller \<Rightarrow> bool" where
  "flushable s \<longleftrightarrow> buffered (ep_log s) = taken_out (ep_log s) @ ep_batchBuffer s \<and>
     length (ep_batchBuffer s) \<le> max 1 (ep_maxBatchSize s) \<and>
     list_all (\<lambda>b. b \<noteq> [] \<and> length b \<le> max 1 (ep_maxBatchSize s)) (batches (ep_log s)) \<and>
     bm_totalBatches (ep_batchMetrics s) = length (batches (ep_log s)) \<and>
     bm_totalEvents (ep_batchMetrics s) = length (concat (batches (ep_log s)))"

lemma batch_inv_flushable: "batch_inv s \<Longrightarrow> flushable s"
  by (simp add: batch_inv_def flushable_def)

lemma flush_inv:
  assumes "flushable s"
  shows "batch_inv (fst (flushBatch throws now s))"
proof (cases "ep_batchBuffer s = []")
  case True
  with assms show ?thesis by (auto simp: batch_inv_def flushable_def flushBatch_def Let_def)
next
  case False
  obtain log ex where c: "call_entries throws DeliveredBatch (ep_batchBuffer s) (ep_batchEntries s) = (log, ex)" by fastforce
  note q = quiet_log [OF call_entries_quiet [OF c]]
  have "fst (flushBatch throws now s) = s\<lparr>ep_flushTimer := False, ep_batchBuffer := [],
      ep_batchMetrics := \<lparr>bm_totalBatches = bm_totalBatches (ep_batchMetrics s) + 1,
        bm_totalEvents = bm_totalEvents (ep_batchMetrics s) + length (ep_batchBuffer s), bm_lastFlushAt = Some now\<rparr>,
      ep_log := log @ Flushed (ep_batchBuffer s) # ep_log s\<rparr>"
    using False by (simp add: flushBatch_def Let_def c)
  with assms False show ?thesis by (auto simp: batch_inv_def flushable_def q)
qed

lemma inv_quiet:
  "batch_inv s \<Longrightarrow> list_all (\<lambda>x. \<not> batch_entry x) log \<Longrightarrow> batch_inv (s\<lparr>ep_log := log @ ep_log s\<rparr>)"
  by (simp add: batch_inv_def quiet_log)

lemma inv_dispatch:
  assumes "batch_inv s"
  shows "batch_inv (fst (dispatch throws now raw s))"
proof (cases "parseStreamEvent raw")
  case (Inr o')
  show ?thesis
  proof (cases o')
    case (Some ev)
    obtain log ex where c: "call_entries throws (\<lambda>key evs. Delivered key (hd evs)) [ev] (ep_entries s) = (log, ex)" by fastforce
    let ?s1 = "s\<lparr>ep_log := log @ ep_log s\<rparr>"
    have s1: "batch_inv ?s1" by (rule inv_quiet [OF assms call_entries_quiet [OF c]]) simp
    let ?s2 = "?s1\<lparr>ep_batchBuffer := ep_batchBuffer ?s1 @ [ev], ep_log := Buffered ev # ep_log ?s1\<rparr>"
    have full: "batch_inv (fst (flushBatch throws now ?s2))"
      by (rule flush_inv) (use s1 in \<open>auto simp: batch_inv_def flushable_def\<close>)
    have room: "batch_inv (?s2\<lparr>ep_flushTimer := True\<rparr>)" if "length (ep_batchBuffer s @ [ev]) < ep_maxBatchSize s"
      using s1 that by (auto simp: batch_inv_def)
    show ?thesis
      using s1 full room unfolding dispatch_def Inr Some by (simp add: c Let_def)
  qed (use assms Inr in \<open>simp add: dispatch_def\<close>)
qed (use assms in \<open>simp add: dispatch_def\<close>)

lemma inv_dispatch_all: "batch_inv s \<Longrightarrow> batch_inv (fst (dispatch_all throws now raws s))"
proof (induction raws arbitrary: s)
  case (Cons raw raws)
  obtain s' ex where d: "dispatch throws now raw s = (s', ex)" by fastforce
  with inv_dispatch [OF Cons.prems, of throws now raw] have "batch_inv s'" by simp
  with Cons.IH d show ?case by (cases ex) simp_all
qed simp

lemma inv_stop: "batch_inv s \<Longrightarrow> batch_inv (stopPolling s)"
  by (simp add: stopPolling_def batch_inv_def)

lemma inv_failed: "batch_inv s \<Longrightarrow> batch_inv (poll_failed draw s)"
  by (simp add: poll_failed_def Let_def stopPolling_def batch_inv_def)

lemma inv_answered:
  assumes "batch_inv s"
  shows "batch_inv (poll_answered throws draw now r s)"
proof -
  define s1 where "s1 = (if 0 < ep_consecutiveFailures s
    then s\<lparr>ep_consecutiveFailures := 0, ep_reconnecting := False,
           ep_log := (if ep_reconnecting s then [Reconnected] else []) @ ep_log s\<rparr> else s)"
  define s2 where "s2 = (if ep_startLedger s1 = None then s1\<lparr>ep_startLedger := Some (pr_latestLedger r)\<rparr> else s1)"
  have "batch_inv s1" using assms by (simp add: s1_def batch_inv_def)
  then have s2: "batch_inv s2" "batch_inv (s2\<lparr>ep_cursor := c\<rparr>)" for c by (simp_all add: s2_def batch_inv_def)
  obtain s3 ex where d: "dispatch_all throws now (pr_events r) (s2\<lparr>ep_cursor := Some (pr_cursor r)\<rparr>) = (s3, ex)" by fastforce
  with inv_dispatch_all [OF s2(2), of throws now "pr_events r"] have "batch_inv s3" by (metis fst_conv)
  then show ?thesis
    using s2(1) unfolding poll_answered_def Let_def s1_def [symmetric] s2_def [symmetric]
    by (cases ex) (simp_all add: d inv_failed)
qed

lemma inv_startPolling: "batch_inv s \<Longrightarrow> batch_inv (startPolling pushFails s)"
  by (simp add: startPolling_def begin_poll_def batch_inv_def)

lemma inv_subscriptions:
  assumes "batch_inv s"
  shows "batch_inv (ep_subscribe key flt pf s)" "batch_inv (subscribeBatch key flt pf s)"
    "batch_inv (ep_unsubscribe key s)" "batch_inv (unsubscribeBatch key s)"
proof -
  have e: "batch_inv (s\<lparr>ep_entries := x\<rparr>)" "batch_inv (s\<lparr>ep_batchEntries := y\<rparr>)" for x y
    using assms by (simp_all add: batch_inv_def)
  show "batch_inv (ep_subscribe key flt pf s)" "batch_inv (subscribeBatch key flt pf s)"
    "batch_inv (ep_unsubscribe key s)" "batch_inv (unsubscribeBatch key s)"
    using e by (simp_all add: ep_subscribe_def subscribeBatch_def ensure_started_def ep_unsubscribe_def
        unsubscribeBatch_def Let_def inv_startPolling inv_stop)
qed

interpretation ep: step_system "poller_step throws draw" batch_inv for throws draw
proof unfold_locales
  fix s :: "'a poller" and e :: "'a poller_event"
  assume inv: "batch_inv s"
  have polls: "batch_inv (take_poll n s)" "batch_inv (begin_poll s)" for n
    using inv by (simp_all add: take_poll_def begin_poll_def batch_inv_def)
  have failed: "batch_inv (s\<lparr>ep_pushFailed := True, ep_push := False\<rparr>)" "batch_inv (s\<lparr>ep_pushFailed := True\<rparr>)"
    using inv by (simp_all add: batch_inv_def)
  have "batch_inv (ep_destroy s)" using inv by (simp add: ep_destroy_def stopPolling_def batch_inv_def)
  then show "batch_inv (poller_step throws draw e s)"
    using inv polls failed
    by (cases e) (simp_all add: inv_subscriptions inv_answered inv_failed inv_dispatch inv_startPolling flush_inv batch_inv_flushable)
qed

lemma inv_new_poller: "batch_inv (new_poller canPush maxAttempts baseDelayMs maxDelayMs maxBatchSize)"
  by (simp add: batch_inv_def new_poller_def)


section \<open>Delivery\<close>

text \<open>Without exceptions every subscriber is given every matching event of a page, in order.\<close>

fun delivered :: "string \<Rightarrow> 'd poller_log list \<Rightarrow> 'd poll_event list" where
  "delivered key [] = []"
| "delivered key (x # log) = delivered key log @ (case x of Delivered k ev \<Rightarrow> if k = key then [ev] else [] | _ \<Rightarrow> [])"

lemma delivered_append: "delivered key (log @ log') = delivered key log' @ delivered key log"
  by (induction log) auto

lemma no_throw: "snd (call_entries (\<lambda>_ _. False) entry evs es) = False"
proof (induction es)
  case (Cons e es)
  then show ?case by (cases e) (simp add: split_beta Let_def)
qed simp

lemma delivered_entries:
  assumes "distinct (map_keys es)"
  shows "delivered key (fst (call_entries (\<lambda>_ _. False) (\<lambda>key evs. Delivered key (hd evs)) [ev] es)) =
      (case map_get es key of Some flt \<Rightarrow> if flt ev then [ev] else [] | None \<Rightarrow> [])"
proof -
  have none: "delivered key (fst (call_entries (\<lambda>_ _. False) (\<lambda>key evs. Delivered key (hd evs)) [ev] xs)) = []"
    if "key \<notin> set (map_keys xs)" for xs :: "(string, 'a poll_event \<Rightarrow> bool) jsmap"
    using that by (induction xs) (auto simp: delivered_append split: prod.splits)
  show "delivered key (fst (call_entries (\<lambda>_ _. False) (\<lambda>key evs. Delivered key (hd evs)) [ev] es)) =
      (case map_get es key of Some flt \<Rightarrow> if flt ev then [ev] else [] | None \<Rightarrow> [])"
    using assms
  proof (induction es)
    case (Cons e es)
    then show ?case
      using none [of es] by (cases e) (auto simp: delivered_append split: prod.splits)
  qed simp
qed

lemma flush_silent:
  "delivered key (ep_log (fst (flushBatch (\<lambda>_ _. False) now s))) = delivered key (ep_log s)"
  "ep_entries (fst (flushBatch (\<lambda>_ _. False) now s)) = ep_entries s"
  "snd (flushBatch (\<lambda>_ _. False) now s) = False"
proof -
  have "delivered key (fst (call_entries (\<lambda>_ _. False) DeliveredBatch evs es)) = []" for evs and es :: "(string, 'a poll_event \<Rightarrow> bool) jsmap"
    by (induction es) (auto simp: delivered_append split: prod.splits)
  then show "delivered key (ep_log (fst (flushBatch (\<lambda>_ _. False) now s))) = delivered key (ep_log s)"
    by (simp add: flushBatch_def Let_def split_beta delivered_append)
  show "ep_entries (fst (flushBatch (\<lambda>_ _. False) now s)) = ep_entries s"
    by (simp add: flushBatch_def Let_def split_beta)
  show "snd (flushBatch (\<lambda>_ _. False) now s) = False"
    by (simp add: flushBatch_def Let_def split_beta no_throw)
qed

definition parsed :: "'d raw_event \<Rightarrow> 'd poll_event list" where
  "parsed raw = (case parseStreamEvent raw of Inr (Some ev) \<Rightarrow> [ev] | _ \<Rightarrow> [])"

lemma dispatch_delivers:
  assumes "distinct (map_keys (ep_entries s))" "map_get (ep_entries s) key = Some flt" "parseStreamEvent raw = Inr x"
  shows "delivered key (ep_log (fst (dispatch (\<lambda>_ _. False) now raw s))) = delivered key (ep_log s) @ filter flt (parsed raw)"
    "ep_entries (fst (dispatch (\<lambda>_ _. False) now raw s)) = ep_entries s"
    "snd (dispatch (\<lambda>_ _. False) now raw s) = False"
proof -
  have d: "snd (call_entries (\<lambda>_ _. False) (\<lambda>key evs. Delivered key (hd evs)) [ev] (ep_entries s)) = False" for ev
    by (rule no_throw)
  show "delivered key (ep_log (fst (dispatch (\<lambda>_ _. False) now raw s))) = delivered key (ep_log s) @ filter flt (parsed raw)"
    "ep_entries (fst (dispatch (\<lambda>_ _. False) now raw s)) = ep_entries s"
    "snd (dispatch (\<lambda>_ _. False) now raw s) = False"
    using assms d by (cases x; simp add: dispatch_def Let_def split_beta parsed_def flush_silent delivered_append
        delivered_entries [OF assms(1)])+
qed

lemma page_delivered:
  assumes "distinct (map_keys (ep_entries s))" "map_get (ep_entries s) key = Some flt"
    "list_all (\<lambda>raw. \<exists>x. parseStreamEvent raw = Inr x) raws"
  shows "delivered key (ep_log (fst (dispatch_all (\<lambda>_ _. False) now raws s))) =
    delivered key (ep_log s) @ filter flt (concat (map parsed raws))"
  using assms
proof (induction raws arbitrary: s)
  case (Cons raw raws)
  then obtain x where x: "parseStreamEvent raw = Inr x" by auto
  note d = dispatch_delivers [OF Cons.prems(1,2) x, of now]
  obtain s' where s': "dispatch (\<lambda>_ _. False) now raw s = (s', False)"
    using d(3) by (cases "dispatch (\<lambda>_ _. False) now raw s") auto
  from Cons.IH [of s'] Cons.prems d(1,2) show ?case by (simp add: s')
qed simp

text \<open>
  Findings. Removing the last immediate subscriber stops the poller under the batch subscribers;
  a callback that throws loses the rest of its page for everybody, because the cursor has moved;
  two polls in flight deliver the same page twice; and after a disconnect the failure count
  stays, so a new subscription has no retries.
\<close>

lemma unsubscribe_stops_batches:
  assumes "ep_entries s = [(key, flt)]"
  shows "\<not> ep_interval (ep_unsubscribe key s) \<and> \<not> ep_push (ep_unsubscribe key s) \<and>
    ep_batchEntries (ep_unsubscribe key s) = ep_batchEntries s"
  using assms by (simp add: ep_unsubscribe_def stopPolling_def Let_def)

lemma throwing_callback_loses_page:
  assumes "ep_entries s = (key, flt) # es" "parseStreamEvent raw = Inr (Some ev)" "flt ev" "throws key [ev]"
  shows "dispatch_all throws now (raw # raws) s = (s\<lparr>ep_log := Delivered key ev # ep_log s\<rparr>, True)"
  using assms by (simp add: dispatch_def)

definition demo_event :: "unit raw_event" where
  "demo_event = \<lparr>rv_inSuccessfulContractCall = True, rv_topic = [NString ''StreamCreated'', NBig 7], rv_txHash = ''h'',
     rv_ledger = 5, rv_closedAt = 0, rv_data = ()\<rparr>"

lemma overlapping_polls_duplicate:
  "let page = \<lparr>pr_events = [demo_event], pr_cursor = ''c1'', pr_latestLedger = 5\<rparr>;
       s = fold (poller_step (\<lambda>_ _. False) (\<lambda>x. x)) [Subscribe ''a'' (\<lambda>_. True) False, Tick, Answered 0 1 page, Answered 0 2 page]
             (new_poller False None None None None)
   in length (delivered ''a'' (ep_log s)) = 2"
  by code_simp

lemma disconnect_keeps_failures:
  "let s = fold (poller_step (\<lambda>_ _. False) (\<lambda>x. x))
        [Subscribe ''a'' (\<lambda>_. True) False, RequestRejected 0, Tick, RequestRejected 0, Subscribe ''b'' (\<lambda>_. True) False,
         RequestRejected 0] (new_poller False (Some 1) None None None :: unit poller)
   in ep_log s = [Disconnected, Disconnected, Reconnecting 1 1000] \<and> \<not> ep_interval s"
  by code_simp

end
