(* ===== verification/ContractCalls.thy ===== *)
theory ContractCalls
  imports Complex_Main SubmitTx StreamId StreamData
begin

text \<open>
  What the client sends to the contract (\<open>src/contractEncoders.ts\<close>), with the address and length
  checks of \<open>src/utils.ts\<close>. The conversion of a native value to a contract value,
  \<open>nativeToScVal(value, {type})\<close> of the Stellar SDK, is the parameter \<open>native\<close>: it may throw.
  \<open>cachedScVal\<close> returns what it returns (theory \<^theory_text>\<open>TtlCache\<close>, lemma \<open>scval_transparent\<close>).
\<close>

section \<open>Numbers, strings and addresses\<close>

datatype js_num = Num rat | NotANumber | PlusInfinity | MinusInfinity

fun num_less :: "js_num \<Rightarrow> js_num \<Rightarrow> bool" where
  "num_less (Num a) (Num b) \<longleftrightarrow> a < b"
| "num_less (Num a) PlusInfinity \<longleftrightarrow> True"
| "num_less MinusInfinity (Num b) \<longleftrightarrow> True"
| "num_less MinusInfinity PlusInfinity \<longleftrightarrow> True"
| "num_less _ _ \<longleftrightarrow> False"

text \<open>\<open>a <= b\<close> is false when either is not a number.\<close>

definition num_leq :: "js_num \<Rightarrow> js_num \<Rightarrow> bool" where
  "num_leq a b \<longleftrightarrow> num_less a b \<or> a = b \<and> a \<noteq> NotANumber"

fun is_integer :: "js_num \<Rightarrow> bool" where
  "is_integer (Num a) \<longleftrightarrow> of_int \<lfloor>a\<rfloor> = a"
| "is_integer _ \<longleftrightarrow> False"

fun num_add :: "js_num \<Rightarrow> js_num \<Rightarrow> js_num" where
  "num_add (Num a) (Num b) = Num (a + b)"
| "num_add NotANumber b = NotANumber"
| "num_add a NotANumber = NotANumber"
| "num_add PlusInfinity MinusInfinity = NotANumber"
| "num_add MinusInfinity PlusInfinity = NotANumber"
| "num_add PlusInfinity b = PlusInfinity"
| "num_add a PlusInfinity = PlusInfinity"
| "num_add MinusInfinity b = MinusInfinity"
| "num_add a MinusInfinity = MinusInfinity"

definition base32_char :: "char \<Rightarrow> bool" where
  "base32_char c \<longleftrightarrow> (let n = (of_char c :: nat) in 65 \<le> n \<and> n \<le> 90 \<or> 50 \<le> n \<and> n \<le> 55)"

text \<open>\<open>/^[GC][A-Z2-7]{55}$/\<close>.\<close>

definition isValidStellarAddress :: "string \<Rightarrow> bool" where
  "isValidStellarAddress a \<longleftrightarrow> length a = 56 \<and> hd a \<in> {CHR ''G'', CHR ''C''} \<and> list_all base32_char (tl a)"

text \<open>\<open>/^[^*\s]+\*[^*\s]+\.[^*\s]+$/\<close>: one star, and a dot strictly inside the domain.\<close>

definition isFederationAddress :: "string \<Rightarrow> bool" where
  "isFederationAddress a \<longleftrightarrow>
     (let plain = list_all (\<lambda>c. c \<noteq> CHR ''*'' \<and> \<not> js_space c);
          user = takeWhile (\<lambda>c. c \<noteq> CHR ''*'') a; rest = dropWhile (\<lambda>c. c \<noteq> CHR ''*'') a; domain = tl rest
      in user \<noteq> [] \<and> plain user \<and> rest \<noteq> [] \<and> plain domain \<and>
         list_ex (\<lambda>i. domain ! i = CHR ''.'') [1..<length domain - 1])"

definition STRING_FIELD_LIMITS :: "(string, nat) jsmap" where
  "STRING_FIELD_LIMITS = [(''recipient'', 64), (''token'', 64), (''metadataUri'', 128), (''description'', 256)]"

text \<open>The length and the limit of a field that is too long.\<close>

definition validateStringLength :: "string \<Rightarrow> string \<Rightarrow> (nat \<times> nat) + unit" where
  "validateStringLength field v =
     (case map_get STRING_FIELD_LIMITS field of
        None \<Rightarrow> Inr ()
      | Some limit \<Rightarrow> if length (utf8 v) > limit then Inl (length (utf8 v), limit) else Inr ())"

section \<open>Operations\<close>

record stream_params =
  sp_recipient :: string
  sp_token :: string
  sp_amount :: int
  sp_durationSeconds :: js_num
  sp_autoRenew :: bool
  sp_cliffSeconds :: "js_num option"
  sp_nonce :: "string option"
  sp_skipAllowanceCheck :: bool
  sp_lockUntil :: "js_num option"
  sp_startTime :: "js_num option"
  sp_namespace :: "string option"
  sp_tag :: "string option"
  sp_dryRun :: bool

record split_request =
  sr_streamId :: string
  sr_ratioNumerator :: js_num
  sr_ratioDenominator :: js_num
  sr_recipientA :: string
  sr_recipientB :: string

text \<open>The methods of \<open>ContractCallEncoder\<close> with their arguments.\<close>

datatype stream_op =
    CreateStreamOp string stream_params
  | WithdrawOp string string
  | CancelStreamOp string string
  | TopUpOp string string int
  | UpdateFlowRateOp string string int
  | SetOperatorOp string string string bool
  | OperatorCancelOp string string
  | OperatorTopUpOp string string int
  | SplitStreamOp string split_request
  | TransferStreamOp string string string
  | PauseStreamOp string string
  | ResumeStreamOp string string
  | AddDelegateOp string string
  | RevokeDelegateOp string string
  | LockStreamOp string string js_num

datatype native_value = NatString string | NatBig int | NatNumber js_num | NatBool bool

datatype 'x encode_error =
    BadAddress string
  | BadStreamId id_error
  | MetadataTooLarge nat nat
  | ScValFailed 'x

record 'v contract_call =
  cc_method :: string
  cc_args :: "'v list"

type_synonym ('x, 'v) native_conv = "native_value \<Rightarrow> string \<Rightarrow> 'x + 'v"

section \<open>Encoding\<close>

definition requireAddress :: "string \<Rightarrow> 'x encode_error + string" where
  "requireAddress a = (if isValidStellarAddress a then Inr a else Inl (BadAddress a))"

definition sc_value :: "('x, 'v) native_conv \<Rightarrow> native_value \<Rightarrow> string \<Rightarrow> 'x encode_error + 'v" where
  "sc_value native v ty = map_sum ScValFailed id (native v ty)"

definition sc_id :: "('x, 'v) native_conv \<Rightarrow> string \<Rightarrow> 'x encode_error + 'v" where
  "sc_id native i = rbind (map_sum BadStreamId id (parseStreamId i)) (\<lambda>n. sc_value native (NatBig n) ''u64'')"

definition sc_address :: "('x, 'v) native_conv \<Rightarrow> string \<Rightarrow> 'x encode_error + 'v" where
  "sc_address native a = rbind (requireAddress a) (\<lambda>b. sc_value native (NatString b) ''address'')"

definition sc_i128 :: "('x, 'v) native_conv \<Rightarrow> int \<Rightarrow> 'x encode_error + 'v" where
  "sc_i128 native n = sc_value native (NatBig n) ''i128''"

text \<open>Arguments are evaluated in order; the first one that throws wins.\<close>

fun contract_args :: "('e + 'v) list \<Rightarrow> 'e + 'v list" where
  "contract_args [] = Inr []"
| "contract_args (a # as) = rbind a (\<lambda>v. rbind (contract_args as) (\<lambda>vs. Inr (v # vs)))"

definition call_contract :: "string \<Rightarrow> ('e + 'v) list \<Rightarrow> 'e + 'v contract_call" where
  "call_contract name args = rbind (contract_args args) (\<lambda>vs. Inr \<lparr>cc_method = name, cc_args = vs\<rparr>)"

definition namespace_of :: "stream_params \<Rightarrow> string" where
  "namespace_of p = (case sp_namespace p of None \<Rightarrow> [] | Some n \<Rightarrow> n)"

definition encode_create ::
    "('x, 'v) native_conv \<Rightarrow> string \<Rightarrow> stream_params \<Rightarrow> 'x encode_error + 'v contract_call" where
  "encode_create native payer p =
     (if length (utf8 (namespace_of p)) > 256 then Inl (MetadataTooLarge (length (utf8 (namespace_of p))) 256)
      else call_contract ''create_stream''
        [sc_value native (NatString payer) ''address'', sc_value native (NatString (sp_recipient p)) ''address'',
         sc_value native (NatString (sp_token p)) ''address'', sc_i128 native (sp_amount p),
         sc_value native (NatNumber (sp_durationSeconds p)) ''u64'', sc_value native (NatBool (sp_autoRenew p)) ''bool'',
         sc_value native (NatString (namespace_of p)) ''string''])"

fun encode_op :: "('x, 'v) native_conv \<Rightarrow> stream_op \<Rightarrow> 'x encode_error + 'v contract_call" where
  "encode_op nv (CreateStreamOp payer p) = encode_create nv payer p"
| "encode_op nv (WithdrawOp i r) = call_contract ''withdraw'' [sc_id nv i, sc_address nv r]"
| "encode_op nv (CancelStreamOp i s) = call_contract ''cancel_stream'' [sc_id nv i, sc_address nv s]"
| "encode_op nv (TopUpOp i s n) = call_contract ''top_up'' [sc_id nv i, sc_address nv s, sc_i128 nv n]"
| "encode_op nv (UpdateFlowRateOp i s n) =
     call_contract ''update_flow_rate'' [sc_id nv i, sc_address nv s, sc_i128 nv n]"
| "encode_op nv (SetOperatorOp i s x b) = call_contract ''set_operator''
     [sc_id nv i, sc_address nv s, sc_address nv x, sc_value nv (NatBool b) ''bool'']"
| "encode_op nv (OperatorCancelOp i x) = call_contract ''operator_cancel_stream'' [sc_id nv i, sc_address nv x]"
| "encode_op nv (OperatorTopUpOp i x n) =
     call_contract ''operator_top_up'' [sc_id nv i, sc_address nv x, sc_i128 nv n]"
| "encode_op nv (SplitStreamOp s r) = call_contract ''split_stream''
     [sc_id nv (sr_streamId r), sc_address nv s, sc_value nv (NatNumber (sr_ratioNumerator r)) ''u64'',
      sc_value nv (NatNumber (sr_ratioDenominator r)) ''u64'', sc_address nv (sr_recipientA r),
      sc_address nv (sr_recipientB r)]"
| "encode_op nv (TransferStreamOp i s r) =
     call_contract ''transfer_stream'' [sc_id nv i, sc_address nv s, sc_address nv r]"
| "encode_op nv (PauseStreamOp i s) = call_contract ''pause_stream'' [sc_id nv i, sc_address nv s]"
| "encode_op nv (ResumeStreamOp i s) = call_contract ''resume_stream'' [sc_id nv i, sc_address nv s]"
| "encode_op nv (AddDelegateOp x d) = call_contract ''add_delegate'' [sc_address nv x, sc_address nv d]"
| "encode_op nv (RevokeDelegateOp x d) = call_contract ''revoke_delegate'' [sc_address nv x, sc_address nv d]"
| "encode_op nv (LockStreamOp i s t) = call_contract ''lock_until''
     [sc_id nv i, sc_address nv s, sc_value nv (NatNumber t) ''u64'']"

text \<open>The stream delegations are built by the client itself.\<close>

definition stream_delegate_call ::
    "('x, 'v) native_conv \<Rightarrow> string \<Rightarrow> string \<Rightarrow> string \<Rightarrow> string \<Rightarrow> 'x encode_error + 'v contract_call" where
  "stream_delegate_call native method owner i d = call_contract method
     [sc_value native (NatString owner) ''address'', sc_value native (NatString i) ''string'',
      sc_value native (NatString d) ''address'']"

text \<open>The primitive encoders exported for tests.\<close>

definition I128_MIN :: int where "I128_MIN = - (2 ^ 127)"

datatype 'x range_error = OutsideI128 int | I128ScVal 'x

definition encodeI128 :: "('x, 'v) native_conv \<Rightarrow> int \<Rightarrow> 'x range_error + 'v" where
  "encodeI128 native n =
     (if n < I128_MIN \<or> I128_MAX < n then Inl (OutsideI128 n) else map_sum I128ScVal id (native (NatBig n) ''i128''))"

section \<open>What a call says\<close>

text \<open>Two arguments whose evaluations give the same contract value.\<close>

definition agree :: "'e + 'v \<Rightarrow> 'e + 'v \<Rightarrow> bool" where
  "agree a b \<longleftrightarrow> (\<exists>v. a = Inr v \<and> b = Inr v)"

lemma contract_args_eq:
  "contract_args as = Inr vs \<Longrightarrow> contract_args bs = Inr vs \<Longrightarrow> list_all2 agree as bs"
proof (induction as arbitrary: bs vs)
  case Nil
  then show ?case by (cases bs) (auto simp: rbind_Inr_iff)
next
  case (Cons a as)
  from Cons.prems(1) obtain v ws where a: "a = Inr v" "contract_args as = Inr ws" "vs = v # ws"
    by (auto simp: rbind_Inr_iff)
  with Cons.prems(2) obtain bs' where "bs = Inr v # bs'" "contract_args bs' = Inr ws"
    by (cases bs) (auto simp: rbind_Inr_iff)
  with Cons.IH a show ?case by (auto simp: agree_def)
qed

text \<open>Different values of different types have different contract values.\<close>

definition conv_injective :: "('x, 'v) native_conv \<Rightarrow> bool" where
  "conv_injective native \<longleftrightarrow> (\<forall>v ty v' ty' x. native v ty = Inr x \<longrightarrow> native v' ty' = Inr x \<longrightarrow> v = v' \<and> ty = ty')"

lemma sc_value_inject:
  "conv_injective native \<Longrightarrow> sc_value native v ty = Inr x \<Longrightarrow> sc_value native v' ty' = Inr x \<Longrightarrow> v = v' \<and> ty = ty'"
  by (fastforce simp: conv_injective_def sc_value_def map_sum_Inr_iff)

lemma sc_id_inject:
  assumes "conv_injective native" "sc_id native i = Inr x" "sc_id native j = Inr x"
  shows "i = j"
proof -
  from assms(2,3) obtain n m where n: "parseStreamId i = Inr n" "sc_value native (NatBig n) ''u64'' = Inr x"
    and m: "parseStreamId j = Inr m" "sc_value native (NatBig m) ''u64'' = Inr x"
    by (auto simp: sc_id_def rbind_Inr_iff map_sum_Inr_iff)
  from sc_value_inject [OF assms(1) n(2) m(2)] have "n = m" by simp
  with n(1) m(1) show ?thesis by (simp add: parse_stream_id_exact)
qed

lemma sc_address_inject:
  assumes "conv_injective native" "sc_address native a = Inr x" "sc_address native b = Inr x"
  shows "a = b"
  using assms by (auto simp: sc_address_def requireAddress_def rbind_Inr_iff split: if_splits dest: sc_value_inject)

lemma sc_i128_inject:
  "conv_injective native \<Longrightarrow> sc_i128 native n = Inr x \<Longrightarrow> sc_i128 native m = Inr x \<Longrightarrow> n = m"
  unfolding sc_i128_def by (blast dest: sc_value_inject)

text \<open>The part of an operation that reaches the contract.\<close>

fun on_chain :: "stream_op \<Rightarrow> stream_op" where
  "on_chain (CreateStreamOp payer p) = CreateStreamOp payer
     (p\<lparr>sp_cliffSeconds := None, sp_nonce := None, sp_skipAllowanceCheck := False, sp_lockUntil := None,
        sp_startTime := None, sp_namespace := Some (namespace_of p), sp_tag := None, sp_dryRun := False\<rparr>)"
| "on_chain x = x"

fun op_method :: "stream_op \<Rightarrow> string" where
  "op_method (CreateStreamOp payer p) = ''create_stream''"
| "op_method (WithdrawOp i r) = ''withdraw''"
| "op_method (CancelStreamOp i s) = ''cancel_stream''"
| "op_method (TopUpOp i s n) = ''top_up''"
| "op_method (UpdateFlowRateOp i s n) = ''update_flow_rate''"
| "op_method (SetOperatorOp i s x b) = ''set_operator''"
| "op_method (OperatorCancelOp i x) = ''operator_cancel_stream''"
| "op_method (OperatorTopUpOp i x n) = ''operator_top_up''"
| "op_method (SplitStreamOp s r) = ''split_stream''"
| "op_method (TransferStreamOp i s r) = ''transfer_stream''"
| "op_method (PauseStreamOp i s) = ''pause_stream''"
| "op_method (ResumeStreamOp i s) = ''resume_stream''"
| "op_method (AddDelegateOp x d) = ''add_delegate''"
| "op_method (RevokeDelegateOp x d) = ''revoke_delegate''"
| "op_method (LockStreamOp i s t) = ''lock_until''"

lemma call_contract_method: "call_contract m as = Inr c \<Longrightarrow> cc_method c = m"
  by (auto simp: call_contract_def rbind_Inr_iff)

lemma encode_method: "encode_op native a = Inr c \<Longrightarrow> cc_method c = op_method a"
  by (cases a) (auto simp: encode_create_def dest: call_contract_method split: if_splits)

text \<open>The arguments of the code's calls, in order.\<close>

fun op_args :: "('x, 'v) native_conv \<Rightarrow> stream_op \<Rightarrow> ('x encode_error + 'v) list" where
  "op_args nv (CreateStreamOp payer p) =
     [sc_value nv (NatString payer) ''address'', sc_value nv (NatString (sp_recipient p)) ''address'',
      sc_value nv (NatString (sp_token p)) ''address'', sc_i128 nv (sp_amount p),
      sc_value nv (NatNumber (sp_durationSeconds p)) ''u64'', sc_value nv (NatBool (sp_autoRenew p)) ''bool'',
      sc_value nv (NatString (namespace_of p)) ''string'']"
| "op_args nv (WithdrawOp i r) = [sc_id nv i, sc_address nv r]"
| "op_args nv (CancelStreamOp i s) = [sc_id nv i, sc_address nv s]"
| "op_args nv (TopUpOp i s n) = [sc_id nv i, sc_address nv s, sc_i128 nv n]"
| "op_args nv (UpdateFlowRateOp i s n) = [sc_id nv i, sc_address nv s, sc_i128 nv n]"
| "op_args nv (SetOperatorOp i s x b) =
     [sc_id nv i, sc_address nv s, sc_address nv x, sc_value nv (NatBool b) ''bool'']"
| "op_args nv (OperatorCancelOp i x) = [sc_id nv i, sc_address nv x]"
| "op_args nv (OperatorTopUpOp i x n) = [sc_id nv i, sc_address nv x, sc_i128 nv n]"
| "op_args nv (SplitStreamOp s r) =
     [sc_id nv (sr_streamId r), sc_address nv s, sc_value nv (NatNumber (sr_ratioNumerator r)) ''u64'',
      sc_value nv (NatNumber (sr_ratioDenominator r)) ''u64'', sc_address nv (sr_recipientA r),
      sc_address nv (sr_recipientB r)]"
| "op_args nv (TransferStreamOp i s r) = [sc_id nv i, sc_address nv s, sc_address nv r]"
| "op_args nv (PauseStreamOp i s) = [sc_id nv i, sc_address nv s]"
| "op_args nv (ResumeStreamOp i s) = [sc_id nv i, sc_address nv s]"
| "op_args nv (AddDelegateOp x d) = [sc_address nv x, sc_address nv d]"
| "op_args nv (RevokeDelegateOp x d) = [sc_address nv x, sc_address nv d]"
| "op_args nv (LockStreamOp i s t) = [sc_id nv i, sc_address nv s, sc_value nv (NatNumber t) ''u64'']"

lemma encode_args: "encode_op native a = Inr c \<Longrightarrow> contract_args (op_args native a) = Inr (cc_args c)"
  by (cases a) (simp_all add: encode_create_def call_contract_def split: if_splits, auto simp: rbind_Inr_iff)

lemma same_args_same_op:
  assumes inj: "conv_injective native" and same: "op_method a = op_method b"
    and args: "list_all2 agree (op_args native a) (op_args native b)"
  shows "on_chain a = on_chain b"
proof -
  have inject: "agree (sc_id native i) (sc_id native j) \<Longrightarrow> i = j"
    "agree (sc_address native x) (sc_address native y) \<Longrightarrow> x = y"
    "agree (sc_i128 native n) (sc_i128 native m) \<Longrightarrow> n = m"
    "agree (sc_value native v ty) (sc_value native w ty) \<Longrightarrow> v = w" for i j x y n m v w ty
    unfolding agree_def
    by (blast dest: sc_id_inject [OF inj] sc_address_inject [OF inj] sc_i128_inject [OF inj] sc_value_inject [OF inj])+
  show ?thesis
  proof (cases a)
    case (CreateStreamOp payer p)
    with same obtain payer' p' where b: "b = CreateStreamOp payer' p'" by (cases b) simp_all
    from args CreateStreamOp b have "payer = payer' \<and> sp_recipient p = sp_recipient p' \<and> sp_token p = sp_token p' \<and>
        sp_amount p = sp_amount p' \<and> sp_durationSeconds p = sp_durationSeconds p' \<and>
        sp_autoRenew p = sp_autoRenew p' \<and> namespace_of p = namespace_of p'"
      by (auto dest: inject)
    with CreateStreamOp b show ?thesis by simp
  next
    case (SplitStreamOp s r)
    with same obtain s' r' where b: "b = SplitStreamOp s' r'" by (cases b) simp_all
    with args SplitStreamOp have "s = s' \<and> r = r'" by (auto dest: inject intro!: split_request.equality)
    with SplitStreamOp b show ?thesis by simp
  qed (use same args in \<open>cases b; simp; auto dest: inject\<close>)+
qed


text \<open>Two streams that differ in the cliff are created by the same call.\<close>

definition demo_params :: "js_num option \<Rightarrow> stream_params" where
  "demo_params cliff = \<lparr>sp_recipient = ''GB'', sp_token = ''CC'', sp_amount = 100, sp_durationSeconds = Num 10,
     sp_autoRenew = False, sp_cliffSeconds = cliff, sp_nonce = None, sp_skipAllowanceCheck = False, sp_lockUntil = None,
     sp_startTime = None, sp_namespace = None, sp_tag = None, sp_dryRun = False\<rparr>"


end
