(* ===== verification/ClientWrites.thy ===== *)
theory ClientWrites
  imports ClientReads ContractCalls
begin

text \<open>
  The write methods of \<open>src/SoroStreamClient.ts\<close>: their checks, the operation they encode, the
  submission of \<^theory_text>\<open>SubmitTx\<close> and what they record afterwards. A method is a program over the client's
  state; its awaited calls are numbered, and the answer of each is a function of that number, so
  the environment may answer equal questions differently. While a call is awaited other code may
  run: \<open>wv_meanwhile\<close> is what it does to the state of \<^theory_text>\<open>ClientReads\<close>. Human-readable summaries and
  log lines are left out.
\<close>

section \<open>Environment and state\<close>

record fee_bump =
  fb_maxFee :: "js_num option"

record write_opts =
  wo_simulateOnly :: bool
  wo_dryRun :: bool
  wo_explain :: bool
  wo_strict :: bool
  wo_feeBump :: "fee_bump option"
  wo_memo :: "memo_input option"
  wo_timeoutMs :: "nat option"
  wo_timeout :: "nat option"

definition no_options :: write_opts where
  "no_options = \<lparr>wo_simulateOnly = False, wo_dryRun = False, wo_explain = False, wo_strict = False,
     wo_feeBump = None, wo_memo = None, wo_timeoutMs = None, wo_timeout = None\<rparr>"

text \<open>A simulation: an error, or a return value and a resource fee, either of which may be missing.\<close>

datatype sim_answer = SimError | SimSuccess "native option" "int option"

text \<open>\<open>get_version\<close>: nothing, a map (nonce flag, major version) or a scalar (\<open>None\<close> when not a number).\<close>

datatype version_answer = NoVersion | VersionMap bool "rat option" | VersionScalar "rat option"

datatype bus_event =
    RpcErrorEvent string
  | NetworkMismatchEvent network network
  | StreamCreatedEvent string string string string string
  | StreamWithdrawnEvent string int string
  | StreamCancelledEvent string string
  | StreamTransferredEvent string string string
  | CacheInvalidatedEvent "string option"

record 'v write_state =
  ws_client :: client
  ws_submit :: submit_state
  ws_clock :: nat
  ws_sent :: "'v contract_call list list"
  ws_bus :: "bus_event list"
  ws_namespaces :: "(string, string) jsmap"
  ws_federation :: "(string, string) jsmap"
  ws_ledgerTimestamp :: "(int \<times> int) option"
  ws_nonceSupported :: "bool option"

record ('e, 'acc, 'tx, 'v) write_env =
  wv_reader :: "'e error_reader"
  wv_native :: "('e, 'v) native_conv"
  wv_baseFee :: int
  wv_meanwhile :: "nat \<Rightarrow> client \<Rightarrow> client"
  wv_now :: "nat \<Rightarrow> int"
  wv_wallet :: "nat \<Rightarrow> ('e + string) option"
  wv_walletNetwork :: "nat \<Rightarrow> ('e + network) option"
  wv_throttle :: "nat \<Rightarrow> string \<Rightarrow> 'e + unit"
  wv_queue :: "nat \<Rightarrow> 'e + unit"
  wv_submission :: "nat \<Rightarrow> 'v contract_call list \<Rightarrow> ('e, 'acc, 'tx) submit_env"
  wv_nonce :: "nat \<Rightarrow> nonce option"
  wv_writeTimeout :: "nat option"
  wv_txTimeoutMs :: nat
  wv_defaultFeeBump :: "fee_bump option"
  wv_simulate :: "nat \<Rightarrow> 'v contract_call \<Rightarrow> 'e + sim_answer"
  wv_tokenCall :: "nat \<Rightarrow> string \<Rightarrow> string \<Rightarrow> 'e + sim_answer"
  wv_version :: "nat \<Rightarrow> 'e + version_answer"
  wv_account :: "nat \<Rightarrow> string \<Rightarrow> 'e + unit"
  wv_latestLedger :: "nat \<Rightarrow> 'e + int option"
  wv_listBySender :: "nat \<Rightarrow> string \<Rightarrow> 'e + stream list"
  wv_getStream :: "nat \<Rightarrow> string \<Rightarrow> 'e + stream"
  wv_getClaimable :: "nat \<Rightarrow> string \<Rightarrow> 'e + int"
  wv_resolveFederation :: "nat \<Rightarrow> string \<Rightarrow> 'e + string"
  wv_trustScore :: "(nat \<Rightarrow> string \<Rightarrow> 'e + unit) option"
  wv_validateCliff :: "(js_num \<Rightarrow> 'e + unit) option"
  wv_checkDuplicate :: bool

datatype 'e write_error =
    Threw 'e
  | NoWallet
  | NetworkMismatch network network
  | SubmissionFailed "'e submit_error"
  | EncodeFailed "'e encode_error"
  | FeeTooHigh
  | InsufficientAmountError
  | NegativeCliff
  | NonceNotSupported
  | InvalidAddress string
  | SelfStreamRejected
  | DuplicateStreamRejected
  | FieldTooLong string nat nat
  | ZeroDuration
  | MalformedStartTime
  | StartTimeInPast
  | LockOutsideStream
  | AccountNotFound string
  | InvalidTokenContract string
  | InsufficientAllowance string int int
  | ExplainFailed
  | LatestStreamNotFound
  | NoStreams
  | BadRatio
  | ArithmeticFailed sdk_error
  | DelegatorRequired

type_synonym ('e, 'v, 'a) wprog = "('v write_state, 'e write_error, 'a) prog"

section \<open>Calls\<close>

text \<open>An awaited call: its answer is that of its number, and other code runs before it returns.\<close>

definition tick :: "('e, 'acc, 'tx, 'v) write_env \<Rightarrow> 'v write_state \<Rightarrow> 'v write_state" where
  "tick env s = s\<lparr>ws_clock := Suc (ws_clock s), ws_client := wv_meanwhile env (ws_clock s) (ws_client s)\<rparr>"

definition awaited :: "('e, 'acc, 'tx, 'v) write_env \<Rightarrow> (nat \<Rightarrow> 'e + 'a) \<Rightarrow> ('e, 'v, 'a) wprog" where
  "awaited env q = (\<lambda>s. Some (tick env s, map_sum Threw id (q (ws_clock s))))"

definition date_now :: "('e, 'acc, 'tx, 'v) write_env \<Rightarrow> ('e, 'v, int) wprog" where
  "date_now env = sget (\<lambda>s. wv_now env (ws_clock s))"

definition bus_emit :: "bus_event \<Rightarrow> ('e, 'v, unit) wprog" where
  "bus_emit e = smodify (\<lambda>s. s\<lparr>ws_bus := ws_bus s @ [e]\<rparr>)"

definition requireWallet :: "('e, 'acc, 'tx, 'v) write_env \<Rightarrow> ('e, 'v, unit) wprog" where
  "requireWallet env = (\<lambda>s. Some (s, if wv_wallet env (ws_clock s) = None then Inl NoWallet else Inr ()))"

text \<open>\<open>await this.requireWalletAdapter().getPublicKey()\<close>.\<close>

definition publicKey :: "('e, 'acc, 'tx, 'v) write_env \<Rightarrow> ('e, 'v, string) wprog" where
  "publicKey env = (\<lambda>s. case wv_wallet env (ws_clock s) of
     None \<Rightarrow> Some (s, Inl NoWallet) | Some r \<Rightarrow> Some (tick env s, map_sum Threw id r))"

definition checkWalletNetwork :: "('e, 'acc, 'tx, 'v) write_env \<Rightarrow> ('e, 'v, unit) wprog" where
  "checkWalletNetwork env = (\<lambda>s.
     if wv_wallet env (ws_clock s) = None then Some (s, Inr ())
     else (case wv_walletNetwork env (ws_clock s) of
        None \<Rightarrow> Some (s, Inr ())
      | Some (Inl _) \<Rightarrow> Some (tick env s, Inr ())
      | Some (Inr actual) \<Rightarrow>
          (let s' = tick env s; own = cl_network (ws_client s')
           in if actual = own then Some (s', Inr ())
              else Some (s'\<lparr>ws_bus := ws_bus s' @ [NetworkMismatchEvent own actual]\<rparr>, Inl (NetworkMismatch own actual)))))"

definition resolveFeeBump :: "('e, 'acc, 'tx, 'v) write_env \<Rightarrow> write_opts \<Rightarrow> ('e, 'v, fee_bump option) wprog" where
  "resolveFeeBump env wo =
     (let opts = (case wo_feeBump wo of None \<Rightarrow> wv_defaultFeeBump env | Some f \<Rightarrow> Some f)
      in case opts of
           None \<Rightarrow> sreturn None
         | Some f \<Rightarrow> (case fb_maxFee f of
               None \<Rightarrow> sreturn (Some f)
             | Some m \<Rightarrow> if num_less (Num 10000) m then sthrow FeeTooHigh else sreturn (Some f)))"

definition write_timeout :: "('e, 'acc, 'tx, 'v) write_env \<Rightarrow> write_opts \<Rightarrow> nat" where
  "write_timeout env wo =
     (case wo_timeoutMs wo of Some t \<Rightarrow> t | None \<Rightarrow>
       (case wo_timeout wo of Some t \<Rightarrow> t | None \<Rightarrow>
         (case wv_writeTimeout env of Some t \<Rightarrow> t | None \<Rightarrow> wv_txTimeoutMs env)))"

section \<open>Submitting\<close>

text \<open>The submission of theory \<^theory_text>\<open>SubmitTx\<close> as one call of a write; \<open>ws_sent\<close> records what it was started for.\<close>

definition submission ::
    "('e, 'acc, 'tx, 'v) write_env \<Rightarrow> 'v contract_call list \<Rightarrow>
     (nat \<Rightarrow> ('e, 'a) sub) \<Rightarrow> ('e, 'v, 'a) wprog" where
  "submission env ops run = (\<lambda>s.
     case run (ws_clock s) (ws_submit s) of
       None \<Rightarrow> None
     | Some (sub', r) \<Rightarrow>
         Some ((tick env s)\<lparr>ws_submit := sub', ws_sent := ws_sent s @ [ops]\<rparr>, map_sum SubmissionFailed id r))"

definition buildAndSubmit ::
    "('e, 'acc, 'tx, 'v) write_env \<Rightarrow> 'v contract_call \<Rightarrow> string \<Rightarrow> write_opts \<Rightarrow> ('e, 'v, string \<times> int) wprog" where
  "buildAndSubmit env operation name wo =
     stry
       (sbind (checkWalletNetwork env) (\<lambda>_.
        sbind (requireWallet env) (\<lambda>_.
        sbind (awaited env (\<lambda>n. wv_throttle env n name)) (\<lambda>_.
        sbind (awaited env (wv_queue env)) (\<lambda>_.
        submission env [operation] (\<lambda>n. buildAndSubmitInner (wv_reader env) (wv_submission env n [operation])
          (wo_memo wo) (wv_nonce env n) (Some name) (write_timeout env wo)))))))
       (\<lambda>e. sbind (bus_emit (RpcErrorEvent name)) (\<lambda>_. sthrow e))"

definition buildAndSubmitBatch ::
    "('e, 'acc, 'tx, 'v) write_env \<Rightarrow> 'v contract_call list \<Rightarrow> string \<Rightarrow> ('e, 'v, string) wprog" where
  "buildAndSubmitBatch env operations name =
     sbind (awaited env (\<lambda>n. wv_throttle env n name)) (\<lambda>_.
     sbind (checkWalletNetwork env) (\<lambda>_.
     sbind (requireWallet env) (\<lambda>_.
     sbind (awaited env (wv_queue env)) (\<lambda>_.
     submission env operations (\<lambda>n. buildAndSubmitBatchInner (wv_reader env) (wv_submission env n operations))))))"

definition executeBatch :: "('e, 'acc, 'tx, 'v) write_env \<Rightarrow> 'v contract_call list \<Rightarrow> ('e, 'v, string) wprog" where
  "executeBatch env operations = buildAndSubmitBatch env operations ''batch''"

definition encoded :: "('e, 'acc, 'tx, 'v) write_env \<Rightarrow> stream_op \<Rightarrow> ('e, 'v, 'v contract_call) wprog" where
  "encoded env x = slift (map_sum EncodeFailed id (encode_op (wv_native env) x))"

text \<open>The common tail of the write methods: fee bump, submission.\<close>

definition submit_op ::
    "('e, 'acc, 'tx, 'v) write_env \<Rightarrow> 'v contract_call \<Rightarrow> string \<Rightarrow> write_opts \<Rightarrow> ('e, 'v, string \<times> int) wprog" where
  "submit_op env operation name wo =
     sbind (resolveFeeBump env wo) (\<lambda>_. buildAndSubmit env operation name wo)"

text \<open>The client's bookkeeping after a write.\<close>

definition note_timestamp :: "('e, 'acc, 'tx, 'v) write_env \<Rightarrow> string \<Rightarrow> int \<Rightarrow> ('e, 'v, unit) wprog" where
  "note_timestamp env i ledger = sbind (date_now env) (\<lambda>now.
     smodify (\<lambda>s. s\<lparr>ws_client := recordWriteTimestamp i ledger now (ws_client s)\<rparr>))"

definition note_ledger :: "string \<Rightarrow> int \<Rightarrow> ('e, 'v, unit) wprog" where
  "note_ledger i ledger = smodify (\<lambda>s. s\<lparr>ws_client := recordWriteLedger i ledger (ws_client s)\<rparr>)"

definition drop_cached :: "string \<Rightarrow> ('e, 'v, unit) wprog" where
  "drop_cached i = sbind (smodify (\<lambda>s. s\<lparr>ws_client := clearStreamCache (Some i) (ws_client s)\<rparr>))
     (\<lambda>_. bus_emit (CacheInvalidatedEvent (Some i)))"

section \<open>Checks before a stream is created\<close>

fun version_ok :: "version_answer \<Rightarrow> bool" where
  "version_ok NoVersion \<longleftrightarrow> False"
| "version_ok (VersionMap flag major) \<longleftrightarrow> flag \<or> (case major of None \<Rightarrow> False | Some m \<Rightarrow> 2 \<le> m)"
| "version_ok (VersionScalar v) \<longleftrightarrow> (case v of None \<Rightarrow> False | Some n \<Rightarrow> 2 \<le> n)"

definition supportsNonce :: "('e, 'acc, 'tx, 'v) write_env \<Rightarrow> ('e, 'v, bool) wprog" where
  "supportsNonce env = sbind (sget ws_nonceSupported) (\<lambda>known.
     case known of
       Some b \<Rightarrow> sreturn b
     | None \<Rightarrow>
         sbind (stry (sbind (awaited env (wv_version env)) (\<lambda>v. sreturn (version_ok v))) (\<lambda>_. sreturn False)) (\<lambda>b.
         sbind (smodify (\<lambda>s. s\<lparr>ws_nonceSupported := Some b\<rparr>)) (\<lambda>_. sreturn b)))"

text \<open>A missing nonce support is only an error in strict mode; otherwise it is a console warning.\<close>

definition check_nonce :: "('e, 'acc, 'tx, 'v) write_env \<Rightarrow> stream_params \<Rightarrow> write_opts \<Rightarrow> ('e, 'v, unit) wprog" where
  "check_nonce env p wo =
     (if sp_nonce p = None then sreturn ()
      else sbind (supportsNonce env) (\<lambda>ok. scheck (ok \<or> \<not> wo_strict wo) NonceNotSupported))"

definition validate_cliff :: "('e, 'acc, 'tx, 'v) write_env \<Rightarrow> js_num option \<Rightarrow> ('e, 'v, unit) wprog" where
  "validate_cliff env cliff =
     (let c = (case cliff of None \<Rightarrow> Num 0 | Some c \<Rightarrow> c)
      in case wv_validateCliff env of
           Some f \<Rightarrow> awaited env (\<lambda>_. f c)
         | None \<Rightarrow> scheck (\<not> num_less c (Num 0)) NegativeCliff)"

definition assertStellarAddress :: "string \<Rightarrow> ('e, 'v, string) wprog" where
  "assertStellarAddress a = (if isValidStellarAddress a then sreturn a else sthrow (InvalidAddress a))"

text \<open>An empty cached value counts as not cached.\<close>

definition resolve_recipient :: "('e, 'acc, 'tx, 'v) write_env \<Rightarrow> stream_params \<Rightarrow> ('e, 'v, stream_params) wprog" where
  "resolve_recipient env p =
     (if \<not> isFederationAddress (sp_recipient p) then sreturn p
      else sbind (sget (\<lambda>s. map_get (ws_federation s) (sp_recipient p))) (\<lambda>known.
        sbind (if known \<noteq> None \<and> known \<noteq> Some [] then sreturn (the known)
               else sbind (awaited env (\<lambda>n. wv_resolveFederation env n (sp_recipient p))) (\<lambda>a.
                    sbind (smodify (\<lambda>s. s\<lparr>ws_federation := map_set (sp_recipient p) a (ws_federation s)\<rparr>)) (\<lambda>_.
                    sreturn a))) (\<lambda>a.
        sbind (assertStellarAddress a) (\<lambda>a. sreturn (p\<lparr>sp_recipient := a\<rparr>)))))"

definition is_duplicate :: "stream_params \<Rightarrow> stream list \<Rightarrow> bool" where
  "is_duplicate p streams \<longleftrightarrow>
     list_ex (\<lambda>v. recipient v = sp_recipient p \<and> token v = sp_token p \<and> status v = Active) streams"

definition check_duplicate ::
    "('e, 'acc, 'tx, 'v) write_env \<Rightarrow> string \<Rightarrow> stream_params \<Rightarrow> ('e, 'v, unit) wprog" where
  "check_duplicate env payer p =
     (if wv_checkDuplicate env
      then sbind (awaited env (\<lambda>n. wv_listBySender env n payer)) (\<lambda>vs. scheck (\<not> is_duplicate p vs) DuplicateStreamRejected)
      else sreturn ())"

text \<open>The ledger's time in seconds; when the network does not answer, the local clock (not cached).\<close>

definition getLedgerTimestamp :: "('e, 'acc, 'tx, 'v) write_env \<Rightarrow> ('e, 'v, int) wprog" where
  "getLedgerTimestamp env =
     sbind (date_now env) (\<lambda>now.
     sbind (sget ws_ledgerTimestamp) (\<lambda>known.
       if (case known of None \<Rightarrow> False | Some (v, expires) \<Rightarrow> now < expires) then sreturn (fst (the known))
       else stry
         (sbind (awaited env (wv_latestLedger env)) (\<lambda>closed.
          sbind (date_now env) (\<lambda>later.
          (let ts = (case closed of Some c \<Rightarrow> c | None \<Rightarrow> later div 1000)
           in sbind (smodify (\<lambda>s. s\<lparr>ws_ledgerTimestamp := Some (ts, now + 5000)\<rparr>)) (\<lambda>_. sreturn ts)))))
         (\<lambda>_. sbind (date_now env) (\<lambda>later. sreturn (later div 1000)))))"

definition well_formed_time :: "js_num \<Rightarrow> bool" where
  "well_formed_time t \<longleftrightarrow> is_integer t \<and> \<not> num_less t (Num 0)"

definition assertFutureStartTime :: "js_num option \<Rightarrow> js_num \<Rightarrow> ('e, 'v, unit) wprog" where
  "assertFutureStartTime startAt ledgerNow =
     (case startAt of
        None \<Rightarrow> sreturn ()
      | Some t \<Rightarrow> sbind (scheck (well_formed_time t) MalformedStartTime) (\<lambda>_.
                  scheck (\<not> num_less t ledgerNow) StartTimeInPast))"

definition check_length :: "string \<Rightarrow> string \<Rightarrow> ('e, 'v, unit) wprog" where
  "check_length field v = (case validateStringLength field v of
     Inl (n, limit) \<Rightarrow> sthrow (FieldTooLong field n limit) | Inr _ \<Rightarrow> sreturn ())"

definition existing_account :: "('e, 'acc, 'tx, 'v) write_env \<Rightarrow> string \<Rightarrow> ('e, 'v, unit) wprog" where
  "existing_account env a = stry (awaited env (\<lambda>n. wv_account env n a)) (\<lambda>_. sthrow (AccountNotFound a))"

definition validateTokenContract :: "('e, 'acc, 'tx, 'v) write_env \<Rightarrow> string \<Rightarrow> ('e, 'v, unit) wprog" where
  "validateTokenContract env tok =
     sbind (awaited env (\<lambda>n. wv_tokenCall env n tok ''symbol'')) (\<lambda>res. scheck (res \<noteq> SimError) (InvalidTokenContract tok))"

text \<open>The checks of duration, start time and lock once the ledger's time is known.\<close>

definition times_ok :: "stream_params \<Rightarrow> int \<Rightarrow> bool" where
  "times_ok p ledgerNow \<longleftrightarrow>
     (let start = (case sp_startTime p of None \<Rightarrow> Num (of_int ledgerNow) | Some t \<Rightarrow> t);
          stop = num_add start (sp_durationSeconds p)
      in (case sp_startTime p of None \<Rightarrow> True | Some t \<Rightarrow> well_formed_time t \<and> \<not> num_less t (Num (of_int ledgerNow))) \<and>
         \<not> num_leq stop start \<and>
         (case sp_lockUntil p of None \<Rightarrow> True | Some l \<Rightarrow> \<not> num_less l start \<and> \<not> num_less stop l))"

definition check_times :: "stream_params \<Rightarrow> int \<Rightarrow> ('e, 'v, unit) wprog" where
  "check_times p ledgerNow =
     sbind (assertFutureStartTime (sp_startTime p) MinusInfinity) (\<lambda>_.
     sbind (scheck (case sp_startTime p of None \<Rightarrow> True | Some t \<Rightarrow> \<not> num_less t (Num (of_int ledgerNow))) StartTimeInPast) (\<lambda>_.
     (let start = (case sp_startTime p of None \<Rightarrow> Num (of_int ledgerNow) | Some t \<Rightarrow> t);
          stop = num_add start (sp_durationSeconds p)
      in sbind (scheck (\<not> num_leq stop start) ZeroDuration) (\<lambda>_.
         scheck (case sp_lockUntil p of None \<Rightarrow> True | Some l \<Rightarrow> \<not> (num_less l start \<or> num_less stop l)) LockOutsideStream))))"

definition validateStreamParams :: "('e, 'acc, 'tx, 'v) write_env \<Rightarrow> stream_params \<Rightarrow> ('e, 'v, unit) wprog" where
  "validateStreamParams env p =
     sbind (check_length ''recipient'' (sp_recipient p)) (\<lambda>_.
     sbind (check_length ''token'' (sp_token p)) (\<lambda>_.
     sbind (scheck (isValidStellarAddress (sp_recipient p)) (InvalidAddress (sp_recipient p))) (\<lambda>_.
     sbind (scheck (isValidStellarAddress (sp_token p)) (InvalidAddress (sp_token p))) (\<lambda>_.
     sbind (scheck (\<not> num_less (sp_durationSeconds p) (Num 1)) ZeroDuration) (\<lambda>_.
     sbind (scheck (is_integer (sp_durationSeconds p)) ZeroDuration) (\<lambda>_.
     sbind (getLedgerTimestamp env) (\<lambda>ledgerNow.
     sbind (check_times p ledgerNow) (\<lambda>_.
     sbind (existing_account env (sp_recipient p)) (\<lambda>_.
     sbind (publicKey env) (\<lambda>payer.
     sbind (existing_account env payer) (\<lambda>_.
     validateTokenContract env (sp_token p))))))))))))"

definition checkAllowance :: "('e, 'acc, 'tx, 'v) write_env \<Rightarrow> string \<Rightarrow> int \<Rightarrow> ('e, 'v, unit) wprog" where
  "checkAllowance env tok required =
     stry
       (sbind (publicKey env) (\<lambda>payer.
        sbind (awaited env (\<lambda>n. wv_tokenCall env n tok ''allowance'')) (\<lambda>res.
          case res of
            SimError \<Rightarrow> sreturn ()
          | SimSuccess retval fee \<Rightarrow> (case retval of
              None \<Rightarrow> sreturn ()
            | Some v \<Rightarrow> (case safeBigInt v of
                Inl _ \<Rightarrow> sreturn ()
              | Inr current \<Rightarrow> scheck (\<not> current < required) (InsufficientAllowance tok required current))))))
       (\<lambda>e. case e of InsufficientAllowance tok' r c \<Rightarrow> sthrow e | _ \<Rightarrow> sreturn ())"

section \<open>Creating a stream\<close>

record op_explanation =
  ox_addresses :: "string list"
  ox_deltas :: "(string \<times> string \<times> int) list"
  ox_estimatedFee :: int
  ox_minResourceFee :: int

datatype 'a write_outcome =
    Done 'a
  | ExplainedOp op_explanation
  | DryRunOp bool int
  | SimulatedOnly sim_answer

definition explainOperation ::
    "('e, 'acc, 'tx, 'v) write_env \<Rightarrow> 'v contract_call \<Rightarrow> string list \<Rightarrow> (string \<times> string \<times> int) list \<Rightarrow>
     ('e, 'v, 'a write_outcome) wprog" where
  "explainOperation env operation addresses deltas =
     sbind (publicKey env) (\<lambda>key.
     sbind (awaited env (\<lambda>n. wv_account env n key)) (\<lambda>_.
     sbind (awaited env (\<lambda>n. wv_simulate env n operation)) (\<lambda>res.
       case res of
         SimError \<Rightarrow> sthrow ExplainFailed
       | SimSuccess retval fee \<Rightarrow>
           (let minFee = (case fee of None \<Rightarrow> 0 | Some f \<Rightarrow> f)
            in sreturn (ExplainedOp \<lparr>ox_addresses = first_occurrences (filter (\<lambda>a. a \<noteq> []) addresses), ox_deltas = deltas,
                 ox_estimatedFee = wv_baseFee env + minFee, ox_minResourceFee = minFee\<rparr>)))))"

definition simulate_only :: "('e, 'acc, 'tx, 'v) write_env \<Rightarrow> 'v contract_call \<Rightarrow> ('e, 'v, 'a write_outcome) wprog" where
  "simulate_only env operation =
     sbind (awaited env (\<lambda>n. wv_simulate env n operation)) (\<lambda>res.
       sreturn (case res of
         SimError \<Rightarrow> DryRunOp False (wv_baseFee env)
       | SimSuccess retval fee \<Rightarrow> DryRunOp True (case fee of None \<Rightarrow> wv_baseFee env | Some f \<Rightarrow> f)))"

text \<open>Everything before the operation is encoded; the result is the sender and the resolved parameters.\<close>

definition create_checks ::
    "('e, 'acc, 'tx, 'v) write_env \<Rightarrow> stream_params \<Rightarrow> write_opts \<Rightarrow> ('e, 'v, string \<times> stream_params) wprog" where
  "create_checks env p0 wo =
     sbind (scheck (\<not> sp_amount p0 \<le> 0) InsufficientAmountError) (\<lambda>_.
     sbind (validate_cliff env (sp_cliffSeconds p0)) (\<lambda>_.
     sbind (check_nonce env p0 wo) (\<lambda>_.
     sbind (resolve_recipient env p0) (\<lambda>p.
     sbind (publicKey env) (\<lambda>payer.
     sbind (scheck (sp_recipient p \<noteq> payer) SelfStreamRejected) (\<lambda>_.
     sbind (case wv_trustScore env of None \<Rightarrow> sreturn () | Some f \<Rightarrow> awaited env (\<lambda>n. f n (sp_recipient p))) (\<lambda>_.
     sbind (check_duplicate env payer p) (\<lambda>_.
     sbind (validateStreamParams env p) (\<lambda>_.
     sbind (if sp_skipAllowanceCheck p then sreturn () else checkAllowance env (sp_token p) (sp_amount p)) (\<lambda>_.
     sreturn (payer, p)))))))))))"

text \<open>What is recorded once the transaction is confirmed; the new stream is the last one listed.\<close>

definition note_created ::
    "('e, 'acc, 'tx, 'v) write_env \<Rightarrow> string \<Rightarrow> stream_params \<Rightarrow> string \<Rightarrow> int \<Rightarrow> ('e, 'v, string \<times> string) wprog" where
  "note_created env payer p txHash ledger =
     sbind (awaited env (\<lambda>n. wv_listBySender env n payer)) (\<lambda>streams.
       if streams = [] then sthrow LatestStreamNotFound
       else (let i = stream_id (last streams)
             in sbind (note_timestamp env i ledger) (\<lambda>_.
                sbind (if namespace_of p = [] then sreturn ()
                       else smodify (\<lambda>s. s\<lparr>ws_namespaces := map_set i (namespace_of p) (ws_namespaces s)\<rparr>)) (\<lambda>_.
                sbind (bus_emit (StreamCreatedEvent i payer (sp_recipient p) (sp_token p) txHash)) (\<lambda>_.
                sreturn (i, txHash))))))"

definition client_createStream ::
    "('e, 'acc, 'tx, 'v) write_env \<Rightarrow> stream_params \<Rightarrow> write_opts \<Rightarrow>
     ('e, 'v, (string \<times> string) write_outcome) wprog" where
  "client_createStream env p0 wo =
     sbind (create_checks env p0 wo) (\<lambda>(payer, p).
     sbind (encoded env (CreateStreamOp payer p)) (\<lambda>operation.
       if wo_explain wo then
         explainOperation env operation [payer, sp_recipient p, sp_token p]
           [(payer, sp_token p, - sp_amount p), (sp_recipient p, sp_token p, sp_amount p)]
       else if wo_dryRun wo \<or> sp_dryRun p then simulate_only env operation
       else sbind (submit_op env operation ''createStream'' wo) (\<lambda>(txHash, ledger).
            sbind (note_created env payer p txHash ledger) (\<lambda>r. sreturn (Done r)))))"

end
