(* ===== verification/WriteMethods.thy ===== *)
theory WriteMethods
  imports ClientWrites
begin

text \<open>
  The remaining write methods of \<open>src/SoroStreamClient.ts\<close>: withdrawing, cancelling, topping up,
  operators, splits, transfers, pauses and delegates, each from its checks to its bookkeeping, and
  the batch methods, which submit the chunks of a list one transaction after the other.
\<close>

section \<open>Single streams\<close>

text \<open>\<open>await this.getStream(id).catch(() => null)\<close> and the token of the answer.\<close>

definition stream_or_null :: "('e, 'acc, 'tx, 'v) write_env \<Rightarrow> string \<Rightarrow> ('e, 'v, stream option) wprog" where
  "stream_or_null env i =
     stry (sbind (awaited env (\<lambda>n. wv_getStream env n i)) (\<lambda>v. sreturn (Some v))) (\<lambda>_. sreturn None)"

definition token_or_unknown :: "stream option \<Rightarrow> string" where
  "token_or_unknown v = (case v of None \<Rightarrow> ''(unknown token)'' | Some v \<Rightarrow> token v)"

definition client_withdraw ::
    "('e, 'acc, 'tx, 'v) write_env \<Rightarrow> string \<Rightarrow> write_opts \<Rightarrow> ('e, 'v, (string \<times> int) write_outcome) wprog" where
  "client_withdraw env i wo =
     sbind (publicKey env) (\<lambda>payee.
     sbind (awaited env (\<lambda>n. wv_getClaimable env n i)) (\<lambda>claimable.
     sbind (encoded env (WithdrawOp i payee)) (\<lambda>operation.
       if wo_explain wo then
         sbind (stream_or_null env i) (\<lambda>v.
         explainOperation env operation [payee, token_or_unknown v]
           (if 0 < claimable then [(payee, token_or_unknown v, claimable)] else []))
       else
         sbind (submit_op env operation ''withdraw'' wo) (\<lambda>(txHash, ledger).
         sbind (bus_emit (StreamWithdrawnEvent i claimable txHash)) (\<lambda>_.
         sbind (drop_cached i) (\<lambda>_. sreturn (Done (txHash, claimable))))))))"

text \<open>The refund an explained cancellation estimates: what the deposit exceeds the accrued amount by.\<close>

definition estimated_refund :: "stream option \<Rightarrow> int \<Rightarrow> sdk_error + int" where
  "estimated_refund v now =
     (case v of
        None \<Rightarrow> Inr 0
      | Some v \<Rightarrow> rbind (safeClaimable (flowRate v) (max 0 (now - startTime v)) (Some (deposit v)))
          (\<lambda>streamed. Inr (if deposit v > streamed then deposit v - streamed else 0)))"

definition client_cancelStream ::
    "('e, 'acc, 'tx, 'v) write_env \<Rightarrow> string \<Rightarrow> write_opts \<Rightarrow> ('e, 'v, string write_outcome) wprog" where
  "client_cancelStream env i wo =
     sbind (publicKey env) (\<lambda>payer.
     sbind (encoded env (CancelStreamOp i payer)) (\<lambda>operation.
       if wo_explain wo then
         sbind (stream_or_null env i) (\<lambda>v.
         sbind (date_now env) (\<lambda>now.
         sbind (slift (map_sum ArithmeticFailed id (estimated_refund v (now div 1000)))) (\<lambda>refund.
         explainOperation env operation [payer, token_or_unknown v]
           (if 0 < refund then [(payer, token_or_unknown v, refund)] else []))))
       else
         sbind (submit_op env operation ''cancelStream'' wo) (\<lambda>(txHash, ledger).
         sbind (note_timestamp env i ledger) (\<lambda>_.
         sbind (bus_emit (StreamCancelledEvent i txHash)) (\<lambda>_. sreturn (Done txHash))))))"

text \<open>A drain: both transactions (the second is the first when nothing was claimable), or the error of the second step.\<close>

datatype 'e drain_result =
    Drained string string int
  | DrainPartial string "'e write_error"

definition drain_withdraw ::
    "('e, 'acc, 'tx, 'v) write_env \<Rightarrow> string \<Rightarrow> write_opts \<Rightarrow> string \<Rightarrow> ('e, 'v, 'e drain_result) wprog" where
  "drain_withdraw env i wo cancelHash =
     sbind (publicKey env) (\<lambda>payee.
     sbind (awaited env (\<lambda>n. wv_getClaimable env n i)) (\<lambda>claimable.
       if claimable = 0 then sreturn (Drained cancelHash cancelHash 0)
       else
         sbind (encoded env (WithdrawOp i payee)) (\<lambda>withdrawOp.
         sbind (buildAndSubmit env withdrawOp ''withdraw'' wo) (\<lambda>(withdrawHash, _).
         sbind (bus_emit (StreamWithdrawnEvent i claimable withdrawHash)) (\<lambda>_.
         sreturn (Drained cancelHash withdrawHash claimable))))))"

definition client_drainFlow ::
    "('e, 'acc, 'tx, 'v) write_env \<Rightarrow> string \<Rightarrow> write_opts \<Rightarrow> ('e, 'v, 'e drain_result) wprog" where
  "client_drainFlow env i wo =
     sbind (publicKey env) (\<lambda>payer.
     sbind (encoded env (CancelStreamOp i payer)) (\<lambda>cancelOp.
     sbind (submit_op env cancelOp ''cancelStream'' wo) (\<lambda>(cancelHash, _).
     stry (drain_withdraw env i wo cancelHash) (\<lambda>e. sreturn (DrainPartial cancelHash e)))))"

definition client_topUp ::
    "('e, 'acc, 'tx, 'v) write_env \<Rightarrow> string \<Rightarrow> int \<Rightarrow> write_opts \<Rightarrow>
     ('e, 'v, (string \<times> int) write_outcome) wprog" where
  "client_topUp env i amount wo =
     sbind (scheck (\<not> amount \<le> 0) InsufficientAmountError) (\<lambda>_.
     sbind (publicKey env) (\<lambda>payer.
     sbind (encoded env (TopUpOp i payer amount)) (\<lambda>operation.
       if wo_explain wo then
         sbind (stream_or_null env i) (\<lambda>v.
         explainOperation env operation [payer, token_or_unknown v] [(payer, token_or_unknown v, - amount)])
       else
         sbind (submit_op env operation ''topUp'' wo) (\<lambda>(txHash, ledger).
         sbind (note_ledger i ledger) (\<lambda>_.
         sbind (drop_cached i) (\<lambda>_.
         sbind (awaited env (\<lambda>n. wv_getStream env n i)) (\<lambda>v.
         sreturn (Done (txHash, endTime v)))))))))"

text \<open>Methods that submit one operation of the connected wallet and return its hash.\<close>

definition simple_write ::
    "('e, 'acc, 'tx, 'v) write_env \<Rightarrow> (string \<Rightarrow> stream_op) \<Rightarrow> string \<Rightarrow> write_opts \<Rightarrow> ('e, 'v, string) wprog" where
  "simple_write env operation_of name wo =
     sbind (publicKey env) (\<lambda>key.
     sbind (encoded env (operation_of key)) (\<lambda>operation.
     sbind (submit_op env operation name wo) (\<lambda>(txHash, ledger). sreturn txHash)))"

definition client_updateFlowRate where
  "client_updateFlowRate env i rate wo =
     sbind (scheck (\<not> rate \<le> 0) InsufficientAmountError) (\<lambda>_.
     simple_write env (\<lambda>payer. UpdateFlowRateOp i payer rate) ''updateFlowRate'' wo)"

definition client_setOperator where
  "client_setOperator env i operator approved wo =
     simple_write env (\<lambda>payer. SetOperatorOp i payer operator approved) ''setOperator'' wo"

definition client_operatorCancelStream where
  "client_operatorCancelStream env i wo = simple_write env (OperatorCancelOp i) ''operatorCancelStream'' wo"

definition client_operatorTopUp where
  "client_operatorTopUp env i amount wo =
     sbind (scheck (\<not> amount \<le> 0) InsufficientAmountError) (\<lambda>_.
     simple_write env (\<lambda>operator. OperatorTopUpOp i operator amount) ''operatorTopUp'' wo)"

definition client_pause where
  "client_pause env i wo = sbind (simple_write env (PauseStreamOp i) ''pause'' wo) (\<lambda>txHash.
     sbind (drop_cached i) (\<lambda>_. sreturn txHash))"

definition client_resume where
  "client_resume env i wo = sbind (simple_write env (ResumeStreamOp i) ''resume'' wo) (\<lambda>txHash.
     sbind (drop_cached i) (\<lambda>_. sreturn txHash))"

definition client_transferStream where
  "client_transferStream env i newRecipient wo =
     sbind (scheck (isValidStellarAddress newRecipient) (InvalidAddress newRecipient)) (\<lambda>_.
     sbind (simple_write env (\<lambda>payer. TransferStreamOp i payer newRecipient) ''transferStream'' wo) (\<lambda>txHash.
     sbind (drop_cached i) (\<lambda>_. sreturn txHash)))"

definition client_transferRecipient where
  "client_transferRecipient env i newRecipient wo =
     sbind (scheck (isValidStellarAddress newRecipient) (InvalidAddress newRecipient)) (\<lambda>_.
     sbind (simple_write env (\<lambda>payer. TransferStreamOp i payer newRecipient) ''transferRecipient'' wo) (\<lambda>txHash.
     sbind (drop_cached i) (\<lambda>_.
     sbind (bus_emit (StreamTransferredEvent i newRecipient txHash)) (\<lambda>_. sreturn txHash))))"

text \<open>The two new streams are taken to be the last two listed; missing ones are the empty string.\<close>

definition last_two :: "stream list \<Rightarrow> string \<times> string" where
  "last_two vs =
     (case map stream_id (drop (length vs - 2) vs) of
        [] \<Rightarrow> ([], []) | [a] \<Rightarrow> (a, []) | a # b # _ \<Rightarrow> (a, b))"

definition client_splitStream ::
    "('e, 'acc, 'tx, 'v) write_env \<Rightarrow> split_request \<Rightarrow> write_opts \<Rightarrow> ('e, 'v, string \<times> string \<times> string) wprog" where
  "client_splitStream env r wo =
     sbind (scheck (\<not> (num_leq (sr_ratioNumerator r) (Num 0) \<or> num_leq (sr_ratioDenominator r) (Num 0))) BadRatio) (\<lambda>_.
     sbind (scheck (\<not> num_leq (sr_ratioDenominator r) (sr_ratioNumerator r)) BadRatio) (\<lambda>_.
     sbind (publicKey env) (\<lambda>payer.
     sbind (scheck (isValidStellarAddress (sr_recipientA r)) (InvalidAddress (sr_recipientA r))) (\<lambda>_.
     sbind (scheck (isValidStellarAddress (sr_recipientB r)) (InvalidAddress (sr_recipientB r))) (\<lambda>_.
     sbind (encoded env (SplitStreamOp payer r)) (\<lambda>operation.
     sbind (submit_op env operation ''splitStream'' wo) (\<lambda>(txHash, ledger).
     sbind (awaited env (\<lambda>n. wv_listBySender env n payer)) (\<lambda>streams.
     sreturn (txHash, last_two streams)))))))))"

text \<open>The delegation methods pass no timeout; \<open>''delegate''\<close> and \<open>''streamId''\<close> have no configured length limit.\<close>

definition without_timeouts :: "write_opts \<Rightarrow> write_opts" where
  "without_timeouts wo = wo\<lparr>wo_timeoutMs := None, wo_timeout := None\<rparr>"

definition check_delegate :: "string \<Rightarrow> ('e, 'v, unit) wprog" where
  "check_delegate d = sbind (check_length ''delegate'' d) (\<lambda>_. scheck (isValidStellarAddress d) (InvalidAddress d))"

definition client_addDelegate where
  "client_addDelegate env d wo = sbind (check_delegate d) (\<lambda>_.
     simple_write env (\<lambda>payer. AddDelegateOp payer d) ''addDelegate'' (without_timeouts wo))"

definition client_revokeDelegate where
  "client_revokeDelegate env d wo = sbind (check_delegate d) (\<lambda>_.
     simple_write env (\<lambda>payer. RevokeDelegateOp payer d) ''revokeDelegate'' (without_timeouts wo))"

definition stream_delegation ::
    "('e, 'acc, 'tx, 'v) write_env \<Rightarrow> string \<Rightarrow> string \<Rightarrow> string \<Rightarrow> string \<Rightarrow> write_opts \<Rightarrow> ('e, 'v, string) wprog" where
  "stream_delegation env method name i d wo =
     sbind (check_length ''streamId'' i) (\<lambda>_.
     sbind (check_delegate d) (\<lambda>_.
     sbind (publicKey env) (\<lambda>payer.
     sbind (slift (map_sum EncodeFailed id (stream_delegate_call (wv_native env) method payer i d))) (\<lambda>operation.
     sbind (submit_op env operation name (without_timeouts wo)) (\<lambda>(txHash, ledger). sreturn txHash)))))"

definition client_grantDelegate where
  "client_grantDelegate env i d wo = stream_delegation env ''grant_stream_delegate'' ''grantDelegate'' i d wo"

definition client_revokeDelegateFromStream where
  "client_revokeDelegateFromStream env i d wo =
     stream_delegation env ''revoke_stream_delegate'' ''revokeDelegateFromStream'' i d wo"

definition client_cloneStream ::
    "('e, 'acc, 'tx, 'v) write_env \<Rightarrow> string \<Rightarrow> (stream_params \<Rightarrow> stream_params) \<Rightarrow> write_opts \<Rightarrow>
     ('e, 'v, (string \<times> string) write_outcome) wprog" where
  "client_cloneStream env i overrides wo =
     sbind (awaited env (\<lambda>n. wv_getStream env n i)) (\<lambda>v.
     client_createStream env (overrides
       \<lparr>sp_recipient = recipient v, sp_token = token v, sp_amount = deposit v,
        sp_durationSeconds = Num (of_int (endTime v - startTime v)), sp_autoRenew = autoRenew v,
        sp_cliffSeconds = None, sp_nonce = None, sp_skipAllowanceCheck = False, sp_lockUntil = None,
        sp_startTime = None, sp_namespace = None, sp_tag = None, sp_dryRun = False\<rparr>) wo)"

end
