(* ===== verification/BatchWrites.thy ===== *)
theory BatchWrites
  imports WriteMethods "HOL-Library.Multiset"
begin

text \<open>
  The write methods of \<open>src/SoroStreamClient.ts\<close> that work on lists: \<open>createStreams\<close>, \<open>batchWithdraw\<close>,
  \<open>batchCancel\<close> and \<open>bulkCreateStreams\<close>. The last three cut their list into chunks of a size the
  caller gives and submit one transaction for each; progress callbacks may throw.
\<close>

section \<open>Chunks\<close>

text \<open>\<open>xs.slice(a, b)\<close>: negative indices count from the end.\<close>

definition slice_index :: "int \<Rightarrow> 'a list \<Rightarrow> nat" where
  "slice_index k xs = (if k < 0 then nat (int (length xs) + k) else min (nat k) (length xs))"

definition js_slice :: "int \<Rightarrow> int \<Rightarrow> 'a list \<Rightarrow> 'a list" where
  "js_slice a b xs = take (slice_index b xs - slice_index a xs) (drop (slice_index a xs) xs)"

text \<open>\<open>for (let i = 0; i < xs.length; i += batchSize)\<close> over the chunk \<open>xs.slice(i, i + batchSize)\<close>.\<close>

partial_function (option) chunk_loop ::
    "(int \<Rightarrow> 'i list \<Rightarrow> 'a \<Rightarrow> ('s, 'x, 'a) prog) \<Rightarrow> 'i list \<Rightarrow> int \<Rightarrow> int \<Rightarrow> 'a \<Rightarrow> 's \<Rightarrow> ('s \<times> ('x + 'a)) option" where
  "chunk_loop body xs width i acc s =
     (if i < int (length xs) then
        (case body i (js_slice i (i + width) xs) acc s of
           None \<Rightarrow> None
         | Some (s', r) \<Rightarrow>
             (case r of Inl e \<Rightarrow> Some (s', Inl e) | Inr acc' \<Rightarrow> chunk_loop body xs width (i + width) acc' s'))
      else Some (s, Inr acc))"

section \<open>Methods\<close>

fun check_rows :: "('e, 'acc, 'tx, 'v) write_env \<Rightarrow> int \<Rightarrow> string set \<Rightarrow> stream_params list \<Rightarrow> ('e, 'v, unit) wprog" where
  "check_rows env ledgerNow validated [] = sreturn ()"
| "check_rows env ledgerNow validated (p # ps) =
     sbind (scheck (\<not> sp_amount p \<le> 0) InsufficientAmountError) (\<lambda>_.
     sbind (scheck (\<not> num_leq (sp_durationSeconds p) (Num 0)) ZeroDuration) (\<lambda>_.
     sbind (if sp_token p \<in> validated then sreturn () else validateTokenContract env (sp_token p)) (\<lambda>_.
     sbind (assertFutureStartTime (sp_startTime p) (Num (of_int ledgerNow))) (\<lambda>_.
     check_rows env ledgerNow (insert (sp_token p) validated) ps))))"

definition last_ids :: "nat \<Rightarrow> stream list \<Rightarrow> string list" where
  "last_ids n vs = map stream_id (if n = 0 then vs else drop (length vs - n) vs)"

definition client_createStreams ::
    "('e, 'acc, 'tx, 'v) write_env \<Rightarrow> stream_params list \<Rightarrow> write_opts \<Rightarrow>
     ('e, 'v, (string list \<times> string) write_outcome) wprog" where
  "client_createStreams env ps wo =
     sbind (scheck (ps \<noteq> []) NoStreams) (\<lambda>_.
     sbind (getLedgerTimestamp env) (\<lambda>ledgerNow.
     sbind (check_rows env ledgerNow {} ps) (\<lambda>_.
     sbind (publicKey env) (\<lambda>payer.
     sbind (smap (\<lambda>p. encoded env (CreateStreamOp payer p)) ps) (\<lambda>operations.
       if wo_simulateOnly wo then
         sbind (awaited env (\<lambda>n. wv_simulate env n (hd operations))) (\<lambda>res. sreturn (SimulatedOnly res))
       else
         sbind (buildAndSubmitBatch env operations ''createStreams'') (\<lambda>txHash.
         sbind (awaited env (\<lambda>n. wv_listBySender env n payer)) (\<lambda>listed.
         sreturn (Done (last_ids (length ps) listed, txHash)))))))))"

type_synonym 'e progress_hook = "nat \<times> nat \<times> string list \<Rightarrow> 'e + unit"

type_synonym 'e withdraw_tally = "string list \<times> (string \<times> 'e write_error) list \<times> nat"

text \<open>The claimable amounts are fetched (failures count as 0) and then not used.\<close>

definition withdraw_chunk ::
    "('e, 'acc, 'tx, 'v) write_env \<Rightarrow> 'e progress_hook \<Rightarrow> nat \<Rightarrow> string \<Rightarrow> int \<Rightarrow> string list \<Rightarrow> 'e withdraw_tally \<Rightarrow>
     ('e, 'v, 'e withdraw_tally) wprog" where
  "withdraw_chunk env onProgress rowCount payee i chunk = (\<lambda>(successes, failures, completed).
     sbind (smap (\<lambda>k. stry (awaited env (\<lambda>n. wv_getClaimable env n k)) (\<lambda>_. sreturn 0)) chunk) (\<lambda>amounts.
     sbind (stry
         (sbind (smap (\<lambda>k. encoded env (WithdrawOp k payee)) chunk) (\<lambda>operations.
          sbind (executeBatch env operations) (\<lambda>_. sreturn (successes @ chunk, failures))))
         (\<lambda>e. sreturn (successes, failures @ map (\<lambda>k. (k, e)) chunk))) (\<lambda>(successes', failures').
     sbind (slift (map_sum Threw id (onProgress (completed + length chunk, rowCount, chunk)))) (\<lambda>_.
     sreturn (successes', failures', completed + length chunk)))))"

definition batchWithdraw ::
    "('e, 'acc, 'tx, 'v) write_env \<Rightarrow> 'e progress_hook \<Rightarrow> string list \<Rightarrow> int \<Rightarrow>
     ('e, 'v, string list \<times> (string \<times> 'e write_error) list) wprog" where
  "batchWithdraw env onProgress ids width =
     sbind (publicKey env) (\<lambda>payee.
     sbind (chunk_loop (withdraw_chunk env onProgress (length ids) payee) ids width 0 ([], [], 0)) (\<lambda>(successes, failures, _).
     sreturn (successes, failures)))"

definition cancel_chunk ::
    "('e, 'acc, 'tx, 'v) write_env \<Rightarrow> string \<Rightarrow> int \<Rightarrow> string list \<Rightarrow> (string \<times> string list) list \<Rightarrow>
     ('e, 'v, (string \<times> string list) list) wprog" where
  "cancel_chunk env payer i chunk results =
     sbind (smap (\<lambda>k. encoded env (CancelStreamOp k payer)) chunk) (\<lambda>operations.
     sbind (executeBatch env operations) (\<lambda>txHash. sreturn (results @ [(txHash, chunk)])))"

definition client_batchCancel ::
    "('e, 'acc, 'tx, 'v) write_env \<Rightarrow> string list \<Rightarrow> int \<Rightarrow> ('e, 'v, (string \<times> string list) list) wprog" where
  "client_batchCancel env ids width =
     sbind (publicKey env) (\<lambda>payer. chunk_loop (cancel_chunk env payer) ids width 0 [])"

record bulk_row =
  br_recipient :: string
  br_amount :: int
  br_durationSeconds :: js_num
  br_token :: "string option"
  br_cliffSeconds :: "js_num option"

record 'e bulk_tally =
  bl_results :: "(string \<times> string list \<times> bulk_row list) list"
  bl_failed :: "(int \<times> bulk_row \<times> 'e write_error) list"
  bl_completed :: nat

datatype 'e bulk_outcome =
    BulkCreated "(string \<times> string list \<times> bulk_row list) list"
  | BulkPartial "(string \<times> string list \<times> bulk_row list) list" "(int \<times> bulk_row \<times> 'e write_error) list"

definition row_token :: "string \<Rightarrow> bulk_row \<Rightarrow> string" where
  "row_token defaultToken r = (case br_token r of None \<Rightarrow> defaultToken | Some t \<Rightarrow> t)"

text \<open>The parameters of a row: its cliff is validated but not part of the operation.\<close>

definition row_params :: "string \<Rightarrow> bool \<Rightarrow> bulk_row \<Rightarrow> stream_params" where
  "row_params defaultToken renew r =
     \<lparr>sp_recipient = br_recipient r, sp_token = row_token defaultToken r, sp_amount = br_amount r,
      sp_durationSeconds = br_durationSeconds r, sp_autoRenew = renew, sp_cliffSeconds = None, sp_nonce = None,
      sp_skipAllowanceCheck = False, sp_lockUntil = None, sp_startTime = None, sp_namespace = None, sp_tag = None,
      sp_dryRun = False\<rparr>"

definition listed_after ::
    "('e, 'acc, 'tx, 'v) write_env \<Rightarrow> string \<Rightarrow> nat \<Rightarrow> ('e, 'v, string list) wprog" where
  "listed_after env payer n =
     sbind (awaited env (\<lambda>k. wv_listBySender env k payer)) (\<lambda>vs. sreturn (last_ids n vs))"

definition report ::
    "'e progress_hook \<Rightarrow> nat \<Rightarrow> nat \<Rightarrow> string list \<Rightarrow> 'e bulk_tally \<Rightarrow> ('e, 'v, 'e bulk_tally) wprog" where
  "report onProgress rowCount n ids t =
     (let t' = t\<lparr>bl_completed := bl_completed t + n\<rparr>
      in sbind (slift (map_sum Threw id (onProgress (bl_completed t', rowCount, ids)))) (\<lambda>_. sreturn t'))"

text \<open>A chunk with a token of its own: one transaction for each row.\<close>

fun bulk_rows ::
    "('e, 'acc, 'tx, 'v) write_env \<Rightarrow> 'e progress_hook \<Rightarrow> nat \<Rightarrow> string \<Rightarrow> string \<Rightarrow> bool \<Rightarrow> int \<Rightarrow> bulk_row list \<Rightarrow>
     'e bulk_tally \<Rightarrow> ('e, 'v, 'e bulk_tally) wprog" where
  "bulk_rows env onProgress rowCount payer defaultToken renew k [] t = sreturn t"
| "bulk_rows env onProgress rowCount payer defaultToken renew k (r # rs) t =
     sbind (stry
         (sbind (encoded env (CreateStreamOp payer (row_params defaultToken renew r))) (\<lambda>operation.
          sbind (buildAndSubmit env operation ''bulkCreateStreams'' no_options) (\<lambda>(txHash, _).
          sbind (listed_after env payer 1) (\<lambda>ids. sreturn (t\<lparr>bl_results := bl_results t @ [(txHash, ids, [r])]\<rparr>)))))
         (\<lambda>e. sreturn (t\<lparr>bl_failed := bl_failed t @ [(k, r, e)]\<rparr>))) (\<lambda>t'.
     sbind (report onProgress rowCount 1 [br_recipient r] t') (\<lambda>t''.
     bulk_rows env onProgress rowCount payer defaultToken renew (k + 1) rs t''))"

definition bulk_chunk ::
    "('e, 'acc, 'tx, 'v) write_env \<Rightarrow> 'e progress_hook \<Rightarrow> nat \<Rightarrow> string \<Rightarrow> string \<Rightarrow> bool \<Rightarrow> int \<Rightarrow> bulk_row list \<Rightarrow>
     'e bulk_tally \<Rightarrow> ('e, 'v, 'e bulk_tally) wprog" where
  "bulk_chunk env onProgress rowCount payer defaultToken renew i chunk t =
     (if list_ex (\<lambda>r. br_token r \<noteq> None \<and> br_token r \<noteq> Some defaultToken) chunk
      then bulk_rows env onProgress rowCount payer defaultToken renew i chunk t
      else
        sbind (stry
            (sbind (smap (\<lambda>r. encoded env (CreateStreamOp payer (row_params defaultToken renew r))) chunk) (\<lambda>operations.
             sbind (executeBatch env operations) (\<lambda>txHash.
             sbind (listed_after env payer (length chunk)) (\<lambda>ids.
             sreturn (t\<lparr>bl_results := bl_results t @ [(txHash, ids, chunk)]\<rparr>)))))
            (\<lambda>e. sreturn (t\<lparr>bl_failed := bl_failed t @
               map (\<lambda>j. (i + int j, chunk ! j, e)) [0..<length chunk]\<rparr>))) (\<lambda>t'.
        report onProgress rowCount (length chunk) (map br_recipient chunk) t'))"

definition bulkCreateStreams ::
    "('e, 'acc, 'tx, 'v) write_env \<Rightarrow> 'e progress_hook \<Rightarrow> bulk_row list \<Rightarrow> string \<Rightarrow> bool option \<Rightarrow> int option \<Rightarrow>
     ('e, 'v, 'e bulk_outcome) wprog" where
  "bulkCreateStreams env onProgress rows defaultToken renew width =
     sbind (publicKey env) (\<lambda>payer.
     sbind (sforeach (\<lambda>r. validate_cliff env (br_cliffSeconds r)) rows) (\<lambda>_.
     sbind (sforeach (validateTokenContract env)
       (first_occurrences (filter (\<lambda>t. t \<noteq> []) (defaultToken # List.map_filter br_token rows)))) (\<lambda>_.
     sbind (chunk_loop (bulk_chunk env onProgress (length rows) payer defaultToken
         (case renew of None \<Rightarrow> False | Some b \<Rightarrow> b)) rows (case width of None \<Rightarrow> 8 | Some n \<Rightarrow> n) 0
         \<lparr>bl_results = [], bl_failed = [], bl_completed = 0\<rparr>) (\<lambda>t.
     sreturn (if bl_failed t = [] then BulkCreated (bl_results t) else BulkPartial (bl_results t) (bl_failed t))))))"

end
