(* ===== verification/WriteProps.thy ===== *)
theory WriteProps
  imports BatchWrites
begin

text \<open>
  What the write methods promise: which operations they submit and under which conditions, what
  happens in explain and dry-run mode, and how the batch methods account for every stream. The
  first section has one rule for each building block of the methods; \<open>unsent\<close> says that nothing has
  been submitted since some state.
\<close>

section \<open>Rules for the building blocks\<close>

definition unsent :: "'v write_state \<Rightarrow> 'v write_state \<Rightarrow> bool" where
  "unsent s0 s \<longleftrightarrow> ws_sent s = ws_sent s0 \<and> ws_submit s = ws_submit s0"

lemma unsent_refl [simp]: "unsent s s" by (simp add: unsent_def)

lemma unsent_tick [simp]: "unsent s0 (tick env s) = unsent s0 s"
  by (simp add: unsent_def tick_def)

lemma unsent_update [simp]:
  "unsent s0 (s\<lparr>ws_client := c\<rparr>) = unsent s0 s" "unsent s0 (s\<lparr>ws_bus := b\<rparr>) = unsent s0 s"
  "unsent s0 (s\<lparr>ws_namespaces := n\<rparr>) = unsent s0 s" "unsent s0 (s\<lparr>ws_federation := f\<rparr>) = unsent s0 s"
  "unsent s0 (s\<lparr>ws_ledgerTimestamp := t\<rparr>) = unsent s0 s" "unsent s0 (s\<lparr>ws_nonceSupported := x\<rparr>) = unsent s0 s"
  by (simp_all add: unsent_def)

text \<open>A state property that the awaited calls and the bookkeeping do not touch.\<close>

definition blind :: "('e, 'acc, 'tx, 'v) write_env \<Rightarrow> ('v write_state \<Rightarrow> bool) \<Rightarrow> bool" where
  "blind env I \<longleftrightarrow> (\<forall>s. I s \<longrightarrow> I (tick env s) \<and> (\<forall>c. I (s\<lparr>ws_client := c\<rparr>)) \<and> (\<forall>b. I (s\<lparr>ws_bus := b\<rparr>)) \<and>
     (\<forall>n. I (s\<lparr>ws_namespaces := n\<rparr>)) \<and> (\<forall>f. I (s\<lparr>ws_federation := f\<rparr>)) \<and>
     (\<forall>t. I (s\<lparr>ws_ledgerTimestamp := t\<rparr>)) \<and> (\<forall>x. I (s\<lparr>ws_nonceSupported := x\<rparr>)))"

lemma blindD:
  assumes "blind env I" "I s"
  shows "I (tick env s)" "I (s\<lparr>ws_client := c\<rparr>)" "I (s\<lparr>ws_bus := b\<rparr>)" "I (s\<lparr>ws_namespaces := n\<rparr>)"
    "I (s\<lparr>ws_federation := f\<rparr>)" "I (s\<lparr>ws_ledgerTimestamp := t\<rparr>)" "I (s\<lparr>ws_nonceSupported := x\<rparr>)"
  using assms unfolding blind_def by blast+

lemma blind_unsent: "blind env (unsent s0)"
  by (simp add: blind_def)

lemma keeps_calls:
  assumes "blind env I"
  shows "keeps I (awaited env q)" "keeps I (publicKey env)" "keeps I (requireWallet env)"
    "keeps I (checkWalletNetwork env)" "keeps I (date_now env)" "keeps I (bus_emit e)"
    "keeps I (note_timestamp env i ledger)" "keeps I (note_ledger i ledger)" "keeps I (drop_cached i)"
    "keeps I (resolveFeeBump env wo)" "keeps I (encoded env x)"
proof -
  note D = blindD [OF assms]
  show "keeps I (awaited env q)" "keeps I (publicKey env)" "keeps I (requireWallet env)" "keeps I (checkWalletNetwork env)"
    by (auto simp: sub_triple_def awaited_def publicKey_def requireWallet_def checkWalletNetwork_def Let_def
        intro!: D split: sum.split option.splits if_splits sum.splits)
  show now: "keeps I (date_now env)" by (simp add: date_now_def keeps_get)
  show bus: "keeps I (bus_emit e)" for e by (auto simp: bus_emit_def intro!: keeps_modify D)
  show "keeps I (note_timestamp env i ledger)"
    by (auto simp: note_timestamp_def intro!: keeps_bind keeps_modify now D)
  show "keeps I (note_ledger i ledger)" "keeps I (drop_cached i)"
    by (auto simp: note_ledger_def drop_cached_def intro!: keeps_bind keeps_modify bus D)
  show "keeps I (resolveFeeBump env wo)"
    by (auto simp: resolveFeeBump_def Let_def keeps_lift split: option.split)
  show "keeps I (encoded env x)" by (simp add: encoded_def keeps_lift)
qed

lemma keeps_checks:
  assumes I: "blind env I"
  shows "keeps I (validate_cliff env c)" "keeps I (check_nonce env p wo)" "keeps I (resolve_recipient env p)"
    "keeps I (check_duplicate env payer p)" "keeps I (getLedgerTimestamp env)" "keeps I (check_length field v)"
    "keeps I (existing_account env a)" "keeps I (validateTokenContract env a)" "keeps I (checkAllowance env a n)"
    "keeps I (assertStellarAddress a)" "keeps I (assertFutureStartTime st lo)" "keeps I (check_times p t)"
proof -
  note D = blindD [OF I] and C = keeps_calls [OF I]
  have nonce: "keeps I (supportsNonce env)"
    unfolding supportsNonce_def by (intro keeps_intros keeps_modify C D)
  show addr: "keeps I (assertStellarAddress a)" for a
    unfolding assertStellarAddress_def by (intro keeps_intros)
  show future: "keeps I (assertFutureStartTime st lo)" for st lo
    unfolding assertFutureStartTime_def by (intro keeps_intros)
  show "keeps I (check_times p t)"
    unfolding check_times_def Let_def by (intro keeps_intros future)
  show "keeps I (validate_cliff env c)" unfolding validate_cliff_def Let_def by (intro keeps_intros C)
  show "keeps I (check_nonce env p wo)" unfolding check_nonce_def by (intro keeps_intros nonce)
  show "keeps I (resolve_recipient env p)"
    unfolding resolve_recipient_def by (intro keeps_intros keeps_modify C addr D)
  show "keeps I (check_duplicate env payer p)" unfolding check_duplicate_def by (intro keeps_intros C)
  show "keeps I (getLedgerTimestamp env)"
    unfolding getLedgerTimestamp_def Let_def by (intro keeps_intros keeps_modify C D)
  show "keeps I (check_length field v)"
    unfolding check_length_def by (auto simp: keeps_lift split: sum.split prod.split)
  show "keeps I (existing_account env a)" unfolding existing_account_def by (intro keeps_intros C)
  show "keeps I (validateTokenContract env a)" unfolding validateTokenContract_def by (intro keeps_intros C)
  have "keeps I (case res of SimError \<Rightarrow> sreturn () | SimSuccess retval fee \<Rightarrow> (case retval of None \<Rightarrow> sreturn ()
      | Some v \<Rightarrow> (case safeBigInt v of Inl _ \<Rightarrow> sreturn () | Inr current \<Rightarrow>
          scheck (\<not> current < n) (InsufficientAllowance a n current))))" for res :: sim_answer
    by (auto simp: keeps_lift keeps_check split: sim_answer.split option.split sum.split)
  moreover have "keeps I (case e of InsufficientAllowance tok' r c \<Rightarrow> sthrow e | _ \<Rightarrow> sreturn ())" for e :: "'a write_error"
    by (cases e) (simp_all add: keeps_lift)
  ultimately show "keeps I (checkAllowance env a n)"
    unfolding checkAllowance_def by (intro keeps_intros C)
qed

lemma keeps_explain:
  assumes "blind env I"
  shows "keeps I (explainOperation env op as ds)" "keeps I (simulate_only env op)" "keeps I (stream_or_null env i)"
proof -
  note C = keeps_calls [OF assms]
  show "keeps I (explainOperation env op as ds)"
    unfolding explainOperation_def Let_def
    by (intro keeps_intros C) (simp add: keeps_lift split: sim_answer.split)
  show "keeps I (simulate_only env op)" "keeps I (stream_or_null env i)"
    unfolding simulate_only_def stream_or_null_def by (intro keeps_intros C)+
qed

section \<open>Submissions\<close>

text \<open>
  \<open>sent env wo op s0 s\<close>: since \<open>s0\<close> exactly one submission was started, for \<open>op\<close>, and the network was given
  nothing but envelopes authorised for it (\<open>sent_only\<close> of \<^theory_text>\<open>SubmitTx\<close>).
\<close>

definition sent ::
    "('e, 'acc, 'tx, 'v) write_env \<Rightarrow> write_opts \<Rightarrow> 'v contract_call \<Rightarrow> 'v write_state \<Rightarrow> 'v write_state \<Rightarrow> bool" where
  "sent env wo operation s0 s \<longleftrightarrow> ws_sent s = ws_sent s0 @ [[operation]] \<and>
     (\<exists>n. sent_only (wv_submission env n [operation])
        (\<lambda>m. memo_for (wo_memo wo) (wv_nonce env n) = (Inr m :: 'e submit_error + memo option)) (ws_submit s0) (ws_submit s))"

text \<open>The network accepted a transaction for \<open>op\<close> under this hash and reported it as successful.\<close>

definition accepted :: "('e, 'acc, 'tx, 'v) write_env \<Rightarrow> 'v contract_call list \<Rightarrow> string \<Rightarrow> bool" where
  "accepted env operations h \<longleftrightarrow> (\<exists>n x k i l.
     re_raw (en_send (wv_submission env n operations) x) k = Inr (SendAccepted h) \<and>
     en_polled (wv_submission env n operations) h i = Succeeded l)"

lemma blind_sent: "blind env (sent env wo operation s0)"
  by (simp add: blind_def sent_def tick_def)

lemma blind_disj: "blind env I \<Longrightarrow> blind env J \<Longrightarrow> blind env (\<lambda>s. I s \<or> J s)"
  unfolding blind_def by blast

lemma buildAndSubmit_triple:
  fixes env :: "('e, 'acc, 'tx, 'v) write_env"
  shows "sub_triple (unsent s0) (buildAndSubmit env operation name wo)
     (\<lambda>(h, ledger) s. sent env wo operation s0 s \<and> accepted env [operation] h)
     (\<lambda>s. unsent s0 s \<or> sent env wo operation s0 s)"
proof -
  let ?E = "\<lambda>s. unsent s0 s \<or> sent env wo operation s0 s"
  note C = keeps_calls [OF blind_unsent [of env s0]] and CE = keeps_calls [OF blind_disj [OF blind_unsent [of env s0] blind_sent]]
  have sub: "sub_triple (unsent s0) (submission env [operation] (\<lambda>n. buildAndSubmitInner (wv_reader env)
      (wv_submission env n [operation]) (wo_memo wo) (wv_nonce env n) (Some name) (write_timeout env wo)))
    (\<lambda>(h, ledger) s. sent env wo operation s0 s \<and> accepted env [operation] h) ?E"
    unfolding sub_triple_def
  proof (intro allI impI)
    fix s s' r assume un: "unsent s0 s" and run: "submission env [operation] (\<lambda>n. buildAndSubmitInner (wv_reader env)
      (wv_submission env n [operation]) (wo_memo wo) (wv_nonce env n) (Some name) (write_timeout env wo)) s = Some (s', r)"
    let ?n = "ws_clock s"
    from run obtain sub' r' where inner: "buildAndSubmitInner (wv_reader env) (wv_submission env ?n [operation])
        (wo_memo wo) (wv_nonce env ?n) (Some name) (write_timeout env wo) (ws_submit s) = Some (sub', r')"
      and s': "s' = (tick env s)\<lparr>ws_submit := sub', ws_sent := ws_sent s @ [[operation]]\<rparr>"
      and r: "r = map_sum SubmissionFailed id r'"
      by (auto simp: submission_def split: option.splits)
    have "untouched (ws_submit s) (ws_submit s)" by (simp add: untouched_def)
    note T = submit_triple [unfolded sub_triple_def, rule_format, OF this inner]
    have only: "sent_only (wv_submission env ?n [operation])
        (\<lambda>m. memo_for (wo_memo wo) (wv_nonce env ?n) = (Inr m :: 'e submit_error + memo option)) (ws_submit s) sub'"
    proof (cases r')
      case (Inr a)
      from T show ?thesis unfolding Inr by (cases a) (simp only: sum.case prod.case)
    qed (use T in \<open>simp only: sum.case\<close>)
    have "accepted env [operation] h" if "r' = Inr (h, ledger)" for h ledger
      using T unfolding that accepted_def by (simp only: sum.case prod.case) blast
    with only un s'
    show "case r of Inl _ \<Rightarrow> ?E s' | Inr a \<Rightarrow> (\<lambda>(h, ledger) s. sent env wo operation s0 s \<and> accepted env [operation] h) a s'"
      unfolding r by (cases r') (auto simp: sent_def unsent_def)
  qed
  have body: "sub_triple (unsent s0)
     (sbind (checkWalletNetwork env) (\<lambda>_. sbind (requireWallet env) (\<lambda>_.
        sbind (awaited env (\<lambda>n. wv_throttle env n name)) (\<lambda>_. sbind (awaited env (wv_queue env)) (\<lambda>_.
        submission env [operation] (\<lambda>n. buildAndSubmitInner (wv_reader env) (wv_submission env n [operation])
          (wo_memo wo) (wv_nonce env n) (Some name) (write_timeout env wo)))))))
     (\<lambda>(h, ledger) s. sent env wo operation s0 s \<and> accepted env [operation] h) ?E"
    by (rule keeps_then [OF C(4)], simp, rule keeps_then [OF C(3)], simp, rule keeps_then [OF C(1)], simp,
        rule keeps_then [OF C(1)], simp, rule sub)
  show ?thesis
    unfolding buildAndSubmit_def
    by (rule triple_try [OF body], rule triple_bind, rule CE(6), rule triple_lift) auto
qed

lemma submit_op_triple:
  "sub_triple (unsent s0) (submit_op env operation name wo)
     (\<lambda>(h, ledger) s. sent env wo operation s0 s \<and> accepted env [operation] h)
     (\<lambda>s. unsent s0 s \<or> sent env wo operation s0 s)"
  unfolding submit_op_def
  by (rule keeps_then [OF keeps_calls(10) [OF blind_unsent]], simp, rule buildAndSubmit_triple)

lemma returns_calls:
  "returns (awaited env q)" "returns (publicKey env)" "returns (requireWallet env)" "returns (checkWalletNetwork env)"
  "returns (date_now env)" "returns (bus_emit e)" "returns (note_timestamp env i ledger)" "returns (note_ledger i ledger)"
  "returns (drop_cached i)" "returns (resolveFeeBump env wo)" "returns (encoded env x)"
  by (auto simp: returns_def awaited_def publicKey_def requireWallet_def checkWalletNetwork_def date_now_def bus_emit_def
      note_timestamp_def note_ledger_def drop_cached_def resolveFeeBump_def encoded_def sbind_def sget_def smodify_def
      slift_def Let_def split: option.split sum.split)

lemma buildAndSubmit_returns: "returns (buildAndSubmit env operation name wo)"
proof -
  have "returns (submission env [operation] (\<lambda>n. buildAndSubmitInner (wv_reader env)
      (wv_submission env n [operation]) (wo_memo wo) (wv_nonce env n) (Some name) (write_timeout env wo)))"
    using submission_returns by (fastforce simp: returns_def submission_def split: option.splits)
  then show ?thesis
    unfolding buildAndSubmit_def by (intro returns_try returns_bind returns_calls returns_simple)
qed

lemma submit_op_returns: "returns (submit_op env operation name wo)"
  unfolding submit_op_def by (intro returns_bind returns_calls buildAndSubmit_returns)

section \<open>Creating a stream\<close>

text \<open>A normal end of a check is its condition.\<close>

lemma step_facts:
  "scheck c e s = Some (s', Inr u) \<longleftrightarrow> c \<and> s' = s"
  "sreturn a s = Some (s', Inr b) \<longleftrightarrow> s' = s \<and> b = a"
  "sthrow e s = Some (s', Inr b) \<longleftrightarrow> False"
  by (auto simp: scheck_def slift_def)

lemma check_times_ok: "check_times p now s = Some (s', Inr u) \<Longrightarrow> times_ok p now"
  by (auto simp: check_times_def assertFutureStartTime_def times_ok_def Let_def sbind_Some step_facts split: option.splits)

lemma validated_ok:
  assumes "validateStreamParams env p s = Some (s', Inr u)"
  shows "isValidStellarAddress (sp_recipient p)" "isValidStellarAddress (sp_token p)"
    "is_integer (sp_durationSeconds p)" "\<not> num_less (sp_durationSeconds p) (Num 1)" "\<exists>now. times_ok p now"
  using assms by (auto simp: validateStreamParams_def sbind_Some step_facts dest: check_times_ok)

lemma resolved_ok:
  assumes "resolve_recipient env p s = Some (s', Inr q)"
  shows "q = p \<or> isFederationAddress (sp_recipient p) \<and> q = p\<lparr>sp_recipient := sp_recipient q\<rparr>"
  using assms by (auto simp: resolve_recipient_def sbind_Some step_facts assertStellarAddress_def split: if_splits)

text \<open>What the checks guarantee of the parameters \<open>q\<close> that are encoded, given the caller's \<open>p\<close>.\<close>

definition creatable :: "stream_params \<Rightarrow> string \<Rightarrow> stream_params \<Rightarrow> bool" where
  "creatable p payer q \<longleftrightarrow>
     0 < sp_amount q \<and> (q = p \<or> isFederationAddress (sp_recipient p) \<and> q = p\<lparr>sp_recipient := sp_recipient q\<rparr>) \<and>
     sp_recipient q \<noteq> payer \<and> isValidStellarAddress (sp_recipient q) \<and> isValidStellarAddress (sp_token q) \<and>
     is_integer (sp_durationSeconds q) \<and> \<not> num_less (sp_durationSeconds q) (Num 1) \<and> (\<exists>now. times_ok q now)"

lemma create_checks_ok:
  assumes "create_checks env p wo s = Some (s', Inr (payer, q))"
  shows "creatable p payer q"
proof -
  from assms have "0 < sp_amount p" "sp_recipient q \<noteq> payer"
    and valid: "\<exists>s1 s2 u. validateStreamParams env q s1 = Some (s2, Inr u)"
    and res: "\<exists>s1 s2. resolve_recipient env p s1 = Some (s2, Inr q)"
    by (auto simp: create_checks_def sbind_Some step_facts)
  moreover from res have q: "q = p \<or> isFederationAddress (sp_recipient p) \<and> q = p\<lparr>sp_recipient := sp_recipient q\<rparr>"
    using resolved_ok by blast
  moreover from this have "sp_amount q = sp_amount p" by (metis stream_params.select_convs(3) stream_params.surjective stream_params.update_convs(1))
  ultimately show ?thesis using validated_ok unfolding creatable_def by metis
qed

lemma keeps_create_checks:
  assumes I: "blind env I"
  shows "keeps I (create_checks env p wo)"
  unfolding create_checks_def validateStreamParams_def
  by (intro keeps_intros keeps_checks [OF I] keeps_calls [OF I])

lemma keeps_created:
  assumes I: "blind env I"
  shows "keeps I (note_created env payer p h ledger)"
  unfolding note_created_def Let_def
  by (intro keeps_intros keeps_modify keeps_calls [OF I] blindD [OF I])

lemma triple_from_run:
  assumes "sub_triple P m (\<lambda>_. I) E" "\<And>s s' a. P s \<Longrightarrow> m s = Some (s', Inr a) \<Longrightarrow> F a"
  shows "sub_triple P m (\<lambda>a s. I s \<and> F a) E"
  using assms unfolding sub_triple_def by (fastforce split: sum.splits)

text \<open>How a creation ends: without a submission, or with the one of the checked operation.\<close>

definition creation_sent ::
    "('e, 'acc, 'tx, 'v) write_env \<Rightarrow> stream_params \<Rightarrow> write_opts \<Rightarrow> 'v write_state \<Rightarrow> 'v write_state \<Rightarrow> string set \<Rightarrow> bool" where
  "creation_sent env p wo s s' hs \<longleftrightarrow> (\<exists>payer q operation.
     creatable p payer q \<and> encode_op (wv_native env) (CreateStreamOp payer q) = Inr operation \<and>
     \<not> wo_explain wo \<and> \<not> wo_dryRun wo \<and> \<not> sp_dryRun q \<and> sent env wo operation s s' \<and>
     (\<forall>h \<in> hs. accepted env [operation] h))"

text \<open>The postconditions of a creation.\<close>

definition created_post where
  "created_post env p wo s0 r s =
     (case r of Done (i, h) \<Rightarrow> creation_sent env p wo s0 s {h} | _ \<Rightarrow> unsent s0 s)"

definition created_error where
  "created_error env p wo s0 s = (unsent s0 s \<or> creation_sent env p wo s0 s {})"

lemma creation_sentI:
  assumes "creatable p payer q" "encode_op (wv_native env) (CreateStreamOp payer q) = Inr operation"
    "\<not> wo_explain wo" "\<not> wo_dryRun wo" "\<not> sp_dryRun q" "sent env wo operation s0 s" "\<forall>h \<in> hs. accepted env [operation] h"
  shows "creation_sent env p wo s0 s hs"
  using assms unfolding creation_sent_def by blast

lemma triple_quiet:
  assumes "keeps (unsent s0) m" "\<And>s s' r x. m s = Some (s', Inr r) \<Longrightarrow> r \<noteq> Done x"
  shows "sub_triple (unsent s0) m (created_post env p wo s0) (created_error env p wo s0)"
  using assms unfolding sub_triple_def created_post_def created_error_def
  by (fastforce split: sum.splits write_outcome.splits)

lemma simulated_iff:
  "(case res of SimError \<Rightarrow> sthrow e | SimSuccess retval fee \<Rightarrow> k fee) s = Some (s', Inr r) \<longleftrightarrow>
     (\<exists>retval fee. res = SimSuccess retval fee \<and> k fee s = Some (s', Inr r))"
  "(case res of SimError \<Rightarrow> DryRunOp b n | SimSuccess retval fee \<Rightarrow> DryRunOp c (g fee)) \<noteq> Done x"
  by (cases res; simp add: step_facts)+

lemma previews_not_done:
  "explainOperation env operation as ds s = Some (s', Inr r) \<Longrightarrow> r \<noteq> Done x"
  "simulate_only env operation s = Some (s', Inr r) \<Longrightarrow> r \<noteq> Done x"
  by (auto simp: explainOperation_def simulate_only_def Let_def sbind_Some step_facts simulated_iff)

lemma previews_quiet:
  "sub_triple (unsent s0) (explainOperation env operation as ds) (created_post env' p wo s0) (created_error env' p wo s0)"
  "sub_triple (unsent s0) (simulate_only env operation) (created_post env' p wo s0) (created_error env' p wo s0)"
  by (rule triple_quiet, rule keeps_explain [OF blind_unsent], erule previews_not_done)+

lemma submitted_triple:
  assumes q: "creatable p payer q" "encode_op (wv_native env) (CreateStreamOp payer q) = Inr operation"
    "\<not> wo_explain wo" "\<not> wo_dryRun wo" "\<not> sp_dryRun q"
  shows "sub_triple (unsent s0) (sbind (submit_op env operation ''createStream'' wo) (\<lambda>(h, ledger).
      sbind (note_created env payer q h ledger) (\<lambda>r. sreturn (Done r)))) (created_post env p wo s0) (created_error env p wo s0)"
proof (rule triple_bind)
  show "sub_triple (unsent s0) (submit_op env operation ''createStream'' wo)
      (\<lambda>(h, ledger) s. sent env wo operation s0 s \<and> accepted env [operation] h) (created_error env p wo s0)"
    by (rule triple_conseq [OF submit_op_triple]) (use q in \<open>auto simp del: encode_op.simps simp: created_error_def intro: creation_sentI\<close>)
  have "sub_triple (\<lambda>s. sent env wo operation s0 s \<and> accepted env [operation] h)
      (sbind (note_created env payer q h ledger) (\<lambda>r. sreturn (Done r))) (created_post env p wo s0) (created_error env p wo s0)"
    (is "sub_triple ?J _ _ _") for h ledger
  proof -
    have "keeps ?J (note_created env payer q h ledger)"
      by (rule keeps_created) (use blind_sent [of env wo operation s0] in \<open>auto simp: blind_def\<close>)
    moreover have "snd r = h" if "note_created env payer q h ledger s = Some (s', Inr r)" for r s s'
      using that by (auto simp: note_created_def Let_def sbind_Some step_facts split: if_splits)
    ultimately have "sub_triple ?J (note_created env payer q h ledger) (\<lambda>r s. ?J s \<and> snd r = h) ?J"
      by (rule triple_from_run)
    then have "sub_triple ?J (note_created env payer q h ledger) (\<lambda>r s. ?J s \<and> snd r = h) (created_error env p wo s0)"
      by (rule triple_conseq) (use q in \<open>auto simp del: encode_op.simps simp: created_error_def intro: creation_sentI\<close>)
    then show ?thesis
      by (rule triple_bind) (rule triple_lift; use q in \<open>auto simp del: encode_op.simps simp: created_post_def created_error_def intro: creation_sentI\<close>)
  qed
  then show "sub_triple ((\<lambda>(h, ledger) s. sent env wo operation s0 s \<and> accepted env [operation] h) a)
      (case a of (h, ledger) \<Rightarrow> sbind (note_created env payer q h ledger) (\<lambda>r. sreturn (Done r)))
      (created_post env p wo s0) (created_error env p wo s0)" for a
    by (cases a) simp
qed

lemma triple_fact:
  "(F \<Longrightarrow> sub_triple P m Q E) \<Longrightarrow> sub_triple (\<lambda>s. P s \<and> F) m Q E"
  by (auto simp: sub_triple_def)

lemma createStream_triple:
  "sub_triple (unsent s0) (client_createStream env p wo) (created_post env p wo s0) (created_error env p wo s0)"
  unfolding client_createStream_def
proof (rule triple_bind)
  show "sub_triple (unsent s0) (create_checks env p wo) (\<lambda>a s. unsent s0 s \<and> creatable p (fst a) (snd a)) (created_error env p wo s0)"
    by (rule triple_conseq [OF triple_from_run [OF keeps_create_checks [OF blind_unsent]]])
      (auto intro: create_checks_ok simp: created_error_def)
  fix a :: "string \<times> stream_params"
  obtain payer q where a: "a = (payer, q)" by (cases a)
  have "sub_triple (unsent s0) (encoded env (CreateStreamOp payer q))
      (\<lambda>operation s. unsent s0 s \<and> encode_op (wv_native env) (CreateStreamOp payer q) = Inr operation) (created_error env p wo s0)"
    unfolding encoded_def by (rule triple_lift) (auto simp: map_sum_Inr_iff created_error_def)
  then show "sub_triple (\<lambda>s. unsent s0 s \<and> creatable p (fst a) (snd a)) (case a of (payer, p) \<Rightarrow>
     sbind (encoded env (CreateStreamOp payer p)) (\<lambda>operation.
     if wo_explain wo then explainOperation env operation [payer, sp_recipient p, sp_token p]
         [(payer, sp_token p, - sp_amount p), (sp_recipient p, sp_token p, sp_amount p)]
     else if wo_dryRun wo \<or> sp_dryRun p then simulate_only env operation
     else sbind (submit_op env operation ''createStream'' wo) (\<lambda>(txHash, ledger).
          sbind (note_created env payer p txHash ledger) (\<lambda>r. sreturn (Done r)))))
     (created_post env p wo s0) (created_error env p wo s0)"
    unfolding a prod.case fst_conv snd_conv
    by (intro triple_fact, elim triple_bind, intro triple_fact) (simp add: previews_quiet submitted_triple)
qed

lemma createStream_returns: "returns (client_createStream env p wo)"
proof -
  have "returns (validateStreamParams env p)" for p
    unfolding validateStreamParams_def check_length_def getLedgerTimestamp_def check_times_def existing_account_def
      validateTokenContract_def assertFutureStartTime_def Let_def
    by (auto intro!: returns_bind returns_try returns_calls returns_simple split: option.split sum.split prod.split)
  moreover have "returns (checkAllowance env a n)" for a n
    unfolding checkAllowance_def
    by (auto intro!: returns_bind returns_try returns_calls returns_simple
        split: option.split sum.split sim_answer.split write_error.split)
  ultimately have "returns (create_checks env p wo)"
    unfolding create_checks_def validate_cliff_def check_nonce_def supportsNonce_def resolve_recipient_def
      assertStellarAddress_def check_duplicate_def Let_def
    by (auto intro!: returns_bind returns_try returns_calls returns_simple split: option.split)
  then show ?thesis
    unfolding client_createStream_def explainOperation_def simulate_only_def note_created_def Let_def
    by (auto intro!: returns_bind returns_calls returns_simple submit_op_returns split: sim_answer.split)
qed


end
