(* ===== verification/BatchProps.thy ===== *)
theory BatchProps
  imports WriteProps
begin

text \<open>
  The two-step and the batch methods: \<open>drainFlow\<close> reports what went through, \<open>batchWithdraw\<close> accounts for
  every stream, and no chunk loop ends with a chunk size that is not positive. At the end, what
  the write methods drop or get wrong.
\<close>

section \<open>Draining\<close>

lemma submit_op_accepted:
  assumes "submit_op env operation name wo s = Some (s', Inr (h, ledger))"
  shows "accepted env [operation] h"
  using submit_op_triple [of s env operation name wo, unfolded sub_triple_def, rule_format, OF unsent_refl assms] by simp

lemma buildAndSubmit_accepted:
  assumes "buildAndSubmit env operation name wo s = Some (s', Inr (h, ledger))"
  shows "accepted env [operation] h"
  using buildAndSubmit_triple [of s env operation name wo, unfolded sub_triple_def, rule_format, OF unsent_refl assms] by simp

lemma encoded_Inr: "encoded env x s = Some (s', Inr op) \<longleftrightarrow> s' = s \<and> encode_op (wv_native env) x = Inr op"
  by (auto simp: encoded_def slift_def map_sum_Inr_iff)

lemma stry_Some:
  "stry m h s = Some (s', Inr b) \<longleftrightarrow> m s = Some (s', Inr b) \<or> (\<exists>s1 e. m s = Some (s1, Inl e) \<and> h e s1 = Some (s', Inr b))"
  by (auto simp: stry_def split: option.splits prod.splits sum.splits)

text \<open>What a reported hash stands for.\<close>

definition confirmed_op :: "('e, 'acc, 'tx, 'v) write_env \<Rightarrow> stream_op \<Rightarrow> string \<Rightarrow> bool" where
  "confirmed_op env x h \<longleftrightarrow> (\<exists>operation. encode_op (wv_native env) x = Inr operation \<and> accepted env [operation] h)"

fun drain_report :: "('e, 'acc, 'tx, 'v) write_env \<Rightarrow> string \<Rightarrow> 'e drain_result \<Rightarrow> bool" where
  "drain_report env i (DrainPartial cancelHash e) \<longleftrightarrow> (\<exists>payer. confirmed_op env (CancelStreamOp i payer) cancelHash)"
| "drain_report env i (Drained cancelHash withdrawHash n) \<longleftrightarrow>
     (\<exists>payer. confirmed_op env (CancelStreamOp i payer) cancelHash) \<and>
     (if n = 0 then withdrawHash = cancelHash else \<exists>payee. confirmed_op env (WithdrawOp i payee) withdrawHash)"

lemma drain_second_step:
  assumes "confirmed_op env (CancelStreamOp i payer) cancelHash"
    and "drain_withdraw env i wo cancelHash s = Some (s', Inr r)"
  shows "drain_report env i r"
proof -
  from assms(2) consider "r = Drained cancelHash cancelHash 0"
    | payee operation h n s1 s2 l where "r = Drained cancelHash h n" "n \<noteq> 0"
      "encode_op (wv_native env) (WithdrawOp i payee) = Inr operation"
      "buildAndSubmit env operation ''withdraw'' wo s1 = Some (s2, Inr (h, l))"
    by (auto simp: drain_withdraw_def sbind_Some step_facts encoded_Inr split: if_splits simp del: encode_op.simps)
  then show ?thesis
  proof cases
    case 2
    then have "confirmed_op env (WithdrawOp i payee) h"
      unfolding confirmed_op_def by (blast intro: buildAndSubmit_accepted)
    with 2 assms(1) show ?thesis by auto
  qed (use assms(1) in auto)
qed

lemma drain_ok:
  fixes env :: "('e, 'acc, 'tx, 'v) write_env"
  assumes "client_drainFlow env i wo s = Some (s', Inr r)"
  shows "drain_report env i r"
proof -
  from assms obtain payer cancelOp hl s1 s2
    where op: "encode_op (wv_native env) (CancelStreamOp i payer) = Inr cancelOp"
      and sub: "submit_op env cancelOp ''cancelStream'' wo s1 = Some (s2, Inr hl)"
      and rest: "stry (drain_withdraw env i wo (fst hl)) (\<lambda>e. sreturn (DrainPartial (fst hl) e)) s2 =
        Some (s', Inr r :: 'e write_error + 'e drain_result)"
    unfolding client_drainFlow_def sbind_Some encoded_Inr case_prod_unfold by blast
  from op submit_op_accepted [of env cancelOp _ wo s1 s2 "fst hl" "snd hl"] sub
  have "confirmed_op env (CancelStreamOp i payer) (fst hl)"
    unfolding confirmed_op_def by auto
  with rest show ?thesis by (auto simp: stry_Some step_facts intro: drain_second_step)
qed

lemma drain_thrown:
  "sub_triple (unsent s0) (client_drainFlow env i wo) (\<lambda>r s. True)
     (\<lambda>s. unsent s0 s \<or> (\<exists>payer operation. encode_op (wv_native env) (CancelStreamOp i payer) = Inr operation \<and>
        sent env wo operation s0 s))" (is "sub_triple _ _ _ ?E")
proof -
  have never: "sub_triple P (stry m (\<lambda>e. sreturn (h e))) (\<lambda>r s. True) ?E" for P m h
    by (auto simp: sub_triple_def stry_def slift_def split: option.splits sum.splits)
  have submit: "sub_triple (\<lambda>s. unsent s0 s \<and> encode_op (wv_native env) (CancelStreamOp i payer) = Inr operation)
      (submit_op env operation name wo) (\<lambda>_ _. True) ?E" for payer operation name
    by (intro triple_fact, rule triple_conseq [OF submit_op_triple]) (auto simp del: encode_op.simps)
  have enc: "sub_triple (unsent s0) (encoded env (CancelStreamOp i payer))
      (\<lambda>operation s. unsent s0 s \<and> encode_op (wv_native env) (CancelStreamOp i payer) = Inr operation) ?E" for payer
    unfolding encoded_def by (rule triple_lift) (auto simp: map_sum_Inr_iff simp del: encode_op.simps)
  show ?thesis
    unfolding client_drainFlow_def
    by (rule keeps_then [OF keeps_calls(2) [OF blind_unsent]], blast, rule triple_bind [OF enc],
        rule triple_bind [OF submit]) (simp add: never case_prod_unfold del: encode_op.simps)
qed

lemma drainFlow_returns: "returns (client_drainFlow env i wo)"
  unfolding client_drainFlow_def drain_withdraw_def
  by (auto intro!: returns_bind returns_try returns_calls returns_simple submit_op_returns buildAndSubmit_returns
      split: prod.split)


section \<open>Chunks\<close>

function chunks :: "nat \<Rightarrow> 'a list \<Rightarrow> 'a list list" where
  "chunks n xs = (if xs = [] \<or> n = 0 then [] else take n xs # chunks n (drop n xs))"
  by pat_completeness auto
termination by (relation "measure (\<lambda>(n, xs). length xs)") auto

declare chunks.simps [simp del]

lemma concat_chunks: "0 < n \<Longrightarrow> concat (chunks n xs) = xs"
  by (induction n xs rule: chunks.induct) (subst chunks.simps, auto)

lemma chunk_length: "c \<in> set (chunks n xs) \<Longrightarrow> 0 < length c \<and> length c \<le> n"
proof (induction n xs rule: chunks.induct)
  case (1 n xs)
  show ?case
  proof (cases "xs = [] \<or> n = 0")
    case False
    with 1 show ?thesis by (subst (asm) (2) chunks.simps) auto
  qed (use 1(2) in \<open>simp add: chunks.simps\<close>)
qed

text \<open>The loop over the chunks themselves, with the index the body is given.\<close>

fun seq_loop ::
    "(int \<Rightarrow> 'i list \<Rightarrow> 'a \<Rightarrow> ('s, 'x, 'a) prog) \<Rightarrow> int \<Rightarrow> int \<Rightarrow> 'i list list \<Rightarrow> 'a \<Rightarrow> ('s, 'x, 'a) prog" where
  "seq_loop body width i [] acc = sreturn acc"
| "seq_loop body width i (c # cs) acc = sbind (body i c acc) (\<lambda>acc'. seq_loop body width (i + width) cs acc')"

lemma js_slice_chunk:
  assumes "0 < width"
  shows "js_slice (int k) (int k + width) xs = take (nat width) (drop k xs)"
proof -
  have "nat (int k + width) = k + nat width" using assms by (simp add: nat_add_distrib)
  then show ?thesis
    using assms by (auto simp: js_slice_def slice_index_def min_def nat_add_distrib not_le intro!: take_all_iff [THEN iffD2, symmetric])
qed

lemma chunk_loop_seq:
  assumes "0 < width"
  shows "chunk_loop body xs width (int k) acc s = seq_loop body width (int k) (chunks (nat width) (drop k xs)) acc s"
proof (induction "length xs - k" arbitrary: k acc s rule: less_induct)
  case less
  show ?case
  proof (cases "k < length xs")
    case True
    have next_index: "int k + width = int (k + nat width)" using assms by simp
    have rest: "chunks (nat width) (drop k xs) = take (nat width) (drop k xs) # chunks (nat width) (drop (k + nat width) xs)"
      using True assms by (subst chunks.simps) (simp add: add.commute)
    have IH: "chunk_loop body xs width (int k + width) acc' s' =
        seq_loop body width (int k + width) (chunks (nat width) (drop (k + nat width) xs)) acc' s'" for acc' s'
      unfolding next_index by (rule less) (use True assms in simp)
    show ?thesis
      by (subst chunk_loop.simps) (use True in \<open>auto simp: rest sbind_def js_slice_chunk [OF assms] IH split: option.split sum.split\<close>)
  next
    case False
    then show ?thesis by (subst chunk_loop.simps) (simp add: chunks.simps slift_def)
  qed
qed

text \<open>A property of the chunks done so far, the accumulator and the state.\<close>

lemma seq_loop_triple:
  assumes "\<And>i ds c acc. sub_triple (J ds acc) (body i c acc) (\<lambda>acc'. J (ds @ [c]) acc') E"
  shows "sub_triple (J ds acc) (seq_loop body width i cs acc) (\<lambda>acc'. J (ds @ cs) acc') E"
proof (induction cs arbitrary: ds acc i)
  case Nil
  then show ?case by (auto simp: sub_triple_def slift_def)
next
  case (Cons c cs)
  show ?case
    by (simp, rule triple_bind [OF assms]) (use Cons [of "ds @ [c]"] in simp)
qed

text \<open>A body that does not throw and a chunk size that is not positive: the loop does not end.\<close>

lemma chunk_loop_hangs:
  assumes body: "\<And>i c acc s s' e. body i c acc s \<noteq> Some (s', Inl e)"
    and "width \<le> 0" "i \<le> 0" "xs \<noteq> []"
  shows "chunk_loop body xs width i acc s = None"
proof (cases "chunk_loop body xs width i acc s")
  case (Some y)
  have "\<not> ((\<forall>i c acc s s' e. body i c acc s \<noteq> Some (s', Inl e)) \<and> width \<le> 0 \<and> i \<le> 0 \<and> xs \<noteq> [])"
  proof (rule chunk_loop.raw_induct [where P = "\<lambda>body xs width i acc s y.
        \<not> ((\<forall>i c acc s s' e. body i c acc s \<noteq> Some (s', Inl e)) \<and> width \<le> 0 \<and> i \<le> 0 \<and> xs \<noteq> [])", OF _ Some])
    fix f :: "(int \<Rightarrow> 'a list \<Rightarrow> 'b \<Rightarrow> ('c, 'd, 'b) prog) \<Rightarrow> 'a list \<Rightarrow> int \<Rightarrow> int \<Rightarrow> 'b \<Rightarrow> 'c \<Rightarrow> ('c \<times> ('d + 'b)) option"
      and body xs width i acc s y
    assume IH: "\<And>body xs width i acc s y. f body xs width i acc s = Some y \<Longrightarrow>
        \<not> ((\<forall>i c acc s s' e. body i c acc s \<noteq> Some (s', Inl e)) \<and> width \<le> 0 \<and> i \<le> 0 \<and> xs \<noteq> [])"
      and y: "(if i < int (length xs) then (case body i (js_slice i (i + width) xs) acc s of None \<Rightarrow> None
          | Some (s', r) \<Rightarrow> (case r of Inl e \<Rightarrow> Some (s', Inl e) | Inr acc' \<Rightarrow> f body xs width (i + width) acc' s'))
        else Some (s, Inr acc)) = Some y"
    show "\<not> ((\<forall>i c acc s s' e. body i c acc s \<noteq> Some (s', Inl e)) \<and> width \<le> 0 \<and> i \<le> 0 \<and> xs \<noteq> [])"
    proof
      assume hyp: "(\<forall>i c acc s s' e. body i c acc s \<noteq> Some (s', Inl e)) \<and> width \<le> 0 \<and> i \<le> 0 \<and> xs \<noteq> []"
      then have "i < int (length xs)" by (cases xs) auto
      with y hyp obtain s' acc' where "f body xs width (i + width) acc' s' = Some y"
        by (auto split: option.splits sum.splits)
      from IH [OF this] hyp show False by auto
    qed
  qed
  with assms show ?thesis by blast
qed

section \<open>Withdrawing in batches\<close>

lemma smap_encoded:
  "smap (\<lambda>k. encoded env (x k)) ks s = Some (s', Inr operations) \<Longrightarrow>
   s' = s \<and> list_all2 (\<lambda>k operation. encode_op (wv_native env) (x k) = Inr operation) ks operations"
  by (induction ks arbitrary: operations) (auto simp: sbind_Some encoded_Inr step_facts simp del: encode_op.simps)

lemma plain_rpc_Inr:
  assumes "srpc_plain rd e s = Some (s', Inr v)"
  shows "\<exists>i. re_raw e i = Inr v"
proof -
  from assms have "rpc_value (guarded_rpc rd submit_retry (e\<lparr>re_aborted := \<lambda>_. False\<rparr>) None) = Inr v"
    by (simp add: srpc_plain_def)
  from rpc_value_Inr [OF this] show ?thesis by simp
qed

lemma plain_send_Inr:
  assumes "ssend_plain rd e x s = Some (s', Inr v)"
  shows "\<exists>i. re_raw e i = Inr v"
proof -
  from assms have "rpc_value (guarded_rpc rd submit_retry (e\<lparr>re_aborted := \<lambda>_. False\<rparr>) None) = Inr v"
    by (simp add: ssend_plain_def Let_def)
  from rpc_value_Inr [OF this] show ?thesis by simp
qed

lemma batch_confirmed:
  assumes "sconfirm_batch e h s = Some (s', Inr ledger)"
  shows "\<exists>i l. en_polled e h i = Succeeded l"
proof -
  from assms obtain k st where b: "batch_confirm (en_polled e h) 0 = Some (k, st)"
    and st: "settled_status h st = (Inr ledger :: 'a submit_error + int)"
    by (auto simp: sconfirm_batch_def split: option.splits)
  from batch_confirm_result [OF b] have found: "st = en_polled e h k" "st \<noteq> NotFound" by auto
  from st found(2) obtain l where "st = Succeeded l" by (cases st) (auto simp: settled_status_def)
  with found(1) show ?thesis by metis
qed

lemma executeBatch_accepted:
  fixes env :: "('e, 'acc, 'tx, 'v) write_env"
  assumes "executeBatch env operations s = Some (s', Inr h)"
  shows "accepted env operations h"
proof -
  from assms obtain n s1 s2 where
    "buildAndSubmitBatchInner (wv_reader env) (wv_submission env n operations) s1 = Some (s2, Inr h)"
    by (auto simp: executeBatch_def buildAndSubmitBatch_def sbind_Some submission_def map_sum_Inr_iff split: option.splits)
  then obtain x r s3 s4 ledger s5 s6
    where "ssend_plain (wv_reader env) (en_send (wv_submission env n operations) x) x s3 = Some (s4, Inr r)"
      "sent_hash r = (Inr h :: 'e submit_error + string)"
      "sconfirm_batch (wv_submission env n operations) h s5 = Some (s6, Inr ledger :: 'e submit_error + int)"
    by (auto simp: buildAndSubmitBatchInner_def sbind_Some step_facts slift_def)
  moreover from this have "r = SendAccepted h" by (simp add: sent_hash_def split: send_status.splits)
  ultimately show ?thesis
    unfolding accepted_def by (blast dest: plain_send_Inr batch_confirmed)
qed

text \<open>A chunk of withdrawals that went through: one confirmed transaction with one withdrawal for each stream.\<close>

definition withdrawn_together :: "('e, 'acc, 'tx, 'v) write_env \<Rightarrow> string \<Rightarrow> string list \<Rightarrow> bool" where
  "withdrawn_together env payee c \<longleftrightarrow> (\<exists>operations h.
     list_all2 (\<lambda>k operation. encode_op (wv_native env) (WithdrawOp k payee) = Inr operation) c operations \<and>
     accepted env operations h)"

text \<open>The successes and the failures are the chunks, in order, according to how each ended.\<close>

definition withdraw_account ::
    "('e, 'acc, 'tx, 'v) write_env \<Rightarrow> string \<Rightarrow> string list list \<Rightarrow> string list \<Rightarrow> string list \<Rightarrow> bool" where
  "withdraw_account env payee cs successes failed \<longleftrightarrow> (\<exists>ends. length ends = length cs \<and>
     successes = concat (map fst (filter snd (zip cs ends))) \<and>
     failed = concat (map fst (filter (\<lambda>p. \<not> snd p) (zip cs ends))) \<and>
     (\<forall>p \<in> set (zip cs ends). snd p \<longrightarrow> withdrawn_together env payee (fst p)))"

lemma account_step:
  assumes "withdraw_account env payee cs xs ys"
  shows "withdraw_account env payee (cs @ [c]) xs (ys @ c)"
    "withdrawn_together env payee c \<Longrightarrow> withdraw_account env payee (cs @ [c]) (xs @ c) ys"
proof -
  from assms obtain ends where ends: "length ends = length cs"
      "xs = concat (map fst (filter snd (zip cs ends)))" "ys = concat (map fst (filter (\<lambda>p. \<not> snd p) (zip cs ends)))"
      "\<forall>p \<in> set (zip cs ends). snd p \<longrightarrow> withdrawn_together env payee (fst p)"
    unfolding withdraw_account_def by blast
  then show "withdraw_account env payee (cs @ [c]) xs (ys @ c)"
    unfolding withdraw_account_def by (intro exI [of _ "ends @ [False]"]) auto
  assume "withdrawn_together env payee c"
  with ends show "withdraw_account env payee (cs @ [c]) (xs @ c) ys"
    unfolding withdraw_account_def by (intro exI [of _ "ends @ [True]"]) auto
qed

lemma account_mset:
  assumes "withdraw_account env payee cs xs ys"
  shows "mset xs + mset ys = mset (concat cs)"
proof -
  have "mset (concat (map fst (filter snd (zip cs ends)))) + mset (concat (map fst (filter (\<lambda>p. \<not> snd p) (zip cs ends)))) =
      mset (concat cs)" if "length ends = length cs" for ends :: "bool list"
    using that by (induction ends cs rule: list_induct2) auto
  with assms show ?thesis unfolding withdraw_account_def by auto
qed

lemma withdraw_chunk_triple:
  "sub_triple (\<lambda>s. case acc of (xs, ys, n) \<Rightarrow> withdraw_account env payee ds xs (map fst ys))
     (withdraw_chunk env onProgress m payee i c acc)
     (\<lambda>acc' s. case acc' of (xs, ys, n) \<Rightarrow> withdraw_account env payee (ds @ [c]) xs (map fst ys)) (\<lambda>s. True)"
proof -
  obtain xs ys n where acc: "acc = (xs, ys, n)" by (cases acc)
  have together: "withdrawn_together env payee c"
    if "smap (\<lambda>k. encoded env (WithdrawOp k payee)) c s1 = Some (s2, Inr operations)"
      "executeBatch env operations s2 = Some (s3, Inr h)" for s1 s2 s3 operations h
    using smap_encoded [OF that(1)] executeBatch_accepted [OF that(2)] unfolding withdrawn_together_def by blast
  have "withdraw_account env payee (ds @ [c]) (fst a) (map fst (fst (snd a)))"
    if "withdraw_account env payee ds xs (map fst ys)"
      "withdraw_chunk env onProgress m payee i c (xs, ys, n) s = Some (s', Inr a)" for s s' a
    using that account_step [OF that(1), of c]
    by (auto simp: withdraw_chunk_def sbind_Some stry_Some step_facts comp_def dest: together)
  then show ?thesis
    unfolding acc sub_triple_def by (auto split: sum.splits prod.splits)
qed

lemma batchWithdraw_account:
  fixes env :: "('e, 'acc, 'tx, 'v) write_env"
  assumes "0 < width" "batchWithdraw env onProgress ids width s = Some (s', Inr (xs, ys))"
  shows "\<exists>payee. withdraw_account env payee (chunks (nat width) ids) xs (map fst ys)"
proof -
  from assms(2) obtain payee s1 n where run:
      "chunk_loop (withdraw_chunk env onProgress (length ids) payee) ids width 0 ([], [], 0) s1 =
        Some (s', Inr (xs, ys, n) :: 'e write_error + 'e withdraw_tally)"
    by (auto simp: batchWithdraw_def sbind_Some step_facts)
  have "sub_triple (\<lambda>s. case ([], [] :: (string \<times> 'e write_error) list, 0 :: nat) of (xs, ys, n) \<Rightarrow> withdraw_account env payee [] xs (map fst ys))
      (seq_loop (withdraw_chunk env onProgress (length ids) payee) width 0 (chunks (nat width) ids) ([], [], 0) ::
        ('e, 'v, 'e withdraw_tally) wprog)
      (\<lambda>acc' s. case acc' of (xs, ys, n) \<Rightarrow> withdraw_account env payee ([] @ chunks (nat width) ids) xs (map fst ys)) (\<lambda>s. True)"
    by (rule seq_loop_triple [where J = "\<lambda>ds acc s. case acc of (xs, ys, n) \<Rightarrow> withdraw_account env payee ds xs (map fst ys)"])
      (rule withdraw_chunk_triple)
  moreover have "withdraw_account env payee [] [] []" by (simp add: withdraw_account_def)
  moreover have "seq_loop (withdraw_chunk env onProgress (length ids) payee) width 0 (chunks (nat width) ids) ([], [], 0) s1 =
      Some (s', Inr (xs, ys, n) :: 'e write_error + 'e withdraw_tally)"
    using run by (simp add: chunk_loop_seq [OF assms(1), of _ ids 0, simplified])
  ultimately show ?thesis unfolding sub_triple_def by fastforce
qed

text \<open>
  C26. When \<open>batchWithdraw\<close> returns, every stream id is in exactly one of its lists (as often as the caller
  gave it), in the caller's order; the ids in the successes come in whole chunks, and each of
  these chunks was withdrawn by one transaction that the network confirmed.
\<close>
theorem batchWithdraw_accounts:
  assumes "0 < width" and "batchWithdraw env onProgress ids width s = Some (s', Inr (successes, failures))"
  shows "mset successes + mset (map fst failures) = mset ids \<and>
    (\<exists>payee ends. length ends = length (chunks (nat width) ids) \<and>
       successes = concat (map fst (filter snd (zip (chunks (nat width) ids) ends))) \<and>
       map fst failures = concat (map fst (filter (\<lambda>p. \<not> snd p) (zip (chunks (nat width) ids) ends))) \<and>
       (\<forall>(c, ok) \<in> set (zip (chunks (nat width) ids) ends). ok \<longrightarrow> withdrawn_together env payee c))"
proof -
  from batchWithdraw_account [OF assms] obtain payee
    where acc: "withdraw_account env payee (chunks (nat width) ids) successes (map fst failures)" by blast
  from account_mset [OF acc] assms(1) have "mset successes + mset (map fst failures) = mset ids"
    by (simp add: concat_chunks)
  with acc show ?thesis unfolding withdraw_account_def by (auto simp: case_prod_unfold)
qed

text \<open>The chunk body of \<open>batchWithdraw\<close> throws only what a progress callback throws.\<close>

lemma withdraw_chunk_quiet:
  assumes "\<And>x. onProgress x = Inr ()"
  shows "withdraw_chunk env onProgress m payee i c acc s \<noteq> Some (s', Inl e)"
proof -
  have no_throw: "smap (\<lambda>k. stry (awaited env (\<lambda>n. wv_getClaimable env n k)) (\<lambda>_. sreturn 0)) ks s \<noteq> Some (s', Inl e)"
    for ks s s' and e :: "'a write_error"
    by (induction ks arbitrary: s) (auto simp: sbind_def stry_def slift_def awaited_def split: option.splits sum.splits)
  show ?thesis
    using no_throw by (cases acc) (auto simp: withdraw_chunk_def assms sbind_def stry_def slift_def split: option.splits sum.splits)
qed

text \<open>
  C27. With a chunk size of 0 or below the loops never end, however the network answers: \<open>batchWithdraw\<close>
  does not return once the wallet has given its key, and it keeps submitting empty transactions.
\<close>
theorem batchWithdraw_hangs:
  assumes "\<And>x. onProgress x = Inr ()" and "ids \<noteq> []" and "width \<le> 0"
    and "wv_wallet env (ws_clock s) = Some (Inr key)"
  shows "batchWithdraw env onProgress ids width s = None"
  using chunk_loop_hangs [where body = "withdraw_chunk env onProgress (length ids) key", OF withdraw_chunk_quiet [OF assms(1)] assms(3) _ assms(2)]
  by (simp add: batchWithdraw_def sbind_def publicKey_def assms(4))

section \<open>A concrete client\<close>

declare batch_confirm.simps [code]

text \<open>A network on which everything succeeds at the first attempt; the SDK's values are the native ones.\<close>

definition demo_rpc :: "'a \<Rightarrow> (string, 'a) rpc_env" where
  "demo_rpc v = \<lparr>re_begin = int, re_end = int, re_raw = \<lambda>_. Inr v, re_aborted = \<lambda>_. False, re_draws = \<lambda>_. (0, 1)\<rparr>"

definition demo_tx :: envelope where
  "demo_tx = Transaction \<lparr>tx_source = ''S'', tx_sequence = ''1'', tx_fee = ''100'', tx_operations = [], tx_hash = []\<rparr>"

definition demo_submission :: "(string, unit, unit) submit_env" where
  "demo_submission = \<lparr>en_publicKey = Inr ''S'', en_account = \<lambda>_. demo_rpc (), en_build = \<lambda>_ _. (),
     en_prepare = \<lambda>_. demo_rpc demo_tx, en_sign = \<lambda>_. Inr (SignedXdr ''xdr''), en_send = \<lambda>_. demo_rpc (SendAccepted ''hash''),
     en_polled = \<lambda>_ _. Succeeded (Some 7), en_lag = \<lambda>_. 0, en_aborted = \<lambda>_. False, en_to_xdr = \<lambda>_. ''xdr'',
     en_from_xdr = \<lambda>_. Inr demo_tx, en_finished = 0\<rparr>"

definition demo_key :: string where
  "demo_key = CHR ''G'' # replicate 55 CHR ''A''"

definition demo_client :: "(string, unit, unit, native_value \<times> string) write_env" where
  "demo_client = \<lparr>wv_reader = \<lparr>ev_view = \<lambda>_. None, ev_body = \<lambda>_. None, ev_rbody = \<lambda>_. None\<rparr>,
     wv_native = \<lambda>v ty. Inr (v, ty), wv_baseFee = 100, wv_meanwhile = \<lambda>_ c. c, wv_now = \<lambda>n. 1000 * int n,
     wv_wallet = \<lambda>_. Some (Inr demo_key), wv_walletNetwork = \<lambda>_. None, wv_throttle = \<lambda>_ _. Inr (), wv_queue = \<lambda>_. Inr (),
     wv_submission = \<lambda>_ _. demo_submission, wv_nonce = \<lambda>_. None, wv_writeTimeout = None, wv_txTimeoutMs = 30000,
     wv_defaultFeeBump = None, wv_simulate = \<lambda>_ _. Inr SimError, wv_tokenCall = \<lambda>_ _ _. Inr SimError,
     wv_version = \<lambda>_. Inr NoVersion, wv_account = \<lambda>_ _. Inr (), wv_latestLedger = \<lambda>_. Inr None,
     wv_listBySender = \<lambda>_ _. Inr [], wv_getStream = \<lambda>_ i. Inr (demo_stream i 5), wv_getClaimable = \<lambda>_ _. Inr 5,
     wv_resolveFederation = \<lambda>_ _. Inl ''none'', wv_trustScore = None, wv_validateCliff = None, wv_checkDuplicate = False\<rparr>"

definition demo_state :: "(native_value \<times> string) write_state" where
  "demo_state = \<lparr>ws_client = new_client Testnet 0 0,
     ws_submit = \<lparr>sb_breaker = None, sb_broadcast = [], sb_audit = [], sb_lastRpcTimestampMs = None\<rparr>,
     ws_clock = 0, ws_sent = [], ws_bus = [], ws_namespaces = [], ws_federation = [], ws_ledgerTimestamp = None,
     ws_nonceSupported = None\<rparr>"

lemma demo_submits:
  "buildAndSubmitBatchInner (wv_reader demo_client) demo_submission (ws_submit demo_state) =
     Some ((ws_submit demo_state)\<lparr>sb_broadcast := [''xdr'']\<rparr>, Inr ''hash'')"
  by code_simp

lemma demo_encodes:
  "encode_op (wv_native demo_client) (WithdrawOp ''1'' demo_key) =
     Inr \<lparr>cc_method = ''withdraw'', cc_args = [(NatBig 1, ''u64''), (NatString demo_key, ''address'')]\<rparr>"
  "encode_op (wv_native demo_client) (WithdrawOp ''x'' demo_key) = Inl (BadStreamId (InvalidStreamIdError ''x''))"
  by (simp_all add: call_contract_def sc_id_def sc_address_def sc_value_def demo_client_def parseStreamId_def
      stream_id_pattern_def requireAddress_def isValidStellarAddress_def demo_key_def base32_char_def is_digit_def
      decimal_value_def from_digits_def digit_val_def U64_MAX_def list_all_iff Let_def)

lemma demo_calls:
  "wv_wallet demo_client n = Some (Inr demo_key)" "wv_walletNetwork demo_client n = None"
  "wv_throttle demo_client n name = Inr ()" "wv_queue demo_client n = Inr ()" "wv_getClaimable demo_client n i = Inr 5"
  "wv_submission demo_client n ops = demo_submission" "ws_submit (tick demo_client s) = ws_submit s"
  by (simp_all add: demo_client_def tick_def)

text \<open>One stream is withdrawn, the id of the other is not a number.\<close>

lemma demo_batch:
  "\<exists>s'. batchWithdraw demo_client (\<lambda>_. Inr ()) [''1'', ''x''] 1 demo_state =
     Some (s', Inr ([''1''], [(''x'', EncodeFailed (BadStreamId (InvalidStreamIdError ''x'')))]))"
  by (simp add: batchWithdraw_def sbind_def publicKey_def demo_calls chunk_loop.simps js_slice_def slice_index_def
      withdraw_chunk_def stry_def slift_def awaited_def encoded_def demo_encodes executeBatch_def buildAndSubmitBatch_def
      checkWalletNetwork_def requireWallet_def submission_def demo_submits del: encode_op.simps)

theorem batchWithdraw_accounts_witness:
  "\<exists>s' xs ys. batchWithdraw demo_client (\<lambda>_. Inr ()) [''1'', ''x''] 1 demo_state = Some (s', Inr (xs, ys)) \<and>
     mset xs + mset (map fst ys) = mset [''1'', ''x'']"
proof -
  obtain s' where run: "batchWithdraw demo_client (\<lambda>_. Inr ()) [''1'', ''x''] 1 demo_state =
     Some (s', Inr ([''1''], [(''x'', EncodeFailed (BadStreamId (InvalidStreamIdError ''x'')))]))"
    using demo_batch by blast
  from batchWithdraw_accounts [OF _ run] run show ?thesis by (metis zero_less_one)
qed

theorem batchWithdraw_hangs_witness:
  "batchWithdraw demo_client (\<lambda>_. Inr ()) [''1''] 0 demo_state = None"
  by (rule batchWithdraw_hangs) (simp_all add: demo_calls)

section \<open>What is dropped or misreported\<close>

text \<open>
  The start time, the lock, the cliff, the nonce and the tag of a new stream are validated, but the
  encoded call is the same without them.
\<close>

lemma create_drops_fields:
  "encode_create native payer (p\<lparr>sp_startTime := a, sp_lockUntil := b, sp_cliffSeconds := c, sp_nonce := d, sp_tag := e\<rparr>) =
   encode_create native payer p"
  by (simp add: encode_create_def namespace_of_def)

text \<open>
  A row of \<open>bulkCreateStreams\<close> whose transaction is confirmed counts as failed when the listing that
  follows fails; a caller who retries the failed rows creates the stream twice.
\<close>

lemma confirmed_row_reported_failed:
  assumes "encode_op (wv_native env) (CreateStreamOp payer (row_params tok renew r)) = Inr operation"
    and "buildAndSubmit env operation ''bulkCreateStreams'' no_options s = Some (s1, Inr (h, ledger))"
    and "wv_listBySender env (ws_clock s1) payer = Inl e" and "\<And>x. onProgress x = Inr ()"
  shows "accepted env [operation] h \<and>
    (\<exists>s' t'. bulk_rows env onProgress m payer tok renew k [r] t s = Some (s', Inr t') \<and>
       bl_failed t' = bl_failed t @ [(k, r, Threw e)] \<and> bl_results t' = bl_results t)"
  using assms(1,3,4) assms(2) buildAndSubmit_accepted [OF assms(2)]
  by (simp add: sbind_def stry_def encoded_def slift_def listed_after_def awaited_def report_def Let_def del: encode_op.simps)

text \<open>The cliff of a row is validated and then ignored.\<close>

lemma bulk_ignores_cliff: "row_params tok renew (r\<lparr>br_cliffSeconds := c\<rparr>) = row_params tok renew r"
  by (simp add: row_params_def row_token_def)

end
