(* ===== verification/Json.thy ===== *)
theory Json
  imports Amounts
begin

text \<open>
  JSON texts, as \<open>JSON.stringify\<close> prints them (without indentation) and \<open>JSON.parse\<close> reads them. A
  value keeps a number as its literal: what it denotes is read where it is used. \<open>JBig\<close> is a
  \<open>bigint\<close>, which has no JSON text. Strings are over the characters up to 255; an escape \<open>\uXXXX\<close>
  beyond them is refused.
\<close>

datatype json =
    JNull
  | JBool bool
  | JNum string
  | JBig int
  | JStr string
  | JArr "json list"
  | JObj "(string \<times> json) list"

section \<open>Strings\<close>

definition quote_char :: char where "quote_char = CHR 0x22"

definition backslash :: char where "backslash = CHR 0x5C"

definition hex_digit :: "nat \<Rightarrow> char" where
  "hex_digit d = (if d < 10 then char_of (48 + d) else char_of (87 + d))"

text \<open>The two-character escapes: the letter and the character it stands for.\<close>

definition ESCAPES :: "(char \<times> char) list" where
  "ESCAPES = [(quote_char, quote_char), (backslash, backslash), (CHR ''/'', CHR ''/''), (CHR ''b'', CHR 0x08),
     (CHR ''f'', CHR 0x0C), (CHR ''n'', CHR 0x0A), (CHR ''r'', CHR 0x0D), (CHR ''t'', CHR 0x09)]"

definition print_char :: "char \<Rightarrow> string" where
  "print_char c =
     (let n = (of_char c :: nat)
      in if c = quote_char \<or> c = backslash then [backslash, c]
         else if n = 8 then [backslash, CHR ''b''] else if n = 12 then [backslash, CHR ''f'']
         else if n = 10 then [backslash, CHR ''n''] else if n = 13 then [backslash, CHR ''r'']
         else if n = 9 then [backslash, CHR ''t'']
         else if n < 32 then [backslash, CHR ''u'', CHR ''0'', CHR ''0'', hex_digit (n div 16), hex_digit (n mod 16)]
         else [c])"

definition print_string :: "string \<Rightarrow> string" where
  "print_string s = quote_char # concat (map print_char s) @ [quote_char]"

text \<open>The rest of a string literal: its characters, and what follows the closing quote.\<close>

definition hex4 :: "string \<Rightarrow> char option" where
  "hex4 s = (if length s = 4 \<and> list_all (radix_digit 16) s
     then (let n = from_digits 16 (map radix_val s) in if n < 256 then Some (char_of n) else None) else None)"

fun parse_chars :: "string \<Rightarrow> (string \<times> string) option" where
  "parse_chars [] = None"
| "parse_chars (c # s) =
     (if c = quote_char then Some ([], s)
      else if c = backslash then
        (case s of
           [] \<Rightarrow> None
         | e # t \<Rightarrow>
             if e = CHR ''u'' then
               (case hex4 (take 4 t) of None \<Rightarrow> None | Some d \<Rightarrow>
                 (case parse_chars (drop 4 t) of None \<Rightarrow> None | Some (u, r) \<Rightarrow> Some (d # u, r)))
             else
               (case map_of ESCAPES e of None \<Rightarrow> None | Some d \<Rightarrow>
                 (case parse_chars t of None \<Rightarrow> None | Some (u, r) \<Rightarrow> Some (d # u, r))))
      else if (of_char c :: nat) < 32 then None
      else (case parse_chars s of None \<Rightarrow> None | Some (u, r) \<Rightarrow> Some (c # u, r)))"

section \<open>Numbers\<close>

text \<open>A literal: an optional sign, an integer without leading zeros, a fraction, an exponent.\<close>

definition take_fraction :: "string \<Rightarrow> (string \<times> string) option" where
  "take_fraction s =
     (if s = [] \<or> hd s \<noteq> CHR ''.'' then Some ([], s)
      else (let ds = takeWhile is_digit (tl s)
            in if ds = [] then None else Some (CHR ''.'' # ds, dropWhile is_digit (tl s))))"

definition take_exponent :: "string \<Rightarrow> (string \<times> string) option" where
  "take_exponent s =
     (if s = [] \<or> hd s \<noteq> CHR ''e'' \<and> hd s \<noteq> CHR ''E'' then Some ([], s)
      else (let t = tl s; signed = t \<noteq> [] \<and> (hd t = CHR ''+'' \<or> hd t = CHR ''-'');
                u = (if signed then tl t else t); ds = takeWhile is_digit u
            in if ds = [] then None
               else Some (hd s # (if signed then [hd t] else []) @ ds, dropWhile is_digit u)))"

definition parse_number :: "string \<Rightarrow> (string \<times> string) option" where
  "parse_number s =
     (let signed = s \<noteq> [] \<and> hd s = CHR ''-''; t = (if signed then tl s else s);
          ds = takeWhile is_digit t
      in if ds = [] then None
         else (let n = (if hd ds = CHR ''0'' then 1 else length ds)
               in case take_fraction (drop n t) of
                    None \<Rightarrow> None
                  | Some (f, r) \<Rightarrow> (case take_exponent r of
                        None \<Rightarrow> None
                      | Some (e, r') \<Rightarrow> Some ((if signed then ''-'' else []) @ take n t @ f @ e, r'))))"

section \<open>Values\<close>

fun print_json :: "json \<Rightarrow> string" where
  "print_json JNull = ''null''"
| "print_json (JBool b) = (if b then ''true'' else ''false'')"
| "print_json (JNum l) = l"
| "print_json (JBig n) = string_of_int n"
| "print_json (JStr s) = print_string s"
| "print_json (JArr vs) = (CHR ''['' # (case vs of [] \<Rightarrow> [] | v # ws \<Rightarrow>
     print_json v @ concat (map (\<lambda>w. CHR '','' # print_json w) ws))) @ '']''"
| "print_json (JObj ps) = (CHR ''{'' # (case ps of [] \<Rightarrow> [] | p # qs \<Rightarrow>
     print_string (fst p) @ '':'' @ print_json (snd p) @
     concat (map (\<lambda>q. CHR '','' # print_string (fst q) @ '':'' @ print_json (snd q)) qs))) @ ''}''"

definition json_space :: "char \<Rightarrow> bool" where
  "json_space c \<longleftrightarrow> (of_char c :: nat) \<in> {9, 10, 13, 32}"

definition skip_space :: "string \<Rightarrow> string" where
  "skip_space s = dropWhile json_space s"

text \<open>After a value in a list: the separator and whether another element follows.\<close>

definition closes :: "char \<Rightarrow> string \<Rightarrow> (bool \<times> string) option" where
  "closes final s =
     (case skip_space s of
        [] \<Rightarrow> None
      | c # t \<Rightarrow> if c = final then Some (True, t) else if c = CHR '','' then Some (False, t) else None)"

text \<open>Each call consumes a character before it recurs, so the length of the text is enough fuel.\<close>

fun parse_value :: "nat \<Rightarrow> string \<Rightarrow> (json \<times> string) option"
  and parse_elems :: "nat \<Rightarrow> string \<Rightarrow> (json list \<times> string) option"
  and parse_member :: "nat \<Rightarrow> string \<Rightarrow> ((string \<times> json) list \<times> string) option" where
  "parse_value 0 s = None"
| "parse_value (Suc n) s =
     (case skip_space s of
        [] \<Rightarrow> None
      | c # t \<Rightarrow>
          if c = quote_char then map_option (map_prod JStr id) (parse_chars t)
          else if c = CHR ''['' then
            (if skip_space t \<noteq> [] \<and> hd (skip_space t) = CHR '']'' then Some (JArr [], tl (skip_space t))
             else map_option (map_prod JArr id) (parse_elems n t))
          else if c = CHR ''{'' then
            (if skip_space t \<noteq> [] \<and> hd (skip_space t) = CHR ''}'' then Some (JObj [], tl (skip_space t))
             else map_option (map_prod (\<lambda>ps. JObj (foldl (\<lambda>m (k, v). map_set k v m) [] ps)) id) (parse_member n t))
          else if take 4 (c # t) = ''null'' then Some (JNull, drop 4 (c # t))
          else if take 4 (c # t) = ''true'' then Some (JBool True, drop 4 (c # t))
          else if take 5 (c # t) = ''false'' then Some (JBool False, drop 5 (c # t))
          else map_option (map_prod JNum id) (parse_number (c # t)))"
| "parse_elems 0 s = None"
| "parse_elems (Suc n) s =
     (case parse_value n s of None \<Rightarrow> None | Some (v, r) \<Rightarrow>
       (case closes (CHR '']'') r of
          None \<Rightarrow> None
        | Some (True, r') \<Rightarrow> Some ([v], r')
        | Some (False, r') \<Rightarrow> map_option (map_prod (Cons v) id) (parse_elems n r')))"
| "parse_member 0 s = None"
| "parse_member (Suc n) s =
     (case skip_space s of
        [] \<Rightarrow> None
      | c # t \<Rightarrow>
          if c \<noteq> quote_char then None
          else (case parse_chars t of None \<Rightarrow> None | Some (k, r) \<Rightarrow>
            (case skip_space r of
               [] \<Rightarrow> None
             | d # u \<Rightarrow>
                 if d \<noteq> CHR '':'' then None
                 else (case parse_value n u of None \<Rightarrow> None | Some (v, r2) \<Rightarrow>
                   (case closes (CHR ''}'') r2 of
                      None \<Rightarrow> None
                    | Some (True, r') \<Rightarrow> Some ([(k, v)], r')
                    | Some (False, r') \<Rightarrow> map_option (map_prod (Cons (k, v)) id) (parse_member n r'))))))"

definition json_parse :: "string \<Rightarrow> json option" where
  "json_parse s = (case parse_value (Suc (2 * length s)) s of
     None \<Rightarrow> None | Some (v, r) \<Rightarrow> if skip_space r = [] then Some v else None)"

end
