(* ===== verification/JsonText.thy ===== *)
theory JsonText
  imports Json
begin

text \<open>\<open>JSON.parse\<close> reads back what \<open>JSON.stringify\<close> printed, for values with integral numbers and distinct keys.\<close>

section \<open>Strings\<close>

lemma special_chars [simp]: "quote_char \<noteq> backslash" "backslash \<noteq> quote_char" "\<not> json_space quote_char" "\<not> json_space backslash"
  by (simp_all add: quote_char_def backslash_def json_space_def)

lemma quote_char_distinct [simp]: "quote_char \<noteq> CHR ''u''" "quote_char \<noteq> CHR ''[''" "quote_char \<noteq> CHR ''{''"
  "backslash \<noteq> CHR ''u''" "CHR ''['' \<noteq> quote_char" "CHR ''{'' \<noteq> quote_char"
  by (simp_all add: quote_char_def backslash_def)

lemma skip_space_simps [simp]: "skip_space [] = []" "\<not> json_space c \<Longrightarrow> skip_space (c # s) = c # s"
  by (simp_all add: skip_space_def)

lemma no_space [simp]: "\<not> json_space CHR ''[''" "\<not> json_space CHR '']''" "\<not> json_space CHR ''{''" "\<not> json_space CHR ''}''"
  "\<not> json_space CHR '',''" "\<not> json_space CHR '':''" "\<not> json_space CHR ''n''" "\<not> json_space CHR ''t''" "\<not> json_space CHR ''f''"
  by (simp_all add: json_space_def)

lemma quote_char_letters [simp]: "quote_char \<noteq> CHR ''}''" "quote_char \<noteq> CHR '']''" "quote_char \<noteq> CHR '',''" "quote_char \<noteq> CHR '':''" "CHR ''n'' \<noteq> quote_char" "CHR ''t'' \<noteq> quote_char" "CHR ''f'' \<noteq> quote_char"
  by (simp_all add: quote_char_def)

lemma hex_digit_ok: "d < 16 \<Longrightarrow> radix_digit 16 (hex_digit d) \<and> radix_val (hex_digit d) = d"
  by (auto simp: hex_digit_def radix_digit_def radix_val_def Let_def)

lemma hex4_control:
  assumes "(of_char c :: nat) < 32"
  shows "hex4 [CHR ''0'', CHR ''0'', hex_digit ((of_char c :: nat) div 16), hex_digit ((of_char c :: nat) mod 16)] = Some c"
proof -
  define n where "n = (of_char c :: nat)"
  have n: "n div 16 < 16" "n mod 16 < 16" using assms by (simp_all add: n_def)
  have zero: "radix_digit 16 CHR ''0''" "radix_val CHR ''0'' = 0" by (simp_all add: radix_digit_def radix_val_def)
  have "from_digits 16 [0, 0, n div 16, n mod 16] = n" by (simp add: from_digits_def)
  moreover have "char_of n = c" by (simp add: n_def)
  moreover have "n < 256" using assms by (simp add: n_def)
  ultimately show ?thesis
    unfolding n_def [symmetric] hex4_def
    using hex_digit_ok [OF n(1)] hex_digit_ok [OF n(2)] zero by simp
qed

lemma parse_print_char:
  "parse_chars (print_char c @ s) = (case parse_chars s of None \<Rightarrow> None | Some (u, r) \<Rightarrow> Some (c # u, r))"
proof -
  have c: "(of_char c :: nat) = 8 \<Longrightarrow> c = CHR 0x08" "(of_char c :: nat) = 9 \<Longrightarrow> c = CHR 0x09"
    "(of_char c :: nat) = 10 \<Longrightarrow> c = CHR 0x0A" "(of_char c :: nat) = 12 \<Longrightarrow> c = CHR 0x0C"
    "(of_char c :: nat) = 13 \<Longrightarrow> c = CHR 0x0D"
    by (simp_all flip: of_char_eq_iff [where 'a = nat])
  show ?thesis
  proof (cases "c = quote_char \<or> c = backslash")
    case True
    then show ?thesis by (auto simp: print_char_def ESCAPES_def quote_char_def backslash_def)
  next
    case False
    show ?thesis
    proof (cases "(of_char c :: nat) < 32")
      case True
      show ?thesis
      proof (cases "(of_char c :: nat) \<in> {8, 9, 10, 12, 13}")
        case True
        then show ?thesis
          by (auto dest!: c simp: print_char_def Let_def ESCAPES_def quote_char_def backslash_def)
      next
        case esc: False
        from False True esc hex4_control [OF True] show ?thesis
          by (simp add: print_char_def Let_def)
      qed
    next
      case big: False
      then have "(of_char c :: nat) \<notin> {8, 9, 10, 12, 13}" by auto
      with False big show ?thesis by (simp add: print_char_def Let_def)
    qed
  qed
qed

lemma parse_print_chars: "parse_chars (concat (map print_char s) @ quote_char # r) = Some (s, r)"
  by (induction s) (simp_all add: parse_print_char)

section \<open>Numbers\<close>

definition follows :: "string \<Rightarrow> bool" where
  "follows rest \<longleftrightarrow> rest = [] \<or> hd rest \<in> {CHR '','', CHR '']'', CHR ''}''}"

lemma followsI [simp]: "follows []" "follows (CHR '','' # r)" "follows (CHR '']'' # r)" "follows (CHR ''}'' # r)"
  by (simp_all add: follows_def)

lemma takeWhile_digits_follows: "list_all is_digit ds \<Longrightarrow> follows r \<Longrightarrow> takeWhile is_digit (ds @ r) = ds"
  by (induction ds) (auto simp: follows_def is_digit_def takeWhile_eq_Nil_iff)

lemma no_fraction: "follows r \<Longrightarrow> take_fraction r = Some ([], r)" "follows r \<Longrightarrow> take_exponent r = Some ([], r)"
  by (auto simp: follows_def take_fraction_def take_exponent_def)

lemma string_of_nat_shape:
  "string_of_nat n = ''0'' \<or> hd (string_of_nat n) \<noteq> CHR ''0''"
proof (cases "n = 0")
  case False
  then have "0 < hd (digits 10 n)" "hd (digits 10 n) < 10" "digits 10 n \<noteq> []"
    using digits_hd [of 10 n] digits_less [of 10 _ n] by (auto simp: digits_eq_Nil_iff)
  then have "digit_char (hd (digits 10 n)) \<noteq> CHR ''0''"
    by (metis digit_char_0 digit_val_char gr_implies_not0 zero_less_numeral)
  with False \<open>digits 10 n \<noteq> []\<close> show ?thesis by (simp add: string_of_nat_def hd_map)
qed (simp add: string_of_nat_def)

lemma parse_nat:
  assumes "follows r"
  shows "parse_number (string_of_nat n @ r) = Some (string_of_nat n, r)"
    and "parse_number (CHR ''-'' # string_of_nat n @ r) = Some (CHR ''-'' # string_of_nat n, r)"
proof -
  obtain d ds where n: "string_of_nat n = d # ds" by (cases "string_of_nat n") simp_all
  have "list_all is_digit (string_of_nat n)" using string_of_nat_digits by (auto simp: list_all_iff)
  then have t: "takeWhile is_digit (d # ds @ r) = d # ds"
    using takeWhile_digits_follows [OF _ assms, of "d # ds"] n by simp
  have h: "d \<noteq> CHR ''-''" using string_of_nat_digits [of d n] n by (auto simp: is_digit_def)
  have k: "d = CHR ''0'' \<Longrightarrow> ds = []" using string_of_nat_shape [of n] n by auto
  show "parse_number (string_of_nat n @ r) = Some (string_of_nat n, r)"
    unfolding parse_number_def Let_def n append_Cons using h k t
    by (cases "d = CHR ''0''") (simp_all add: no_fraction [OF assms] del: takeWhile.simps)
  show "parse_number (CHR ''-'' # string_of_nat n @ r) = Some (CHR ''-'' # string_of_nat n, r)"
    unfolding parse_number_def Let_def n append_Cons using k t
    by (cases "d = CHR ''0''") (simp_all add: no_fraction [OF assms] del: takeWhile.simps)
qed

lemma parse_int: "follows r \<Longrightarrow> parse_number (string_of_int n @ r) = Some (string_of_int n, r)"
  by (simp add: string_of_int_def parse_nat)

section \<open>Values\<close>

text \<open>Integral numbers, distinct keys, no \<open>bigint\<close>: what a plain record of strings and integers becomes.\<close>

fun plain_json :: "json \<Rightarrow> bool" where
  "plain_json JNull \<longleftrightarrow> True"
| "plain_json (JBool b) \<longleftrightarrow> True"
| "plain_json (JNum l) \<longleftrightarrow> (\<exists>n. l = string_of_int n)"
| "plain_json (JBig n) \<longleftrightarrow> False"
| "plain_json (JStr s) \<longleftrightarrow> True"
| "plain_json (JArr vs) \<longleftrightarrow> list_all plain_json vs"
| "plain_json (JObj ps) \<longleftrightarrow> distinct (map fst ps) \<and> list_all (\<lambda>p. plain_json (snd p)) ps"

definition print_rest :: "json list \<Rightarrow> string" where
  "print_rest ws = concat (map (\<lambda>w. CHR '','' # print_json w) ws)"

definition print_member :: "string \<times> json \<Rightarrow> string" where
  "print_member q = print_string (fst q) @ '':'' @ print_json (snd q)"

definition print_members :: "(string \<times> json) list \<Rightarrow> string" where
  "print_members qs = concat (map (\<lambda>q. CHR '','' # print_member q) qs)"

lemma print_containers:
  "print_json (JArr (v # ws)) = CHR ''['' # print_json v @ print_rest ws @ '']''"
  "print_json (JObj (p # qs)) = CHR ''{'' # print_member p @ print_members qs @ ''}''"
  by (simp_all add: print_rest_def print_members_def print_member_def)

lemma string_of_int_head: "\<exists>c s. string_of_int n = c # s \<and> (is_digit c \<or> c = CHR ''-'')"
proof (cases "string_of_nat (nat \<bar>n\<bar>)")
  case (Cons d ds)
  then have "is_digit d" using string_of_nat_digits [of d "nat \<bar>n\<bar>"] by simp
  with Cons show ?thesis by (auto simp: string_of_int_def)
qed simp

lemma print_head:
  assumes "plain_json v"
  obtains c s where "print_json v = c # s" "\<not> json_space c" "c \<notin> {CHR '']'', CHR ''}'', CHR '','', CHR '':''}"
proof (cases v)
  case (JNum l)
  then obtain k where l: "l = string_of_int k" using assms by auto
  obtain c s where "string_of_int k = c # s" "is_digit c \<or> c = CHR ''-''" using string_of_int_head by blast
  moreover from this have "\<not> json_space c" "c \<notin> {CHR '']'', CHR ''}'', CHR '','', CHR '':''}"
    by (auto simp: json_space_def is_digit_def)
  ultimately show ?thesis using JNum l that by simp
next
  case (JBool b)
  then show ?thesis using that by (cases b) simp_all
next
  case (JArr vs)
  then show ?thesis using that by simp
next
  case (JObj ps)
  then show ?thesis using that by simp
qed (use assms that in \<open>simp_all add: print_string_def\<close>)

lemma skip_space_print: "plain_json v \<Longrightarrow> skip_space (print_json v @ r) = print_json v @ r"
  by (erule print_head) (simp add: skip_space_def)

lemma print_nonempty: "plain_json v \<Longrightarrow> 0 < length (print_json v)"
  by (erule print_head) simp

lemma foldl_map_set_distinct:
  "distinct (map fst (m @ ps)) \<Longrightarrow> foldl (\<lambda>m (k, v). map_set k v m) m ps = m @ ps"
proof (induction ps arbitrary: m)
  case (Cons p ps)
  obtain k v where p: "p = (k, v)" by force
  with Cons.prems have "map_set k v m = m @ [(k, v)]" by (simp add: map_set_fresh)
  with Cons.IH [of "m @ [p]"] Cons.prems p show ?case by simp
qed simp

lemma closes_here: "closes f (f # r) = Some (True, r)" if "\<not> json_space f"
  using that by (simp add: closes_def)

lemma closes_comma: "f \<noteq> CHR '','' \<Longrightarrow> closes f (CHR '','' # r) = Some (False, r)"
  by (simp add: closes_def)

lemma parse_elems_print:
  assumes "list_all plain_json (v # ws)"
    and "\<And>w r m. w \<in> set (v # ws) \<Longrightarrow> follows r \<Longrightarrow> 2 * length (print_json w) \<le> m \<Longrightarrow>
           parse_value m (print_json w @ r) = Some (w, r)"
    and "2 * length (print_json v @ print_rest ws) < n"
  shows "parse_elems n (print_json v @ print_rest ws @ CHR '']'' # r) = Some (v # ws, r)"
  using assms
proof (induction ws arbitrary: v n)
  case Nil
  then obtain m where n: "n = Suc m" by (cases n) simp_all
  with Nil.prems(2) [of v "CHR '']'' # r" m] Nil.prems(3) show ?case
    by (simp add: print_rest_def closes_here)
next
  case (Cons w ws)
  then obtain m where n: "n = Suc m" by (cases n) simp_all
  have "parse_value m (print_json v @ CHR '','' # print_json w @ print_rest ws @ CHR '']'' # r) =
      Some (v, CHR '','' # print_json w @ print_rest ws @ CHR '']'' # r)"
    by (rule Cons.prems(2)) (use Cons.prems(3) n in simp_all)
  moreover have "parse_elems m (print_json w @ print_rest ws @ CHR '']'' # r) = Some (w # ws, r)"
    by (rule Cons.IH) (use Cons.prems n in \<open>simp_all add: print_rest_def\<close>)
  ultimately show ?case by (simp add: n print_rest_def closes_comma)
qed

lemma parse_member_print:
  assumes "list_all (\<lambda>p. plain_json (snd p)) (q # qs)"
    and "\<And>p r m. p \<in> set (q # qs) \<Longrightarrow> follows r \<Longrightarrow> 2 * length (print_json (snd p)) \<le> m \<Longrightarrow>
           parse_value m (print_json (snd p) @ r) = Some (snd p, r)"
    and "2 * length (print_member q @ print_members qs) < n"
  shows "parse_member n (print_member q @ print_members qs @ CHR ''}'' # r) = Some (q # qs, r)"
  using assms
proof (induction qs arbitrary: q n)
  case Nil
  then obtain m where n: "n = Suc m" by (cases n) simp_all
  with Nil.prems(2) [of q "CHR ''}'' # r" m] Nil.prems(3) show ?case
    by (simp add: print_members_def print_member_def print_string_def parse_print_chars closes_here)
next
  case (Cons p qs)
  then obtain m where n: "n = Suc m" by (cases n) simp_all
  have "parse_value m (print_json (snd q) @ CHR '','' # print_member p @ print_members qs @ CHR ''}'' # r) =
      Some (snd q, CHR '','' # print_member p @ print_members qs @ CHR ''}'' # r)"
    by (rule Cons.prems(2)) (use Cons.prems(3) n in \<open>simp_all add: print_member_def\<close>)
  moreover have "parse_member m (print_member p @ print_members qs @ CHR ''}'' # r) = Some (p # qs, r)"
    by (rule Cons.IH) (use Cons.prems n in \<open>simp_all add: print_members_def\<close>)
  ultimately show ?case
    by (simp add: n print_members_def print_member_def [of q] print_string_def parse_print_chars
        closes_comma)
qed

lemma parse_value_print:
  "plain_json v \<Longrightarrow> follows r \<Longrightarrow> 2 * length (print_json v) \<le> n \<Longrightarrow> parse_value n (print_json v @ r) = Some (v, r)"
proof (induction v arbitrary: r n)
  case (JArr vs)
  then obtain m where n: "n = Suc m" by (cases n) simp_all
  show ?case
  proof (cases vs)
    case Nil
    then show ?thesis by (simp add: n)
  next
    case (Cons v ws)
    have "skip_space (print_json v @ print_rest ws @ CHR '']'' # r) = print_json v @ print_rest ws @ CHR '']'' # r"
      using JArr.prems(1) Cons by (simp add: skip_space_print)
    moreover have "hd (print_json v @ print_rest ws @ CHR '']'' # r) \<noteq> CHR '']''"
      using JArr.prems(1) Cons by (auto elim: print_head)
    moreover have "parse_elems m (print_json v @ print_rest ws @ CHR '']'' # r) = Some (v # ws, r)"
    proof (rule parse_elems_print)
      show "parse_value k (print_json w @ t) = Some (w, t)"
        if "w \<in> set (v # ws)" "follows t" "2 * length (print_json w) \<le> k" for w t k
        by (rule JArr.IH) (use that Cons JArr.prems(1) in \<open>auto simp: list_all_iff\<close>)
    qed (use JArr.prems Cons n in \<open>simp_all add: print_containers del: print_json.simps(6)\<close>)
    ultimately show ?thesis
      by (simp add: n Cons print_containers del: print_json.simps)
  qed
next
  case (JObj ps)
  then obtain m where n: "n = Suc m" by (cases n) simp_all
  show ?case
  proof (cases ps)
    case Nil
    then show ?thesis by (simp add: n)
  next
    case (Cons q qs)
    obtain u where q: "print_member q = quote_char # u" by (simp add: print_member_def print_string_def)
    have "parse_member m (print_member q @ print_members qs @ CHR ''}'' # r) = Some (q # qs, r)"
    proof (rule parse_member_print)
      show "parse_value k (print_json (snd p) @ t) = Some (snd p, t)"
        if "p \<in> set (q # qs)" "follows t" "2 * length (print_json (snd p)) \<le> k" for p t k
        by (rule JObj.IH [of p]) (use that Cons JObj.prems(1) in \<open>auto simp: list_all_iff snds.simps\<close>)
    qed (use JObj.prems Cons n in \<open>simp_all add: print_containers del: print_json.simps(7)\<close>)
    moreover have "foldl (\<lambda>m (k, v). map_set k v m) [] (q # qs) = q # qs"
      using foldl_map_set_distinct [of "[]" "q # qs"] JObj.prems(1) Cons by simp
    ultimately show ?thesis
      by (simp add: n Cons print_containers q del: print_json.simps foldl_Cons)
  qed
next
  case (JNum l)
  then obtain k where l: "l = string_of_int k" by auto
  obtain c s where cs: "string_of_int k = c # s" "is_digit c \<or> c = CHR ''-''" using string_of_int_head by blast
  from JNum.prems(3) l cs obtain m where n: "n = Suc m" by (cases n) simp_all
  have "skip_space (c # s @ r) = c # s @ r" using cs(2) by (auto simp: skip_space_def json_space_def is_digit_def)
  moreover have "c \<noteq> quote_char" "c \<noteq> CHR ''[''" "c \<noteq> CHR ''{''" "c \<noteq> CHR ''n''" "c \<noteq> CHR ''t''" "c \<noteq> CHR ''f''"
    using cs(2) by (auto simp: is_digit_def quote_char_def)
  ultimately show ?case using parse_int [OF JNum.prems(2), of k] by (simp add: n l cs)
next
  case (JStr s)
  then obtain m where n: "n = Suc m" by (cases n) (simp_all add: print_string_def)
  then show ?case by (simp add: print_string_def parse_print_chars)
next
  case JNull
  then obtain m where n: "n = Suc m" by (cases n) simp_all
  then show ?case by simp
next
  case (JBool b)
  then obtain m where n: "n = Suc m" by (cases n) (simp_all split: if_splits)
  then show ?case by simp
qed simp

lemma json_parse_print: "plain_json v \<Longrightarrow> json_parse (print_json v) = Some v"
  using parse_value_print [of v "[]" "Suc (2 * length (print_json v))"]
  by (simp add: json_parse_def del: parse_value.simps)

end
