(* ===== verification/NumberText.thy ===== *)
theory NumberText
  imports Json ContractCalls
begin

text \<open>
  \<open>Number(s)\<close> on a string and \<open>String(x)\<close> on a number. The value is exact: the rounding of a literal
  with more than 53 significant bits is not modelled, and only integral numbers are printed.
\<close>

definition radix_prefixed :: "string \<Rightarrow> js_num option" where
  "radix_prefixed t =
     (if length t \<ge> 2 \<and> hd t = CHR ''0'' \<and> hd (tl t) \<in> set ''xXoObB''
      then (let b = (if hd (tl t) \<in> set ''xX'' then 16 else if hd (tl t) \<in> set ''oO'' then 8 else 2)
            in case radix_literal b (drop 2 t) of None \<Rightarrow> Some NotANumber | Some n \<Rightarrow> Some (Num (of_int n)))
      else None)"

definition power_ten :: "int \<Rightarrow> rat" where
  "power_ten e = (if 0 \<le> e then 10 ^ nat e else 1 / 10 ^ nat (- e))"

definition decimal_number :: "string \<Rightarrow> rat option" where
  "decimal_number u =
     (let (ip, r) = split_digits u;
          (fp, r2) = (if r \<noteq> [] \<and> hd r = CHR ''.'' then split_digits (tl r) else ([], r));
          ex = (if r2 = [] then Some 0 else match_exponent r2)
      in if ip = [] \<and> fp = [] then None
         else (case ex of None \<Rightarrow> None
           | Some e \<Rightarrow> Some (of_nat (decimal_value (ip @ fp)) * power_ten (e - int (length fp)))))"

definition number_of_string :: "string \<Rightarrow> js_num" where
  "number_of_string s =
     (let t = js_trim s
      in if t = [] then Num 0
         else (case radix_prefixed t of
             Some n \<Rightarrow> n
           | None \<Rightarrow>
               (let negative = hd t = CHR ''-''; u = (if hd t \<in> set ''+-'' then tl t else t)
                in if u = ''Infinity'' then (if negative then MinusInfinity else PlusInfinity)
                   else (case decimal_number u of
                       None \<Rightarrow> NotANumber
                     | Some q \<Rightarrow> Num (if negative then - q else q)))))"

fun integral :: "js_num \<Rightarrow> int option" where
  "integral (Num q) = (if of_int \<lfloor>q\<rfloor> = q then Some \<lfloor>q\<rfloor> else None)"
| "integral _ = None"

section \<open>Integers\<close>

lemma split_digits_all: "list_all is_digit s \<Longrightarrow> split_digits s = (s, [])"
  by (simp add: split_digits_def takeWhile_eq_all_conv dropWhile_eq_Nil_conv list_all_iff)

lemma decimal_number_digits:
  "list_all is_digit s \<Longrightarrow> s \<noteq> [] \<Longrightarrow> decimal_number s = Some (of_nat (decimal_value s))"
  by (simp add: decimal_number_def split_digits_all power_ten_def)

lemma string_of_int_trim: "js_trim (string_of_int n) = string_of_int n"
proof (rule js_trim_id)
  have "list_all (\<lambda>c. \<not> js_space c) (string_of_nat k)" for k
    using digits_not_space [of "string_of_nat k"] string_of_nat_digits by (auto simp: list_all_iff)
  then show "list_all (\<lambda>c. \<not> js_space c) (string_of_int n)"
    by (simp add: string_of_int_def js_space_def)
qed

lemma number_of_int_string: "number_of_string (string_of_int n) = Num (of_int n)"
proof -
  have digits: "list_all is_digit (string_of_nat k)" for k
    using string_of_nat_digits by (auto simp: list_all_iff)
  have no_letter: "\<not> (length (string_of_nat k) \<ge> 2 \<and> hd (tl (string_of_nat k)) \<in> set ''xXoObB'')" for k
  proof (cases "string_of_nat k")
    case (Cons c cs)
    then show ?thesis using digits [of k] by (cases cs) (auto simp: is_digit_def)
  qed simp
  have sign: "hd (string_of_nat k) \<noteq> CHR ''-''" "hd (string_of_nat k) \<noteq> CHR ''+''" "string_of_nat k \<noteq> ''Infinity''" for k
    using digits [of k] by (cases "string_of_nat k"; auto simp: is_digit_def)+
  show ?thesis
  proof (cases "n < 0")
    case True
    then have "of_nat (nat (- n)) = (- of_int n :: rat)" by simp
    with True show ?thesis
      unfolding number_of_string_def string_of_int_trim Let_def
      by (simp add: string_of_int_def radix_prefixed_def sign decimal_number_digits [OF digits])
  next
    case False
    then have "of_nat (nat n) = (of_int n :: rat)" by simp
    with False show ?thesis
      using no_letter [of "nat n"]
      unfolding number_of_string_def string_of_int_trim Let_def
      by (auto simp: string_of_int_def radix_prefixed_def sign decimal_number_digits [OF digits])
  qed
qed

end
