(* ===== verification/StreamJson.thy ===== *)
theory StreamJson
  imports JsonText NumberText
begin

text \<open>
  Streams as JSON texts (\<open>src/utils.ts\<close>): \<open>streamToJSON\<close>, the replacer and reviver for \<open>bigint\<close>,
  \<open>serializeStreamToJSON\<close>, \<open>deserializeStreamFromJSON\<close> and the reader of record lists
  \<open>deserializeStreamRecords\<close>, which cuts the records out of the text by counting brackets. Streams
  that the client returns carry a \<open>toJSON\<close> method (\<open>with_method\<close>), which \<open>JSON.stringify\<close> calls first.
  What a \<open>stream\<close> record cannot hold (a time that is not a whole number, a status that is not one of
  the four, a printed fraction) is the error \<open>OutsideModel\<close>.
\<close>

section \<open>Values\<close>

fun streamToJSON :: "json \<Rightarrow> json" where
  "streamToJSON (JBig n) = JStr (string_of_int n)"
| "streamToJSON (JArr vs) = JArr (map streamToJSON vs)"
| "streamToJSON (JObj ps) =
     JObj (map (\<lambda>p. (fst p, streamToJSON (snd p))) (filter (\<lambda>p. fst p \<noteq> ''toJSON'') ps))"
| "streamToJSON v = v"

text \<open>A replacer or reviver that returns arrays and objects as they are, applied to every value.\<close>

fun json_leaves :: "(json \<Rightarrow> json) \<Rightarrow> json \<Rightarrow> json" where
  "json_leaves f (JArr vs) = JArr (map (json_leaves f) vs)"
| "json_leaves f (JObj ps) = JObj (map (\<lambda>p. (fst p, json_leaves f (snd p))) ps)"
| "json_leaves f v = f v"

definition BIGINT_SUFFIX :: string where "BIGINT_SUFFIX = ''_bigint''"

fun bigintReplacer :: "json \<Rightarrow> json" where
  "bigintReplacer (JBig n) = JStr (string_of_int n @ BIGINT_SUFFIX)"
| "bigintReplacer v = v"

definition suffixed :: "string \<Rightarrow> bool" where
  "suffixed s \<longleftrightarrow> length BIGINT_SUFFIX \<le> length s \<and> drop (length s - length BIGINT_SUFFIX) s = BIGINT_SUFFIX"

fun bigintReviver :: "json \<Rightarrow> json" where
  "bigintReviver (JStr s) =
     (if suffixed s
      then (case big_of_string (take (length s - length BIGINT_SUFFIX) s) of Inr n \<Rightarrow> JBig n | Inl _ \<Rightarrow> JStr s)
      else JStr s)"
| "bigintReviver v = v"

text \<open>The replacer of \<open>jsonStringifyStream\<close>.\<close>

fun plain_replacer :: "json \<Rightarrow> json" where
  "plain_replacer (JBig n) = JStr (string_of_int n)"
| "plain_replacer v = v"

definition jsonStringifyStream :: "json \<Rightarrow> string" where
  "jsonStringifyStream v = print_json (json_leaves plain_replacer v)"

section \<open>Streams\<close>

fun status_name :: "stream_status \<Rightarrow> string" where
  "status_name Active = ''Active''"
| "status_name Cancelled = ''Cancelled''"
| "status_name Completed = ''Completed''"
| "status_name Paused = ''Paused''"

definition status_of_name :: "string \<Rightarrow> stream_status option" where
  "status_of_name s = find (\<lambda>x. status_name x = s) [Active, Cancelled, Completed, Paused]"

definition json_int :: "int \<Rightarrow> json" where "json_int n = JNum (string_of_int n)"

definition optional :: "string \<Rightarrow> ('a \<Rightarrow> json) \<Rightarrow> 'a option \<Rightarrow> (string \<times> json) list" where
  "optional k f x = (case x of None \<Rightarrow> [] | Some v \<Rightarrow> [(k, f v)])"

definition stream_fields :: "stream \<Rightarrow> (string \<times> json) list" where
  "stream_fields s =
     [(''id'', JStr (stream_id s)), (''sender'', JStr (sender s)), (''recipient'', JStr (recipient s)), (''token'', JStr (token s)),
      (''deposit'', JBig (deposit s)), (''flowRate'', JBig (flowRate s)), (''startTime'', json_int (startTime s)),
      (''endTime'', json_int (endTime s)), (''lastWithdrawTime'', json_int (lastWithdrawTime s)),
      (''status'', JStr (status_name (status s))), (''autoRenew'', JBool (autoRenew s))] @
     optional ''pausedAt'' json_int (pausedAt s) @ optional ''lockUntil'' json_int (lockUntil s) @
     optional ''namespace'' JStr (namespace s) @ optional ''tag'' JStr (tag s)"

definition stream_json :: "bool \<Rightarrow> stream \<Rightarrow> json" where
  "stream_json with_method s = (if with_method then streamToJSON (JObj (stream_fields s)) else JObj (stream_fields s))"

definition serializeStreamToJSON :: "bool \<Rightarrow> stream \<Rightarrow> string" where
  "serializeStreamToJSON with_method s = print_json (json_leaves bigintReplacer (stream_json with_method s))"

text \<open>\<open>JSON.stringify(records, bigintReplacer)\<close>.\<close>

definition serialize_records :: "bool \<Rightarrow> stream list \<Rightarrow> string" where
  "serialize_records with_method ss = print_json (JArr (map (\<lambda>s. json_leaves bigintReplacer (stream_json with_method s)) ss))"

datatype json_error =
    InvalidJson
  | NullDereference
  | MissingId
  | BadBigInt amount_error
  | OutsideModel
  | NotAnArray
  | UnterminatedRecord
  | MalformedArray
  | NeverClosed

definition json_field :: "json \<Rightarrow> string \<Rightarrow> json" where
  "json_field v k = (case v of JObj ps \<Rightarrow> (case map_of ps k of None \<Rightarrow> JNull | Some x \<Rightarrow> x) | _ \<Rightarrow> JNull)"

text \<open>\<open>String(x ?? d)\<close>, \<open>Number(x ?? 0)\<close> and \<open>Boolean(x)\<close>; an absent field is \<open>JNull\<close>, like a null one.\<close>

definition number_string :: "js_num \<Rightarrow> json_error + string" where
  "number_string x = (case integral x of
     Some n \<Rightarrow> if \<bar>n\<bar> < 10 ^ 21 then Inr (string_of_int n) else Inl OutsideModel | None \<Rightarrow> Inl OutsideModel)"

fun string_or :: "string \<Rightarrow> json \<Rightarrow> json_error + string" where
  "string_or d JNull = Inr d"
| "string_or d (JStr s) = Inr s"
| "string_or d (JBig n) = Inr (string_of_int n)"
| "string_or d (JBool b) = Inr (if b then ''true'' else ''false'')"
| "string_or d (JNum l) = number_string (number_of_string l)"
| "string_or d _ = Inl OutsideModel"

definition whole :: "js_num \<Rightarrow> json_error + int" where
  "whole x = (case integral x of Some n \<Rightarrow> Inr n | None \<Rightarrow> Inl OutsideModel)"

fun number_or_zero :: "json \<Rightarrow> json_error + int" where
  "number_or_zero JNull = Inr 0"
| "number_or_zero (JNum l) = whole (number_of_string l)"
| "number_or_zero (JBig n) = Inr n"
| "number_or_zero (JBool b) = Inr (if b then 1 else 0)"
| "number_or_zero (JStr s) = whole (number_of_string s)"
| "number_or_zero _ = Inl OutsideModel"

fun json_truthy :: "json \<Rightarrow> bool" where
  "json_truthy JNull \<longleftrightarrow> False"
| "json_truthy (JBool b) \<longleftrightarrow> b"
| "json_truthy (JNum l) \<longleftrightarrow> number_of_string l \<noteq> Num 0"
| "json_truthy (JBig n) \<longleftrightarrow> n \<noteq> 0"
| "json_truthy (JStr s) \<longleftrightarrow> s \<noteq> []"
| "json_truthy _ \<longleftrightarrow> True"

fun big_field :: "json \<Rightarrow> json_error + int" where
  "big_field (JBig n) = Inr n"
| "big_field v = rbind (string_or ''0'' v) (\<lambda>s. map_sum BadBigInt id (big_of_string s))"

fun status_field :: "json \<Rightarrow> json_error + stream_status" where
  "status_field JNull = Inr Active"
| "status_field (JStr s) = (case status_of_name s of None \<Rightarrow> Inl OutsideModel | Some x \<Rightarrow> Inr x)"
| "status_field _ = Inl OutsideModel"

definition optional_time :: "json \<Rightarrow> json_error + int option" where
  "optional_time v = (if v = JNull then Inr None else rbind (number_or_zero v) (\<lambda>n. Inr (Some n)))"

definition stream_of_json :: "json \<Rightarrow> json_error + stream" where
  "stream_of_json v =
     (if v = JNull then Inl NullDereference
      else rbind (string_or [] (json_field v ''id'')) (\<lambda>i.
        if i = [] then Inl MissingId
        else rbind (big_field (json_field v ''deposit'')) (\<lambda>dep.
        rbind (big_field (json_field v ''flowRate'')) (\<lambda>rate.
        rbind (string_or [] (json_field v ''sender'')) (\<lambda>snd.
        rbind (string_or [] (json_field v ''recipient'')) (\<lambda>rcp.
        rbind (string_or [] (json_field v ''token'')) (\<lambda>tok.
        rbind (number_or_zero (json_field v ''startTime'')) (\<lambda>t0.
        rbind (number_or_zero (json_field v ''endTime'')) (\<lambda>t1.
        rbind (number_or_zero (json_field v ''lastWithdrawTime'')) (\<lambda>t2.
        rbind (status_field (json_field v ''status'')) (\<lambda>st.
        rbind (optional_time (json_field v ''pausedAt'')) (\<lambda>p.
        rbind (optional_time (json_field v ''lockUntil'')) (\<lambda>l.
        Inr \<lparr>stream_id = i, sender = snd, recipient = rcp, token = tok, deposit = dep, flowRate = rate, startTime = t0,
             endTime = t1, lastWithdrawTime = t2, status = st, autoRenew = json_truthy (json_field v ''autoRenew''),
             pausedAt = p, lockUntil = l, namespace = None, tag = None\<rparr>)))))))))))))"

definition deserializeStreamFromJSON :: "string \<Rightarrow> json_error + stream" where
  "deserializeStreamFromJSON text = (case json_parse text of
     None \<Rightarrow> Inl InvalidJson | Some v \<Rightarrow> stream_of_json (json_leaves bigintReviver v))"

section \<open>Lists of records\<close>

definition skip_ws :: "string \<Rightarrow> string" where "skip_ws s = dropWhile js_space s"

definition scanned :: "char \<Rightarrow> int \<times> string \<times> string \<Rightarrow> int \<times> string \<times> string" where
  "scanned c x = (fst x, c # fst (snd x), snd (snd x))"

text \<open>The inner loop: the final depth, the text of the record and the rest.\<close>

fun scan :: "int \<Rightarrow> bool \<Rightarrow> bool \<Rightarrow> string \<Rightarrow> int \<times> string \<times> string" where
  "scan depth inString escaped [] = (depth, [], [])"
| "scan depth inString escaped (c # s) =
     (if inString then
        (if escaped then scanned c (scan depth True False s)
         else if c = backslash then scanned c (scan depth True True s)
         else if c = quote_char then scanned c (scan depth False False s)
         else scanned c (scan depth True False s))
      else if c = quote_char then scanned c (scan depth True escaped s)
      else if c = CHR ''{'' \<or> c = CHR ''['' then scanned c (scan (depth + 1) False escaped s)
      else if c = CHR ''}'' \<or> c = CHR '']'' then
        (if depth - 1 = 0 then (0, [c], s) else scanned c (scan (depth - 1) False escaped s))
      else scanned c (scan depth False escaped s))"

lemma scan_length: "length (snd (snd (scan d q e s))) \<le> length s"
  by (induction s arbitrary: d q e) (auto simp: scanned_def le_Suc_eq)

lemma scan_progress: "s \<noteq> [] \<Longrightarrow> length (snd (snd (scan d q e s))) < length s"
proof (cases s)
  case (Cons c t)
  show ?thesis
    using scan_length [of _ _ _ t] by (auto simp: Cons scanned_def less_Suc_eq_le)
qed simp

lemma next_record_shorter:
  assumes "s \<noteq> []" and "r = snd (snd (scan 0 False False s))" and "skip_ws r \<noteq> []"
  shows "length (skip_ws (tl (skip_ws r))) < length s"
proof -
  have "length (skip_ws (tl (skip_ws r))) \<le> length (tl (skip_ws r))" unfolding skip_ws_def by (rule length_dropWhile_le)
  also have "\<dots> < length (skip_ws r)" using assms(3) by simp
  also have "\<dots> \<le> length r" unfolding skip_ws_def by (rule length_dropWhile_le)
  also have "\<dots> < length s" using scan_progress [OF assms(1)] assms(2) by simp
  finally show ?thesis .
qed

text \<open>The records yielded, and the error that ended the walk, if one did.\<close>

function records_loop :: "string \<Rightarrow> stream list \<times> json_error option" where
  "records_loop s =
     (if s = [] then ([], Some NeverClosed)
      else (let (depth, text, r) = scan 0 False False s
            in if depth \<noteq> 0 then ([], Some UnterminatedRecord)
               else (case deserializeStreamFromJSON text of
                   Inl e \<Rightarrow> ([], Some e)
                 | Inr v \<Rightarrow>
                     (let u = skip_ws r
                      in if u \<noteq> [] \<and> hd u = CHR '','' then
                           (let (vs, e) = records_loop (skip_ws (tl u)) in (v # vs, e))
                         else if u \<noteq> [] \<and> hd u = CHR '']'' then ([v], None)
                         else ([v], Some MalformedArray)))))"
  by pat_completeness auto
termination
proof (relation "measure length", simp, simp only: in_measure)
  fix s :: string and x y xb ya and xa :: int
  assume "s \<noteq> []" "(xa, y) = scan 0 False False s" "(xb, ya) = y" and more: "skip_ws ya \<noteq> [] \<and> hd (skip_ws ya) = CHR '',''"
  then have "ya = snd (snd (scan 0 False False s))" by (metis snd_conv)
  with \<open>s \<noteq> []\<close> more show "length (skip_ws (tl (skip_ws ya))) < length s" by (intro next_record_shorter) auto
qed

declare records_loop.simps [simp del]

definition deserializeStreamRecords :: "string \<Rightarrow> stream list \<times> json_error option" where
  "deserializeStreamRecords payload =
     (let s = skip_ws payload
      in if s = [] \<or> hd s \<noteq> CHR ''['' then ([], Some NotAnArray)
         else (let t = skip_ws (tl s)
               in if t \<noteq> [] \<and> hd t = CHR '']'' then ([], None) else records_loop t))"

end
