(* ===== verification/TextFormats.thy ===== *)
theory TextFormats
  imports StreamJson BatchWrites "HOL-Library.List_Lexorder" "HOL-Library.Char_ord"
begin

text \<open>
  The two flat text formats of \<open>src/utils.ts\<close>: the metadata URI
  (\<open>buildMetadataUri\<close>, \<open>parseMetadataUri\<close>), a percent-encoded query string, and the CSV rows of a
  bulk creation (\<open>parseCsvStreamRows\<close>). A percent-encoded character beyond 255 decodes to nothing
  here, like a malformed one.
\<close>

section \<open>Splitting\<close>

text \<open>\<open>s.split(c)\<close>: never empty.\<close>

fun split_on :: "char \<Rightarrow> string \<Rightarrow> string list" where
  "split_on c [] = [[]]"
| "split_on c (x # s) =
     (if x = c then [] # split_on c s else (case split_on c s of [] \<Rightarrow> [[x]] | p # ps \<Rightarrow> (x # p) # ps))"

lemma split_on_nonempty [simp]: "split_on c s \<noteq> []"
  by (induction s) (auto split: list.split)

lemma split_on_none: "c \<notin> set s \<Longrightarrow> split_on c s = [s]"
  by (induction s) auto

lemma split_on_sep: "c \<notin> set p \<Longrightarrow> split_on c (p @ c # s) = p # split_on c s"
  by (induction p) auto

lemma split_join:
  "ps \<noteq> [] \<Longrightarrow> \<forall>p \<in> set ps. c \<notin> set p \<Longrightarrow> split_on c (join_with [c] ps) = ps"
proof (induction ps rule: induct_list012)
  case (2 p)
  then show ?case by (simp add: split_on_none)
next
  case (3 p q ps)
  then show ?case by (simp add: split_on_sep)
qed simp

section \<open>Percent encoding\<close>

definition uri_unreserved :: "char \<Rightarrow> bool" where
  "uri_unreserved c \<longleftrightarrow> (let n = (of_char c :: nat) in
     65 \<le> n \<and> n \<le> 90 \<or> 97 \<le> n \<and> n \<le> 122 \<or> 48 \<le> n \<and> n \<le> 57 \<or> n \<in> {45, 95, 46, 33, 126, 42, 39, 40, 41})"

definition hex_upper :: "nat \<Rightarrow> char" where
  "hex_upper d = (if d < 10 then char_of (48 + d) else char_of (55 + d))"

definition percent_byte :: "nat \<Rightarrow> string" where
  "percent_byte n = [CHR ''%'', hex_upper (n div 16), hex_upper (n mod 16)]"

definition percent_char :: "char \<Rightarrow> string" where
  "percent_char c =
     (if uri_unreserved c then [c]
      else (let n = (of_char c :: nat)
            in if n < 128 then percent_byte n else percent_byte (192 + n div 64) @ percent_byte (128 + n mod 64)))"

definition encodeURIComponent :: "string \<Rightarrow> string" where
  "encodeURIComponent s = concat (map percent_char s)"

text \<open>The byte of an escape at the head of a text, and what follows it.\<close>

definition read_byte :: "string \<Rightarrow> (nat \<times> string) option" where
  "read_byte s =
     (if length s \<ge> 3 \<and> hd s = CHR ''%'' \<and> list_all (radix_digit 16) (take 2 (tl s))
      then Some (from_digits 16 (map radix_val (take 2 (tl s))), drop 3 s) else None)"

lemma read_byte_shorter: "read_byte s = Some (n, r) \<Longrightarrow> length r < length s"
  by (auto simp: read_byte_def split: if_splits)

function decodeURIComponent :: "string \<Rightarrow> string option" where
  "decodeURIComponent s =
     (case s of
        [] \<Rightarrow> Some []
      | c # t \<Rightarrow>
          if c \<noteq> CHR ''%'' then map_option (Cons c) (decodeURIComponent t)
          else (case read_byte s of
              None \<Rightarrow> None
            | Some (n, r) \<Rightarrow>
                if n < 128 then map_option (Cons (char_of n)) (decodeURIComponent r)
                else if n = 194 \<or> n = 195 then
                  (case read_byte r of
                     None \<Rightarrow> None
                   | Some (m, r') \<Rightarrow>
                       if 128 \<le> m \<and> m < 192
                       then map_option (Cons (char_of ((n - 192) * 64 + (m - 128)))) (decodeURIComponent r') else None)
                else None))"
  by pat_completeness auto
termination
  by (relation "measure length") (auto dest!: read_byte_shorter)

declare decodeURIComponent.simps [simp del]

section \<open>Metadata URIs\<close>

definition METADATA_URI_PREFIX :: string where "METADATA_URI_PREFIX = ''sorostream:v1?''"

definition METADATA_URI_MAX_BYTES :: nat where "METADATA_URI_MAX_BYTES = 128"

definition uri_pair :: "string \<times> string \<Rightarrow> string" where
  "uri_pair p = encodeURIComponent (fst p) @ ''='' @ encodeURIComponent (snd p)"

text \<open>The fields that survive, in the order of their keys.\<close>

definition present_fields :: "(string \<times> string option) list \<Rightarrow> (string \<times> string) list" where
  "present_fields entries = List.map_filter
     (\<lambda>k. case map_of entries k of Some (Some v) \<Rightarrow> if v = [] then None else Some (k, v) | _ \<Rightarrow> None) (sort (map fst entries))"

text \<open>The error carries the length of the body.\<close>

definition buildMetadataUri :: "(string \<times> string option) list \<Rightarrow> nat + string" where
  "buildMetadataUri entries =
     (let pairs = map uri_pair (present_fields entries); body = join_with ''&'' pairs
      in if pairs = [] then Inr []
         else if length (utf8 body) > METADATA_URI_MAX_BYTES then Inl (length (utf8 body))
         else Inr (METADATA_URI_PREFIX @ body))"

definition has_prefix :: "string \<Rightarrow> string \<Rightarrow> bool" where
  "has_prefix p s \<longleftrightarrow> take (length p) s = p"

fun contains :: "string \<Rightarrow> string \<Rightarrow> bool" where
  "contains p [] \<longleftrightarrow> p = []"
| "contains p (c # s) \<longleftrightarrow> has_prefix p (c # s) \<or> contains p s"

definition uri_query :: "string \<Rightarrow> string" where
  "uri_query uri =
     (if has_prefix METADATA_URI_PREFIX uri then drop (length METADATA_URI_PREFIX) uri
      else if has_prefix ''sorostream:'' uri then []
      else if contains ''://'' uri \<or> has_prefix ''http'' uri then []
      else uri)"

text \<open>\<open>None\<close>: \<open>decodeURIComponent\<close> threw.\<close>

fun read_pairs :: "(string, string) jsmap \<Rightarrow> string list \<Rightarrow> (string, string) jsmap option" where
  "read_pairs m [] = Some m"
| "read_pairs m (p # ps) =
     (if CHR ''='' \<notin> set p then read_pairs m ps
      else (case decodeURIComponent (takeWhile (\<lambda>c. c \<noteq> CHR ''='') p) of
          None \<Rightarrow> None
        | Some k \<Rightarrow> (case decodeURIComponent (tl (dropWhile (\<lambda>c. c \<noteq> CHR ''='') p)) of
              None \<Rightarrow> None
            | Some v \<Rightarrow> read_pairs (map_set k v m) ps)))"

definition parseMetadataUri :: "string \<Rightarrow> (string, string) jsmap option" where
  "parseMetadataUri uri =
     (if uri = [] \<or> uri_query uri = [] then Some [] else read_pairs [] (split_on (CHR ''&'') (uri_query uri)))"

section \<open>CSV rows\<close>

datatype csv_error =
    TooFewLines
  | MissingColumn string
  | MissingRecipient nat
  | BadAmount amount_error
  | BadDuration nat

definition lower_char :: "char \<Rightarrow> char" where
  "lower_char c = (let n = (of_char c :: nat)
     in if 65 \<le> n \<and> n \<le> 90 \<or> 192 \<le> n \<and> n \<le> 222 \<and> n \<noteq> 215 then char_of (n + 32) else c)"

text \<open>A carriage return belongs to the line break that follows it.\<close>

definition drop_cr :: "string \<Rightarrow> string" where
  "drop_cr l = (if l \<noteq> [] \<and> last l = CHR 0x0D then butlast l else l)"

definition csv_lines :: "string \<Rightarrow> string list" where
  "csv_lines s = (let ls = split_on (CHR 0x0A) s in map drop_cr (butlast ls) @ [last ls])"

fun index_of :: "'a \<Rightarrow> 'a list \<Rightarrow> nat option" where
  "index_of x [] = None"
| "index_of x (y # ys) = (if y = x then Some 0 else map_option Suc (index_of x ys))"

definition csv_field :: "string list \<Rightarrow> nat option \<Rightarrow> string option" where
  "csv_field cells idx = (case idx of None \<Rightarrow> None | Some i \<Rightarrow> if i < length cells then Some (cells ! i) else None)"

definition csv_fields :: "string \<Rightarrow> string list" where
  "csv_fields line = map js_trim (split_on (CHR '','') line)"

text \<open>A row from the line of number \<open>n\<close>.\<close>

definition csv_row ::
    "nat option \<Rightarrow> nat option \<Rightarrow> nat option \<Rightarrow> nat option \<Rightarrow> nat \<Rightarrow> string list \<Rightarrow> csv_error + bulk_row" where
  "csv_row recipientIdx amountIdx durationIdx tokenIdx n cells =
     (case csv_field cells recipientIdx of
        None \<Rightarrow> Inl (MissingRecipient n)
      | Some r \<Rightarrow>
          if r = [] then Inl (MissingRecipient n)
          else rbind (map_sum BadAmount id (big_of_string (case csv_field cells amountIdx of None \<Rightarrow> [] | Some a \<Rightarrow> a))) (\<lambda>amount.
            (let dur = number_of_string (case csv_field cells durationIdx of None \<Rightarrow> ''0'' | Some d \<Rightarrow> d);
                 tok = csv_field cells tokenIdx
             in case dur of
                  Num q \<Rightarrow>
                    if q \<le> 0 then Inl (BadDuration n)
                    else Inr \<lparr>br_recipient = r, br_amount = amount, br_durationSeconds = dur,
                           br_token = (if tok = Some [] then None else tok), br_cliffSeconds = None\<rparr>
                | _ \<Rightarrow> Inl (BadDuration n))))"

fun csv_rows :: "(nat \<Rightarrow> string list \<Rightarrow> csv_error + bulk_row) \<Rightarrow> nat \<Rightarrow> string list \<Rightarrow> csv_error + bulk_row list" where
  "csv_rows row n [] = Inr []"
| "csv_rows row n (l # ls) =
     (let line = js_trim l
      in if line = [] then csv_rows row (Suc n) ls
         else rbind (row n (csv_fields line)) (\<lambda>r. rbind (csv_rows row (Suc n) ls) (\<lambda>rs. Inr (r # rs))))"

definition parseCsvStreamRows :: "string \<Rightarrow> csv_error + bulk_row list" where
  "parseCsvStreamRows csv =
     (let ls = csv_lines (js_trim csv)
      in if length ls < 2 then Inl TooFewLines
         else (let cols = map js_trim (split_on (CHR '','') (js_trim (map lower_char (hd ls))))
               in if ''recipient'' \<notin> set cols then Inl (MissingColumn ''recipient'')
                  else if ''amount'' \<notin> set cols then Inl (MissingColumn ''amount'')
                  else if ''durationseconds'' \<notin> set cols then Inl (MissingColumn ''durationSeconds'')
                  else csv_rows (csv_row (index_of ''recipient'' cols) (index_of ''amount'' cols)
                         (index_of ''durationseconds'' cols) (index_of ''token'' cols)) 2 (tl ls)))"

end
