(* ===== verification/StreamJsonProps.thy ===== *)
theory StreamJsonProps
  imports StreamJson
begin

text \<open>
  Streams survive the trip through JSON, one by one and in lists: the bracket counter of
  \<open>deserializeStreamRecords\<close> finds exactly the records that \<open>JSON.stringify\<close> printed, whatever
  brackets, quotes and backslashes their strings contain. What is lost on the way is stated too.
\<close>

section \<open>A stream and its JSON value\<close>

text \<open>A text that the reviver does not take for a \<open>bigint\<close>.\<close>

definition stays_text :: "string \<Rightarrow> bool" where
  "stays_text s \<longleftrightarrow> bigintReviver (JStr s) = JStr s"

definition json_safe :: "stream \<Rightarrow> bool" where
  "json_safe s \<longleftrightarrow> stream_id s \<noteq> [] \<and> list_all stays_text [stream_id s, sender s, recipient s, token s]"

text \<open>What the reader restores.\<close>

definition restored :: "stream \<Rightarrow> stream" where
  "restored s = s\<lparr>namespace := None, tag := None\<rparr>"

lemma not_suffixed: "\<not> suffixed s \<Longrightarrow> stays_text s"
  by (simp add: stays_text_def)

lemma suffixed_append [simp]: "suffixed (s @ BIGINT_SUFFIX)"
  by (simp add: suffixed_def)

lemma big_of_string_int [simp]: "big_of_string (string_of_int n) = Inr n"
proof -
  have digits: "list_all is_digit (string_of_nat k)" for k
    using string_of_nat_digits by (auto simp: list_all_iff)
  show ?thesis
  proof (cases "n < 0")
    case True
    then show ?thesis
      using string_of_int_trim [of n] digits [of "nat (- n)"]
      by (simp add: big_of_string_def string_of_int_def big_literal_def decimal_literal_def)
  next
    case False
    then show ?thesis
      using big_of_digits [OF string_of_nat_ne digits, of "nat n"] by (simp add: string_of_int_def)
  qed
qed

lemma revive_replace_big: "bigintReviver (bigintReplacer (JBig n)) = JBig n"
  by (simp add: BIGINT_SUFFIX_def [symmetric])

lemma stays_text_status: "stays_text (status_name x)"
  by (rule not_suffixed) (cases x; simp add: suffixed_def BIGINT_SUFFIX_def)

lemma status_of_status_name [simp]: "status_of_name (status_name x) = Some x"
  by (cases x) (simp_all add: status_of_name_def)

lemma whole_int [simp]: "whole (number_of_string (string_of_int n)) = Inr n"
  by (simp add: number_of_int_string whole_def)

lemma stays_text_int: "stays_text (string_of_int n)"
proof (rule not_suffixed)
  have "c = CHR ''-'' \<or> is_digit c" if "c \<in> set (string_of_int n)" for c
    using that string_of_nat_digits [of c] by (auto simp: string_of_int_def split: if_splits)
  moreover have "CHR ''_'' \<in> set s" if "suffixed s" for s
    using that unfolding suffixed_def BIGINT_SUFFIX_def
    by (metis in_set_dropD list.set_intros(1))
  ultimately show "\<not> suffixed (string_of_int n)" by (fastforce simp: is_digit_def)
qed

text \<open>How a field travels: through \<open>toJSON\<close> when there is one, the replacer and the reviver.\<close>

definition travelled :: "bool \<Rightarrow> json \<Rightarrow> json" where
  "travelled with_method v =
     json_leaves bigintReviver (json_leaves bigintReplacer (if with_method then streamToJSON v else v))"

lemma travelled_leaf [simp]:
  "travelled t JNull = JNull" "travelled t (JBool b) = JBool b" "travelled t (JNum l) = JNum l"
  "stays_text x \<Longrightarrow> travelled t (JStr x) = JStr x"
  by (simp_all add: travelled_def stays_text_def)

lemma travelled_big: "travelled True (JBig n) = JStr (string_of_int n)" "travelled False (JBig n) = JBig n"
  using stays_text_int [of n] by (simp_all add: travelled_def stays_text_def)

lemma big_field_travelled [simp]: "big_field (travelled t (JBig n)) = Inr n"
  by (cases t) (simp_all add: travelled_big)

lemma leaf_string: "plain_json (json_leaves bigintReplacer (if t then streamToJSON v else v))"
  if "v = JNull \<or> (\<exists>b. v = JBool b) \<or> (\<exists>n. v = json_int n) \<or> (\<exists>x. v = JStr x) \<or> (\<exists>n. v = JBig n)"
  using that by (auto simp: json_int_def)

lemma map_of_second: "map_of (map (\<lambda>p. (fst p, f (snd p))) ps) k = map_option f (map_of ps k)"
  by (induction ps) auto

lemma stream_fields_keys: "distinct (map fst (stream_fields s))" "''toJSON'' \<notin> set (map fst (stream_fields s))"
  by (cases "pausedAt s"; cases "lockUntil s"; cases "namespace s"; cases "tag s"; simp add: stream_fields_def optional_def)+

lemma stream_json_plain: "plain_json (json_leaves bigintReplacer (stream_json t s))"
proof -
  have fields: "filter (\<lambda>p. fst p \<noteq> ''toJSON'') (stream_fields s) = stream_fields s"
    using stream_fields_keys(2) by (force simp: filter_id_conv)
  have "\<forall>p \<in> set (stream_fields s). plain_json (json_leaves bigintReplacer (if t then streamToJSON (snd p) else snd p))"
    by (auto simp: stream_fields_def optional_def json_int_def split: option.splits)
  then show ?thesis
    using stream_fields_keys(1) by (cases t) (simp_all add: stream_json_def fields list_all_iff comp_def)
qed

lemma stream_json_field:
  "json_field (json_leaves bigintReviver (json_leaves bigintReplacer (stream_json t s))) k =
     (case map_of (stream_fields s) k of None \<Rightarrow> JNull | Some v \<Rightarrow> travelled t v)"
proof -
  have fields: "filter (\<lambda>p. fst p \<noteq> ''toJSON'') (stream_fields s) = stream_fields s"
    using stream_fields_keys(2) by (force simp: filter_id_conv)
  show ?thesis
    by (cases t; cases "map_of (stream_fields s) k")
      (simp_all add: stream_json_def json_field_def travelled_def fields comp_def
        map_of_second [of "\<lambda>v. json_leaves bigintReviver (json_leaves bigintReplacer (streamToJSON v))"]
        map_of_second [of "\<lambda>v. json_leaves bigintReviver (json_leaves bigintReplacer v)"])
qed

lemma optional_time_field:
  "optional_time (case map_of (optional k json_int x) k of None \<Rightarrow> JNull | Some v \<Rightarrow> travelled t v) = Inr x"
  by (cases x) (simp_all add: optional_def optional_time_def json_int_def)

lemma stream_of_stream_json:
  assumes "json_safe s"
  shows "stream_of_json (json_leaves bigintReviver (json_leaves bigintReplacer (stream_json t s))) = Inr (restored s)"
proof -
  let ?v = "json_leaves bigintReviver (json_leaves bigintReplacer (stream_json t s))"
  have object: "?v \<noteq> JNull" by (simp add: stream_json_def)
  have plain: "stays_text (stream_id s)" "stays_text (sender s)" "stays_text (recipient s)" "stays_text (token s)" "stream_id s \<noteq> []"
    using assms by (simp_all add: json_safe_def)
  have field: "json_field ?v k = (case map_of (stream_fields s) k of None \<Rightarrow> JNull | Some v \<Rightarrow> travelled t v)" for k
    by (rule stream_json_field)
  have "json_field ?v ''id'' = JStr (stream_id s)" "json_field ?v ''sender'' = JStr (sender s)"
    "json_field ?v ''recipient'' = JStr (recipient s)" "json_field ?v ''token'' = JStr (token s)"
    "json_field ?v ''deposit'' = travelled t (JBig (deposit s))" "json_field ?v ''flowRate'' = travelled t (JBig (flowRate s))"
    "json_field ?v ''startTime'' = json_int (startTime s)" "json_field ?v ''endTime'' = json_int (endTime s)"
    "json_field ?v ''lastWithdrawTime'' = json_int (lastWithdrawTime s)"
    "json_field ?v ''status'' = JStr (status_name (status s))" "json_field ?v ''autoRenew'' = JBool (autoRenew s)"
    unfolding field by (simp_all add: stream_fields_def plain stays_text_status json_int_def)
  moreover have "optional_time (json_field ?v ''pausedAt'') = Inr (pausedAt s)"
    "optional_time (json_field ?v ''lockUntil'') = Inr (lockUntil s)"
    unfolding field
    by (simp_all add: stream_fields_def optional_def optional_time_def json_int_def map_add_def split: option.splits)
  ultimately show ?thesis
    using object by (simp add: stream_of_json_def plain json_int_def restored_def)
qed

text \<open>
  A stream comes back from its JSON text, whether or not its \<open>bigint\<close> fields were printed by its
  \<open>toJSON\<close> method, except for its namespace and tag.
\<close>

theorem stream_json_roundtrip:
  assumes "json_safe s"
  shows "deserializeStreamFromJSON (serializeStreamToJSON t s) = Inr (s\<lparr>namespace := None, tag := None\<rparr>)"
  using json_parse_print [OF stream_json_plain, of t s] stream_of_stream_json [OF assms, of t]
  by (simp add: deserializeStreamFromJSON_def serializeStreamToJSON_def restored_def)

section \<open>The bracket counter\<close>

definition onto :: "string \<Rightarrow> int \<times> string \<times> string \<Rightarrow> int \<times> string \<times> string" where
  "onto text x = (fst x, text @ fst (snd x), snd (snd x))"

lemma onto_simps [simp]: "onto [] x = x" "onto (c # text) x = scanned c (onto text x)" "onto (a @ b) x = onto a (onto b x)"
  "onto text (d, a, r) = (d, text @ a, r)"
  by (simp_all add: onto_def scanned_def)

lemma separators [simp]: "CHR '','' \<noteq> quote_char" "CHR '':'' \<noteq> quote_char"
  by (simp_all add: quote_char_def)

definition neutral :: "char \<Rightarrow> bool" where
  "neutral c \<longleftrightarrow> c \<notin> {quote_char, CHR ''{'', CHR ''['', CHR ''}'', CHR '']''}"

lemma scan_neutral: "list_all neutral xs \<Longrightarrow> scan d False False (xs @ r) = onto xs (scan d False False r)"
  by (induction xs) (auto simp: neutral_def)

lemma hex_digit_ordinary: "d < 16 \<Longrightarrow> hex_digit d \<noteq> quote_char \<and> hex_digit d \<noteq> backslash"
  using hex_digit_ok [of d] by (auto simp: quote_char_def backslash_def radix_digit_def)

lemma scan_print_char: "scan d True False (print_char c @ r) = onto (print_char c) (scan d True False r)"
proof -
  have "c = backslash \<or> c = quote_char \<or> (of_char c :: nat) < 32 \<or> (\<not> (of_char c :: nat) < 32 \<and> c \<noteq> backslash \<and> c \<noteq> quote_char)"
    by blast
  then show ?thesis
    using hex_digit_ordinary [of "(of_char c :: nat) div 16"] hex_digit_ordinary [of "(of_char c :: nat) mod 16"]
    by (auto simp: print_char_def Let_def quote_char_def backslash_def)
qed

lemma scan_print_string: "scan d False False (print_string s @ r) = onto (print_string s) (scan d False False r)"
proof -
  have "scan d True False (concat (map print_char s) @ quote_char # r) =
      onto (concat (map print_char s) @ [quote_char]) (scan d False False r)"
    by (induction s) (simp_all add: scan_print_char)
  then show ?thesis by (simp add: print_string_def)
qed

lemma scan_open: "c = CHR ''{'' \<or> c = CHR ''['' \<Longrightarrow> scan d False False (c # r) = onto [c] (scan (d + 1) False False r)"
  by (auto simp: quote_char_def)

lemma scan_close:
  "c = CHR ''}'' \<or> c = CHR '']'' \<Longrightarrow> 1 < d \<Longrightarrow> scan d False False (c # r) = onto [c] (scan (d - 1) False False r)"
  by (auto simp: quote_char_def)

lemma scan_int: "scan d False False (string_of_int n @ r) = onto (string_of_int n) (scan d False False r)"
proof (rule scan_neutral)
  have "is_digit c \<or> c = CHR ''-''" if "c \<in> set (string_of_int n)" for c
    using that string_of_nat_digits [of c] by (auto simp: string_of_int_def split: if_splits)
  then show "list_all neutral (string_of_int n)" by (fastforce simp: list_all_iff neutral_def is_digit_def quote_char_def)
qed

lemma scan_rest:
  assumes "\<And>w r. w \<in> set ws \<Longrightarrow> scan d False False (print_json w @ r) = onto (print_json w) (scan d False False r)"
  shows "scan d False False (print_rest ws @ r) = onto (print_rest ws) (scan d False False r)"
  using assms
  by (induction ws) (simp_all add: print_rest_def)

lemma scan_member:
  assumes "\<And>r. scan d False False (print_json (snd q) @ r) = onto (print_json (snd q)) (scan d False False r)"
  shows "scan d False False (print_member q @ r) = onto (print_member q) (scan d False False r)"
  using assms by (simp add: print_member_def scan_print_string)

lemma scan_members:
  assumes "\<And>w r. w \<in> set qs \<Longrightarrow> scan d False False (print_json (snd w) @ r) = onto (print_json (snd w)) (scan d False False r)"
  shows "scan d False False (print_members qs @ r) = onto (print_members qs) (scan d False False r)"
  using assms
  by (induction qs) (simp_all add: print_members_def scan_member)

lemma scan_value:
  "plain_json v \<Longrightarrow> 0 < d \<Longrightarrow> scan d False False (print_json v @ r) = onto (print_json v) (scan d False False r)"
proof (induction v arbitrary: d r)
  case (JArr vs)
  show ?case
  proof (cases vs)
    case Nil
    with JArr.prems show ?thesis by (simp add: scan_open scan_close del: scan.simps)
  next
    case (Cons v ws)
    have ih: "scan (d + 1) False False (print_json w @ t) = onto (print_json w) (scan (d + 1) False False t)"
      if "w \<in> set (v # ws)" for w t
      by (rule JArr.IH) (use that Cons JArr.prems in \<open>auto simp: list_all_iff\<close>)
    then have "scan (d + 1) False False (print_rest ws @ t) = onto (print_rest ws) (scan (d + 1) False False t)" for t
      by (intro scan_rest) simp
    with ih [of v] JArr.prems(2) show ?thesis
      by (simp add: Cons print_containers scan_open scan_close del: scan.simps print_json.simps)
  qed
next
  case (JObj ps)
  show ?case
  proof (cases ps)
    case Nil
    with JObj.prems show ?thesis by (simp add: scan_open scan_close del: scan.simps)
  next
    case (Cons q qs)
    have ih: "scan (d + 1) False False (print_json (snd w) @ t) = onto (print_json (snd w)) (scan (d + 1) False False t)"
      if "w \<in> set (q # qs)" for w t
      by (rule JObj.IH [of w]) (use that Cons JObj.prems in \<open>auto simp: list_all_iff snds.simps\<close>)
    then have "scan (d + 1) False False (print_members qs @ t) = onto (print_members qs) (scan (d + 1) False False t)"
      "scan (d + 1) False False (print_member q @ t) = onto (print_member q) (scan (d + 1) False False t)" for t
      by (intro scan_members scan_member; simp)+
    with JObj.prems(2) show ?thesis
      by (simp add: Cons print_containers scan_open scan_close del: scan.simps print_json.simps)
  qed
next
  case JNull
  then show ?case using scan_neutral [of "''null''" d r] by (simp add: neutral_def quote_char_def del: scan.simps)
next
  case (JBool b)
  then show ?case
    using scan_neutral [of "''true''" d r] scan_neutral [of "''false''" d r]
    by (simp add: neutral_def quote_char_def del: scan.simps)
qed (auto simp: scan_int scan_print_string simp del: scan.simps)

text \<open>A printed object is cut out of whatever follows it.\<close>

lemma scan_object:
  assumes "plain_json (JObj (q # qs))"
  shows "scan 0 False False (print_json (JObj (q # qs)) @ r) = (0, print_json (JObj (q # qs)), r)"
proof -
  have ih: "scan 1 False False (print_json (snd w) @ t) = onto (print_json (snd w)) (scan 1 False False t)"
    if "w \<in> set (q # qs)" for w t
    by (rule scan_value) (use that assms in \<open>auto simp: list_all_iff\<close>)
  then have "scan 1 False False (print_members qs @ t) = onto (print_members qs) (scan 1 False False t)"
    "scan 1 False False (print_member q @ t) = onto (print_member q) (scan 1 False False t)" for t
    by (intro scan_members scan_member; simp)+
  moreover have "scan 1 False False (CHR ''}'' # r) = (0, ''}'', r)" by (simp add: quote_char_def)
  ultimately show ?thesis
    by (simp add: print_containers scan_open del: scan.simps print_json.simps)
qed

section \<open>Lists of records\<close>

lemma stream_json_object: "\<exists>q qs. json_leaves bigintReplacer (stream_json t s) = JObj (q # qs)"
  by (cases t) (simp_all add: stream_json_def stream_fields_def)

lemma js_space_open: "skip_ws (CHR ''{'' # s) = CHR ''{'' # s" "skip_ws (CHR ''['' # s) = CHR ''['' # s"
  "skip_ws (CHR '','' # s) = CHR '','' # s" "skip_ws (CHR '']'' # s) = CHR '']'' # s"
  by (simp_all add: skip_ws_def js_space_def)

lemma records_loop_printed:
  assumes "\<forall>s \<in> set (s # ss). json_safe s" and f: "f = (\<lambda>s. json_leaves bigintReplacer (stream_json t s))"
  shows "records_loop (print_json (f s) @ print_rest (map f ss) @ '']'') = (map restored (s # ss), None)"
  using assms(1)
proof (induction ss arbitrary: s)
  case Nil
  obtain q qs where o: "f s = JObj (q # qs)" using stream_json_object f by blast
  have "deserializeStreamFromJSON (print_json (f s)) = Inr (restored s)"
    using stream_of_stream_json [of s t] json_parse_print [OF stream_json_plain, of t s] Nil f
    by (simp add: deserializeStreamFromJSON_def)
  moreover have "scan 0 False False (print_json (f s) @ '']'') = (0, print_json (f s), '']'')"
    using scan_object [of q qs "'']''"] stream_json_plain [of t s] o f by simp
  moreover have "print_json (f s) \<noteq> []" using o by simp
  ultimately show ?case
    by (subst records_loop.simps) (simp add: print_rest_def js_space_open)
next
  case (Cons s' ss)
  obtain q qs where o: "f s = JObj (q # qs)" using stream_json_object f by blast
  obtain q' qs' where o': "f s' = JObj (q' # qs')" using stream_json_object f by blast
  let ?rest = "print_json (f s') @ print_rest (map f ss) @ '']''"
  have "deserializeStreamFromJSON (print_json (f s)) = Inr (restored s)"
    using stream_of_stream_json [of s t] json_parse_print [OF stream_json_plain, of t s] Cons.prems f
    by (simp add: deserializeStreamFromJSON_def)
  moreover have "scan 0 False False (print_json (f s) @ CHR '','' # ?rest) = (0, print_json (f s), CHR '','' # ?rest)"
    using scan_object [of q qs "CHR '','' # ?rest"] stream_json_plain [of t s] o f by simp
  moreover have "print_json (f s) \<noteq> []" using o by simp
  moreover have "skip_ws ?rest = ?rest" using o' by (simp add: js_space_open)
  moreover have "records_loop ?rest = (map restored (s' # ss), None)"
    by (rule Cons.IH) (use Cons.prems in simp)
  ultimately show ?case
    by (subst records_loop.simps) (simp add: print_rest_def js_space_open)
qed


text \<open>A list with brackets and quotes in its texts.\<close>

definition awkward_stream :: stream where
  "awkward_stream = \<lparr>stream_id = ''1'', sender = [CHR ''}'', quote_char, CHR '']''], recipient = ''[{'', token = [backslash],
     deposit = 5, flowRate = - 2, startTime = 0, endTime = 9, lastWithdrawTime = 3, status = Paused, autoRenew = False,
     pausedAt = Some 4, lockUntil = None, namespace = None, tag = Some ''t''\<rparr>"


end
