(* ===== verification/TextProps.thy ===== *)
theory TextProps
  imports TextFormats StreamJsonProps
begin

text \<open>Metadata URIs give back their fields; CSV rows are well formed; what the formats let through.\<close>

section \<open>Percent encoding\<close>

lemma hex_upper_ok: "d < 16 \<Longrightarrow> radix_digit 16 (hex_upper d) \<and> radix_val (hex_upper d) = d"
  by (auto simp: hex_upper_def radix_digit_def radix_val_def Let_def)

lemma read_percent_byte:
  assumes "n < 256"
  shows "read_byte (percent_byte n @ r) = Some (n, r)"
proof -
  have "n div 16 < 16" "n mod 16 < 16" using assms by auto
  then show ?thesis
    using hex_upper_ok [of "n div 16"] hex_upper_ok [of "n mod 16"]
    by (simp add: read_byte_def percent_byte_def from_digits_def numeral_2_eq_2 numeral_3_eq_3)
qed

lemma decode_percent_char: "decodeURIComponent (percent_char c @ r) = map_option (Cons c) (decodeURIComponent r)"
proof -
  define n where "n = (of_char c :: nat)"
  have n: "n < 256" and c: "char_of n = c" by (simp_all add: n_def)
  show ?thesis
  proof (cases "uri_unreserved c")
    case True
    then have "c \<noteq> CHR ''%''" by (auto simp: uri_unreserved_def)
    with True show ?thesis by (simp add: percent_char_def decodeURIComponent.simps [of "c # r"])
  next
    case special: False
    show ?thesis
    proof (cases "n < 128")
      case True
      with special have p: "percent_char c = percent_byte n" by (simp add: percent_char_def n_def)
      obtain t where t: "percent_byte n @ r = CHR ''%'' # t" by (simp add: percent_byte_def)
      show ?thesis
        using read_percent_byte [OF n, of r] True c
        by (simp add: p t decodeURIComponent.simps [of "CHR ''%'' # t"])
    next
      case False
      let ?a = "192 + n div 64" and ?b = "128 + n mod 64"
      from special False have p: "percent_char c = percent_byte ?a @ percent_byte ?b" by (simp add: percent_char_def n_def Let_def)
      obtain t where t: "percent_byte ?a @ percent_byte ?b @ r = CHR ''%'' # t" by (simp add: percent_byte_def)
      have a: "?a = 194 \<or> ?a = 195" using False n by auto
      have b: "128 \<le> ?b \<and> ?b < 192" by simp
      have joined: "(?a - 192) * 64 + (?b - 128) = n" by simp
      have reads: "read_byte (percent_byte ?a @ percent_byte ?b @ r) = Some (?a, percent_byte ?b @ r)"
        "read_byte (percent_byte ?b @ r) = Some (?b, r)"
        using a by (auto intro!: read_percent_byte)
      show ?thesis
        using reads a b joined c
        by (simp add: p t decodeURIComponent.simps [of "CHR ''%'' # t"] del: add_diff_cancel_left')
    qed
  qed
qed

lemma decode_encode: "decodeURIComponent (encodeURIComponent s) = Some s"
proof (induction s)
  case Nil
  then show ?case by (simp add: encodeURIComponent_def decodeURIComponent.simps)
next
  case (Cons c s)
  then show ?case by (simp add: encodeURIComponent_def decode_percent_char)
qed

lemma hex_upper_plain: "d < 16 \<Longrightarrow> hex_upper d \<noteq> CHR ''='' \<and> hex_upper d \<noteq> CHR ''&''"
  using hex_upper_ok [of d] by (auto simp: radix_digit_def)

lemma encode_plain: "c \<in> set (encodeURIComponent s) \<Longrightarrow> c \<noteq> CHR ''='' \<and> c \<noteq> CHR ''&''"
proof -
  have byte: "c \<noteq> CHR ''='' \<and> c \<noteq> CHR ''&''" if "c \<in> set (percent_byte n)" "n < 256" for n
  proof -
    have "n div 16 < 16" "n mod 16 < 16" using that(2) by auto
    with that(1) show ?thesis
      using hex_upper_plain [of "n div 16"] hex_upper_plain [of "n mod 16"] by (auto simp: percent_byte_def)
  qed
  assume "c \<in> set (encodeURIComponent s)"
  then obtain d where "c \<in> set (percent_char d)" by (auto simp: encodeURIComponent_def)
  moreover have "192 + (of_char d :: nat) div 64 < 256" using less_mult_imp_div_less [of "of_char d :: nat" 4 64] by simp
  moreover have "128 + (of_char d :: nat) mod 64 < 256" using mod_less_divisor [of 64 "of_char d :: nat"] by linarith
  moreover have "(of_char d :: nat) < 256" by simp
  ultimately show ?thesis
    using byte [of "(of_char d :: nat)"] byte [of "192 + (of_char d :: nat) div 64"] byte [of "128 + (of_char d :: nat) mod 64"]
    by (auto simp: percent_char_def Let_def uri_unreserved_def split: if_splits)
qed

section \<open>Metadata URIs\<close>

lemma read_uri_pairs:
  "distinct (map fst (m @ ps)) \<Longrightarrow> read_pairs m (map uri_pair ps) = Some (m @ ps)"
proof (induction ps arbitrary: m)
  case (Cons p ps)
  obtain k v where p: "p = (k, v)" by force
  have plain: "list_all (\<lambda>c. c \<noteq> CHR ''='') (encodeURIComponent k)" using encode_plain by (auto simp: list_all_iff)
  have "takeWhile (\<lambda>c. c \<noteq> CHR ''='') (uri_pair p) = encodeURIComponent k"
    "dropWhile (\<lambda>c. c \<noteq> CHR ''='') (uri_pair p) = CHR ''='' # encodeURIComponent v"
    using takeWhile_all_append [OF plain] dropWhile_all_append [OF plain] by (simp_all add: uri_pair_def p)
  moreover have "CHR ''='' \<in> set (uri_pair p)" by (simp add: uri_pair_def)
  moreover have "map_set k v m = m @ [(k, v)]" using Cons.prems p by (simp add: map_set_fresh)
  ultimately show ?case using Cons.IH [of "m @ [p]"] Cons.prems by (simp add: p decode_encode)
qed simp

definition present :: "(string \<times> string option) list \<Rightarrow> string \<Rightarrow> string option" where
  "present entries k = (case map_of entries k of Some (Some v) \<Rightarrow> if v = [] then None else Some v | _ \<Rightarrow> None)"

lemma present_fields_eq:
  "present_fields entries = List.map_filter (\<lambda>k. map_option (Pair k) (present entries k)) (sort (map fst entries))"
  by (auto simp: present_fields_def present_def intro!: arg_cong2 [where f = List.map_filter] split: option.split)

lemma map_filter_pairs:
  "distinct ks \<Longrightarrow> map_of (List.map_filter (\<lambda>k. map_option (Pair k) (f k)) ks) k = (if k \<in> set ks then f k else None)"
  by (induction ks) (auto simp: List.map_filter_simps split: option.split)

lemma map_filter_keys:
  "map fst (List.map_filter (\<lambda>k. map_option (Pair k) (f k)) ks) = filter (\<lambda>k. f k \<noteq> None) ks"
  by (induction ks) (auto simp: List.map_filter_simps split: option.split)

text \<open>
  Parsing a metadata URI gives back the fields it was built from, those with a value, ordered by
  their keys; characters that mean something in a URI are not confused with its structure.
\<close>

theorem metadata_roundtrip:
  assumes "distinct (map fst entries)" and "buildMetadataUri entries = Inr uri"
  shows "\<exists>m. parseMetadataUri uri = Some m \<and> sorted (map fst m) \<and> distinct (map fst m) \<and>
    (\<forall>k. map_get m k = (case map_of entries k of Some (Some v) \<Rightarrow> if v = [] then None else Some v | _ \<Rightarrow> None))"
proof -
  let ?ps = "present_fields entries"
  have keys: "map fst ?ps = filter (\<lambda>k. present entries k \<noteq> None) (sort (map fst entries))"
    unfolding present_fields_eq by (rule map_filter_keys)
  have dist: "distinct (map fst ?ps)" using assms(1) by (simp add: keys)
  have get: "map_get ?ps k = present entries k" for k
  proof -
    have "map_get ?ps k = (if k \<in> set (sort (map fst entries)) then present entries k else None)"
      unfolding present_fields_eq by (rule map_filter_pairs) (simp add: assms(1))
    also have "\<dots> = present entries k"
      by (auto simp: present_def split: option.split) (metis image_eqI fst_conv map_of_SomeD)
    finally show ?thesis .
  qed
  have "parseMetadataUri uri = Some ?ps"
  proof (cases "?ps = []")
    case True
    with assms(2) show ?thesis by (simp add: buildMetadataUri_def parseMetadataUri_def)
  next
    case False
    let ?body = "join_with ''&'' (map uri_pair ?ps)"
    from assms(2) False have uri: "uri = METADATA_URI_PREFIX @ ?body"
      by (auto simp: buildMetadataUri_def Let_def split: if_splits)
    have "CHR ''&'' \<notin> set (uri_pair p)" for p using encode_plain by (auto simp: uri_pair_def)
    then have "split_on (CHR ''&'') ?body = map uri_pair ?ps" using False by (intro split_join) auto
    moreover have "?body \<noteq> []" using False by (cases ?ps rule: remdups_adj.cases) (auto simp: uri_pair_def)
    ultimately show ?thesis
      using read_uri_pairs [of "[]" ?ps] dist
      by (simp add: parseMetadataUri_def uri uri_query_def has_prefix_def METADATA_URI_PREFIX_def)
  qed
  moreover have "sorted (map fst ?ps)" by (simp add: keys sorted_wrt_filter)
  ultimately show ?thesis using dist get by (auto simp: present_def)
qed

theorem metadata_roundtrip_witness:
  "\<exists>uri m. buildMetadataUri [(''b&'', Some ''1=2''), (''a'', None)] = Inr uri \<and> parseMetadataUri uri = Some m \<and>
     map_get m ''b&'' = Some ''1=2'' \<and> map_get m ''a'' = None"
proof -
  have uri: "buildMetadataUri [(''b&'', Some ''1=2''), (''a'', None)] = Inr ''sorostream:v1?b%26=1%3D2''"
    by code_simp
  from metadata_roundtrip [OF _ uri] show ?thesis using uri by force
qed

text \<open>A percent sign that does not start an escape makes the parser throw.\<close>

lemma malformed_uri_throws: "parseMetadataUri ''a=50%'' = None"
  by code_simp

section \<open>CSV rows\<close>

definition wf_row :: "bulk_row \<Rightarrow> bool" where
  "wf_row r \<longleftrightarrow> br_recipient r \<noteq> [] \<and> (\<exists>q > 0. br_durationSeconds r = Num q) \<and> br_token r \<noteq> Some [] \<and> br_cliffSeconds r = None"

lemma csv_row_wf: "csv_row a b c d n cells = Inr r \<Longrightarrow> wf_row r"
proof -
  assume row: "csv_row a b c d n cells = Inr r"
  define dur where "dur = number_of_string (case csv_field cells c of None \<Rightarrow> ''0'' | Some d \<Rightarrow> d)"
  from row show ?thesis
    unfolding csv_row_def Let_def dur_def [symmetric]
    by (cases dur) (auto simp: wf_row_def rbind_Inr_iff split: option.splits if_splits)
qed

lemma csv_rows_wf:
  assumes "\<And>n cells r. row n cells = Inr r \<Longrightarrow> wf_row r"
  shows "csv_rows row n ls = Inr rs \<Longrightarrow> list_all wf_row rs"
proof (induction ls arbitrary: n rs)
  case (Cons l ls)
  then show ?case using assms by (auto simp: Let_def rbind_Inr_iff split: if_splits)
qed simp

lemma csv_wf: "parseCsvStreamRows csv = Inr rows \<Longrightarrow> list_all wf_row rows"
  unfolding parseCsvStreamRows_def Let_def using csv_rows_wf [OF csv_row_wf] by (auto split: if_splits)

text \<open>A row without an amount is read as a row of amount 0.\<close>

lemma missing_amount_is_zero:
  "map_sum id (map br_amount) (parseCsvStreamRows (''recipient,amount,durationSeconds'' @ [CHR 0x0A] @ ''GA,,5'')) = Inr [0]"
  by code_simp

section \<open>Record lists\<close>

text \<open>Text after the closing bracket is not read.\<close>

lemma trailing_text_ignored: "deserializeStreamRecords ''[]]x'' = ([], None)"
  by code_simp

text \<open>A text that ends in the suffix comes back as a number.\<close>

lemma suffixed_text_becomes_number: "bigintReviver (JStr ''7_bigint'') = JBig 7"
  by code_simp

end
