(* ===== verification/Serialization.thy ===== *)
theory Serialization
  imports StreamJsonProps
begin

text \<open>
  Streams for worker threads and unsigned transactions (\<open>src/serialization.ts\<close>), and the reading of
  memos (\<open>src/memo.ts\<close>). The contract object and the transaction builder are the Stellar SDK's:
  \<open>contract_ok\<close> says whether it accepts a contract id, and an unsigned transaction is the record of
  what the builder is given.
\<close>

section \<open>Cloneable streams\<close>

record serialized_stream =
  ss_id :: string
  ss_sender :: string
  ss_recipient :: string
  ss_token :: string
  ss_deposit :: string
  ss_flowRate :: string
  ss_startTime :: int
  ss_endTime :: int
  ss_lastWithdrawTime :: int
  ss_status :: stream_status
  ss_autoRenew :: bool
  ss_pausedAt :: "int option"
  ss_lockUntil :: "int option"

definition serializeStream :: "stream \<Rightarrow> serialized_stream" where
  "serializeStream s =
     \<lparr>ss_id = stream_id s, ss_sender = sender s, ss_recipient = recipient s, ss_token = token s,
      ss_deposit = string_of_int (deposit s), ss_flowRate = string_of_int (flowRate s), ss_startTime = startTime s,
      ss_endTime = endTime s, ss_lastWithdrawTime = lastWithdrawTime s, ss_status = status s, ss_autoRenew = autoRenew s,
      ss_pausedAt = pausedAt s, ss_lockUntil = lockUntil s\<rparr>"

definition deserializeStream :: "serialized_stream \<Rightarrow> amount_error + stream" where
  "deserializeStream d =
     rbind (big_of_string (ss_deposit d)) (\<lambda>dep.
     rbind (big_of_string (ss_flowRate d)) (\<lambda>rate.
     Inr \<lparr>stream_id = ss_id d, sender = ss_sender d, recipient = ss_recipient d, token = ss_token d, deposit = dep,
          flowRate = rate, startTime = ss_startTime d, endTime = ss_endTime d, lastWithdrawTime = ss_lastWithdrawTime d,
          status = ss_status d, autoRenew = ss_autoRenew d, pausedAt = ss_pausedAt d, lockUntil = ss_lockUntil d,
          namespace = None, tag = None\<rparr>))"

section \<open>Unsigned transactions\<close>

datatype amount_input = BigAmount int | TextAmount string | NumberAmount js_num

datatype 'x unsigned_error =
    ContractIdRequired
  | ContractRejected
  | BadStellarAddress string
  | BadAmountText amount_error
  | AmountNotWhole js_num
  | UnsignedEncodeFailed "'x encode_error"
  | UnsupportedOperation string
  | UnsignedMemoFailed memo_error

record unsigned_params =
  up_contractId :: string
  up_sourceAccount :: string
  up_sequenceNumber :: string
  up_networkPassphrase :: "string option"
  up_network :: "string option"
  up_fee :: "string option"
  up_timeout :: "nat option"
  up_memo :: string
  up_recipient :: "string option"
  up_token :: "string option"
  up_amount :: "amount_input option"
  up_durationSeconds :: "js_num option"
  up_startTime :: "js_num option"
  up_cliffSeconds :: "js_num option"
  up_autoRenew :: bool
  up_namespace :: "string option"
  up_streamId :: string
  up_sender :: "string option"
  up_newFlowRate :: "amount_input option"
  up_newRecipient :: "string option"
  up_operator :: "string option"
  up_approved :: bool
  up_delegate :: "string option"
  up_delegator :: "string option"

record 'v unsigned_tx =
  ut_source :: "string \<times> string"
  ut_passphrase :: string
  ut_fee :: string
  ut_memo :: "memo option"
  ut_call :: "'v contract_call"
  ut_timeout :: nat

definition PASSPHRASES :: "(string, string) jsmap" where
  "PASSPHRASES = [(''mainnet'', ''Public Global Stellar Network ; September 2015''),
     (''testnet'', ''Test SDF Network ; September 2015''), (''futurenet'', ''Test SDF Future Network ; October 2022'')]"

definition unsigned_passphrase :: "unsigned_params \<Rightarrow> string" where
  "unsigned_passphrase p =
     (let testnet = the (map_get PASSPHRASES ''testnet'')
      in case up_networkPassphrase p of
           Some s \<Rightarrow> s
         | None \<Rightarrow> (case up_network p of
               None \<Rightarrow> testnet
             | Some n \<Rightarrow> (case map_get PASSPHRASES n of Some s \<Rightarrow> s | None \<Rightarrow> testnet)))"

text \<open>\<open>typeof x === 'bigint' ? x : BigInt(x ?? 0)\<close>.\<close>

definition amount_of :: "amount_input option \<Rightarrow> 'x unsigned_error + int" where
  "amount_of a =
     (case a of
        None \<Rightarrow> Inr 0
      | Some (BigAmount n) \<Rightarrow> Inr n
      | Some (TextAmount s) \<Rightarrow> map_sum BadAmountText id (big_of_string s)
      | Some (NumberAmount x) \<Rightarrow> (case integral x of None \<Rightarrow> Inl (AmountNotWhole x) | Some n \<Rightarrow> Inr n))"

definition required_address :: "string option \<Rightarrow> 'x unsigned_error + string" where
  "required_address a =
     (let s = (case a of None \<Rightarrow> [] | Some s \<Rightarrow> s)
      in if isValidStellarAddress s then Inr s else Inl (BadStellarAddress s))"

definition or_else :: "'a option \<Rightarrow> 'a \<Rightarrow> 'a" where "or_else x d = (case x of None \<Rightarrow> d | Some v \<Rightarrow> v)"

text \<open>An absent address is handed to the encoder, which rejects it like the empty one.\<close>

definition unsigned_operation :: "string \<Rightarrow> unsigned_params \<Rightarrow> 'x unsigned_error + stream_op" where
  "unsigned_operation name p =
     (let payer = or_else (up_sender p) (up_sourceAccount p); i = up_streamId p
      in if name = ''createStream'' then
           rbind (required_address (up_recipient p)) (\<lambda>r.
           rbind (required_address (up_token p)) (\<lambda>t.
           rbind (amount_of (up_amount p)) (\<lambda>n.
           Inr (CreateStreamOp payer \<lparr>sp_recipient = r, sp_token = t, sp_amount = n,
             sp_durationSeconds = or_else (up_durationSeconds p) (Num 0), sp_autoRenew = up_autoRenew p,
             sp_cliffSeconds = up_cliffSeconds p, sp_nonce = None, sp_skipAllowanceCheck = False, sp_lockUntil = None,
             sp_startTime = up_startTime p, sp_namespace = up_namespace p, sp_tag = None, sp_dryRun = False\<rparr>))))
         else if name = ''withdraw'' then Inr (WithdrawOp i (or_else (up_recipient p) payer))
         else if name = ''cancelStream'' then Inr (CancelStreamOp i payer)
         else if name = ''topUp'' then rbind (amount_of (up_amount p)) (\<lambda>n. Inr (TopUpOp i payer n))
         else if name = ''updateFlowRate'' then rbind (amount_of (up_newFlowRate p)) (\<lambda>n. Inr (UpdateFlowRateOp i payer n))
         else if name = ''pauseStream'' then Inr (PauseStreamOp i payer)
         else if name = ''resumeStream'' then Inr (ResumeStreamOp i payer)
         else if name = ''transferStream'' then Inr (TransferStreamOp i payer (or_else (up_newRecipient p) []))
         else if name = ''setOperator'' then Inr (SetOperatorOp i payer (or_else (up_operator p) []) (up_approved p))
         else if name = ''operatorCancelStream'' then Inr (OperatorCancelOp i (or_else (up_operator p) payer))
         else if name = ''operatorTopUp'' then
           rbind (amount_of (up_amount p)) (\<lambda>n. Inr (OperatorTopUpOp i (or_else (up_operator p) payer) n))
         else if name = ''addDelegate'' then
           Inr (AddDelegateOp (or_else (up_delegator p) payer) (or_else (up_delegate p) []))
         else if name = ''revokeDelegate'' then
           Inr (RevokeDelegateOp (or_else (up_delegator p) payer) (or_else (up_delegate p) []))
         else Inl (UnsupportedOperation name))"

text \<open>The operation is a name or a call that is already encoded.\<close>

definition buildUnsignedXdr ::
    "('x, 'v) native_conv \<Rightarrow> (string \<Rightarrow> bool) \<Rightarrow> string + 'v contract_call \<Rightarrow> unsigned_params \<Rightarrow> 'x unsigned_error + 'v unsigned_tx" where
  "buildUnsignedXdr native contract_ok operation p =
     rbind (case operation of
         Inr c \<Rightarrow> Inr c
       | Inl name \<Rightarrow>
           if up_contractId p = [] then Inl ContractIdRequired
           else if \<not> contract_ok (up_contractId p) then Inl ContractRejected
           else rbind (unsigned_operation name p) (\<lambda>x. map_sum UnsignedEncodeFailed id (encode_op native x))) (\<lambda>call.
     rbind (if up_memo p = [] then Inr None
            else map_sum UnsignedMemoFailed Some (encodeMemo (up_memo p))) (\<lambda>m.
     Inr \<lparr>ut_source = (up_sourceAccount p, up_sequenceNumber p), ut_passphrase = unsigned_passphrase p,
          ut_fee = or_else (up_fee p) ''100'', ut_memo = m, ut_call = call, ut_timeout = or_else (up_timeout p) 30\<rparr>))"

section \<open>Reading memos\<close>

datatype stellar_memo = NoMemo | TextValue string | IdValue string | HashValue bytes | ReturnValue bytes | OpaqueMemo

datatype memo_value = NullMemo | MemoTextValue string | MemoByteValue bytes

fun decodeMemo :: "stellar_memo \<Rightarrow> memo_value" where
  "decodeMemo (TextValue s) = MemoTextValue s"
| "decodeMemo (IdValue s) = MemoTextValue s"
| "decodeMemo (HashValue b) = MemoByteValue b"
| "decodeMemo (ReturnValue b) = MemoByteValue b"
| "decodeMemo _ = NullMemo"

fun stored_memo :: "memo \<Rightarrow> stellar_memo" where
  "stored_memo (TextMemo s) = TextValue s"
| "stored_memo (HashMemo b) = HashValue b"

lemma memo_text_roundtrip: "encodeMemo s = Inr m \<Longrightarrow> decodeMemo (stored_memo m) = MemoTextValue s"
  by (auto simp: encodeMemo_def rbind_Inr_iff)

lemma memo_hash_roundtrip: "length b = 32 \<Longrightarrow> decodeMemo (stored_memo (encodeMemoHash b)) = MemoByteValue b"
  by (simp add: encodeMemoHash_def zero_pad_def)

section \<open>What is kept\<close>

text \<open>
  An unsigned transaction for a named operation carries exactly the contract call that the client
  would submit, with a memo within the limit.
\<close>

lemma unsigned_call:
  "buildUnsignedXdr native contract_ok (Inl name) p = Inr tx \<Longrightarrow>
   \<exists>x. (unsigned_operation name p :: 'x unsigned_error + stream_op) = Inr x \<and> encode_op native x = Inr (ut_call tx) \<and>
       (case ut_memo tx of Some (TextMemo s) \<Rightarrow> s = up_memo p \<and> length (utf8 s) \<le> 28 | Some _ \<Rightarrow> False | None \<Rightarrow> up_memo p = [])"
  for native :: "('x, 'v) native_conv"
  by (auto simp: buildUnsignedXdr_def rbind_Inr_iff map_sum_Inr_iff encodeMemo_def assertMemoTextWithinLimit_def
      MEMO_TEXT_MAX_BYTES_def simp del: encode_op.simps split: if_splits)

lemma worker_roundtrip: "deserializeStream (serializeStream s) = Inr (restored s)"
  by (simp add: deserializeStream_def serializeStream_def restored_def)

end
