(* ===== verification/TokenDecimals.thy ===== *)
theory TokenDecimals
  imports Amounts
begin

text \<open>
  Amounts of tokens whose precision is looked up (\<open>src/decimalAware.ts\<close>). A failed lookup is
  remembered for a while, so the provider is not asked again; successes are the provider's own
  business. The state is the module's map of failures; the clock and the provider's answer are
  arguments, and a call reports whether it asked.
\<close>

record 'e negative_entry =
  ne_error :: 'e
  ne_expiresAt :: int

type_synonym 'e negative_cache = "(string, 'e negative_entry) jsmap"

definition DEFAULT_NEGATIVE_CACHE_TTL_MS :: int where "DEFAULT_NEGATIVE_CACHE_TTL_MS = 5 * 60 * 1000"

definition cacheNegativeLookup :: "string \<Rightarrow> 'e \<Rightarrow> int \<Rightarrow> int \<Rightarrow> 'e negative_cache \<Rightarrow> 'e negative_cache" where
  "cacheNegativeLookup tok e ttl now m = map_set tok \<lparr>ne_error = e, ne_expiresAt = now + ttl\<rparr> m"

definition getNegativeCacheEntry :: "string \<Rightarrow> int \<Rightarrow> 'e negative_cache \<Rightarrow> 'e negative_cache \<times> 'e negative_entry option" where
  "getNegativeCacheEntry tok now m =
     (case map_get m tok of
        None \<Rightarrow> (m, None)
      | Some x \<Rightarrow> if ne_expiresAt x \<le> now then (map_del tok m, None) else (m, Some x))"

definition clearNegativeLookupCache :: "'e negative_cache \<Rightarrow> 'e negative_cache" where
  "clearNegativeLookupCache m = []"

definition toStroopsForToken :: "string \<Rightarrow> nat \<Rightarrow> amount_error + int" where
  "toStroopsForToken amount decimals = toStroops amount decimals Truncate"

definition fromStroopsForToken :: "int \<Rightarrow> nat \<Rightarrow> string" where
  "fromStroopsForToken units decimals = formatUSDC units decimals"

text \<open>A lookup: what is awaited in between may change the map, so it is split at the await.\<close>

record 'e lookup_call =
  lc_token :: string
  lc_now :: int
  lc_answer :: "'e + nat"
  lc_answeredAt :: int
  lc_ttl :: int

definition lookup_start :: "'e lookup_call \<Rightarrow> 'e negative_cache \<Rightarrow> 'e negative_cache \<times> 'e option" where
  "lookup_start c m = (case getNegativeCacheEntry (lc_token c) (lc_now c) m of (m', x) \<Rightarrow> (m', map_option ne_error x))"

definition lookup_finish :: "'e lookup_call \<Rightarrow> 'e negative_cache \<Rightarrow> 'e negative_cache \<times> ('e + nat)" where
  "lookup_finish c m = (case lc_answer c of
     Inr d \<Rightarrow> (m, Inr d) | Inl e \<Rightarrow> (cacheNegativeLookup (lc_token c) e (lc_ttl c) (lc_answeredAt c) m, Inl e))"

text \<open>Without other calls during the await: the new map, the outcome, and whether the provider was asked.\<close>

definition getTokenDecimals :: "'e lookup_call \<Rightarrow> 'e negative_cache \<Rightarrow> 'e negative_cache \<times> ('e + nat) \<times> bool" where
  "getTokenDecimals c m = (case lookup_start c m of
     (m1, Some e) \<Rightarrow> (m1, Inl e, False)
   | (m1, None) \<Rightarrow> (case lookup_finish c m1 of (m2, r) \<Rightarrow> (m2, r, True)))"

datatype 'e token_error = LookupFailed 'e | AmountFailed amount_error

definition convertToTokenUnits ::
    "string \<Rightarrow> 'e lookup_call \<Rightarrow> 'e negative_cache \<Rightarrow> 'e negative_cache \<times> ('e token_error + int)" where
  "convertToTokenUnits amount c m = (case getTokenDecimals c m of (m', r, _) \<Rightarrow>
     (m', rbind (map_sum LookupFailed id r) (\<lambda>d. map_sum AmountFailed id (toStroopsForToken amount d))))"

definition formatTokenAmount ::
    "int \<Rightarrow> 'e lookup_call \<Rightarrow> 'e negative_cache \<Rightarrow> 'e negative_cache \<times> ('e + string)" where
  "formatTokenAmount units c m = (case getTokenDecimals c m of (m', r, _) \<Rightarrow>
     (m', map_sum id (fromStroopsForToken units) r))"

section \<open>Steps\<close>

text \<open>Calls interleave at their awaits.\<close>

datatype 'e lookup_event = LookupStart "'e lookup_call" | LookupFinish "'e lookup_call" | ClearLookups

fun lookup_step :: "'e lookup_event \<Rightarrow> 'e negative_cache \<Rightarrow> 'e negative_cache" where
  "lookup_step (LookupStart c) m = fst (lookup_start c m)"
| "lookup_step (LookupFinish c) m = fst (lookup_finish c m)"
| "lookup_step ClearLookups m = clearNegativeLookupCache m"

fun lookup_quiet :: "string \<Rightarrow> int \<Rightarrow> 'e lookup_event \<Rightarrow> bool" where
  "lookup_quiet tok limit (LookupStart c) \<longleftrightarrow> lc_now c < limit"
| "lookup_quiet tok limit (LookupFinish c) \<longleftrightarrow> lc_token c \<noteq> tok \<or> (\<exists>d. lc_answer c = Inr d)"
| "lookup_quiet tok limit ClearLookups \<longleftrightarrow> False"

text \<open>
  A failure is remembered: until it expires, and unless another call for the token fails in flight,
  every call for the token gets the same error and does not ask, whatever other calls do.
\<close>

theorem failed_lookup_remembered:
  assumes "map_get m tok = Some \<lparr>ne_error = e, ne_expiresAt = limit\<rparr>"
    and "list_all (lookup_quiet tok limit) steps" and "lc_token c = tok" and "lc_now c < limit"
  shows "getTokenDecimals c (fold lookup_step steps m) = (fold lookup_step steps m, Inl e, False)"
proof -
  have "map_get (fold lookup_step steps m) tok = Some \<lparr>ne_error = e, ne_expiresAt = limit\<rparr>"
    using assms(1,2)
  proof (induction steps arbitrary: m)
    case (Cons s steps)
    have "map_get (lookup_step s m) tok = map_get m tok"
      using Cons.prems
      by (cases s) (auto simp: lookup_start_def getNegativeCacheEntry_def lookup_finish_def cacheNegativeLookup_def
          split: option.split sum.split)
    with Cons show ?case by simp
  qed simp
  with assms(3,4) show ?thesis
    by (simp add: getTokenDecimals_def lookup_start_def getNegativeCacheEntry_def)
qed

theorem failed_lookup_remembered_witness:
  "getTokenDecimals \<lparr>lc_token = ''T'', lc_now = 20, lc_answer = Inr 7, lc_answeredAt = 21, lc_ttl = 100\<rparr>
     [(''T'', \<lparr>ne_error = (), ne_expiresAt = 110\<rparr>)] = ([(''T'', \<lparr>ne_error = (), ne_expiresAt = 110\<rparr>)], Inl (), False)"
  using failed_lookup_remembered [of "[(''T'', \<lparr>ne_error = (), ne_expiresAt = 110\<rparr>)]" "''T''" "()" 110 "[]"
      "\<lparr>lc_token = ''T'', lc_now = 20, lc_answer = Inr 7, lc_answeredAt = 21, lc_ttl = 100\<rparr>"]
  by simp

text \<open>A failed call starts such a period.\<close>

lemma failure_is_cached:
  "getTokenDecimals c m = (m', Inl e, True) \<Longrightarrow>
   map_get m' (lc_token c) = Some \<lparr>ne_error = e, ne_expiresAt = lc_answeredAt c + lc_ttl c\<rparr>"
  by (auto simp: getTokenDecimals_def lookup_finish_def cacheNegativeLookup_def split: prod.splits option.splits sum.splits)

end
