(* ===== verification/Templates.thy ===== *)
theory Templates
  imports NumberText
begin

text \<open>
  Prepared stream parameters (\<open>src/templates.ts\<close>): fixed durations, and amounts that depend on the
  kind of token. A branch map is an association list; its key \<open>default\<close> is the fallback branch.
\<close>

definition DAY :: int where "DAY = 86400"

definition WEEK :: int where "WEEK = 604800"

text \<open>A constant times a number.\<close>

fun num_scale :: "int \<Rightarrow> js_num \<Rightarrow> js_num" where
  "num_scale k (Num q) = Num (of_int k * q)"
| "num_scale k NotANumber = NotANumber"
| "num_scale k PlusInfinity = (if k > 0 then PlusInfinity else if k < 0 then MinusInfinity else NotANumber)"
| "num_scale k MinusInfinity = (if k > 0 then MinusInfinity else if k < 0 then PlusInfinity else NotANumber)"

definition days :: "js_num \<Rightarrow> js_num" where "days n = num_scale DAY n"

record token_context =
  tc_tokenType :: string
  tc_decimals :: int

datatype 'a conditional =
    Static 'a
  | Resolver "token_context \<Rightarrow> 'a option"
  | Branches "(string, 'a option) jsmap"

datatype template_error = UnhandledTokenType string "string list"

definition conditionalByTokenType :: "(string, 'a option) jsmap \<Rightarrow> 'a option \<Rightarrow> (string, 'a option) jsmap" where
  "conditionalByTokenType branches fallback =
     (case fallback of None \<Rightarrow> branches | Some v \<Rightarrow> map_set ''default'' (Some v) branches)"

definition branch :: "(string, 'a option) jsmap \<Rightarrow> string \<Rightarrow> 'a option" where
  "branch m k = (case map_get m k of None \<Rightarrow> None | Some v \<Rightarrow> v)"

text \<open>\<open>Inr None\<close>: a resolver returned \<open>undefined\<close> and there is no fallback.\<close>

definition resolveConditionalParam :: "'a conditional \<Rightarrow> token_context \<Rightarrow> 'a option \<Rightarrow> template_error + 'a option" where
  "resolveConditionalParam x ctx fallback =
     (case x of
        Static v \<Rightarrow> Inr (Some v)
      | Resolver f \<Rightarrow> Inr (case f ctx of None \<Rightarrow> fallback | Some v \<Rightarrow> Some v)
      | Branches m \<Rightarrow>
          (case branch m (tc_tokenType ctx) of
             Some v \<Rightarrow> Inr (Some v)
           | None \<Rightarrow> (case branch m ''default'' of
                 Some v \<Rightarrow> Inr (Some v)
               | None \<Rightarrow> (case fallback of
                     Some v \<Rightarrow> Inr (Some v)
                   | None \<Rightarrow> Inl (UnhandledTokenType (tc_tokenType ctx) (map_keys m))))))"

definition biweeklyPayroll :: "stream_params \<Rightarrow> stream_params" where
  "biweeklyPayroll p = p\<lparr>sp_durationSeconds := days (Num 14)\<rparr>"

definition weekly_stream :: "stream_params \<Rightarrow> stream_params" where
  "weekly_stream p = p\<lparr>sp_durationSeconds := Num (of_int WEEK)\<rparr>"

definition monthly_stream :: "stream_params \<Rightarrow> stream_params" where
  "monthly_stream p = p\<lparr>sp_durationSeconds := days (Num 30)\<rparr>"

definition vesting_stream :: "js_num \<Rightarrow> stream_params \<Rightarrow> stream_params" where
  "vesting_stream years p = p\<lparr>sp_durationSeconds := days (num_scale 365 years)\<rparr>"

definition custom_stream :: "js_num \<Rightarrow> stream_params \<Rightarrow> stream_params" where
  "custom_stream n p = p\<lparr>sp_durationSeconds := days n\<rparr>"

text \<open>An unresolved amount leaves the field undefined.\<close>

definition minAmountStream ::
    "string \<Rightarrow> int option \<Rightarrow> int conditional \<Rightarrow> int option \<Rightarrow> stream_params \<Rightarrow> template_error + stream_params option" where
  "minAmountStream tokenType decimals amount defaultAmount p =
     rbind (resolveConditionalParam amount \<lparr>tc_tokenType = tokenType, tc_decimals = (case decimals of None \<Rightarrow> 7 | Some d \<Rightarrow> d)\<rparr> defaultAmount)
       (\<lambda>r. Inr (map_option (\<lambda>v. p\<lparr>sp_amount := v\<rparr>) r))"

text \<open>With a default every conditional parameter has a value; a token type's own branch always wins.\<close>

lemma resolve_total: "\<exists>v. resolveConditionalParam x ctx (Some d) = Inr (Some v)"
  by (simp add: resolveConditionalParam_def split: conditional.split option.split)

lemma resolve_default_branch: "\<exists>v. resolveConditionalParam (Branches (conditionalByTokenType m (Some d))) ctx fallback = Inr (Some v)"
  by (auto simp: resolveConditionalParam_def conditionalByTokenType_def branch_def split: option.split)

lemma resolve_own_branch:
  "map_get m (tc_tokenType ctx) = Some (Some v) \<Longrightarrow> resolveConditionalParam (Branches m) ctx fallback = Inr (Some v)"
  by (simp add: resolveConditionalParam_def branch_def)

text \<open>The durations of the templates pass the client's check of a whole number of seconds, at least one.\<close>

lemma template_durations:
  "f \<in> {biweeklyPayroll, weekly_stream, monthly_stream} \<Longrightarrow>
   is_integer (sp_durationSeconds (f p)) \<and> \<not> num_less (sp_durationSeconds (f p)) (Num 1)"
  by (auto simp: biweeklyPayroll_def weekly_stream_def monthly_stream_def days_def DAY_def WEEK_def)

text \<open>A fractional number of years may miss it.\<close>

lemma fractional_years_rejected: "\<not> is_integer (sp_durationSeconds (vesting_stream (Num (1 / 1000000)) p))"
proof -
  have "\<lfloor>3942 / 125 :: rat\<rfloor> = 31" by (simp add: floor_eq_iff)
  then show ?thesis by (simp add: vesting_stream_def days_def DAY_def)
qed

end
