(* ===== verification/AddressBook.thy ===== *)
theory AddressBook
  imports StreamJson
begin

text \<open>
  Aliases for addresses (\<open>src/addressBook.ts\<close>): the in-memory book, and the persisted one, which writes
  itself to a storage key after a quiet period. The key's content is a text or absent; the timer is
  its deadline. What a stored text may hold beyond lists of entries with string fields (a foreign
  value under the key) is \<open>None\<close>.
\<close>

record book_entry =
  be_alias :: string
  be_address :: string
  be_notes :: "string option"

type_synonym book = "(string, book_entry) jsmap"

datatype book_error = InvalidEntry string string | AliasNotFound string | BadDebounce js_num

section \<open>In memory\<close>

definition validateAddress :: "string \<Rightarrow> string \<Rightarrow> book_error + unit" where
  "validateAddress alias address = (if isValidStellarAddress address then Inr () else Inl (InvalidEntry alias address))"

definition book_set :: "string \<Rightarrow> string \<Rightarrow> string option \<Rightarrow> book \<Rightarrow> book_error + book" where
  "book_set alias address notes m = rbind (validateAddress alias address)
     (\<lambda>_. Inr (map_set alias \<lparr>be_alias = alias, be_address = address, be_notes = notes\<rparr> m))"

definition book_delete :: "string \<Rightarrow> book \<Rightarrow> book \<times> bool" where
  "book_delete alias m = (map_del alias m, map_has m alias)"

definition book_get :: "string \<Rightarrow> book \<Rightarrow> string option" where
  "book_get alias m = map_option be_address (map_get m alias)"

definition book_resolve :: "string \<Rightarrow> book \<Rightarrow> book_error + string" where
  "book_resolve x m = (case map_get m x of
     Some e \<Rightarrow> Inr (be_address e)
   | None \<Rightarrow> if isValidStellarAddress x then Inr x else Inl (AliasNotFound x))"

definition book_entries :: "book \<Rightarrow> book_entry list" where "book_entries m = map snd m"

text \<open>Entries, or a record from aliases to addresses.\<close>

datatype import_data = EntryList "book_entry list" | AliasRecord "(string \<times> string) list"

fun normaliseImport :: "import_data \<Rightarrow> book_entry list" where
  "normaliseImport (EntryList es) = es"
| "normaliseImport (AliasRecord ps) = map (\<lambda>p. \<lparr>be_alias = fst p, be_address = snd p, be_notes = None\<rparr>) ps"

text \<open>The import stops at the first invalid entry; the entries before it stay.\<close>

fun import_entries :: "book_entry list \<Rightarrow> book \<Rightarrow> book \<times> (book_error + unit)" where
  "import_entries [] m = (m, Inr ())"
| "import_entries (e # es) m = (case book_set (be_alias e) (be_address e) (be_notes e) m of
     Inl err \<Rightarrow> (m, Inl err) | Inr m' \<Rightarrow> import_entries es m')"

definition book_import :: "import_data \<Rightarrow> book \<Rightarrow> book \<times> (book_error + unit)" where
  "book_import d m = import_entries (normaliseImport d) m"

definition book_export :: "book \<Rightarrow> (string, string) jsmap" where
  "book_export m = foldl (\<lambda>r e. map_set (be_alias e) (be_address e) r) [] (book_entries m)"

section \<open>Persisted\<close>

record persisted_book =
  pb_map :: book
  pb_hasStorage :: bool
  pb_stored :: "string option"
  pb_debounceMs :: int
  pb_timer :: "int option"

definition entry_json :: "book_entry \<Rightarrow> json" where
  "entry_json e = JObj ([(''alias'', JStr (be_alias e)), (''address'', JStr (be_address e))] @ optional ''notes'' JStr (be_notes e))"

fun entry_of_json :: "json \<Rightarrow> book_entry option" where
  "entry_of_json (JObj ps) = (case (map_of ps ''alias'', map_of ps ''address'', map_of ps ''notes'') of
     (Some (JStr a), Some (JStr b), None) \<Rightarrow> Some \<lparr>be_alias = a, be_address = b, be_notes = None\<rparr>
   | (Some (JStr a), Some (JStr b), Some (JStr n)) \<Rightarrow> Some \<lparr>be_alias = a, be_address = b, be_notes = Some n\<rparr>
   | _ \<Rightarrow> None)"
| "entry_of_json _ = None"

text \<open>Reading a null entry throws, which ends the load; the entries before it stay.\<close>

fun load_items :: "book \<Rightarrow> json list \<Rightarrow> book option" where
  "load_items m [] = Some m"
| "load_items m (v # vs) =
     (if v = JNull then Some m
      else (case entry_of_json v of None \<Rightarrow> None | Some e \<Rightarrow> load_items (map_set (be_alias e) e m) vs))"

definition load_text :: "string option \<Rightarrow> book option" where
  "load_text stored = (case stored of
     None \<Rightarrow> Some []
   | Some raw \<Rightarrow>
       if raw = [] then Some []
       else (case json_parse raw of
           None \<Rightarrow> Some []
         | Some (JArr vs) \<Rightarrow> load_items [] vs
         | Some (JStr s) \<Rightarrow> if s = [] then Some [] else None
         | Some _ \<Rightarrow> Some []))"

definition new_persisted_book :: "bool \<Rightarrow> string option \<Rightarrow> js_num option \<Rightarrow> book_error + persisted_book option" where
  "new_persisted_book hasStorage stored debounce =
     (let d = (case debounce of None \<Rightarrow> Num 50 | Some x \<Rightarrow> x)
      in case d of
           Num q \<Rightarrow>
             if q < 0 then Inl (BadDebounce d)
             else Inr (map_option (\<lambda>m. \<lparr>pb_map = m, pb_hasStorage = hasStorage, pb_stored = stored, pb_debounceMs = \<lfloor>q\<rfloor>, pb_timer = None\<rparr>)
               (if hasStorage then load_text stored else Some []))
         | _ \<Rightarrow> Inl (BadDebounce d))"

definition pb_write :: "persisted_book \<Rightarrow> persisted_book" where
  "pb_write b = (if pb_hasStorage b then b\<lparr>pb_stored := Some (print_json (JArr (map entry_json (book_entries (pb_map b)))))\<rparr> else b)"

definition pb_scheduleFlush :: "int \<Rightarrow> persisted_book \<Rightarrow> persisted_book" where
  "pb_scheduleFlush now b = (if pb_hasStorage b then b\<lparr>pb_timer := Some (now + pb_debounceMs b)\<rparr> else b)"

definition pb_flush :: "persisted_book \<Rightarrow> persisted_book" where
  "pb_flush b = pb_write (b\<lparr>pb_timer := None\<rparr>)"

text \<open>The callback of the timer.\<close>

definition pb_tick :: "int \<Rightarrow> persisted_book \<Rightarrow> persisted_book" where
  "pb_tick now b = (case pb_timer b of
     None \<Rightarrow> b | Some t \<Rightarrow> if t \<le> now then pb_write (b\<lparr>pb_timer := None\<rparr>) else b)"

definition pb_set :: "int \<Rightarrow> string \<Rightarrow> string \<Rightarrow> string option \<Rightarrow> persisted_book \<Rightarrow> persisted_book \<times> (book_error + unit)" where
  "pb_set now alias address notes b = (case book_set alias address notes (pb_map b) of
     Inl e \<Rightarrow> (b, Inl e) | Inr m \<Rightarrow> (pb_scheduleFlush now (b\<lparr>pb_map := m\<rparr>), Inr ()))"

definition pb_delete :: "int \<Rightarrow> string \<Rightarrow> persisted_book \<Rightarrow> persisted_book \<times> bool" where
  "pb_delete now alias b = (case book_delete alias (pb_map b) of (m, existed) \<Rightarrow>
     (if existed then pb_scheduleFlush now (b\<lparr>pb_map := m\<rparr>) else b\<lparr>pb_map := m\<rparr>, existed))"

definition pb_clear :: "int \<Rightarrow> persisted_book \<Rightarrow> persisted_book" where
  "pb_clear now b = pb_scheduleFlush now (b\<lparr>pb_map := []\<rparr>)"

definition pb_import :: "int \<Rightarrow> import_data \<Rightarrow> persisted_book \<Rightarrow> persisted_book \<times> (book_error + unit)" where
  "pb_import now d b = (case book_import d (pb_map b) of
     (m, Inl e) \<Rightarrow> (b\<lparr>pb_map := m\<rparr>, Inl e)
   | (m, Inr _) \<Rightarrow> (pb_scheduleFlush now (b\<lparr>pb_map := m\<rparr>), Inr ()))"

section \<open>Storage holds the book\<close>

lemma entry_json_inverse: "entry_of_json (entry_json e) = Some e"
  by (cases "be_notes e") (simp_all add: entry_json_def optional_def)

lemma entry_json_plain: "plain_json (entry_json e)"
  by (simp add: entry_json_def optional_def split: option.split)

definition keyed :: "book \<Rightarrow> bool" where
  "keyed m \<longleftrightarrow> distinct (map_keys m) \<and> (\<forall>(k, e) \<in> set m. be_alias e = k)"

lemma load_printed_items:
  "keyed (m @ xs) \<Longrightarrow> load_items m (map (\<lambda>p. entry_json (snd p)) xs) = Some (m @ xs)"
proof (induction xs arbitrary: m)
  case (Cons p xs)
  obtain k e where p: "p = (k, e)" by force
  then have k: "be_alias e = k" "k \<notin> set (map_keys m)" using Cons.prems by (auto simp: keyed_def)
  have "entry_json e \<noteq> JNull" by (simp add: entry_json_def)
  with k Cons.IH [of "m @ [p]"] Cons.prems show ?case by (simp add: p entry_json_inverse map_set_fresh)
qed simp

lemma load_written:
  assumes "keyed m"
  shows "load_text (Some (print_json (JArr (map entry_json (book_entries m))))) = Some m"
proof -
  have "plain_json (JArr (map entry_json (book_entries m)))" by (simp add: list_all_iff entry_json_plain)
  then have "json_parse (print_json (JArr (map entry_json (book_entries m)))) = Some (JArr (map entry_json (book_entries m)))"
    by (rule json_parse_print)
  moreover have "load_items [] (map entry_json (book_entries m)) = Some m"
    using load_printed_items [of "[]" m] assms by (simp add: book_entries_def comp_def)
  ultimately show ?thesis by (simp add: load_text_def)
qed

lemma map_set_keyed: "keyed m \<Longrightarrow> be_alias e = k \<Longrightarrow> keyed (map_set k e m)"
proof (induction m)
  case (Cons p m)
  obtain k' e' where p: "p = (k', e')" by force
  from Cons.prems p have m: "keyed m" "be_alias e' = k'" "k' \<notin> set (map_keys m)" by (auto simp: keyed_def)
  show ?case
  proof (cases "k' = k")
    case True
    with m p Cons.prems(2) show ?thesis by (auto simp: keyed_def)
  next
    case False
    moreover have "k' \<notin> set (map_keys (map_set k e m))" using m(3) False by (auto split: if_splits)
    ultimately show ?thesis using m Cons.IH [OF m(1) Cons.prems(2)] p by (auto simp: keyed_def)
  qed
qed (simp add: keyed_def)

lemma map_del_keyed: "keyed m \<Longrightarrow> keyed (map_del k m)"
  by (auto simp: keyed_def AList.delete_eq distinct_map_filter)

lemma book_set_keyed: "keyed m \<Longrightarrow> book_set a x n m = Inr m' \<Longrightarrow> keyed m'"
  by (auto simp: book_set_def rbind_Inr_iff intro: map_set_keyed)

lemma import_keyed: "keyed m \<Longrightarrow> keyed (fst (import_entries es m))"
  by (induction es arbitrary: m) (auto split: sum.split dest: book_set_keyed)

lemma keyed_Nil: "keyed []"
  by (simp add: keyed_def)

lemma load_items_keyed: "keyed m \<Longrightarrow> load_items m vs = Some m' \<Longrightarrow> keyed m'"
  by (induction vs arbitrary: m) (auto intro: map_set_keyed split: if_splits option.splits)

lemma load_text_keyed: "load_text stored = Some m \<Longrightarrow> keyed m"
  using load_items_keyed [of "[]"] keyed_Nil
  by (auto simp: load_text_def split: option.splits json.splits if_splits)

section \<open>Steps\<close>

datatype book_event =
    BookSet int string string "string option"
  | BookDelete int string
  | BookClear int
  | BookImport int import_data
  | BookFlush
  | BookTick int

fun book_step :: "book_event \<Rightarrow> persisted_book \<Rightarrow> persisted_book" where
  "book_step (BookSet now a x n) b = fst (pb_set now a x n b)"
| "book_step (BookDelete now a) b = fst (pb_delete now a b)"
| "book_step (BookClear now) b = pb_clear now b"
| "book_step (BookImport now d) b = fst (pb_import now d b)"
| "book_step BookFlush b = pb_flush b"
| "book_step (BookTick now) b = pb_tick now b"

lemmas book_defs = pb_set_def pb_delete_def pb_clear_def pb_import_def pb_flush_def pb_tick_def pb_write_def pb_scheduleFlush_def

interpretation bk: step_system book_step "\<lambda>b. keyed (pb_map b)"
proof unfold_locales
  fix b :: persisted_book and e
  assume k: "keyed (pb_map b)"
  have imported: "keyed m" if "book_import d (pb_map b) = (m, r)" for d m r
    using import_keyed [OF k, of "normaliseImport d"] that by (simp add: book_import_def)
  with k keyed_Nil show "keyed (pb_map (book_step e b))"
    by (cases e) (auto simp: book_defs book_delete_def map_del_keyed book_set_keyed imported
        split: sum.splits prod.splits option.splits)
qed

text \<open>Every entry of an import is valid, so it is not broken off.\<close>

fun import_valid :: "book_event \<Rightarrow> bool" where
  "import_valid (BookImport now d) \<longleftrightarrow> list_all (\<lambda>e. isValidStellarAddress (be_address e)) (normaliseImport d)"
| "import_valid _ \<longleftrightarrow> True"

definition saved :: "persisted_book \<Rightarrow> bool" where
  "saved b \<longleftrightarrow> pb_hasStorage b \<and> keyed (pb_map b) \<and> (pb_timer b = None \<longrightarrow> load_text (pb_stored b) = Some (pb_map b))"

lemma valid_import: "list_all (\<lambda>e. isValidStellarAddress (be_address e)) es \<Longrightarrow> \<exists>m'. import_entries es m = (m', Inr ())"
  by (induction es arbitrary: m) (auto simp: book_set_def validateAddress_def)

lemma saved_step:
  assumes "saved b" and "import_valid e"
  shows "saved (book_step e b)"
proof -
  have k: "keyed (pb_map (book_step e b))" using bk.step_inv assms(1) by (simp add: saved_def)
  have st: "pb_hasStorage b" "keyed (pb_map b)" and old: "pb_timer b = None \<Longrightarrow> load_text (pb_stored b) = Some (pb_map b)"
    using assms(1) by (simp_all add: saved_def)
  show ?thesis
  proof (cases e)
    case (BookImport now d)
    then obtain m' where "book_import d (pb_map b) = (m', Inr ())"
      using valid_import assms(2) by (auto simp: book_import_def)
    with BookImport k st show ?thesis by (simp add: saved_def book_defs)
  next
    case (BookSet now a x n)
    with k st old show ?thesis by (simp add: saved_def book_defs split: sum.splits)
  next
    case (BookDelete now a)
    with k st old show ?thesis by (auto simp: saved_def book_defs book_delete_def AList.delete_notin_dom map_has_iff)
  next
    case (BookTick now)
    with k st old load_written show ?thesis by (simp add: saved_def book_defs split: option.split)
  qed (use k st load_written in \<open>simp_all add: saved_def book_defs\<close>)
qed


text \<open>An import that fails keeps its first entries in memory but does not schedule a write.\<close>

lemma failed_import_not_written:
  assumes "isValidStellarAddress x" and "\<not> isValidStellarAddress y"
  shows "pb_import now (AliasRecord [(a, x), (c, y)]) b =
    (b\<lparr>pb_map := map_set a \<lparr>be_alias = a, be_address = x, be_notes = None\<rparr> (pb_map b)\<rparr>, Inl (InvalidEntry c y))"
  using assms by (simp add: pb_import_def book_import_def book_set_def validateAddress_def)

text \<open>Stored entries are not validated: the book resolves an alias to whatever text was stored.\<close>

lemma stored_entries_unchecked:
  "new_persisted_book True (Some (print_json (JArr [entry_json \<lparr>be_alias = a, be_address = x, be_notes = None\<rparr>]))) None = Inr (Some b) \<Longrightarrow>
   book_resolve a (pb_map b) = Inr x"
  using load_written [of "[(a, \<lparr>be_alias = a, be_address = x, be_notes = None\<rparr>)]"]
  by (auto simp: new_persisted_book_def book_entries_def keyed_def book_resolve_def)

text \<open>An alias that looks like an address shadows that address.\<close>

lemma alias_shadows_address:
  "map_get m x = Some e \<Longrightarrow> book_resolve x m = Inr (be_address e)"
  by (simp add: book_resolve_def)


end
