(* ===== verification/StreamStateCache.thy ===== *)
theory StreamStateCache
  imports Serialization ClientReads
begin

text \<open>
  The persistent stream cache (\<open>src/streamStateCache.ts\<close>): one storage key per network and stream,
  holding the cloneable stream and the time it was stored. A storage that throws is \<open>cs_broken\<close>.
\<close>

record cache_storage =
  cs_items :: "(string, string) jsmap"
  cs_broken :: bool

record stored_stream =
  st_stream :: serialized_stream
  st_cachedAt :: int

definition KEY_PREFIX :: string where "KEY_PREFIX = ''sorostream_stream_cache''"

definition DEFAULT_MAX_AGE_MS :: int where "DEFAULT_MAX_AGE_MS = 24 * 60 * 60 * 1000"

definition stream_cache_key :: "string \<Rightarrow> string \<Rightarrow> string" where
  "stream_cache_key network i = KEY_PREFIX @ '':'' @ network @ '':'' @ i"

definition serialized_json :: "serialized_stream \<Rightarrow> json" where
  "serialized_json d = JObj ([(''id'', JStr (ss_id d)), (''sender'', JStr (ss_sender d)), (''recipient'', JStr (ss_recipient d)),
     (''token'', JStr (ss_token d)), (''deposit'', JStr (ss_deposit d)), (''flowRate'', JStr (ss_flowRate d)),
     (''startTime'', json_int (ss_startTime d)), (''endTime'', json_int (ss_endTime d)),
     (''lastWithdrawTime'', json_int (ss_lastWithdrawTime d)), (''status'', JStr (status_name (ss_status d))),
     (''autoRenew'', JBool (ss_autoRenew d))] @
     optional ''pausedAt'' json_int (ss_pausedAt d) @ optional ''lockUntil'' json_int (ss_lockUntil d))"

definition stored_json :: "stored_stream \<Rightarrow> json" where
  "stored_json x = JObj [(''stream'', serialized_json (st_stream x)), (''cachedAt'', json_int (st_cachedAt x))]"

text \<open>
  The fields as \<open>deserializeStream\<close> takes them from a parsed object; \<open>None\<close> when one has a type that
  the record cannot hold.
\<close>

definition text_field :: "json \<Rightarrow> string option" where
  "text_field v = (case v of JStr s \<Rightarrow> Some s | _ \<Rightarrow> None)"

definition int_field :: "json \<Rightarrow> int option" where
  "int_field v = (case v of JNum l \<Rightarrow> integral (number_of_string l) | _ \<Rightarrow> None)"

definition status_json :: "json \<Rightarrow> stream_status option" where
  "status_json v = (case v of JStr s \<Rightarrow> status_of_name s | _ \<Rightarrow> None)"

definition bool_json :: "json \<Rightarrow> bool option" where
  "bool_json v = (case v of JBool b \<Rightarrow> Some b | _ \<Rightarrow> None)"

definition optional_int :: "json \<Rightarrow> string \<Rightarrow> int option option" where
  "optional_int v k = (case v of
     JObj ps \<Rightarrow> (case map_of ps k of None \<Rightarrow> Some None | Some x \<Rightarrow> map_option Some (int_field x)) | _ \<Rightarrow> Some None)"

definition serialized_of_json :: "json \<Rightarrow> serialized_stream option" where
  "serialized_of_json v =
     (case (text_field (json_field v ''id''), text_field (json_field v ''sender''), text_field (json_field v ''recipient''),
            text_field (json_field v ''token''), text_field (json_field v ''deposit''), text_field (json_field v ''flowRate''),
            int_field (json_field v ''startTime''), int_field (json_field v ''endTime''),
            int_field (json_field v ''lastWithdrawTime''), status_json (json_field v ''status''),
            bool_json (json_field v ''autoRenew''), optional_int v ''pausedAt'', optional_int v ''lockUntil'') of
        (Some a, Some b, Some c, Some d, Some e, Some f, Some g, Some h, Some i, Some j, Some k, Some p, Some l) \<Rightarrow>
          Some \<lparr>ss_id = a, ss_sender = b, ss_recipient = c, ss_token = d, ss_deposit = e, ss_flowRate = f, ss_startTime = g,
                ss_endTime = h, ss_lastWithdrawTime = i, ss_status = j, ss_autoRenew = k, ss_pausedAt = p, ss_lockUntil = l\<rparr>
      | _ \<Rightarrow> None)"

text \<open>An entry that is missing, is not JSON or has no numeric time counts as absent.\<close>

definition sc_read :: "string \<Rightarrow> string \<Rightarrow> cache_storage \<Rightarrow> (json \<times> js_num) option" where
  "sc_read network i c =
     (if cs_broken c then None
      else (case map_get (cs_items c) (stream_cache_key network i) of
          None \<Rightarrow> None
        | Some raw \<Rightarrow>
            if raw = [] then None
            else (case json_parse raw of
                None \<Rightarrow> None
              | Some v \<Rightarrow> (case json_field v ''cachedAt'' of
                    JNum l \<Rightarrow> Some (json_field v ''stream'', number_of_string l) | _ \<Rightarrow> None))))"

definition sc_stream :: "json \<Rightarrow> stream option" where
  "sc_stream v = (case serialized_of_json v of
     None \<Rightarrow> None | Some d \<Rightarrow> (case deserializeStream d of Inl _ \<Rightarrow> None | Inr s \<Rightarrow> Some s))"

definition sc_get :: "int \<Rightarrow> int \<Rightarrow> string \<Rightarrow> string \<Rightarrow> cache_storage \<Rightarrow> stream option" where
  "sc_get now maxAge network i c =
     (case sc_read network i c of
        None \<Rightarrow> None
      | Some (v, storedAt) \<Rightarrow> (case storedAt of
            Num q \<Rightarrow> if of_int maxAge < of_int now - q then None else sc_stream v | _ \<Rightarrow> None))"

definition sc_set :: "int \<Rightarrow> string \<Rightarrow> stream \<Rightarrow> cache_storage \<Rightarrow> cache_storage" where
  "sc_set now network s c =
     (if cs_broken c then c
      else c\<lparr>cs_items := map_set (stream_cache_key network (stream_id s))
               (print_json (stored_json \<lparr>st_stream = serializeStream s, st_cachedAt = now\<rparr>)) (cs_items c)\<rparr>)"

definition sc_delete :: "string \<Rightarrow> string \<Rightarrow> cache_storage \<Rightarrow> cache_storage" where
  "sc_delete network i c =
     (if cs_broken c then c else c\<lparr>cs_items := map_del (stream_cache_key network i) (cs_items c)\<rparr>)"

text \<open>The value at hand regardless of its age, and what the refreshed stream does when it arrives.\<close>

definition sc_getWithRevalidate :: "string \<Rightarrow> string \<Rightarrow> cache_storage \<Rightarrow> stream option" where
  "sc_getWithRevalidate network i c = (case sc_read network i c of None \<Rightarrow> None | Some (v, _) \<Rightarrow> sc_stream v)"

definition sc_refreshed :: "int \<Rightarrow> string \<Rightarrow> 'e + stream \<Rightarrow> cache_storage \<Rightarrow> cache_storage" where
  "sc_refreshed now network answer c = (case answer of Inl _ \<Rightarrow> c | Inr s \<Rightarrow> sc_set now network s c)"

section \<open>Reading what was stored\<close>

lemma int_field_json_int [simp]: "int_field (json_int n) = Some n"
  by (simp add: int_field_def json_int_def number_of_int_string)

lemma serialized_json_inverse: "serialized_of_json (serialized_json d) = Some d"
  by (cases "ss_pausedAt d"; cases "ss_lockUntil d")
    (simp_all add: serialized_of_json_def serialized_json_def json_field_def text_field_def status_json_def bool_json_def
      optional_int_def optional_def)

lemma serialized_json_plain: "plain_json (serialized_json d)"
  by (cases "ss_pausedAt d"; cases "ss_lockUntil d") (auto simp: serialized_json_def optional_def json_int_def)

lemma stored_json_plain: "plain_json (stored_json x)"
  by (auto simp: stored_json_def serialized_json_plain json_int_def)

lemma sc_read_set:
  assumes "\<not> cs_broken c"
  shows "sc_read network (stream_id s) (sc_set now network s c) = Some (serialized_json (serializeStream s), Num (of_int now))"
proof -
  let ?x = "\<lparr>st_stream = serializeStream s, st_cachedAt = now\<rparr>"
  have "json_parse (print_json (stored_json ?x)) = Some (stored_json ?x)" by (rule json_parse_print [OF stored_json_plain])
  moreover have "print_json (stored_json ?x) \<noteq> []" by (simp add: stored_json_def)
  moreover have "json_field (stored_json ?x) ''cachedAt'' = JNum (string_of_int now)"
    "json_field (stored_json ?x) ''stream'' = serialized_json (serializeStream s)"
    by (simp_all add: stored_json_def json_field_def json_int_def)
  ultimately show ?thesis
    using assms by (simp add: sc_read_def sc_set_def number_of_int_string del: print_json.simps)
qed

lemma sc_stream_serialized: "sc_stream (serialized_json (serializeStream s)) = Some (restored s)"
  by (simp add: sc_stream_def serialized_json_inverse worker_roundtrip)

text \<open>
  A stored stream is read back, up to its namespace and tag, for as long as its age allows, and
  then not; other keys are untouched.
\<close>

theorem stored_stream_read_back:
  assumes "\<not> cs_broken c"
  shows "sc_get later maxAge network (stream_id s) (sc_set now network s c) =
      (if later - now \<le> maxAge then Some (s\<lparr>namespace := None, tag := None\<rparr>) else None) \<and>
    (stream_cache_key network' i = stream_cache_key network (stream_id s) \<or>
     sc_get later maxAge network' i (sc_set now network s c) = sc_get later maxAge network' i c)"
proof -
  have "(rat_of_int maxAge < rat_of_int later - rat_of_int now) = (\<not> later - now \<le> maxAge)"
    by (metis (no_types) linorder_not_le of_int_diff of_int_less_iff)
  then show ?thesis
    using sc_read_set [OF assms] sc_stream_serialized assms
    by (auto simp: sc_get_def restored_def sc_read_def [of network' i] sc_set_def)
qed

text \<open>The keys of the three networks do not collide.\<close>

lemma cache_keys_distinct:
  "CHR '':'' \<notin> set n \<Longrightarrow> CHR '':'' \<notin> set m \<Longrightarrow> stream_cache_key n i = stream_cache_key m j \<longleftrightarrow> n = m \<and> i = j"
proof (induction n arbitrary: m)
  case Nil
  then show ?case by (cases m) (auto simp: stream_cache_key_def)
next
  case (Cons x n)
  then show ?case by (cases m) (auto simp: stream_cache_key_def)
qed

text \<open>A failed refresh stores nothing.\<close>

lemma failed_refresh_keeps: "sc_refreshed now network (Inl e) c = c"
  by (simp add: sc_refreshed_def)

theorem stored_stream_read_back_witness:
  "sc_get 9 5 ''testnet'' ''1'' (sc_set 3 ''testnet'' awkward_stream \<lparr>cs_items = [], cs_broken = False\<rparr>) = None"
  using stored_stream_read_back [of "\<lparr>cs_items = [], cs_broken = False\<rparr>" 9 5 "''testnet''" awkward_stream 3]
  by (simp add: awkward_stream_def)

end
