(* ===== verification/BatchBuilder.thy ===== *)
theory BatchBuilder
  imports BatchProps
begin

text \<open>
  The fluent batch of client calls (\<open>src/batchBuilder.ts\<close>). Its operations run one after the other,
  each as its own transaction; a failure is a result, not an end.
\<close>

datatype batch_op = BatchCreate stream_params | BatchCancel string | BatchTake string

fun batch_label :: "batch_op \<Rightarrow> string" where
  "batch_label (BatchCreate p) = ''createStream''"
| "batch_label (BatchCancel i) = ''cancelStream''"
| "batch_label (BatchTake i) = ''withdraw''"

definition SOROBAN_MAX_OPS_PER_TX :: nat where "SOROBAN_MAX_OPS_PER_TX = 100"

definition bb_createStream :: "stream_params \<Rightarrow> batch_op list \<Rightarrow> batch_op list" where
  "bb_createStream p ops = ops @ [BatchCreate p]"

definition bb_cancelStream :: "string \<Rightarrow> batch_op list \<Rightarrow> batch_op list" where
  "bb_cancelStream i ops = ops @ [BatchCancel i]"

definition bb_withdraw :: "string \<Rightarrow> batch_op list \<Rightarrow> batch_op list" where
  "bb_withdraw i ops = ops @ [BatchTake i]"

definition operationCount :: "batch_op list \<Rightarrow> nat" where "operationCount ops = length ops"

definition forget :: "('e, 'v, 'a) wprog \<Rightarrow> ('e, 'v, unit) wprog" where
  "forget m = sbind m (\<lambda>_. sreturn ())"

fun run_op :: "('e, 'acc, 'tx, 'v) write_env \<Rightarrow> batch_op \<Rightarrow> ('e, 'v, unit) wprog" where
  "run_op env (BatchCreate p) = forget (client_createStream env p no_options)"
| "run_op env (BatchCancel i) = forget (client_cancelStream env i no_options)"
| "run_op env (BatchTake i) = forget (client_withdraw env i no_options)"

datatype batch_refusal = NoOperations | TooManyOperations nat nat

text \<open>The result of an operation: its label and its error, if it failed.\<close>

definition run_reported :: "('e, 'acc, 'tx, 'v) write_env \<Rightarrow> batch_op \<Rightarrow> ('e, 'v, string \<times> 'e write_error option) wprog" where
  "run_reported env x = stry (sbind (run_op env x) (\<lambda>_. sreturn (batch_label x, None))) (\<lambda>e. sreturn (batch_label x, Some e))"

definition bb_submit :: "('e, 'acc, 'tx, 'v) write_env \<Rightarrow> batch_op list \<Rightarrow>
    ('e, 'v, batch_refusal + (string \<times> 'e write_error option) list) wprog" where
  "bb_submit env ops =
     (if ops = [] then sreturn (Inl NoOperations)
      else if length ops > SOROBAN_MAX_OPS_PER_TX then sreturn (Inl (TooManyOperations (length ops) SOROBAN_MAX_OPS_PER_TX))
      else sbind (smap (run_reported env) ops) (\<lambda>rs. sreturn (Inr rs)))"

section \<open>Every operation is run and reported\<close>

lemma withdraw_returns: "returns (client_withdraw env i wo)"
  unfolding client_withdraw_def stream_or_null_def explainOperation_def bus_emit_def drop_cached_def Let_def
  by (auto intro!: returns_bind returns_try returns_calls returns_simple submit_op_returns split: sim_answer.split)

lemma cancelStream_returns: "returns (client_cancelStream env i wo)"
  unfolding client_cancelStream_def stream_or_null_def explainOperation_def note_timestamp_def bus_emit_def Let_def
  by (auto intro!: returns_bind returns_try returns_calls returns_simple submit_op_returns split: sim_answer.split)

lemma run_op_returns: "returns (run_op env x)"
  by (cases x) (auto simp: forget_def intro!: returns_bind returns_simple withdraw_returns cancelStream_returns createStream_returns)

text \<open>The operations one after the other, each from the state the one before left.\<close>

fun runs_in_order ::
    "('e, 'acc, 'tx, 'v) write_env \<Rightarrow> batch_op list \<Rightarrow> (string \<times> 'e write_error option) list \<Rightarrow> 'v write_state \<Rightarrow> 'v write_state \<Rightarrow> bool" where
  "runs_in_order env [] [] s s' \<longleftrightarrow> s' = s"
| "runs_in_order env (x # xs) (r # rs) s s' \<longleftrightarrow> fst r = batch_label x \<and>
     (case run_op env x s of
        None \<Rightarrow> False
      | Some (t, out) \<Rightarrow> snd r = (case out of Inl e \<Rightarrow> Some e | Inr _ \<Rightarrow> None) \<and> runs_in_order env xs rs t s')"
| "runs_in_order env _ _ s s' \<longleftrightarrow> False"

lemma smap_reported:
  "\<exists>s' rs. smap (run_reported env) xs s = Some (s', Inr rs) \<and> runs_in_order env xs rs s s'"
proof (induction xs arbitrary: s)
  case Nil
  then show ?case by (simp add: slift_def)
next
  case (Cons x xs)
  obtain t out where run: "run_op env x s = Some (t, out)" using returns_Some [OF run_op_returns] by blast
  let ?r = "(batch_label x, case out of Inl e \<Rightarrow> Some e | Inr _ \<Rightarrow> None)"
  have one: "run_reported env x s = Some (t, Inr ?r)"
    by (cases out) (simp_all add: run_reported_def stry_def sbind_def slift_def run)
  obtain s' rs where rest: "smap (run_reported env) xs t = Some (s', Inr rs)" "runs_in_order env xs rs t s'"
    using Cons.IH by blast
  from one rest(1) have "smap (run_reported env) (x # xs) s = Some (s', Inr (?r # rs))" by (simp add: sbind_def slift_def)
  moreover from run rest(2) have "runs_in_order env (x # xs) (?r # rs) s s'" by simp
  ultimately show ?case by blast
qed



lemma too_many_operations_refused:
  "100 < length ops \<Longrightarrow> bb_submit env ops s = Some (s, Inr (Inl (TooManyOperations (length ops) 100)))"
  by (auto simp: bb_submit_def SOROBAN_MAX_OPS_PER_TX_def slift_def)

end
