(* ===== verification/FeeRetry.thy ===== *)
theory FeeRetry
  imports PluginRegistry NumberText
begin

text \<open>
  The fee middleware (\<open>src/feeRetryMiddleware.ts\<close>): it recognises errors that mean a fee was too low,
  suggests a higher one and throws \<open>FeeRetryError\<close>. What it reads of an error object is a
  \<open>fee_view\<close>; a call is known by its arguments array, here a number. Fees and factors are finite.
\<close>

datatype fee_hint = NoHint | NumberHint js_num | TextHint string

record fee_view =
  fv_code :: "string option"
  fv_result_code :: "string option"
  fv_resultCode :: "string option"
  fv_message :: string
  fv_txCode :: "string option"
  fv_body :: "string option"
  fv_minFee :: fee_hint

definition FEE_ERROR_CODES :: "string list" where
  "FEE_ERROR_CODES = [''tx_insufficient_fee'', ''op_insufficient_fee'', ''insufficient_fee'']"

definition DEFAULT_BUMP_FACTOR :: rat where "DEFAULT_BUMP_FACTOR = 3 / 2"

definition DEFAULT_MAX_FEE_STROOPS :: rat where "DEFAULT_MAX_FEE_STROOPS = 100000"

definition DEFAULT_MAX_ATTEMPTS :: nat where "DEFAULT_MAX_ATTEMPTS = 3"

fun text_within :: "string \<Rightarrow> string \<Rightarrow> bool" where
  "text_within p [] \<longleftrightarrow> p = []"
| "text_within p (c # s) \<longleftrightarrow> take (length p) (c # s) = p \<or> text_within p s"

definition is_fee_code :: "string option \<Rightarrow> bool" where
  "is_fee_code c = (case c of None \<Rightarrow> False | Some s \<Rightarrow> map to_lower s \<in> set FEE_ERROR_CODES)"

text \<open>\<open>None\<close>: not an object.\<close>

definition isFeeError :: "fee_view option \<Rightarrow> bool" where
  "isFeeError err = (case err of
     None \<Rightarrow> False
   | Some v \<Rightarrow>
       (let code = (case fv_code v of Some c \<Rightarrow> Some c | None \<Rightarrow> (case fv_result_code v of Some c \<Rightarrow> Some c | None \<Rightarrow> fv_resultCode v));
            lower = map to_lower (fv_message v)
        in is_fee_code code \<or>
           list_ex (\<lambda>p. text_within p lower) [''tx_insufficient_fee'', ''insufficient_fee'', ''fee too low'', ''fee is too low''] \<or>
           is_fee_code (fv_txCode v) \<or>
           (case fv_body v of None \<Rightarrow> False
             | Some b \<Rightarrow> list_ex (\<lambda>p. text_within p (map to_lower b)) [''tx_insufficient_fee'', ''insufficient_fee''])))"

text \<open>\<open>parseInt(s, 10)\<close>: the digits after blanks and a sign; \<open>None\<close> is not a number.\<close>

definition parse_int_prefix :: "string \<Rightarrow> int option" where
  "parse_int_prefix s =
     (let t = dropWhile js_space s; negative = t \<noteq> [] \<and> hd t = CHR ''-'';
          u = (if t \<noteq> [] \<and> hd t \<in> set ''+-'' then tl t else t); ds = takeWhile is_digit u
      in if ds = [] then None else Some (if negative then - int (decimal_value ds) else int (decimal_value ds)))"

definition extractMinFeeFromError :: "fee_view option \<Rightarrow> rat option" where
  "extractMinFeeFromError err = (case err of
     None \<Rightarrow> None
   | Some v \<Rightarrow> (case fv_minFee v of
         NoHint \<Rightarrow> None
       | NumberHint x \<Rightarrow> (case x of Num q \<Rightarrow> if 0 < q then Some q else None | _ \<Rightarrow> None)
       | TextHint s \<Rightarrow> (case parse_int_prefix s of
             None \<Rightarrow> None | Some n \<Rightarrow> if 0 < n then Some (of_int n) else None)))"

section \<open>The plugin\<close>

record fee_options =
  fo_maxFeeStroops :: rat
  fo_bumpFactor :: rat
  fo_maxAttempts :: nat

definition fee_options_of :: "rat option \<Rightarrow> rat option \<Rightarrow> nat option \<Rightarrow> fee_options" where
  "fee_options_of maxFee factor attempts =
     \<lparr>fo_maxFeeStroops = (case maxFee of None \<Rightarrow> DEFAULT_MAX_FEE_STROOPS | Some x \<Rightarrow> x),
      fo_bumpFactor = (case factor of None \<Rightarrow> DEFAULT_BUMP_FACTOR | Some x \<Rightarrow> x),
      fo_maxAttempts = (case attempts of None \<Rightarrow> DEFAULT_MAX_ATTEMPTS | Some x \<Rightarrow> x)\<rparr>"

record fee_call =
  fc_attempts :: nat
  fc_currentFee :: rat

definition no_attempts :: fee_call where "no_attempts = \<lparr>fc_attempts = 0, fc_currentFee = 0\<rparr>"

datatype fee_event = OnRetry nat int | OnComplete nat bool

record fee_plugin =
  fp_calls :: "(nat, fee_call) jsmap"
  fp_events :: "fee_event list"
  fp_hints :: "(nat, int) jsmap"

definition new_fee_plugin :: fee_plugin where
  "new_fee_plugin = \<lparr>fp_calls = [], fp_events = [], fp_hints = []\<rparr>"

definition fee_state :: "nat \<Rightarrow> fee_plugin \<Rightarrow> fee_call" where
  "fee_state call s = (case map_get (fp_calls s) call of None \<Rightarrow> no_attempts | Some c \<Rightarrow> c)"

definition fee_before :: "nat \<Rightarrow> fee_plugin \<Rightarrow> fee_plugin" where
  "fee_before call s = s\<lparr>fp_calls := map_set call no_attempts (fp_calls s)\<rparr>"

definition fee_after :: "nat \<Rightarrow> fee_plugin \<Rightarrow> fee_plugin" where
  "fee_after call s = s\<lparr>fp_events := fp_events s @ [OnComplete (fc_attempts (fee_state call s)) True]\<rparr>"

text \<open>The error that is thrown: the original, or a suggested fee with the number of the attempt.\<close>

datatype fee_outcome = SameError | FeeRetryError int nat

definition fee_onError :: "fee_options \<Rightarrow> nat \<Rightarrow> fee_view option \<Rightarrow> fee_plugin \<Rightarrow> fee_plugin \<times> fee_outcome" where
  "fee_onError fo call err s =
     (if \<not> isFeeError err then (s, SameError)
      else
        (let c = fee_state call s;
             s1 = s\<lparr>fp_calls := map_set call c (fp_calls s)\<rparr>
         in if fc_attempts c \<ge> fo_maxAttempts fo
            then (s1\<lparr>fp_events := fp_events s @ [OnComplete (fc_attempts c) False]\<rparr>, SameError)
            else
              (let start = (if fc_currentFee c = 0
                            then (case extractMinFeeFromError err of None \<Rightarrow> 100 | Some m \<Rightarrow> m) else fc_currentFee c);
                   bumped = \<lceil>start * fo_bumpFactor fo\<rceil>
               in if of_int bumped > fo_maxFeeStroops fo
                  then (s1\<lparr>fp_calls := map_set call (c\<lparr>fc_currentFee := start\<rparr>) (fp_calls s),
                           fp_events := fp_events s @ [OnComplete (fc_attempts c) False]\<rparr>, SameError)
                  else (s1\<lparr>fp_calls := map_set call \<lparr>fc_attempts = fc_attempts c + 1, fc_currentFee = of_int bumped\<rparr> (fp_calls s),
                           fp_events := fp_events s @ [OnRetry (fc_attempts c + 1) bumped],
                           fp_hints := map_set call bumped (fp_hints s)\<rparr>,
                        FeeRetryError bumped (fc_attempts c + 1)))))"

section \<open>Suggestions stay within the limits\<close>

datatype fee_step = FeeBefore nat | FeeAfter nat | FeeError nat "fee_view option"

fun fee_run :: "fee_options \<Rightarrow> fee_step \<Rightarrow> fee_plugin \<Rightarrow> fee_plugin" where
  "fee_run fo (FeeBefore k) s = fee_before k s"
| "fee_run fo (FeeAfter k) s = fee_after k s"
| "fee_run fo (FeeError k e) s = fst (fee_onError fo k e s)"

fun fee_within :: "fee_options \<Rightarrow> fee_event \<Rightarrow> bool" where
  "fee_within fo (OnRetry n fee) \<longleftrightarrow> 1 \<le> n \<and> n \<le> fo_maxAttempts fo \<and> of_int fee \<le> fo_maxFeeStroops fo"
| "fee_within fo (OnComplete n ok) \<longleftrightarrow> n \<le> fo_maxAttempts fo"

definition fee_inv :: "fee_options \<Rightarrow> fee_plugin \<Rightarrow> bool" where
  "fee_inv fo s \<longleftrightarrow> list_all (fee_within fo) (fp_events s) \<and> (\<forall>k. fc_attempts (fee_state k s) \<le> fo_maxAttempts fo) \<and>
     (\<forall>(k, fee) \<in> set (fp_hints s). of_int fee \<le> fo_maxFeeStroops fo)"

lemma fee_state_set: "fee_state k (s\<lparr>fp_calls := map_set j c m, fp_events := es\<rparr>) = (if k = j then c else fee_state k (s\<lparr>fp_calls := m\<rparr>))"
  "fee_state k (s\<lparr>fp_calls := map_set j c m\<rparr>) = (if k = j then c else fee_state k (s\<lparr>fp_calls := m\<rparr>))"
  "fee_state k (s\<lparr>fp_calls := map_set j c m, fp_events := es, fp_hints := hs\<rparr>) = (if k = j then c else fee_state k (s\<lparr>fp_calls := m\<rparr>))"
  "fee_state k (s\<lparr>fp_calls := fp_calls s\<rparr>) = fee_state k s" "fee_state k (s\<lparr>fp_events := es\<rparr>) = fee_state k s"
  by (simp_all add: fee_state_def)

interpretation fee: step_system "fee_run fo" "fee_inv fo" for fo
proof unfold_locales
  fix s e assume inv: "fee_inv fo s"
  then have evs: "list_all (fee_within fo) (fp_events s)" and att: "fc_attempts (fee_state k s) \<le> fo_maxAttempts fo"
    and hints: "\<forall>(k, fee) \<in> set (fp_hints s). of_int fee \<le> fo_maxFeeStroops fo" for k
    by (auto simp: fee_inv_def)
  show "fee_inv fo (fee_run fo e s)"
  proof (cases e)
    case (FeeBefore k)
    with evs att hints show ?thesis by (simp add: fee_inv_def fee_before_def fee_state_set no_attempts_def)
  next
    case (FeeAfter k)
    with evs att hints show ?thesis by (simp add: fee_inv_def fee_after_def fee_state_set)
  next
    case (FeeError k err)
    have "\<forall>(k, fee) \<in> set (map_set k b (fp_hints s)). of_int fee \<le> fo_maxFeeStroops fo" if "of_int b \<le> fo_maxFeeStroops fo" for b
      using map_set_all [OF hints, of b k] that by simp
    with FeeError evs att hints show ?thesis
      by (auto simp: fee_inv_def fee_onError_def fee_state_set Let_def not_le not_less Suc_le_eq)
  qed
qed


text \<open>
  Each call of the client has its own arguments, and \<open>before\<close> resets their state: a caller who
  retries gets attempt 1 and the same suggestion again, so neither the limit of attempts nor the
  growth of the fee is ever reached.
\<close>

lemma retried_calls_start_over:
  assumes "isFeeError err" and "0 < fo_maxAttempts fo"
    and "of_int \<lceil>(case extractMinFeeFromError err of None \<Rightarrow> 100 | Some m \<Rightarrow> m) * fo_bumpFactor fo\<rceil> \<le> fo_maxFeeStroops fo"
  shows "snd (fee_onError fo k err (fee_before k s)) =
    FeeRetryError \<lceil>(case extractMinFeeFromError err of None \<Rightarrow> 100 | Some m \<Rightarrow> m) * fo_bumpFactor fo\<rceil> 1"
  using assms by (simp add: fee_onError_def fee_before_def fee_state_set no_attempts_def Let_def)

text \<open>Any message with the words counts as a fee error, whatever it is about.\<close>

lemma words_decide:
  "isFeeError (Some \<lparr>fv_code = None, fv_result_code = None, fv_resultCode = None, fv_message = ''withdrawal fee too low'',
     fv_txCode = None, fv_body = None, fv_minFee = NoHint\<rparr>)"
  by code_simp

end
