(* ===== verification/FeeBump.thy ===== *)
theory FeeBump
  imports NumberText
begin

text \<open>
  Fee-bump envelopes (\<open>src/feeBump.ts\<close>). A transaction is what the code reads and rebuilds of it: its
  fee and the end of its time bounds (0: none); \<open>resign\<close> and the rest of the transaction, \<open>'t\<close>, are the
  caller's and the Stellar SDK's.
\<close>

record 't inner_tx =
  it_body :: 't
  it_fee :: string
  it_minTime :: int
  it_maxTime :: int

definition renewTimeBounds :: "int \<Rightarrow> int option \<Rightarrow> 't inner_tx \<Rightarrow> 't inner_tx" where
  "renewTimeBounds nowMs timeoutSeconds tx =
     tx\<lparr>it_minTime := 0, it_maxTime := nowMs div 1000 + (case timeoutSeconds of None \<Rightarrow> 30 | Some t \<Rightarrow> t)\<rparr>"

record 't renewal =
  rn_timeoutSeconds :: "int option"
  rn_resign :: "'t inner_tx \<Rightarrow> 't inner_tx"

record 't fee_bump_tx =
  fb_source :: string
  fb_baseFee :: string
  fb_inner :: "'t inner_tx"

datatype bump_error = FeeBumpExpired int

text \<open>\<open>now\<close> is in seconds when given; the clock is in milliseconds.\<close>

definition wrapForFeeBump ::
    "int \<Rightarrow> 't inner_tx \<Rightarrow> string \<Rightarrow> string option \<Rightarrow> int option \<Rightarrow> 't renewal option \<Rightarrow> bump_error + 't fee_bump_tx" where
  "wrapForFeeBump clockMs tx feeSource baseFee now renew =
     (let t = (case now of None \<Rightarrow> clockMs div 1000 | Some n \<Rightarrow> n);
          lapsed = it_maxTime tx > 0 \<and> t \<ge> it_maxTime tx
      in if lapsed \<and> renew = None then Inl (FeeBumpExpired (it_maxTime tx))
         else Inr \<lparr>fb_source = feeSource, fb_baseFee = (case baseFee of None \<Rightarrow> ''100'' | Some f \<Rightarrow> f),
                   fb_inner = (case renew of
                     Some r \<Rightarrow> if lapsed then rn_resign r (renewTimeBounds clockMs (rn_timeoutSeconds r) tx) else tx
                   | None \<Rightarrow> tx)\<rparr>)"

section \<open>The monitor\<close>

datatype bump_monitor = MonitorWaiting int | MonitorChecking bool | MonitorDone

text \<open>The threshold in milliseconds after the start; the flag of a running check is set by a cancel.\<close>

definition scheduleFeeBumpMonitor :: "int \<Rightarrow> int \<Rightarrow> rat \<Rightarrow> bump_monitor" where
  "scheduleFeeBumpMonitor nowMs ttlSeconds part = MonitorWaiting (nowMs + \<lfloor>of_int ttlSeconds * 1000 * part\<rfloor>)"

datatype monitor_step = MonitorTick int | MonitorAnswer "unit + bool" | MonitorCancel

text \<open>The new state and whether the callback runs.\<close>

fun bump_monitor_step :: "monitor_step \<Rightarrow> bump_monitor \<Rightarrow> bump_monitor \<times> bool" where
  "bump_monitor_step (MonitorTick now) (MonitorWaiting t) = (if t \<le> now then (MonitorChecking False, False) else (MonitorWaiting t, False))"
| "bump_monitor_step MonitorCancel (MonitorWaiting t) = (MonitorDone, False)"
| "bump_monitor_step MonitorCancel (MonitorChecking c) = (MonitorChecking True, False)"
| "bump_monitor_step (MonitorAnswer r) (MonitorChecking c) = (MonitorDone, r \<noteq> Inr True)"
| "bump_monitor_step _ m = (m, False)"

fun monitor_calls :: "monitor_step list \<Rightarrow> bump_monitor \<Rightarrow> nat" where
  "monitor_calls [] m = 0"
| "monitor_calls (e # es) m = (case bump_monitor_step e m of (m', called) \<Rightarrow> (if called then 1 else 0) + monitor_calls es m')"

section \<open>Properties\<close>

text \<open>
  An envelope is only built around bounds that have not lapsed, unless the caller's signer changes
  them; without a renewal a lapsed transaction is refused.
\<close>

lemma wrap_not_lapsed:
  assumes "wrapForFeeBump clockMs tx src fee now renew = Inr b" and "\<And>r x. renew = Some r \<Longrightarrow> rn_resign r x = x"
    and "\<And>r t. renew = Some r \<Longrightarrow> rn_timeoutSeconds r = Some t \<Longrightarrow> 0 < t" and "now = None"
  shows "it_maxTime (fb_inner b) = 0 \<or> it_maxTime (fb_inner b) < 0 \<or> clockMs div 1000 < it_maxTime (fb_inner b)"
proof (cases renew)
  case None
  with assms(1,4) show ?thesis by (auto simp: wrapForFeeBump_def Let_def split: if_splits)
next
  case (Some r)
  with assms show ?thesis
    by (cases "rn_timeoutSeconds r") (auto simp: wrapForFeeBump_def Let_def renewTimeBounds_def split: if_splits)
qed

text \<open>With a \<open>now\<close> of the caller's, the renewed bounds still follow the clock and may be lapsed at \<open>now\<close>.\<close>

lemma renewal_ignores_now:
  "\<exists>b. wrapForFeeBump 0 \<lparr>it_body = (), it_fee = ''100'', it_minTime = 0, it_maxTime = 5\<rparr> ''S'' None (Some 100)
     (Some \<lparr>rn_timeoutSeconds = None, rn_resign = \<lambda>x. x\<rparr>) = Inr b \<and> it_maxTime (fb_inner b) < 100"
  by (simp add: wrapForFeeBump_def renewTimeBounds_def)

lemma monitor_done_quiet: "monitor_calls es MonitorDone = 0"
  by (induction es) auto

text \<open>The callback runs at most once.\<close>

lemma monitor_calls_once: "monitor_calls es m \<le> 1"
proof (induction es arbitrary: m)
  case (Cons e es)
  show ?case
  proof (cases "snd (bump_monitor_step e m)")
    case True
    then have "fst (bump_monitor_step e m) = MonitorDone" by (cases "(e, m)" rule: bump_monitor_step.cases) (auto split: if_splits)
    with True show ?thesis by (cases "bump_monitor_step e m") (simp add: monitor_done_quiet)
  next
    case False
    with Cons show ?thesis by (cases "bump_monitor_step e m") simp
  qed
qed simp

text \<open>Cancelling before the timer is final; cancelling while the check is in flight does not stop the callback.\<close>

lemma cancel_before_timer: "monitor_calls (MonitorCancel # es) (MonitorWaiting t) = 0"
  by (simp add: monitor_done_quiet)

lemma cancel_during_check: "monitor_calls [MonitorTick 9, MonitorCancel, MonitorAnswer (Inr False)] (MonitorWaiting 5) = 1"
  by simp

end
