(* ===== verification/MultiNetwork.thy ===== *)
theory MultiNetwork
  imports StreamData ClientReads
begin

text \<open>
  One client per network (\<open>src/multiNetwork.ts\<close>): the clients in the order of their configurations, and
  reads that ask all of them. What a client answers is the argument \<open>ask\<close>; answers of one fan-out are
  collected when all have settled.
\<close>

type_synonym 'c network_clients = "(network, 'c) jsmap"

datatype multi_error = NoConfiguration | DuplicateNetwork network | NetworkNotFound network "network list"

fun add_clients :: "('k \<Rightarrow> 'c) \<Rightarrow> (network \<times> 'k) list \<Rightarrow> 'c network_clients \<Rightarrow> multi_error + 'c network_clients" where
  "add_clients new [] m = Inr m"
| "add_clients new ((n, k) # cs) m =
     (if map_has m n then Inl (DuplicateNetwork n) else add_clients new cs (map_set n (new k) m))"

definition new_multi_client :: "('k \<Rightarrow> 'c) \<Rightarrow> (network \<times> 'k) list \<Rightarrow> multi_error + 'c network_clients" where
  "new_multi_client new configs = (if configs = [] then Inl NoConfiguration else add_clients new configs [])"

definition multi_networks :: "'c network_clients \<Rightarrow> network list" where
  "multi_networks m = map_keys m"

definition getClient :: "network \<Rightarrow> 'c network_clients \<Rightarrow> multi_error + 'c" where
  "getClient n m = (case map_get m n of None \<Rightarrow> Inl (NetworkNotFound n (multi_networks m)) | Some c \<Rightarrow> Inr c)"

definition hasNetwork :: "network \<Rightarrow> 'c network_clients \<Rightarrow> bool" where
  "hasNetwork n m = map_has m n"

text \<open>A read of one network: the client's answer, or that there is none.\<close>

definition ask_network :: "('c \<Rightarrow> 'e + 'a) \<Rightarrow> network \<Rightarrow> 'c network_clients \<Rightarrow> multi_error + ('e + 'a)" where
  "ask_network ask n m = rbind (getClient n m) (\<lambda>c. Inr (ask c))"

record 'e network_result =
  nr_network :: network
  nr_streams :: "stream list"
  nr_error :: "'e option"

definition fanOut :: "('c \<Rightarrow> 'e + stream list) \<Rightarrow> 'c network_clients \<Rightarrow> 'e network_result list \<times> stream list" where
  "fanOut ask m =
     (let results = map (\<lambda>(n, c). case ask c of
            Inr vs \<Rightarrow> \<lparr>nr_network = n, nr_streams = vs, nr_error = None\<rparr>
          | Inl e \<Rightarrow> \<lparr>nr_network = n, nr_streams = [], nr_error = Some e\<rparr>) m
      in (results, concat (map nr_streams results)))"

definition findStreamAcrossNetworks :: "('c \<Rightarrow> 'e + stream) \<Rightarrow> 'c network_clients \<Rightarrow> (network \<times> stream) list" where
  "findStreamAcrossNetworks ask m =
     List.map_filter (\<lambda>(n, c). case ask c of Inr v \<Rightarrow> Some (n, v) | Inl _ \<Rightarrow> None) m"

definition destroy_all :: "('c \<Rightarrow> 'c) \<Rightarrow> 'c network_clients \<Rightarrow> 'c network_clients" where
  "destroy_all destroy m = map (\<lambda>(n, c). (n, destroy c)) m"

section \<open>Properties\<close>

lemma add_clients_keys:
  "add_clients new cs m = Inr m' \<Longrightarrow> map_keys m' = map_keys m @ map fst cs \<and> (distinct (map_keys m) \<longrightarrow> distinct (map_keys m'))"
proof (induction new cs m rule: add_clients.induct)
  case (2 new n k cs m)
  then have n: "n \<notin> set (map_keys m)" and m': "add_clients new cs (m @ [(n, new k)]) = Inr m'"
    by (simp_all add: map_has_iff map_set_fresh split: if_splits)
  have "map_keys m' = (map_keys m @ [n]) @ map fst cs \<and> (distinct (map_keys m @ [n]) \<longrightarrow> distinct (map_keys m'))"
    using 2 n m' by (auto simp: map_has_iff map_set_fresh simp del: distinct_append)
  then have eq: "map_keys m' = map_keys m @ map fst ((n, k) # cs)"
    and d: "distinct (map_keys m @ [n]) \<Longrightarrow> distinct (map_keys m')" by (simp, blast)
  from n d have "distinct (map_keys m) \<longrightarrow> distinct (map_keys m')" by simp
  with eq show ?case by blast
qed simp

lemma add_clients_values: "add_clients new cs m = Inr m' \<Longrightarrow> m' = m @ map (\<lambda>(n, k). (n, new k)) cs"
  by (induction new cs m rule: add_clients.induct) (auto simp: map_set_fresh split: if_splits)

text \<open>
  The clients are those of the configurations, in order, one per network, and a read across the
  networks reports on each of them: one that fails takes nothing from the others.
\<close>

lemma fan_out_isolates:
  assumes "new_multi_client new configs = Inr m"
  shows "map nr_network (fst (fanOut ask m)) = map fst configs \<and>
    snd (fanOut ask m) = concat (map (\<lambda>(n, k). case ask (new k) of Inr vs \<Rightarrow> vs | Inl _ \<Rightarrow> []) configs) \<and>
    distinct (map fst configs)"
proof -
  have m: "m = map (\<lambda>(n, k). (n, new k)) configs" and d: "distinct (map_keys m)"
    using assms add_clients_values [of new configs "[]"] add_clients_keys [of new configs "[]"]
    by (auto simp: new_multi_client_def split: if_splits)
  have "map_keys m = map fst configs" by (simp add: m split_def)
  with d show ?thesis
    by (auto simp: fanOut_def m split_def Let_def comp_def intro!: arg_cong [where f = concat] split: sum.split)
qed

lemma found_streams: "(n, v) \<in> set (findStreamAcrossNetworks ask m) \<longleftrightarrow> (\<exists>c. (n, c) \<in> set m \<and> ask c = Inr v)"
proof (induction m)
  case (Cons p m)
  then show ?case by (cases p; cases "ask (snd p)") (auto simp: findStreamAcrossNetworks_def)
qed (simp add: findStreamAcrossNetworks_def)

end
