(* ===== verification/Redaction.thy ===== *)
theory Redaction
  imports ContractCalls
begin

text \<open>
  Redaction of secrets (\<open>redactSecretKey\<close> of \<open>src/internal.ts\<close>). The two regular expressions are
  scanners over the text that know whether the character before is a word character, which is what
  \<open>\b\<close> looks at. No alternative of either expression can match where the greedy one fails, so there is
  no backtracking to model.
\<close>

definition word_char :: "char \<Rightarrow> bool" where
  "word_char c \<longleftrightarrow> (let n = (of_char c :: nat) in
     48 \<le> n \<and> n \<le> 57 \<or> 65 \<le> n \<and> n \<le> 90 \<or> n = 95 \<or> 97 \<le> n \<and> n \<le> 122)"

definition at_boundary :: "string \<Rightarrow> bool" where
  "at_boundary s \<longleftrightarrow> s = [] \<or> \<not> word_char (hd s)"

text \<open>\<open>S[A-Z2-7]{55}\b\<close> at the start of a text.\<close>

definition key_at :: "string \<Rightarrow> bool" where
  "key_at s \<longleftrightarrow> length (take 56 s) = 56 \<and> hd s = CHR ''S'' \<and> list_all base32_char (take 55 (tl s)) \<and> at_boundary (drop 56 s)"

definition KEY_PLACEHOLDER :: string where "KEY_PLACEHOLDER = ''[REDACTED_SECRET_KEY]''"

text \<open>\<open>p\<close>: the character before is a word character.\<close>

function redact_keys :: "bool \<Rightarrow> string \<Rightarrow> string" where
  "redact_keys p [] = []"
| "redact_keys p (c # s) =
     (if \<not> p \<and> key_at (c # s) then KEY_PLACEHOLDER @ redact_keys True (drop 55 s)
      else c # redact_keys (word_char c) s)"
  by pat_completeness auto
termination by (relation "measure (\<lambda>(p, s). length s)") auto

definition SECRET_FIELDS :: "string list" where
  "SECRET_FIELDS = [''secretKey'', ''secretSeed'', ''privateKey'', ''mnemonic'', ''secret'', ''seed'']"

definition either_quote :: "char \<Rightarrow> bool" where
  "either_quote c \<longleftrightarrow> c = CHR 0x22 \<or> c = CHR 0x27"

definition value_char :: "char \<Rightarrow> bool" where
  "value_char c \<longleftrightarrow> \<not> either_quote c \<and> \<not> js_space c \<and> c \<noteq> CHR '',''"

definition drop_quote :: "string \<Rightarrow> string" where
  "drop_quote s = (if s \<noteq> [] \<and> either_quote (hd s) then tl s else s)"

text \<open>\<open>\s*[:=]\s*["']?[^"'\s,]+["']?\<close>: what follows the match.\<close>

definition redacted_value :: "string \<Rightarrow> string option" where
  "redacted_value s =
     (let t = dropWhile js_space s
      in if t = [] \<or> hd t \<notin> set '':='' then None
         else (let u = drop_quote (dropWhile js_space (tl t))
               in if u = [] \<or> \<not> value_char (hd u) then None else Some (drop_quote (dropWhile value_char u))))"

text \<open>The name that is matched, as written, and what follows its value.\<close>

fun field_at :: "string list \<Rightarrow> string \<Rightarrow> (string \<times> string) option" where
  "field_at [] s = None"
| "field_at (n # ns) s =
     (if map to_lower (take (length n) s) = map to_lower n
      then (case redacted_value (drop (length n) s) of Some r \<Rightarrow> Some (take (length n) s, r) | None \<Rightarrow> field_at ns s)
      else field_at ns s)"

lemma drop_quote_length: "length (drop_quote s) \<le> length s"
  by (simp add: drop_quote_def)

lemma redacted_value_length: "redacted_value s = Some r \<Longrightarrow> length r < length s"
proof -
  assume r: "redacted_value s = Some r"
  define t where "t = dropWhile js_space s"
  define u where "u = drop_quote (dropWhile js_space (tl t))"
  have t: "t \<noteq> []" and u: "u \<noteq> []" "r = drop_quote (dropWhile value_char u)"
    using r by (auto simp: redacted_value_def t_def u_def Let_def split: if_splits)
  have "length r \<le> length u"
    using u(2) drop_quote_length [of "dropWhile value_char u"] length_dropWhile_le [of value_char u] by simp
  also have "\<dots> \<le> length (tl t)"
    using drop_quote_length [of "dropWhile js_space (tl t)"] length_dropWhile_le [of js_space "tl t"] by (simp add: u_def)
  also have "\<dots> < length t" using t by (cases t) auto
  also have "\<dots> \<le> length s" by (simp add: t_def length_dropWhile_le)
  finally show ?thesis .
qed

lemma field_at_length: "field_at ns s = Some (name, r) \<Longrightarrow> length r < length s"
proof (induction ns)
  case (Cons n ns)
  then show ?case
    using redacted_value_length [of "drop (length n) s"] by (fastforce split: if_splits option.splits)
qed simp

definition FIELD_PLACEHOLDER :: string where "FIELD_PLACEHOLDER = ''=[REDACTED_SECRET]''"

text \<open>The character before the rest \<open>r\<close> of a match in \<open>s\<close>.\<close>

definition before_rest :: "string \<Rightarrow> string \<Rightarrow> bool" where
  "before_rest s r \<longleftrightarrow> word_char (s ! (length s - length r - 1))"

function redact_fields :: "bool \<Rightarrow> string \<Rightarrow> string" where
  "redact_fields p [] = []"
| "redact_fields p (c # s) =
     (case (if p then None else field_at SECRET_FIELDS (c # s)) of
        Some (name, r) \<Rightarrow> name @ FIELD_PLACEHOLDER @ redact_fields (before_rest (c # s) r) r
      | None \<Rightarrow> c # redact_fields (word_char c) s)"
  by pat_completeness auto
termination
  by (relation "measure (\<lambda>(p, s). length s)") (auto dest!: field_at_length split: if_splits)

definition redactSecretKey :: "string \<Rightarrow> string" where
  "redactSecretKey s = redact_fields False (redact_keys False s)"

section \<open>No key is left\<close>

fun has_key :: "bool \<Rightarrow> string \<Rightarrow> bool" where
  "has_key p [] = False"
| "has_key p (c # s) = ((\<not> p \<and> key_at (c # s)) \<or> has_key (word_char c) s)"

lemma base32_word: "base32_char c \<Longrightarrow> word_char c"
  by (auto simp: base32_char_def word_char_def Let_def)

definition is_key :: "string \<Rightarrow> bool" where
  "is_key w \<longleftrightarrow> length w = 56 \<and> hd w = CHR ''S'' \<and> list_all base32_char (tl w)"

lemma key_at_word: "key_at s \<longleftrightarrow> is_key (takeWhile word_char s)"
proof
  assume k: "key_at s"
  then obtain c t where s: "s = c # t" by (cases s) (auto simp: key_at_def)
  have len: "length (take 55 t) = 55" and c: "c = CHR ''S''" and b: "list_all base32_char (take 55 t)"
    and bd: "at_boundary (drop 55 t)" using k s by (auto simp: key_at_def)
  have w: "\<forall>x\<in>set (c # take 55 t). word_char x" using b c base32_word by (auto simp: list_all_iff word_char_def)
  have rest: "takeWhile word_char (drop 55 t) = []" using bd by (cases "drop 55 t") (auto simp: at_boundary_def)
  have "takeWhile word_char ((c # take 55 t) @ drop 55 t) = (c # take 55 t) @ takeWhile word_char (drop 55 t)"
    using w by (intro takeWhile_append2) blast
  then have "takeWhile word_char s = c # take 55 t" using s rest by simp
  with len c b show "is_key (takeWhile word_char s)" by (simp add: is_key_def)
next
  assume k: "is_key (takeWhile word_char s)"
  define w r where "w = takeWhile word_char s" and "r = dropWhile word_char s"
  have k: "is_key w" using k by (simp add: w_def)
  have s: "s = w @ r" by (simp add: w_def r_def)
  obtain c v where w: "w = c # v" "length v = 55" using k by (cases w) (auto simp: is_key_def)
  have "at_boundary r" using hd_dropWhile [of word_char s] by (auto simp: at_boundary_def r_def)
  with k w show "key_at s" by (simp add: key_at_def is_key_def s)
qed

text \<open>Redacting a text in the middle of a word leaves the rest of that word alone.\<close>

lemma redact_keys_word: "takeWhile word_char (redact_keys True s) = takeWhile word_char s"
  by (induction s) auto

lemma redact_fields_word: "takeWhile word_char (redact_fields True s) = takeWhile word_char s"
  by (induction s) auto

lemma has_key_word:
  "list_all word_char w \<Longrightarrow> w \<noteq> [] \<Longrightarrow> length w \<noteq> 56 \<Longrightarrow> at_boundary r \<Longrightarrow> has_key False (w @ r) = has_key True r"
proof -
  assume w: "list_all word_char w" "w \<noteq> []" "length w \<noteq> 56" "at_boundary r"
  have inner: "has_key True (v @ r) = has_key True r" if "list_all word_char v" for v
    using that by (induction v) auto
  have "takeWhile word_char (w @ r) = w"
    using w by (cases r) (auto simp: at_boundary_def list_all_iff)
  then have "\<not> key_at (w @ r)" using w by (simp add: key_at_word is_key_def)
  with w inner show ?thesis by (cases w) auto
qed

lemma has_key_start: "at_boundary r \<Longrightarrow> has_key True r = has_key False r"
  by (cases r) (auto simp: key_at_word is_key_def at_boundary_def)

lemma redact_keys_start: "at_boundary r \<Longrightarrow> redact_keys True r = redact_keys False r"
  by (cases r) (auto simp: key_at_word is_key_def at_boundary_def)

lemma key_placeholder: "has_key False (KEY_PLACEHOLDER @ r) = has_key False r"
proof -
  have "has_key False (KEY_PLACEHOLDER @ r) = has_key False (''REDACTED_SECRET_KEY'' @ '']'' @ r)"
    by (simp add: KEY_PLACEHOLDER_def key_at_word is_key_def word_char_def Let_def)
  also have "\<dots> = has_key True ('']'' @ r)"
    by (intro has_key_word) (simp_all add: word_char_def at_boundary_def)
  also have "\<dots> = has_key False r" by (simp add: word_char_def)
  finally show ?thesis .
qed

lemma redact_keys_clean: "\<not> has_key p (redact_keys p s)"
proof (induction p s rule: redact_keys.induct)
  case (2 p c s)
  show ?case
  proof (cases "\<not> p \<and> key_at (c # s)")
    case True
    then have "at_boundary (drop 55 s)" by (simp add: key_at_def)
    then have "at_boundary (redact_keys True (drop 55 s))"
      by (cases "drop 55 s") (auto simp: at_boundary_def)
    with 2(1) True show ?thesis by (simp add: key_placeholder has_key_start)
  next
    case False
    have "\<not> key_at (c # redact_keys (word_char c) s)" if "\<not> p"
    proof (cases "word_char c")
      case True
      then show ?thesis using False that by (simp add: key_at_word redact_keys_word)
    next
      case False
      then show ?thesis by (simp add: key_at_word is_key_def)
    qed
    with 2(2) False show ?thesis by auto
  qed
qed simp

section \<open>Fields\<close>

lemma has_key_suffix: "\<not> has_key p (u @ r) \<Longrightarrow> \<not> has_key (if u = [] then p else word_char (last u)) r"
  by (induction u arbitrary: p) (auto split: if_splits)

lemma drop_quote_suffix: "\<exists>u. s = u @ drop_quote s"
  by (cases s) (auto simp: drop_quote_def)

lemma dropWhile_suffix: "\<exists>u. s = u @ dropWhile P s"
  by (metis takeWhile_dropWhile_id)

text \<open>What follows a matched field starts the text, a blank, a comma, or follows a quote.\<close>

lemma redacted_value_rest:
  assumes "redacted_value s = Some r"
  shows "\<exists>u x. s = u @ x # r \<and> (word_char x \<longrightarrow> at_boundary r)"
proof -
  define t where "t = dropWhile js_space s"
  define v where "v = drop_quote (dropWhile js_space (tl t))"
  define z where "z = dropWhile value_char v"
  have t: "t \<noteq> []" and v: "v \<noteq> []" "value_char (hd v)" and r: "r = drop_quote z"
    using assms by (auto simp: redacted_value_def t_def v_def z_def Let_def split: if_splits)
  obtain a b d where s: "s = a @ t" and "dropWhile js_space (tl t) = b @ v" and "tl t = d @ dropWhile js_space (tl t)"
    using dropWhile_suffix [of s js_space] drop_quote_suffix [of "dropWhile js_space (tl t)"]
      dropWhile_suffix [of "tl t" js_space] by (auto simp: t_def v_def)
  then have s: "s = (a @ hd t # d @ b) @ v" using t by (cases t) auto
  define w where "w = takeWhile value_char v"
  have w: "v = w @ z" "w \<noteq> []" using v by (cases v; simp add: w_def z_def)+
  show ?thesis
  proof (cases "z \<noteq> [] \<and> either_quote (hd z)")
    case True
    then have "s = (a @ hd t # d @ b @ w) @ hd z # r" using s w r by (cases z) (auto simp: drop_quote_def)
    moreover have "\<not> word_char (hd z)" using True by (auto simp: either_quote_def word_char_def)
    ultimately show ?thesis by blast
  next
    case False
    then have rz: "r = z" by (auto simp: r drop_quote_def)
    have "at_boundary z" if "z \<noteq> []"
    proof -
      have "\<not> value_char (hd z)" using that hd_dropWhile [of value_char v] by (simp add: z_def)
      then show ?thesis
        by (auto simp: at_boundary_def value_char_def either_quote_def js_space_def word_char_def Let_def)
    qed
    then have "at_boundary r" by (cases "z = []") (auto simp: rz at_boundary_def)
    moreover have "s = (a @ hd t # d @ b @ butlast w) @ last w # r" using s w rz by simp
    ultimately show ?thesis by blast
  qed
qed

lemma field_at_rest:
  "field_at ns s = Some (name, r) \<Longrightarrow> \<exists>n\<in>set ns. map to_lower name = map to_lower n \<and>
     (\<exists>u x. s = name @ u @ x # r \<and> (word_char x \<longrightarrow> at_boundary r))"
proof (induction ns)
  case (Cons n ns)
  then show ?case
    using redacted_value_rest [of "drop (length n) s" r] by (auto split: if_splits option.splits) (metis append_take_drop_id)+
qed simp

lemma before_rest_last: "before_rest (u @ x # r) r = word_char x"
  by (simp add: before_rest_def nth_append)

lemma to_lower_word: "word_char (to_lower c) = word_char c"
  by (auto simp: to_lower_def word_char_def Let_def)

lemma field_name: "n \<in> set SECRET_FIELDS \<Longrightarrow> map to_lower name = map to_lower n \<Longrightarrow>
  list_all word_char name \<and> name \<noteq> [] \<and> length name \<le> 10"
proof -
  assume n: "n \<in> set SECRET_FIELDS" and eq: "map to_lower name = map to_lower n"
  have "list_all word_char (map to_lower n) \<and> length n \<le> 10 \<and> n \<noteq> []"
    using n by (auto simp: SECRET_FIELDS_def to_lower_def word_char_def)
  then have "list_all word_char (map to_lower name) \<and> length name \<le> 10 \<and> name \<noteq> []"
    using eq map_eq_imp_length_eq [OF eq] by auto
  then show ?thesis by (simp add: list_all_iff to_lower_word)
qed

lemma field_placeholder: "has_key True (FIELD_PLACEHOLDER @ r) = has_key False r"
proof -
  have "has_key True (FIELD_PLACEHOLDER @ r) = has_key False (''REDACTED_SECRET'' @ '']'' @ r)"
    by (simp add: FIELD_PLACEHOLDER_def key_at_word is_key_def word_char_def Let_def)
  also have "\<dots> = has_key True ('']'' @ r)"
    by (intro has_key_word) (simp_all add: word_char_def at_boundary_def)
  also have "\<dots> = has_key False r" by (simp add: word_char_def)
  finally show ?thesis .
qed

lemma at_boundary_fields: "at_boundary r \<Longrightarrow> at_boundary (redact_fields True r)"
  by (cases r) (auto simp: at_boundary_def)

lemma field_replaced:
  assumes "field_at SECRET_FIELDS s = Some (name, r)"
  shows "has_key False (name @ FIELD_PLACEHOLDER @ q) = has_key False q"
proof -
  obtain n where n: "n \<in> set SECRET_FIELDS" "map to_lower name = map to_lower n" using field_at_rest [OF assms] by blast
  have "has_key False (name @ FIELD_PLACEHOLDER @ q) = has_key True (FIELD_PLACEHOLDER @ q)"
    using field_name [OF n] by (intro has_key_word) (auto simp: FIELD_PLACEHOLDER_def at_boundary_def word_char_def)
  then show ?thesis by (simp add: field_placeholder)
qed

lemma redact_fields_clean: "\<not> has_key p s \<Longrightarrow> \<not> has_key p (redact_fields p s)"
proof (induction p s rule: redact_fields.induct)
  case (2 p c s)
  show ?case
  proof (cases "if p then None else field_at SECRET_FIELDS (c # s)")
    case None
    have "\<not> key_at (c # redact_fields (word_char c) s)" if "\<not> p"
    proof (cases "word_char c")
      case True
      with 2(3) that show ?thesis by (simp add: key_at_word redact_fields_word)
    next
      case False
      then show ?thesis by (simp add: key_at_word is_key_def)
    qed
    with 2(1,3) None show ?thesis by auto
  next
    case (Some m)
    then obtain name r where m: "m = (name, r)" and f: "field_at SECRET_FIELDS (c # s) = Some (name, r)" and p: "\<not> p"
      by (cases m) (auto split: if_splits)
    then obtain u x where s: "c # s = name @ u @ x # r" and bd: "word_char x \<longrightarrow> at_boundary r"
      using field_at_rest [OF f] by blast
    have b: "before_rest (c # s) r = word_char x" using before_rest_last [of "name @ u" x r] s by simp
    have "\<not> has_key (word_char x) r" using has_key_suffix [of p "name @ u @ [x]" r] 2(3) s by simp
    then have "\<not> has_key (word_char x) (redact_fields (word_char x) r)" using 2(2) [OF Some m [symmetric]] b by simp
    then have "\<not> has_key False (redact_fields (word_char x) r)"
      using bd by (cases "word_char x") (auto simp: has_key_start at_boundary_fields)
    with f p b show ?thesis by (simp add: field_replaced)
  qed
qed simp

text \<open>Whatever the text, no secret key stands as a word in what redaction returns.\<close>

lemma redacted_no_key: "\<not> has_key False (redactSecretKey s)"
  by (simp add: redactSecretKey_def redact_fields_clean redact_keys_clean)

text \<open>A text with neither a key nor a field is returned as it is.\<close>

fun has_field :: "bool \<Rightarrow> string \<Rightarrow> bool" where
  "has_field p [] = False"
| "has_field p (c # s) = ((\<not> p \<and> field_at SECRET_FIELDS (c # s) \<noteq> None) \<or> has_field (word_char c) s)"

lemma redact_keys_id: "\<not> has_key p s \<Longrightarrow> redact_keys p s = s"
  by (induction s arbitrary: p) auto

lemma redact_fields_id: "\<not> has_field p s \<Longrightarrow> redact_fields p s = s"
  by (induction s arbitrary: p) (auto split: option.split)

lemma redaction_only_secrets: "\<not> has_key False s \<Longrightarrow> \<not> has_field False s \<Longrightarrow> redactSecretKey s = s"
  by (simp add: redactSecretKey_def redact_keys_id redact_fields_id)

section \<open>What redaction leaves\<close>

text \<open>Of a mnemonic only the first word is replaced, quoted or not.\<close>

lemma mnemonic_leaks:
  "redactSecretKey ''mnemonic: abandon ability able'' = ''mnemonic=[REDACTED_SECRET] ability able''"
  by code_simp

lemma quoted_mnemonic_leaks:
  "redactSecretKey (''mnemonic='' @ [CHR 0x22] @ ''abandon ability able'' @ [CHR 0x22]) =
   ''mnemonic=[REDACTED_SECRET] ability able'' @ [CHR 0x22]"
  by code_simp

text \<open>In JSON the name is followed by its quote, so the field is not recognised at all.\<close>

lemma json_secret_leaks:
  "redactSecretKey ([CHR 0x22] @ ''privateKey'' @ [CHR 0x22, CHR '':'', CHR 0x22] @ ''abc'' @ [CHR 0x22]) =
   [CHR 0x22] @ ''privateKey'' @ [CHR 0x22, CHR '':'', CHR 0x22] @ ''abc'' @ [CHR 0x22]"
  by code_simp

text \<open>A key that is joined to a word by an underscore is kept.\<close>

lemma joined_key_leaks: "redactSecretKey (''user_S'' @ replicate 55 CHR ''A'') = ''user_S'' @ replicate 55 CHR ''A''"
  by code_simp

end
