(* ===== verification/Logger.thy ===== *)
theory Logger
  imports Redaction
begin

text \<open>
  Log levels, modules and redaction (\<open>src/logger.ts\<close>). A logger is the composition the factory builds;
  what reaches a sink is the list of lines a call emits. A delegate of the caller's is a name; it may
  offer \<open>child\<close>, which remembers the module. Arguments are texts or other values (a number).
\<close>

datatype log_level = LevelDebug | LevelInfo | LevelWarn | LevelError | LevelSilent

fun LEVEL_PRIORITY :: "log_level \<Rightarrow> nat" where
  "LEVEL_PRIORITY LevelDebug = 0"
| "LEVEL_PRIORITY LevelInfo = 1"
| "LEVEL_PRIORITY LevelWarn = 2"
| "LEVEL_PRIORITY LevelError = 3"
| "LEVEL_PRIORITY LevelSilent = 4"

datatype log_arg = TextArg string | OtherArg nat

datatype log_sink = Console | Caller string "string list"

type_synonym log_line = "log_sink \<times> log_level \<times> string \<times> log_arg list"

type_synonym module_levels = "(string, log_level) jsmap"

datatype logger =
    NoopLogger
  | ConsoleLogger log_level
  | DelegateLogger string bool "string list"
  | SanitizingLogger logger
  | NamespacedLogger logger log_level module_levels "string option"

definition effectiveLevel :: "log_level \<Rightarrow> module_levels \<Rightarrow> string option \<Rightarrow> log_level" where
  "effectiveLevel defaultLevel levels moduleName = (case moduleName of
     None \<Rightarrow> defaultLevel
   | Some m \<Rightarrow> (case map_get levels m of Some l \<Rightarrow> l | None \<Rightarrow> defaultLevel))"

fun redact_arg :: "log_arg \<Rightarrow> log_arg" where
  "redact_arg (TextArg s) = TextArg (redactSecretKey s)"
| "redact_arg (OtherArg n) = OtherArg n"

text \<open>A call \<open>logger.debug(message, ...args)\<close> and its siblings; the level of a call is never silent.\<close>

fun log_call :: "logger \<Rightarrow> log_level \<Rightarrow> string \<Rightarrow> log_arg list \<Rightarrow> log_line list" where
  "log_call NoopLogger l msg args = []"
| "log_call (ConsoleLogger minLevel) l msg args =
     (if LEVEL_PRIORITY minLevel \<le> LEVEL_PRIORITY l then [(Console, l, ''[sorostream] '' @ msg, args)] else [])"
| "log_call (DelegateLogger name hasChild modules) l msg args = [(Caller name modules, l, msg, args)]"
| "log_call (SanitizingLogger d) l msg args = log_call d l (redactSecretKey msg) (map redact_arg args)"
| "log_call (NamespacedLogger d defaultLevel levels m) l msg args =
     (if LEVEL_PRIORITY (effectiveLevel defaultLevel levels m) \<le> LEVEL_PRIORITY l then log_call d l msg args else [])"

text \<open>\<open>None\<close>: the logger has no \<open>child\<close> method.\<close>

fun log_child :: "logger \<Rightarrow> string \<Rightarrow> logger option" where
  "log_child NoopLogger m = Some NoopLogger"
| "log_child (ConsoleLogger l) m = Some (ConsoleLogger l)"
| "log_child (DelegateLogger name hasChild modules) m =
     (if hasChild then Some (DelegateLogger name hasChild (modules @ [m])) else None)"
| "log_child (SanitizingLogger d) m = Some (SanitizingLogger (case log_child d m of Some d' \<Rightarrow> d' | None \<Rightarrow> d))"
| "log_child (NamespacedLogger d l levels m0) m = Some (NamespacedLogger d l levels (Some m))"

definition withModule :: "logger \<Rightarrow> string \<Rightarrow> logger" where
  "withModule lg m = (case log_child lg m of Some c \<Rightarrow> c | None \<Rightarrow> lg)"

record logger_options =
  lo_minLevel :: "log_level option"
  lo_sanitize :: "bool option"
  lo_delegate :: "logger option"
  lo_moduleLevels :: "module_levels option"

definition createLogger :: "logger_options \<Rightarrow> logger" where
  "createLogger lo =
     (let minLevel = (case lo_minLevel lo of None \<Rightarrow> LevelInfo | Some l \<Rightarrow> l);
          sanitize = (case lo_sanitize lo of None \<Rightarrow> True | Some b \<Rightarrow> b)
      in case lo_moduleLevels lo of
           Some (m # ms) \<Rightarrow>
             (let mostVerbose = foldl (\<lambda>acc l. if LEVEL_PRIORITY l < LEVEL_PRIORITY acc then l else acc) minLevel (map snd (m # ms));
                  base = (case lo_delegate lo of Some d \<Rightarrow> d | None \<Rightarrow> ConsoleLogger mostVerbose)
              in NamespacedLogger (if sanitize then SanitizingLogger base else base) minLevel (m # ms) None)
         | _ \<Rightarrow>
             if minLevel = LevelSilent \<and> lo_delegate lo = None then NoopLogger
             else (let base = (case lo_delegate lo of Some d \<Rightarrow> d | None \<Rightarrow> ConsoleLogger minLevel)
                   in if sanitize then SanitizingLogger base else base))"

section \<open>What reaches a sink\<close>

fun arg_clean :: "log_arg \<Rightarrow> bool" where
  "arg_clean (TextArg s) \<longleftrightarrow> \<not> has_key False s"
| "arg_clean (OtherArg n) \<longleftrightarrow> True"

fun line_clean :: "log_line \<Rightarrow> bool" where
  "line_clean (sink, l, msg, args) \<longleftrightarrow> \<not> has_key False msg \<and> list_all arg_clean args"

lemma prefix_clean: "has_key False (''[sorostream] '' @ msg) = has_key False msg"
proof -
  have "has_key False (''[sorostream] '' @ msg) = has_key False (''sorostream'' @ ''] '' @ msg)"
    by (simp add: key_at_word is_key_def word_char_def)
  also have "\<dots> = has_key True (''] '' @ msg)"
    by (intro has_key_word) (simp_all add: word_char_def at_boundary_def)
  also have "\<dots> = has_key False msg" by (simp add: word_char_def key_at_word is_key_def)
  finally show ?thesis .
qed

lemma redact_args_clean: "list_all arg_clean (map redact_arg args)"
proof -
  have "arg_clean (redact_arg a)" for a by (cases a) (simp_all add: redacted_no_key)
  then show ?thesis by (simp add: list_all_iff)
qed

lemma log_call_clean:
  "\<not> has_key False msg \<Longrightarrow> list_all arg_clean args \<Longrightarrow> list_all line_clean (log_call lg l msg args)"
proof (induction lg arbitrary: msg args)
  case (SanitizingLogger d)
  show ?case by (simp add: SanitizingLogger.IH [OF redacted_no_key redact_args_clean] del: map_map)
qed (simp_all add: prefix_clean del: has_key.simps append_Cons)

fun sanitizes :: "logger \<Rightarrow> bool" where
  "sanitizes NoopLogger \<longleftrightarrow> True"
| "sanitizes (SanitizingLogger d) \<longleftrightarrow> True"
| "sanitizes (NamespacedLogger d l levels m) \<longleftrightarrow> sanitizes d"
| "sanitizes _ \<longleftrightarrow> False"

lemma sanitizes_clean: "sanitizes lg \<Longrightarrow> list_all line_clean (log_call lg l msg args)"
proof (induction lg)
  case (SanitizingLogger d)
  show ?case by (simp add: log_call_clean [OF redacted_no_key redact_args_clean])
qed simp_all

lemma child_sanitizes: "sanitizes lg \<Longrightarrow> sanitizes (withModule lg m)"
  by (cases lg) (simp_all add: withModule_def)

lemma created_sanitizes: "lo_sanitize lo \<noteq> Some False \<Longrightarrow> sanitizes (createLogger lo)"
  by (auto simp: createLogger_def Let_def split: option.split list.split)



section \<open>Levels\<close>

lemma verbose_le:
  "LEVEL_PRIORITY (foldl (\<lambda>acc l. if LEVEL_PRIORITY l < LEVEL_PRIORITY acc then l else acc) a ls) \<le> LEVEL_PRIORITY a \<and>
   (\<forall>l\<in>set ls. LEVEL_PRIORITY (foldl (\<lambda>acc l. if LEVEL_PRIORITY l < LEVEL_PRIORITY acc then l else acc) a ls) \<le> LEVEL_PRIORITY l)"
  by (induction ls arbitrary: a) (fastforce)+

lemma map_get_snd: "map_get m k = Some v \<Longrightarrow> v \<in> set (map snd m)"
  by (induction m) (auto split: if_splits)

text \<open>
  A console logger prints a call of a module exactly when its level reaches the module's own
  level, or the global one where the module has none: the console below never holds a line back.
\<close>

lemma module_level_decides:
  assumes "lo_delegate lo = None" and "lo_moduleLevels lo = Some levels" and "levels \<noteq> []"
  shows "(log_call (withModule (createLogger lo) m) l msg args \<noteq> []) =
    (LEVEL_PRIORITY (effectiveLevel (case lo_minLevel lo of None \<Rightarrow> LevelInfo | Some x \<Rightarrow> x) levels (Some m)) \<le> LEVEL_PRIORITY l)"
proof -
  define d where "d = (case lo_minLevel lo of None \<Rightarrow> LevelInfo | Some x \<Rightarrow> x)"
  define v where "v = foldl (\<lambda>acc l. if LEVEL_PRIORITY l < LEVEL_PRIORITY acc then l else acc) d (map snd levels)"
  have "LEVEL_PRIORITY v \<le> LEVEL_PRIORITY (effectiveLevel d levels (Some m))"
    using verbose_le [of d "map snd levels"] map_get_snd [of levels m]
    by (auto simp: effectiveLevel_def v_def split: option.split)
  moreover have "withModule (createLogger lo) m = NamespacedLogger
      (if lo_sanitize lo = Some False then ConsoleLogger v else SanitizingLogger (ConsoleLogger v)) d levels (Some m)"
    using assms by (cases levels) (auto simp: createLogger_def withModule_def Let_def d_def v_def split: option.split bool.split)
  ultimately show ?thesis by (auto simp: d_def)
qed

text \<open>A module keeps no level of the one it was made from: the last module name counts.\<close>

lemma nested_modules: "withModule (withModule (NamespacedLogger d l levels m0) a) b = withModule (NamespacedLogger d l levels m0) b"
  by (simp add: withModule_def)

end
