(* ===== verification/Errors.thy ===== *)
theory Errors
  imports Redaction Dedup
begin

text \<open>
  The error classes (\<open>src/errors.ts\<close>) with the messages they build, and the guards that group them
  (\<open>src/error-guards.ts\<close>). Every message passes \<open>redactSecretKey\<close> in the constructor of the base class.
  Numbers in messages are integers; an optional message that is absent is \<open>None\<close>. Fields that only
  carry a value for the caller and enter no message (the rows of a failed bulk create, the cause of a
  transport error, the log of attempts) are left out.
\<close>

datatype stream_error =
    SoroStreamError string
  | ConnectionPoolExhaustedError "string option"
  | InsufficientAmountError "string option"
  | StreamNotFoundError string
  | StreamNotActiveError string
  | StreamAlreadyLockedError string int int
  | TransactionFailedError string
  | RateLimitExceededError nat nat
  | InvalidAddressError string
  | AccountNotFoundError string
  | InsufficientBalanceError "string option"
  | ZeroDurationError "string option"
  | BulkCreatePartialError "nat list" nat
  | InsufficientAllowanceError string int int
  | DuplicateStreamError "string option"
  | SoroStreamMemoError string
  | SoroStreamTransportError string
  | FederationResolutionError string "string option"
  | StartTimeInPastError int int
  | SoroStreamValidationError string nat nat
  | NonceNotSupportedError
  | SoroStreamRetryExhaustedError thrown nat "string option"
  | SoroStreamDependencyError string string string
  | SelfStreamError
  | SoroStreamVersionError string string
  | RecipientValidationError bool bool "string list"
  | InsecureRpcUrlError string
  | FeeTooHighError int int
  | MalformedWalletResponseError "string option"
  | MetadataTooLargeError nat nat
  | InvalidStreamIdError string
  | TransactionMutatedError "string option"
  | XdrValidationError string string "string option"
  | WalletConnectSessionExpiredError "string option"
  | SdkNetworkError string string "int option"
  | NetworkMismatchError string string
  | InvalidTokenContractError string
  | BatchOperationLimitExceededError nat nat
  | FeeBumpExpiredError int
and thrown = SdkThrown stream_error | OtherThrown string

text \<open>\<open>OtherThrown\<close> is any other value, by its message (\<open>error.message\<close>, or \<open>String\<close> of what is no error).\<close>

section \<open>Dates\<close>

text \<open>\<open>new Date(ms).toISOString()\<close> on whole milliseconds a date can hold: the civil date of a day number.\<close>

definition civil_of_days :: "int \<Rightarrow> int \<times> int \<times> int" where
  "civil_of_days days =
     (let z = days + 719468; era = z div 146097; doe = z mod 146097;
          yoe = (doe - doe div 1460 + doe div 36524 - doe div 146096) div 365;
          doy = doe - (365 * yoe + yoe div 4 - yoe div 100); mp = (5 * doy + 2) div 153;
          day = doy - (153 * mp + 2) div 5 + 1; month = (if mp < 10 then mp + 3 else mp - 9)
      in (yoe + era * 400 + (if month \<le> 2 then 1 else 0), month, day))"

definition pad :: "nat \<Rightarrow> int \<Rightarrow> string" where
  "pad w n = (let s = string_of_int n in replicate (w - length s) CHR ''0'' @ s)"

definition iso_year :: "int \<Rightarrow> string" where
  "iso_year y = (if 0 \<le> y \<and> y \<le> 9999 then pad 4 y
     else (if y < 0 then CHR ''-'' else CHR ''+'') # pad 6 \<bar>y\<bar>)"

definition toISOString :: "int \<Rightarrow> string" where
  "toISOString ms =
     (let (y, m, d) = civil_of_days (ms div 86400000); t = ms mod 86400000
      in iso_year y @ ''-'' @ pad 2 m @ ''-'' @ pad 2 d @ ''T'' @ pad 2 (t div 3600000) @ '':'' @
         pad 2 (t div 60000 mod 60) @ '':'' @ pad 2 (t div 1000 mod 60) @ ''.'' @ pad 3 (t mod 1000) @ ''Z'')"

text \<open>The epoch and its eve, a leap day, the turns of a leap and of a common century.\<close>

lemma civil_samples:
  "civil_of_days 0 = (1970, 1, 1)" "civil_of_days (-1) = (1969, 12, 31)" "civil_of_days 19782 = (2024, 2, 29)"
  "civil_of_days 11016 = (2000, 2, 29)" "civil_of_days 47540 = (2100, 2, 28)" "civil_of_days 47541 = (2100, 3, 1)"
  "civil_of_days 2932897 = (10000, 1, 1)"
  by code_simp+

section \<open>Messages\<close>

definition default_message :: "string option \<Rightarrow> string \<Rightarrow> string" where
  "default_message m d = (case m of Some x \<Rightarrow> x | None \<Rightarrow> d)"

text \<open>\<open>message || d\<close>: an empty message counts as absent.\<close>

definition truthy_message :: "string option \<Rightarrow> string \<Rightarrow> string" where
  "truthy_message m d = (if m = None \<or> m = Some [] then d else the m)"

definition quoted :: "string \<Rightarrow> string" where
  "quoted s = CHR 0x22 # s @ [CHR 0x22]"

abbreviation num :: "int \<Rightarrow> string" where "num \<equiv> string_of_int"

abbreviation count :: "nat \<Rightarrow> string" where "count n \<equiv> string_of_int (int n)"

definition ConnectionPoolExhaustedError_message :: "string option \<Rightarrow> string" where
  "ConnectionPoolExhaustedError_message m = default_message m
     ''Connection pool exhausted: maximum subscription limit reached across all connections''"

definition InsufficientAmountError_message :: "string option \<Rightarrow> string" where
  "InsufficientAmountError_message m = default_message m ''Amount must be > 0''"

definition StreamNotFoundError_message :: "string \<Rightarrow> string" where
  "StreamNotFoundError_message i = ''Stream not found: '' @ i"

definition StreamNotActiveError_message :: "string \<Rightarrow> string" where
  "StreamNotActiveError_message i = ''Stream is not active: '' @ i"

definition StreamAlreadyLockedError_message :: "string \<Rightarrow> int \<Rightarrow> int \<Rightarrow> string" where
  "StreamAlreadyLockedError_message i cur req = ''Stream '' @ i @ '' is already locked until '' @ num cur @ ''. Cannot set lock to '' @ num req @ ''.''"

definition TransactionFailedError_message :: "string \<Rightarrow> string" where
  "TransactionFailedError_message d = ''Transaction failed: '' @ d"

definition RateLimitExceededError_message :: "nat \<Rightarrow> nat \<Rightarrow> string" where
  "RateLimitExceededError_message d l = ''Rate limit exceeded: '' @ count d @ ''/'' @ count l"

definition InvalidAddressError_message :: "string \<Rightarrow> string" where
  "InvalidAddressError_message a = ''Invalid Stellar address: '' @ a"

definition AccountNotFoundError_message :: "string \<Rightarrow> string" where
  "AccountNotFoundError_message a = ''Account not found on-chain: '' @ a"

definition InsufficientBalanceError_message :: "string option \<Rightarrow> string" where
  "InsufficientBalanceError_message m = default_message m ''Insufficient token balance or missing trustline''"

definition ZeroDurationError_message :: "string option \<Rightarrow> string" where
  "ZeroDurationError_message m = default_message m ''Stream duration must be greater than zero''"

definition BulkCreatePartialError_message :: "nat list \<Rightarrow> nat \<Rightarrow> string" where
  "BulkCreatePartialError_message batches failed = ''Bulk create partially failed: '' @ count (sum_list batches) @ '' stream(s) created, '' @ count failed @ '' slot(s) failed''"

definition InsufficientAllowanceError_message :: "string \<Rightarrow> int \<Rightarrow> int \<Rightarrow> string" where
  "InsufficientAllowanceError_message t req cur = ''Insufficient allowance for token '' @ t @ '': required '' @ num req @ '', current '' @ num cur @
     '' (shortfall '' @ num (req - cur) @ '')''"

definition DuplicateStreamError_message :: "string option \<Rightarrow> string" where
  "DuplicateStreamError_message m = default_message m ''Duplicate stream detected''"

definition FederationResolutionError_message :: "string \<Rightarrow> string option \<Rightarrow> string" where
  "FederationResolutionError_message a r = ''Failed to resolve federation address '' @ quoted a @ (if r = None \<or> r = Some [] then [] else '': '' @ the r)"

definition StartTimeInPastError_message :: "int \<Rightarrow> int \<Rightarrow> string" where
  "StartTimeInPastError_message st t = ''start_time ('' @ num st @ '') is earlier than the current ledger timestamp ('' @ num t @
     ''). The contract rejects streams that start in the past.''"

definition SoroStreamValidationError_message :: "string \<Rightarrow> nat \<Rightarrow> nat \<Rightarrow> string" where
  "SoroStreamValidationError_message f n m = ''Field '' @ quoted f @ '' exceeded maximum length: '' @ count n @ '' bytes (max '' @ count m @ '')''"

definition NonceNotSupportedError_message :: "string" where
  "NonceNotSupportedError_message = ''The nonce field was provided but the deployed contract does not support '' @
     ''nonce-based idempotency. Retries will NOT be deduplicated. '' @
     ''Upgrade the contract or remove the nonce field. '' @
     ''Pass strict: true in WriteOptions to turn this into an error.''"

definition SoroStreamDependencyError_message :: "string \<Rightarrow> string \<Rightarrow> string \<Rightarrow> string" where
  "SoroStreamDependencyError_message p r v = p @ ''@'' @ v @ '' is incompatible with this SDK, which requires '' @ p @ ''@'' @ r @ ''. Upgrade or downgrade '' @ p @
     '' to satisfy '' @ r @ '', or pass { skipPeerCheck: true } to opt out of this check.''"

definition SelfStreamError_message :: "string" where
  "SelfStreamError_message = ''Cannot create a stream where the recipient is the same as the sender. '' @ ''Use a different recipient address.''"

definition SoroStreamVersionError_message :: "string \<Rightarrow> string \<Rightarrow> string" where
  "SoroStreamVersionError_message v m = ''Contract version '' @ v @ '' is incompatible with SDK. Minimum required: '' @ m"

definition RecipientValidationError_message :: "string list \<Rightarrow> string" where
  "RecipientValidationError_message ws = ''Recipient validation failed: '' @ join_with ''; '' ws"

definition InsecureRpcUrlError_message :: "string \<Rightarrow> string" where
  "InsecureRpcUrlError_message u = ''Insecure RPC URL '' @ quoted u @ '': non-TLS '' @ quoted ''http://'' @ '' endpoints are not allowed. Use an '' @
     quoted ''https://'' @ '' URL, or a loopback host (localhost/127.0.0.1) for local development.''"

definition FeeTooHighError_message :: "int \<Rightarrow> int \<Rightarrow> string" where
  "FeeTooHighError_message f m = ''Fee value '' @ num f @ '' stroops exceeds the maximum allowed by the contract ('' @ num m @
     '' stroops). Pass a maxFee <= '' @ num m @ '' or omit it to use the default.''"

definition MalformedWalletResponseError_message :: "string option \<Rightarrow> string" where
  "MalformedWalletResponseError_message m = default_message m
     (''Wallet adapter returned a malformed or empty response from signTransaction. '' @
      ''Expected a non-empty base64-encoded XDR string.'')"

definition MetadataTooLargeError_message :: "nat \<Rightarrow> nat \<Rightarrow> string" where
  "MetadataTooLargeError_message n m = ''Stream metadata/namespace is '' @ count n @ '' bytes (UTF-8), which exceeds the contract limit of '' @ count m @
     '' bytes. Shorten the namespace before submitting.''"

definition InvalidStreamIdError_message :: "string \<Rightarrow> string" where
  "InvalidStreamIdError_message i = ''Invalid stream ID: '' @ quoted i @ ''. Stream ID must be a valid positive integer string.''"

definition TransactionMutatedError_message :: "string option \<Rightarrow> string" where
  "TransactionMutatedError_message m = truthy_message m ''Transaction envelope was mutated unexpectedly''"

definition XdrValidationError_message :: "string \<Rightarrow> string option \<Rightarrow> string" where
  "XdrValidationError_message m field = (if field = None \<or> field = Some [] then m else ''['' @ the field @ ''] '' @ m)"

definition WalletConnectSessionExpiredError_message :: "string option \<Rightarrow> string" where
  "WalletConnectSessionExpiredError_message m = truthy_message m ''WalletConnect session expired''"

definition NetworkMismatchError_message :: "string \<Rightarrow> string \<Rightarrow> string" where
  "NetworkMismatchError_message e a = ''Wallet network mismatch: client is configured for '' @ quoted e @ '' but the connected wallet reports '' @ quoted a @
     ''. Pass the matching network to the client constructor, or switch the wallet'' @ [CHR 0x27] @ ''s network.''"

definition InvalidTokenContractError_message :: "string \<Rightarrow> string" where
  "InvalidTokenContractError_message t = ''Address '' @ t @ '' does not implement the SAC token interface '' @
     ''(symbol() simulation failed). Provide a valid token contract address.''"

definition BatchOperationLimitExceededError_message :: "nat \<Rightarrow> nat \<Rightarrow> string" where
  "BatchOperationLimitExceededError_message n m = ''Batch contains '' @ count n @ '' operations, exceeding the Soroban per-transaction limit of '' @ count m @
     ''. Split the batch and submit the remaining operations separately (issue #700).''"

definition FeeBumpExpiredError_message :: "int \<Rightarrow> string" where
  "FeeBumpExpiredError_message t = ''Inner transaction expired at '' @ toISOString (t * 1000) @ '' (time bounds maxTime='' @ num t @
     ''); it can no longer be fee-bumped. '' @
     ''Rebuild and re-sign it with renewed bounds (renewTimeBounds) before wrapping (issue #705).''"

definition exhausted_message :: "nat \<Rightarrow> string \<Rightarrow> string" where
  "exhausted_message n inner = ''RPC request failed after '' @ count n @ '' attempt(s): '' @ inner"

primrec raw_message :: "stream_error \<Rightarrow> string" and thrown_message :: "thrown \<Rightarrow> string" where
  "raw_message (SoroStreamError m) = m"
| "raw_message (ConnectionPoolExhaustedError m) = ConnectionPoolExhaustedError_message m"
| "raw_message (InsufficientAmountError m) = InsufficientAmountError_message m"
| "raw_message (StreamNotFoundError i) = StreamNotFoundError_message i"
| "raw_message (StreamNotActiveError i) = StreamNotActiveError_message i"
| "raw_message (StreamAlreadyLockedError i cur req) = StreamAlreadyLockedError_message i cur req"
| "raw_message (TransactionFailedError d) = TransactionFailedError_message d"
| "raw_message (RateLimitExceededError d l) = RateLimitExceededError_message d l"
| "raw_message (InvalidAddressError a) = InvalidAddressError_message a"
| "raw_message (AccountNotFoundError a) = AccountNotFoundError_message a"
| "raw_message (InsufficientBalanceError m) = InsufficientBalanceError_message m"
| "raw_message (ZeroDurationError m) = ZeroDurationError_message m"
| "raw_message (BulkCreatePartialError batches failed) = BulkCreatePartialError_message batches failed"
| "raw_message (InsufficientAllowanceError t req cur) = InsufficientAllowanceError_message t req cur"
| "raw_message (DuplicateStreamError m) = DuplicateStreamError_message m"
| "raw_message (SoroStreamMemoError m) = m"
| "raw_message (SoroStreamTransportError m) = m"
| "raw_message (FederationResolutionError a r) = FederationResolutionError_message a r"
| "raw_message (StartTimeInPastError st t) = StartTimeInPastError_message st t"
| "raw_message (SoroStreamValidationError f n m) = SoroStreamValidationError_message f n m"
| "raw_message NonceNotSupportedError = NonceNotSupportedError_message"
| "raw_message (SoroStreamRetryExhaustedError e n body) = exhausted_message n (thrown_message e)"
| "raw_message (SoroStreamDependencyError p r v) = SoroStreamDependencyError_message p r v"
| "raw_message SelfStreamError = SelfStreamError_message"
| "raw_message (SoroStreamVersionError v m) = SoroStreamVersionError_message v m"
| "raw_message (RecipientValidationError trust acct ws) = RecipientValidationError_message ws"
| "raw_message (InsecureRpcUrlError u) = InsecureRpcUrlError_message u"
| "raw_message (FeeTooHighError f m) = FeeTooHighError_message f m"
| "raw_message (MalformedWalletResponseError m) = MalformedWalletResponseError_message m"
| "raw_message (MetadataTooLargeError n m) = MetadataTooLargeError_message n m"
| "raw_message (InvalidStreamIdError i) = InvalidStreamIdError_message i"
| "raw_message (TransactionMutatedError m) = TransactionMutatedError_message m"
| "raw_message (XdrValidationError code m field) = XdrValidationError_message m field"
| "raw_message (WalletConnectSessionExpiredError m) = WalletConnectSessionExpiredError_message m"
| "raw_message (SdkNetworkError m body code) = m"
| "raw_message (NetworkMismatchError e a) = NetworkMismatchError_message e a"
| "raw_message (InvalidTokenContractError t) = InvalidTokenContractError_message t"
| "raw_message (BatchOperationLimitExceededError n m) = BatchOperationLimitExceededError_message n m"
| "raw_message (FeeBumpExpiredError t) = FeeBumpExpiredError_message t"
| "thrown_message (SdkThrown e) = redactSecretKey (raw_message e)"
| "thrown_message (OtherThrown m) = m"

definition error_message :: "stream_error \<Rightarrow> string" where
  "error_message e = redactSecretKey (raw_message e)"

section \<open>Guards\<close>

fun isSoroStreamError :: "thrown \<Rightarrow> bool" where
  "isSoroStreamError (SdkThrown e) \<longleftrightarrow> True"
| "isSoroStreamError (OtherThrown m) \<longleftrightarrow> False"

fun isNetworkError :: "thrown \<Rightarrow> bool" where
  "isNetworkError (SdkThrown (SoroStreamRetryExhaustedError e n b)) \<longleftrightarrow> True"
| "isNetworkError (SdkThrown (FederationResolutionError a r)) \<longleftrightarrow> True"
| "isNetworkError _ \<longleftrightarrow> False"

fun isContractError :: "thrown \<Rightarrow> bool" where
  "isContractError (SdkThrown (TransactionFailedError d)) \<longleftrightarrow> True"
| "isContractError (SdkThrown (StreamNotFoundError i)) \<longleftrightarrow> True"
| "isContractError (SdkThrown (StreamNotActiveError i)) \<longleftrightarrow> True"
| "isContractError (SdkThrown (DuplicateStreamError m)) \<longleftrightarrow> True"
| "isContractError (SdkThrown (BulkCreatePartialError bs n)) \<longleftrightarrow> True"
| "isContractError _ \<longleftrightarrow> False"

fun isValidationError :: "thrown \<Rightarrow> bool" where
  "isValidationError (SdkThrown (InsufficientAmountError m)) \<longleftrightarrow> True"
| "isValidationError (SdkThrown (InsufficientBalanceError m)) \<longleftrightarrow> True"
| "isValidationError (SdkThrown (InsufficientAllowanceError t r c)) \<longleftrightarrow> True"
| "isValidationError (SdkThrown (ZeroDurationError m)) \<longleftrightarrow> True"
| "isValidationError (SdkThrown (InvalidAddressError a)) \<longleftrightarrow> True"
| "isValidationError (SdkThrown (AccountNotFoundError a)) \<longleftrightarrow> True"
| "isValidationError (SdkThrown (SoroStreamValidationError f n m)) \<longleftrightarrow> True"
| "isValidationError (SdkThrown (SoroStreamMemoError m)) \<longleftrightarrow> True"
| "isValidationError (SdkThrown (StartTimeInPastError a b)) \<longleftrightarrow> True"
| "isValidationError (SdkThrown (InvalidStreamIdError i)) \<longleftrightarrow> True"
| "isValidationError _ \<longleftrightarrow> False"

fun isAuthError :: "thrown \<Rightarrow> bool" where
  "isAuthError (SdkThrown NonceNotSupportedError) \<longleftrightarrow> True"
| "isAuthError (SdkThrown (SoroStreamDependencyError p r v)) \<longleftrightarrow> True"
| "isAuthError (SdkThrown (TransactionMutatedError m)) \<longleftrightarrow> True"
| "isAuthError _ \<longleftrightarrow> False"

record 'a error_handlers =
  onNetwork :: "(thrown \<Rightarrow> 'a) option"
  onContract :: "(thrown \<Rightarrow> 'a) option"
  onValidation :: "(thrown \<Rightarrow> 'a) option"
  onAuth :: "(thrown \<Rightarrow> 'a) option"
  onOtherwise :: "(thrown \<Rightarrow> 'a) option"

text \<open>\<open>None\<close> is \<open>undefined\<close>.\<close>

definition matchError :: "thrown \<Rightarrow> 'a error_handlers \<Rightarrow> 'a option" where
  "matchError err h =
     (if isNetworkError err \<and> onNetwork h \<noteq> None then map_option (\<lambda>f. f err) (onNetwork h)
      else if isContractError err \<and> onContract h \<noteq> None then map_option (\<lambda>f. f err) (onContract h)
      else if isValidationError err \<and> onValidation h \<noteq> None then map_option (\<lambda>f. f err) (onValidation h)
      else if isAuthError err \<and> onAuth h \<noteq> None then map_option (\<lambda>f. f err) (onAuth h)
      else map_option (\<lambda>f. f err) (onOtherwise h))"

section \<open>Properties\<close>

lemmas guard_elims = isNetworkError.elims(2) isContractError.elims(2) isValidationError.elims(2) isAuthError.elims(2)

text \<open>The four groups are disjoint, and only the SDK's own errors belong to one.\<close>

lemma groups_disjoint:
  "isNetworkError e \<Longrightarrow> \<not> isContractError e \<and> \<not> isValidationError e \<and> \<not> isAuthError e \<and> isSoroStreamError e"
  "isContractError e \<Longrightarrow> \<not> isValidationError e \<and> \<not> isAuthError e \<and> isSoroStreamError e"
  "isValidationError e \<Longrightarrow> \<not> isAuthError e \<and> isSoroStreamError e"
  "isAuthError e \<Longrightarrow> isSoroStreamError e"
  by (auto elim!: guard_elims)

text \<open>The handler of the group of an error: the guards need no order.\<close>

definition group_handler :: "thrown \<Rightarrow> 'a error_handlers \<Rightarrow> (thrown \<Rightarrow> 'a) option" where
  "group_handler e h =
     (if isAuthError e then onAuth h else if isValidationError e then onValidation h
      else if isContractError e then onContract h else if isNetworkError e then onNetwork h else None)"

lemma match_dispatches:
  "matchError e h = map_option (\<lambda>f. f e) (case group_handler e h of Some f \<Rightarrow> Some f | None \<Rightarrow> onOtherwise h)"
  using groups_disjoint [of e] by (auto simp: matchError_def group_handler_def split: option.split)

text \<open>
  No message of an error of the SDK holds a secret key as a word, whatever texts were put into it and
  however deep the error is wrapped.
\<close>

lemma error_message_clean: "\<not> has_key False (error_message e) \<and> \<not> has_key False (thrown_message (SdkThrown e))"
  by (simp add: error_message_def redacted_no_key)

section \<open>Classification\<close>

text \<open>What the retry loop reads of such an error: none of the classes has a numeric \<open>status\<close> or \<open>code\<close>.\<close>

definition retry_view :: "stream_error \<Rightarrow> error_value" where
  "retry_view e = \<lparr>er_message = error_message e, er_isObject = True, er_status = None, er_responseStatus = None,
     er_code = None, er_errorCode = None, er_errorName = None\<rparr>"

lemma transient_by_message:
  "isTransientRpcError (Some (retry_view e)) = list_ex (\<lambda>p. str_includes p (map to_lower (error_message e))) TRANSIENT_PATTERNS"
  by (simp add: isTransientRpcError_def retry_view_def first_some_def Let_def)

text \<open>A stream that does not exist is asked for again when its number contains the digits of an HTTP status.\<close>

lemma missing_stream_retried:
  "isTransientRpcError (Some (retry_view (StreamNotFoundError ''1500'')))"
  "\<not> isTransientRpcError (Some (retry_view (StreamNotFoundError ''1501'')))"
  by (simp_all only: transient_by_message) code_simp+

text \<open>A retry loop around a retry loop starts again: the report of the inner one quotes the transient error.\<close>

lemma exhausted_is_transient:
  "isTransientRpcError (Some (retry_view (SoroStreamRetryExhaustedError (OtherThrown ''timeout'') 3 None)))"
  by (simp only: transient_by_message) code_simp

text \<open>A numeric status of \<open>SdkNetworkError\<close> is in a field the classification does not read.\<close>

lemma status_code_unread: "\<not> isTransientRpcError (Some (retry_view (SdkNetworkError ''bad gateway'' [] (Some 502))))"
  by (simp only: transient_by_message) code_simp

text \<open>Errors of the network that the guards do not know.\<close>

lemma ungrouped_network_errors:
  "\<not> isNetworkError (SdkThrown (SdkNetworkError m b s))" "\<not> isNetworkError (SdkThrown (SoroStreamTransportError m))"
  "group_handler (SdkThrown (SdkNetworkError m b s)) h = None" "group_handler (SdkThrown (SoroStreamTransportError m)) h = None"
  by (simp_all add: group_handler_def)

end
