(* ===== verification/Observable.thy ===== *)
theory Observable
  imports Prelude "HOL-Library.Multiset" "HOL-Library.Sublist"
begin

text \<open>
  The observable (\<open>src/observable.ts\<close>). A subscription is a state machine: what the producer, the
  consumer and the event loop do are steps, and a call of \<open>observer.next\<close> is split where it returns,
  throws or hands over a promise, since a consumer may close the subscription from inside its
  callback. Errors are numbers. The log lists what reaches the consumer and the producer's teardown.
\<close>

section \<open>One subscription\<close>

record observer =
  ob_next :: bool
  ob_error :: bool
  ob_complete :: bool
  ob_errorThrows :: bool

datatype teardown = TeardownFn nat | TeardownSub nat | TeardownNone

fun toTeardownFn :: "teardown \<Rightarrow> nat option" where
  "toTeardownFn (TeardownFn n) = Some n"
| "toTeardownFn (TeardownSub n) = Some n"
| "toTeardownFn TeardownNone = None"

datatype 'v obs_event = ToNext 'v | ToError nat | ToComplete | Unhandled nat | TornDown nat

record 'v subscription =
  su_closed :: bool
  su_teardown :: "nat option"
  su_ran :: bool
  su_started :: bool
  su_active :: nat
  su_pending :: nat
  su_log :: "'v obs_event list"

text \<open>\<open>su_started\<close>: the producer has returned. Calls of \<open>next\<close> that are running, and promises not settled.\<close>

definition new_subscription :: "'v subscription" where
  "new_subscription = \<lparr>su_closed = False, su_teardown = None, su_ran = False, su_started = False, su_active = 0, su_pending = 0, su_log = []\<rparr>"

definition runTeardown :: "'v subscription \<Rightarrow> 'v subscription" where
  "runTeardown s =
     (if su_ran s then s
      else s\<lparr>su_ran := True, su_teardown := None,
             su_log := su_log s @ (case su_teardown s of Some t \<Rightarrow> [TornDown t] | None \<Rightarrow> [])\<rparr>)"

definition reportUncaught :: "observer \<Rightarrow> nat \<Rightarrow> 'v subscription \<Rightarrow> 'v subscription" where
  "reportUncaught ob e s =
     s\<lparr>su_log := su_log s @ (if ob_error ob then ToError e # (if ob_errorThrows ob then [Unhandled e] else []) else [Unhandled e])\<rparr>"

definition close_with :: "observer \<Rightarrow> nat \<Rightarrow> 'v subscription \<Rightarrow> 'v subscription" where
  "close_with ob e s = reportUncaught ob e (runTeardown (s\<lparr>su_closed := True\<rparr>))"

definition sink_next :: "observer \<Rightarrow> 'v \<Rightarrow> 'v subscription \<Rightarrow> 'v subscription" where
  "sink_next ob v s =
     (if su_closed s \<or> \<not> ob_next ob then s else s\<lparr>su_active := su_active s + 1, su_log := su_log s @ [ToNext v]\<rparr>)"

definition sink_error :: "observer \<Rightarrow> nat \<Rightarrow> 'v subscription \<Rightarrow> 'v subscription" where
  "sink_error ob e s = (if su_closed s then s else close_with ob e s)"

definition sink_complete :: "observer \<Rightarrow> 'v subscription \<Rightarrow> 'v subscription" where
  "sink_complete ob s =
     (if su_closed s then s
      else (let s1 = runTeardown (s\<lparr>su_closed := True\<rparr>)
            in if ob_complete ob then s1\<lparr>su_log := su_log s1 @ [ToComplete]\<rparr> else s1))"

definition unsubscribe_sub :: "'v subscription \<Rightarrow> 'v subscription" where
  "unsubscribe_sub s = (if su_closed s then s else runTeardown (s\<lparr>su_closed := True\<rparr>))"

datatype 'v sub_step =
    EmitNext 'v
  | NextReturned
  | NextPromised
  | NextThrew nat
  | PromiseResolved
  | PromiseRejected nat
  | EmitError nat
  | EmitComplete
  | ProducerReturned teardown
  | ProducerThrew nat
  | Unsubscribe

fun obs_step :: "observer \<Rightarrow> 'v sub_step \<Rightarrow> 'v subscription \<Rightarrow> 'v subscription" where
  "obs_step ob (EmitNext v) s = sink_next ob v s"
| "obs_step ob NextReturned s = (if su_active s = 0 then s else s\<lparr>su_active := su_active s - 1\<rparr>)"
| "obs_step ob NextPromised s =
     (if su_active s = 0 then s else s\<lparr>su_active := su_active s - 1, su_pending := su_pending s + 1\<rparr>)"
| "obs_step ob (NextThrew e) s = (if su_active s = 0 then s else close_with ob e (s\<lparr>su_active := su_active s - 1\<rparr>))"
| "obs_step ob PromiseResolved s = (if su_pending s = 0 then s else s\<lparr>su_pending := su_pending s - 1\<rparr>)"
| "obs_step ob (PromiseRejected e) s =
     (if su_pending s = 0 then s
      else (let s1 = s\<lparr>su_pending := su_pending s - 1\<rparr> in if su_closed s1 then s1 else close_with ob e s1))"
| "obs_step ob (EmitError e) s = sink_error ob e s"
| "obs_step ob EmitComplete s = sink_complete ob s"
| "obs_step ob (ProducerReturned t) s =
     (if su_started s then s
      else (let s1 = s\<lparr>su_started := True, su_teardown := toTeardownFn t\<rparr> in if su_closed s1 then runTeardown s1 else s1))"
| "obs_step ob (ProducerThrew e) s =
     (if su_started s then s
      else (let s1 = sink_error ob e (s\<lparr>su_started := True\<rparr>) in if su_closed s1 then runTeardown s1 else s1))"
| "obs_step ob Unsubscribe s = (if su_started s then unsubscribe_sub s else s)"

lemmas obs_defs = runTeardown_def reportUncaught_def close_with_def sink_next_def sink_error_def sink_complete_def unsubscribe_sub_def

text \<open>The subscription object is returned after the producer, so no one can unsubscribe before.\<close>

section \<open>What a subscription keeps\<close>

definition teardowns :: "'v obs_event list \<Rightarrow> nat" where
  "teardowns es = length (filter (\<lambda>e. case e of TornDown t \<Rightarrow> True | _ \<Rightarrow> False) es)"

definition endings :: "'v obs_event list \<Rightarrow> nat" where
  "endings es = length (filter (\<lambda>e. case e of ToError x \<Rightarrow> True | ToComplete \<Rightarrow> True | _ \<Rightarrow> False) es)"

definition sub_inv :: "'v subscription \<Rightarrow> bool" where
  "sub_inv s \<longleftrightarrow> su_ran s = su_closed s \<and> teardowns (su_log s) \<le> (if su_ran s then 1 else 0) \<and>
     (\<not> su_started s \<longrightarrow> su_teardown s = None)"

lemma counts_append [simp]:
  "teardowns (xs @ ys) = teardowns xs + teardowns ys" "endings (xs @ ys) = endings xs + endings ys"
  by (simp_all add: teardowns_def endings_def)

lemma counts_event [simp]:
  "teardowns [] = 0" "endings [] = 0"
  "teardowns (e # es) = (case e of TornDown t \<Rightarrow> 1 | _ \<Rightarrow> 0) + teardowns es"
  "endings (e # es) = (case e of ToError x \<Rightarrow> 1 | ToComplete \<Rightarrow> 1 | _ \<Rightarrow> 0) + endings es"
  by (auto simp: teardowns_def endings_def split: obs_event.split)

interpretation sub: step_system "obs_step ob" sub_inv for ob
proof unfold_locales
  fix s :: "'v subscription" and e
  assume "sub_inv s"
  then show "sub_inv (obs_step ob e s)"
    by (cases e) (auto simp: sub_inv_def obs_defs Let_def split: option.split)
qed

text \<open>
  Over every sequence of steps: the teardown runs at most once and only when the subscription is
  closed; once it is closed, no value reaches the consumer any more.
\<close>

lemma closed_stays: "su_closed s \<Longrightarrow> su_closed (obs_step ob e s)"
  by (cases e) (auto simp: obs_defs Let_def)

lemma closed_silent:
  assumes "su_closed s" and "sub_inv s"
  shows "\<exists>es. su_log (obs_step ob e s) = su_log s @ es \<and> (\<forall>v. ToNext v \<notin> set es) \<and> teardowns es = 0"
  using assms by (cases e) (auto simp: obs_defs Let_def sub_inv_def split: option.split)

theorem closed_subscription_silent:
  assumes "su_closed (fold (obs_step ob) es new_subscription)"
  shows "\<exists>rest. su_log (fold (obs_step ob) (es @ fs) new_subscription) = su_log (fold (obs_step ob) es new_subscription) @ rest \<and>
      (\<forall>v. ToNext v \<notin> set rest) \<and> teardowns rest = 0 \<and>
    teardowns (su_log (fold (obs_step ob) (es @ fs) new_subscription)) \<le> 1"
proof -
  have start: "sub_inv new_subscription" by (simp add: sub_inv_def new_subscription_def)
  have "\<exists>rest. su_log (fold (obs_step ob) fs s) = su_log s @ rest \<and> (\<forall>v. ToNext v \<notin> set rest) \<and> teardowns rest = 0"
    if "su_closed s" "sub_inv s" for s :: "'a subscription"
    using that
  proof (induction fs arbitrary: s)
    case (Cons e fs)
    obtain a where a: "su_log (obs_step ob e s) = su_log s @ a" "\<forall>v. ToNext v \<notin> set a" "teardowns a = 0"
      using closed_silent [OF Cons.prems] by blast
    obtain b where "su_log (fold (obs_step ob) fs (obs_step ob e s)) = su_log (obs_step ob e s) @ b"
        "\<forall>v. ToNext v \<notin> set b" "teardowns b = 0"
      using Cons.IH [OF closed_stays sub.step_inv] Cons.prems by blast
    with a show ?case by (intro exI [of _ "a @ b"]) simp
  qed simp
  moreover have "sub_inv (fold (obs_step ob) (es @ fs) new_subscription)" by (rule sub.run_inv [OF start])
  moreover have "sub_inv (fold (obs_step ob) es new_subscription)" by (rule sub.run_inv [OF start])
  ultimately show ?thesis using assms by (fastforce simp: sub_inv_def split: if_splits)
qed

text \<open>
  A consumer is told of at most one end unless a callback closes its own subscription and then throws:
  then the exception is delivered although the subscription was closed.
\<close>

fun orderly :: "'v sub_step \<Rightarrow> 'v subscription \<Rightarrow> bool" where
  "orderly (NextThrew e) s \<longleftrightarrow> \<not> su_closed s"
| "orderly _ s \<longleftrightarrow> True"

lemma one_ending:
  assumes "endings (su_log s) \<le> (if su_closed s then 1 else 0)" and "orderly e s"
  shows "endings (su_log (obs_step ob e s)) \<le> (if su_closed (obs_step ob e s) then 1 else 0)"
  using assms by (cases e) (auto simp: obs_defs Let_def split: option.split if_splits)

lemma throw_after_unsubscribe:
  "su_log (fold (obs_step \<lparr>ob_next = True, ob_error = True, ob_complete = True, ob_errorThrows = False\<rparr>)
     [ProducerReturned TeardownNone, EmitNext (CHR ''v''), Unsubscribe, NextThrew 7] new_subscription) = [ToNext (CHR ''v''), ToError 7]"
  by code_simp

text \<open>
  A subscription that is closed while its producer is still running never runs the teardown that the
  producer returns: the flag was set when there was nothing to run.
\<close>

lemma early_close_skips_teardown:
  assumes "sub_inv s" and "su_closed s" and "\<not> su_started s"
  shows "su_log (fold (obs_step ob) (ProducerReturned t # fs) s) = su_log (fold (obs_step ob) fs (s\<lparr>su_started := True, su_teardown := toTeardownFn t\<rparr>))"
  using assms by (simp add: sub_inv_def runTeardown_def)

lemma early_close_leaks:
  "su_log (fold (obs_step \<lparr>ob_next = True, ob_error = True, ob_complete = True, ob_errorThrows = False\<rparr>)
     [EmitComplete, ProducerReturned (TeardownFn 1), Unsubscribe] (new_subscription :: char subscription)) = [ToComplete]"
  by code_simp

text \<open>Closed after the producer has returned, the teardown has run.\<close>

lemma late_close_tears_down:
  assumes "su_started s" and "\<not> su_closed s" and "sub_inv s" and "su_teardown s = Some t"
  shows "TornDown t \<in> set (su_log (obs_step ob Unsubscribe s)) \<and> TornDown t \<in> set (su_log (obs_step ob EmitComplete s)) \<and>
    TornDown t \<in> set (su_log (obs_step ob (EmitError e) s))"
  using assms by (simp add: obs_defs sub_inv_def Let_def)

theorem closed_subscription_silent_witness:
  "su_closed (fold (obs_step \<lparr>ob_next = True, ob_error = True, ob_complete = True, ob_errorThrows = False\<rparr>)
     [ProducerReturned (TeardownFn 1), EmitNext (CHR ''v''), Unsubscribe] new_subscription) \<and>
   teardowns (su_log (fold (obs_step \<lparr>ob_next = True, ob_error = True, ob_complete = True, ob_errorThrows = False\<rparr>)
     ([ProducerReturned (TeardownFn 1), EmitNext (CHR ''v''), Unsubscribe] @ [EmitComplete]) new_subscription)) \<le> 1"
proof -
  have c: "su_closed (fold (obs_step \<lparr>ob_next = True, ob_error = True, ob_complete = True, ob_errorThrows = False\<rparr>)
     [ProducerReturned (TeardownFn 1), EmitNext (CHR ''v''), Unsubscribe] new_subscription)"
    by (simp add: obs_defs new_subscription_def)
  show ?thesis using c closed_subscription_silent [OF c, of "[EmitComplete]"] by blast
qed

section \<open>Operators\<close>

text \<open>What a source signals to one of its subscribers, in order.\<close>

datatype 'v signal = SignalNext 'v | SignalError nat | SignalComplete

text \<open>
  \<open>map\<close> and \<open>filter\<close> as functions on signals: what reaches the sink below before it closes. The
  projection and the predicate get the running index and may throw.
\<close>

fun obs_map :: "('v \<Rightarrow> nat \<Rightarrow> nat + 'r) \<Rightarrow> nat \<Rightarrow> 'v signal list \<Rightarrow> 'r signal list" where
  "obs_map f i [] = []"
| "obs_map f i (SignalNext v # ss) = (case f v i of Inl e \<Rightarrow> [SignalError e] | Inr r \<Rightarrow> SignalNext r # obs_map f (i + 1) ss)"
| "obs_map f i (SignalError e # ss) = [SignalError e]"
| "obs_map f i (SignalComplete # ss) = [SignalComplete]"

fun obs_filter :: "('v \<Rightarrow> nat \<Rightarrow> nat + bool) \<Rightarrow> nat \<Rightarrow> 'v signal list \<Rightarrow> 'v signal list" where
  "obs_filter p i [] = []"
| "obs_filter p i (SignalNext v # ss) =
     (case p v i of
        Inl e \<Rightarrow> [SignalError e]
      | Inr b \<Rightarrow> (if b then [SignalNext v] else []) @ obs_filter p (i + 1) ss)"
| "obs_filter p i (SignalError e # ss) = [SignalError e]"
| "obs_filter p i (SignalComplete # ss) = [SignalComplete]"

definition pipe :: "('a \<Rightarrow> 'a) list \<Rightarrow> 'a \<Rightarrow> 'a" where
  "pipe operators source = foldl (\<lambda>acc f. f acc) source operators"

text \<open>\<open>firstValue\<close>: pending, the first value, or why there is none.\<close>

datatype 'v first_value = FirstPending | FirstResolved 'v | FirstRejected nat | FirstEmpty

fun firstValue :: "'v signal list \<Rightarrow> 'v first_value" where
  "firstValue [] = FirstPending"
| "firstValue (SignalNext v # ss) = FirstResolved v"
| "firstValue (SignalError e # ss) = FirstRejected e"
| "firstValue (SignalComplete # ss) = FirstEmpty"

fun values_of :: "'v signal list \<Rightarrow> 'v list" where
  "values_of [] = []"
| "values_of (SignalNext v # ss) = v # values_of ss"
| "values_of (s # ss) = []"

lemma obs_map_values: "(\<And>v i. f v i = Inr (g v)) \<Longrightarrow> values_of (obs_map f i ss) = map g (values_of ss)"
  by (induction ss arbitrary: i rule: values_of.induct) auto

lemma obs_filter_values: "(\<And>v i. p v i = Inr (q v)) \<Longrightarrow> values_of (obs_filter p i ss) = filter q (values_of ss)"
  by (induction ss arbitrary: i rule: values_of.induct) auto

lemma obs_map_map:
  "(\<And>v i. f v i = Inr (f' v)) \<Longrightarrow> (\<And>v i. g v i = Inr (g' v)) \<Longrightarrow>
   obs_map g i (obs_map f j ss) = obs_map (\<lambda>v i. Inr (g' (f' v))) k ss"
  by (induction ss arbitrary: i j k rule: values_of.induct) auto

text \<open>A throwing projection ends the stream with its error at that value.\<close>

lemma obs_map_throws: "f v (i + length (values_of ss)) = Inl e \<Longrightarrow> (\<And>w k. k < i + length (values_of ss) \<Longrightarrow> f w k = Inr (g w)) \<Longrightarrow>
  (\<forall>x\<in>set ss. \<exists>w. x = SignalNext w) \<Longrightarrow> obs_map f i (ss @ SignalNext v # rest) = map (\<lambda>w. SignalNext (g w)) (values_of ss) @ [SignalError e]"
  by (induction ss arbitrary: i rule: values_of.induct) auto

end
