(* ===== verification/Backpressure.thy ===== *)
theory Backpressure
  imports Observable
begin

text \<open>
  \<open>withBackpressure\<close> and \<open>shareLatest\<close> of \<open>src/observable.ts\<close>.
\<close>

section \<open>A bounded buffer before a slow consumer\<close>

datatype strategy = DropOldest | DropNewest

text \<open>
  The drain is idle, queued as a microtask, or awaits what \<open>sink.next\<close> returned. The sink below closes
  at any time. The buffer size is a whole number.
\<close>

datatype drain_state = DrainIdle | DrainQueued | DrainAwaiting

record 'v pressure =
  bp_maxBufferSize :: int
  bp_strategy :: strategy
  bp_buffer :: "'v list"
  bp_drain :: drain_state
  bp_completed :: bool
  bp_closed :: bool
  bp_received :: "'v list"
  bp_delivered :: "'v list"
  bp_dropped :: "'v list"
  bp_end :: "unit signal option"

definition new_pressure :: "int \<Rightarrow> strategy \<Rightarrow> 'v pressure option" where
  "new_pressure n st =
     (if n \<le> 0 then None
      else Some \<lparr>bp_maxBufferSize = n, bp_strategy = st, bp_buffer = [], bp_drain = DrainIdle, bp_completed = False,
        bp_closed = False, bp_received = [], bp_delivered = [], bp_dropped = [], bp_end = None\<rparr>)"

definition scheduleDrain :: "'v pressure \<Rightarrow> 'v pressure" where
  "scheduleDrain s = (if bp_drain s = DrainIdle then s\<lparr>bp_drain := DrainQueued\<rparr> else s)"

definition finish_bp :: "unit signal \<Rightarrow> 'v pressure \<Rightarrow> 'v pressure" where
  "finish_bp x s = (if bp_closed s then s else s\<lparr>bp_closed := True, bp_end := Some x, bp_buffer := []\<rparr>)"

text \<open>\<open>finish_bp\<close>: closing the sink runs the teardown, which empties the buffer.\<close>

definition bp_next :: "'v \<Rightarrow> 'v pressure \<Rightarrow> 'v pressure" where
  "bp_next v s =
     (if bp_closed s then s
      else
        (let s0 = s\<lparr>bp_received := bp_received s @ [v]\<rparr>;
             s1 = (if int (length (bp_buffer s)) \<ge> bp_maxBufferSize s then
                     (case bp_strategy s of
                        DropOldest \<Rightarrow> s0\<lparr>bp_buffer := tl (bp_buffer s) @ [v], bp_dropped := bp_dropped s @ [hd (bp_buffer s)]\<rparr>
                      | DropNewest \<Rightarrow> s0\<lparr>bp_dropped := bp_dropped s @ [v]\<rparr>)
                   else s0\<lparr>bp_buffer := bp_buffer s @ [v]\<rparr>)
         in scheduleDrain s1))"

definition bp_error :: "nat \<Rightarrow> 'v pressure \<Rightarrow> 'v pressure" where
  "bp_error e s = finish_bp (SignalError e) (s\<lparr>bp_buffer := []\<rparr>)"

definition bp_complete :: "'v pressure \<Rightarrow> 'v pressure" where
  "bp_complete s =
     (let s1 = s\<lparr>bp_completed := True\<rparr>
      in if bp_buffer s1 = [] then finish_bp SignalComplete s1 else scheduleDrain s1)"

text \<open>One turn of the loop: hand over an item and await it, or leave the loop.\<close>

definition drain_turn :: "'v pressure \<Rightarrow> 'v pressure" where
  "drain_turn s =
     (if bp_buffer s \<noteq> [] \<and> \<not> bp_closed s
      then s\<lparr>bp_buffer := tl (bp_buffer s), bp_delivered := bp_delivered s @ [hd (bp_buffer s)], bp_drain := DrainAwaiting\<rparr>
      else (let s1 = s\<lparr>bp_drain := DrainIdle\<rparr>
            in if bp_completed s1 \<and> bp_buffer s1 = [] \<and> \<not> bp_closed s1 then finish_bp SignalComplete s1 else s1))"

datatype 'v pressure_event = PressureNext 'v | PressureError nat | PressureComplete | DrainTurn | SinkClosed

text \<open>After an end the subscription to the source is closed, so nothing else arrives from it.\<close>

fun pressure_step :: "'v pressure_event \<Rightarrow> 'v pressure \<Rightarrow> 'v pressure" where
  "pressure_step (PressureNext v) s = (if bp_completed s then s else bp_next v s)"
| "pressure_step (PressureError e) s = (if bp_completed s then s else bp_error e s)"
| "pressure_step PressureComplete s = (if bp_completed s then s else bp_complete s)"
| "pressure_step DrainTurn s = (if bp_drain s = DrainIdle then s else drain_turn s)"
| "pressure_step SinkClosed s = (if bp_closed s then s else s\<lparr>bp_closed := True, bp_buffer := []\<rparr>)"

lemmas pressure_defs = scheduleDrain_def finish_bp_def bp_next_def bp_error_def bp_complete_def drain_turn_def

text \<open>Nothing is lost but what was dropped, and the order is kept.\<close>

definition bp_inv :: "'v pressure \<Rightarrow> bool" where
  "bp_inv s \<longleftrightarrow> 0 < bp_maxBufferSize s \<and> int (length (bp_buffer s)) \<le> bp_maxBufferSize s \<and>
     subseq (bp_delivered s @ bp_buffer s) (bp_received s) \<and>
     (bp_buffer s \<noteq> [] \<longrightarrow> bp_drain s \<noteq> DrainIdle) \<and>
     (if bp_closed s then bp_buffer s = [] else bp_end s = None \<and> (bp_completed s \<longrightarrow> bp_drain s \<noteq> DrainIdle) \<and>
        mset (bp_received s) = mset (bp_delivered s) + mset (bp_dropped s) + mset (bp_buffer s)) \<and>
     (bp_end s = Some SignalComplete \<longrightarrow> mset (bp_received s) = mset (bp_delivered s) + mset (bp_dropped s))"

lemma subseq_push: "subseq (xs @ ys) zs \<Longrightarrow> subseq (xs @ ys @ [v]) (zs @ [v])"
  using list_emb_append_mono [of "(=)" "xs @ ys" zs "[v]" "[v]"] by simp

lemma subseq_drop: "subseq (xs @ ys) zs \<Longrightarrow> subseq (xs @ tl ys @ [v]) (zs @ [v])"
proof -
  assume s: "subseq (xs @ ys) zs"
  have "subseq (tl ys) ys" by (cases ys) auto
  then have "subseq (xs @ tl ys) (xs @ ys)" by (simp add: subseq_append')
  then have "subseq (xs @ tl ys) zs" using s by (rule subseq_order.trans)
  then show ?thesis by (rule subseq_push)
qed

lemma subseq_skip: "subseq xs zs \<Longrightarrow> subseq xs (zs @ [v])"
  by (rule subseq_rev_drop_many)

lemma subseq_left: "subseq (xs @ ys) zs \<Longrightarrow> subseq xs zs"
  by (rule subseq_order.trans [OF subseq_rev_drop_many [OF subseq_order.refl]])

interpretation pressure: step_system pressure_step bp_inv
proof unfold_locales
  fix s :: "'v pressure" and e
  assume inv: "bp_inv s"
  then have sub: "subseq (bp_delivered s @ bp_buffer s) (bp_received s)" and pos: "0 < bp_maxBufferSize s" by (simp_all add: bp_inv_def)
  show "bp_inv (pressure_step e s)"
  proof (cases e)
    case (PressureNext v)
    have full: "bp_buffer s \<noteq> []" if "int (length (bp_buffer s)) \<ge> bp_maxBufferSize s" using that pos by auto
    have m: "mset (bp_buffer s) = add_mset (hd (bp_buffer s)) (mset (tl (bp_buffer s)))" if "bp_buffer s \<noteq> []"
      using that by (cases "bp_buffer s") auto
    show ?thesis using inv full m subseq_push [OF sub, of v] subseq_drop [OF sub, of v] subseq_skip [OF sub, of v]
      by (auto simp: PressureNext bp_inv_def pressure_defs Let_def split: strategy.split if_splits)
  next
    case DrainTurn
    have m: "mset (bp_buffer s) = add_mset (hd (bp_buffer s)) (mset (tl (bp_buffer s)))" if "bp_buffer s \<noteq> []"
      using that by (cases "bp_buffer s") auto
    show ?thesis using inv m by (auto simp: DrainTurn bp_inv_def pressure_defs Let_def)
  qed (use inv subseq_left [OF sub] in \<open>auto simp: bp_inv_def pressure_defs Let_def\<close>)
qed

text \<open>
  C36. Whatever the source, the consumer and the event loop do: the buffer stays within its size, what is
  handed over keeps the order of arrival, every value is handed over, dropped or still buffered as
  long as the sink is open, a waiting value always has a drain on its way, and the end is announced
  only when everything that was not dropped has been handed over.
\<close>

theorem backpressure_conserves:
  assumes "new_pressure n st = Some s0" and "s = fold pressure_step es s0"
  shows "int (length (bp_buffer s)) \<le> n \<and> subseq (bp_delivered s @ bp_buffer s) (bp_received s) \<and>
    (bp_buffer s = [] \<or> bp_drain s \<noteq> DrainIdle) \<and>
    (bp_closed s \<or> mset (bp_received s) = mset (bp_delivered s) + mset (bp_dropped s) + mset (bp_buffer s)) \<and>
    (bp_end s \<noteq> Some SignalComplete \<or> mset (bp_received s) = mset (bp_delivered s) + mset (bp_dropped s))"
proof -
  have s0: "bp_inv s0" "bp_maxBufferSize s0 = n" using assms(1) by (auto simp: new_pressure_def bp_inv_def split: if_splits)
  have inv: "bp_inv s" unfolding assms(2) by (rule pressure.run_inv [OF s0(1)])
  have "bp_maxBufferSize (pressure_step e t) = bp_maxBufferSize t" for e and t :: "'a pressure"
    by (cases e) (auto simp: pressure_defs Let_def split: strategy.split)
  then have "bp_maxBufferSize s = n" using pressure.run_const [of bp_maxBufferSize s0 es] s0 by (simp add: assms(2))
  with inv show ?thesis by (auto simp: bp_inv_def split: if_splits)
qed

theorem backpressure_conserves_witness:
  "\<exists>s0. new_pressure 1 DropOldest = Some s0 \<and>
    int (length (bp_buffer (fold pressure_step [PressureNext (1::nat), PressureNext 2, DrainTurn, DrainTurn] s0))) \<le> 1"
proof -
  obtain s0 :: "nat pressure" where s0: "new_pressure 1 DropOldest = Some s0" by (simp add: new_pressure_def)
  from backpressure_conserves [OF this refl, of "[PressureNext 1, PressureNext 2, DrainTurn, DrainTurn]"] s0 show ?thesis by blast
qed

section \<open>Sharing one source\<close>

text \<open>
  \<open>shareLatest\<close>. Subscribers are numbers in the order they came (\<open>sinks\<close>); a subscriber whose
  callback closes it (by throwing, or by unsubscribing) is listed with the delivery. \<open>sh_connecting\<close> is
  the subscriber on whose behalf the source is being started: its closure is installed (\<open>sh_armed\<close>)
  when the source has returned. \<open>terminated\<close> is set only while an end is handed out, in which nothing
  else happens here.
\<close>

datatype 'v share_event = Deliver nat 'v | DeliverEnd nat "unit signal" | Connected | Disconnected

record 'v share =
  sh_sinks :: "nat list"
  sh_teardown :: bool
  sh_connecting :: "nat option"
  sh_latest :: "'v option"
  sh_closed :: "nat list"
  sh_armed :: "nat list"
  sh_log :: "'v share_event list"

definition new_share :: "'v share" where
  "new_share = \<lparr>sh_sinks = [], sh_teardown = False, sh_connecting = None, sh_latest = None, sh_closed = [], sh_armed = [], sh_log = []\<rparr>"

definition share_reset :: "'v share \<Rightarrow> 'v share" where
  "share_reset s = s\<lparr>sh_teardown := False, sh_latest := None,
     sh_log := sh_log s @ (if sh_teardown s then [Disconnected] else [])\<rparr>"

text \<open>The closure a subscriber is given, and the closing of its sink, which runs it once.\<close>

definition share_leave :: "nat \<Rightarrow> 'v share \<Rightarrow> 'v share" where
  "share_leave i s =
     (let s1 = s\<lparr>sh_sinks := removeAll i (sh_sinks s)\<rparr> in if sh_sinks s1 = [] then share_reset s1 else s1)"

definition close_sink :: "nat \<Rightarrow> 'v share \<Rightarrow> 'v share" where
  "close_sink i s =
     (if i \<in> set (sh_closed s) then s
      else (let s1 = s\<lparr>sh_closed := i # sh_closed s\<rparr> in if i \<in> set (sh_armed s) then share_leave i s1 else s1))"

fun deliver_all :: "'v \<Rightarrow> nat list \<Rightarrow> nat list \<Rightarrow> 'v share \<Rightarrow> 'v share" where
  "deliver_all v closing [] s = s"
| "deliver_all v closing (i # is) s =
     deliver_all v closing is
       (if i \<in> set (sh_closed s) then s
        else (let s1 = s\<lparr>sh_log := sh_log s @ [Deliver i v]\<rparr> in if i \<in> set closing then close_sink i s1 else s1))"

definition share_next :: "'v \<Rightarrow> nat list \<Rightarrow> 'v share \<Rightarrow> 'v share" where
  "share_next v closing s = deliver_all v closing (sh_sinks s) (s\<lparr>sh_latest := Some v\<rparr>)"

fun end_all :: "unit signal \<Rightarrow> nat list \<Rightarrow> 'v share \<Rightarrow> 'v share" where
  "end_all x [] s = s"
| "end_all x (i # is) s =
     end_all x is
       (if i \<in> set (sh_closed s) then s
        else (let s1 = close_sink i s in s1\<lparr>sh_log := sh_log s1 @ [DeliverEnd i x]\<rparr>))"

definition share_end :: "unit signal \<Rightarrow> 'v share \<Rightarrow> 'v share" where
  "share_end x s = share_reset (end_all x (sh_sinks s) (s\<lparr>sh_sinks := []\<rparr>))"

text \<open>\<open>closes\<close>: the callback of the replayed value closes the new subscriber.\<close>

definition share_subscribe :: "nat \<Rightarrow> bool \<Rightarrow> 'v share \<Rightarrow> 'v share" where
  "share_subscribe i closes s =
     (let s1 = (case sh_latest s of
            None \<Rightarrow> s
          | Some v \<Rightarrow> (let t = s\<lparr>sh_log := sh_log s @ [Deliver i v]\<rparr> in if closes then close_sink i t else t))
      in if i \<in> set (sh_closed s1) then s1
         else (let s2 = s1\<lparr>sh_sinks := sh_sinks s1 @ [i]\<rparr>
               in if sh_teardown s2 then s2\<lparr>sh_armed := i # sh_armed s2\<rparr>
                  else s2\<lparr>sh_connecting := Some i, sh_log := sh_log s2 @ [Connected]\<rparr>))"

definition share_connected :: "'v share \<Rightarrow> 'v share" where
  "share_connected s = (case sh_connecting s of
     None \<Rightarrow> s
   | Some i \<Rightarrow> s\<lparr>sh_connecting := None, sh_teardown := True,
                sh_armed := (if i \<in> set (sh_closed s) then sh_armed s else i # sh_armed s)\<rparr>)"

definition share_failed :: "'v share \<Rightarrow> 'v share" where
  "share_failed s = (case sh_connecting s of
     None \<Rightarrow> s | Some i \<Rightarrow> close_sink i (s\<lparr>sh_connecting := None\<rparr>))"

datatype 'v share_step =
    ShareSubscribe nat bool
  | ShareConnected
  | ShareFailed
  | ShareNext 'v "nat list"
  | ShareEnd "unit signal"
  | ShareUnsubscribe nat

fun share_run :: "'v share_step \<Rightarrow> 'v share \<Rightarrow> 'v share" where
  "share_run (ShareSubscribe i closes) s = (if sh_connecting s \<noteq> None then s else share_subscribe i closes s)"
| "share_run ShareConnected s = share_connected s"
| "share_run ShareFailed s = share_failed s"
| "share_run (ShareNext v closing) s = share_next v closing s"
| "share_run (ShareEnd x) s = share_end x s"
| "share_run (ShareUnsubscribe i) s = (if i \<in> set (sh_armed s) then close_sink i s else s)"

text \<open>
  The steps under which sharing is sound: subscribers are new, and while the source is being started
  it neither fails nor ends, and the one subscriber stays.
\<close>

fun share_orderly :: "'v share_step \<Rightarrow> 'v share \<Rightarrow> bool" where
  "share_orderly (ShareSubscribe i closes) s \<longleftrightarrow> i \<notin> set (sh_closed s) \<and> i \<notin> set (sh_armed s) \<and> i \<notin> set (sh_sinks s)"
| "share_orderly ShareFailed s \<longleftrightarrow> sh_connecting s = None"
| "share_orderly (ShareNext v closing) s \<longleftrightarrow> (case sh_connecting s of None \<Rightarrow> True | Some c \<Rightarrow> c \<notin> set closing)"
| "share_orderly (ShareEnd x) s \<longleftrightarrow> sh_connecting s = None"
| "share_orderly _ s \<longleftrightarrow> True"

definition orderly_run :: "'v share_step \<Rightarrow> 'v share \<Rightarrow> 'v share" where
  "orderly_run e s = (if share_orderly e s then share_run e s else s)"

definition balance :: "'v share \<Rightarrow> int" where
  "balance s = int (count_list (sh_log s) Connected) - int (count_list (sh_log s) Disconnected)"

definition share_inv :: "'v share \<Rightarrow> bool" where
  "share_inv s \<longleftrightarrow> balance s = (if sh_teardown s \<or> sh_connecting s \<noteq> None then 1 else 0) \<and>
     (case sh_connecting s of
        None \<Rightarrow> sh_teardown s = (sh_sinks s \<noteq> []) \<and> set (sh_sinks s) = set (sh_armed s) - set (sh_closed s)
      | Some c \<Rightarrow> \<not> sh_teardown s \<and> sh_sinks s = [c] \<and> c \<notin> set (sh_closed s) \<and> c \<notin> set (sh_armed s) \<and>
          set (sh_armed s) \<subseteq> set (sh_closed s))"

lemmas share_defs = share_reset_def share_leave_def close_sink_def balance_def

definition idle_inv :: "'v share \<Rightarrow> bool" where
  "idle_inv s \<longleftrightarrow> share_inv s \<and> sh_connecting s = None"

lemma removeAll_Nil: "(removeAll i xs = []) = (set xs \<subseteq> {i})"
  by (induction xs) auto

lemma close_inv: "idle_inv s \<Longrightarrow> idle_inv (close_sink i s)"
  by (cases "sh_sinks s = []")
    (auto simp: idle_inv_def share_inv_def share_defs Let_def removeAll_Nil)

lemma log_inv: "idle_inv s \<Longrightarrow> idle_inv (s\<lparr>sh_log := sh_log s @ [Deliver i v]\<rparr>)"
  by (simp add: idle_inv_def share_inv_def balance_def split: option.splits)

lemma subscribe_inv:
  assumes "idle_inv s" and "i \<notin> set (sh_closed s)" and "i \<notin> set (sh_armed s)"
  shows "share_inv (share_subscribe i closes s)"
proof -
  define t where "t = (case sh_latest s of None \<Rightarrow> s | Some v \<Rightarrow> s\<lparr>sh_log := sh_log s @ [Deliver i v]\<rparr>)"
  have t: "idle_inv t" using assms(1) by (simp add: t_def log_inv split: option.split)
  have same: "sh_closed t = sh_closed s" "sh_armed t = sh_armed s" by (simp_all add: t_def split: option.split)
  have "share_subscribe i closes s =
    (if sh_latest s \<noteq> None \<and> closes then close_sink i t
     else if sh_teardown t then t\<lparr>sh_sinks := sh_sinks t @ [i], sh_armed := i # sh_armed t\<rparr>
     else t\<lparr>sh_sinks := sh_sinks t @ [i], sh_connecting := Some i, sh_log := sh_log t @ [Connected]\<rparr>)"
    using assms(2,3) by (auto simp: share_subscribe_def t_def close_sink_def Let_def split: option.split)
  moreover have "share_inv (close_sink i t)" using close_inv [OF t] by (simp add: idle_inv_def)
  moreover have "share_inv (t\<lparr>sh_sinks := sh_sinks t @ [i], sh_armed := i # sh_armed t\<rparr>)" if "sh_teardown t"
    using t that assms(2) same by (auto simp: idle_inv_def share_inv_def balance_def)
  moreover have "share_inv (t\<lparr>sh_sinks := sh_sinks t @ [i], sh_connecting := Some i, sh_log := sh_log t @ [Connected]\<rparr>)"
    if "\<not> sh_teardown t"
    using t that assms(2,3) same by (auto simp: idle_inv_def share_inv_def balance_def) blast
  ultimately show ?thesis by simp
qed

lemma deliver_inv: "idle_inv s \<Longrightarrow> idle_inv (deliver_all v closing is s)"
  by (induction v closing "is" s rule: deliver_all.induct) (simp_all add: Let_def close_inv log_inv)

lemma deliver_connecting:
  "share_inv s \<Longrightarrow> sh_connecting s = Some c \<Longrightarrow> c \<notin> set closing \<Longrightarrow>
   share_inv (deliver_all v closing [c] s)"
  by (simp add: share_inv_def balance_def Let_def)

definition ending_inv :: "'v share \<Rightarrow> bool" where
  "ending_inv s \<longleftrightarrow> sh_sinks s = [] \<and> sh_connecting s = None \<and> balance s = (if sh_teardown s then 1 else 0)"

lemma end_all_inv:
  "ending_inv s \<Longrightarrow> ending_inv (end_all x is s) \<and> set (sh_closed (end_all x is s)) = set (sh_closed s) \<union> set is \<and>
     sh_armed (end_all x is s) = sh_armed s"
proof (induction x "is" s rule: end_all.induct)
  case (2 x i "is" s)
  have "ending_inv (close_sink i s)" using 2(2) by (auto simp: ending_inv_def share_defs Let_def)
  then have "ending_inv ((close_sink i s)\<lparr>sh_log := sh_log (close_sink i s) @ [DeliverEnd i x]\<rparr>)"
    by (simp add: ending_inv_def balance_def)
  moreover have "set (sh_closed (close_sink i s)) = insert i (set (sh_closed s))" "sh_armed (close_sink i s) = sh_armed s"
    by (auto simp: share_defs Let_def)
  ultimately show ?case using 2 by (simp add: Let_def insert_absorb)
qed simp

interpretation share: step_system orderly_run share_inv
proof unfold_locales
  fix s :: "'v share" and e
  assume inv: "share_inv s"
  show "share_inv (orderly_run e s)"
  proof (cases "share_orderly e s")
    case True
    show ?thesis
    proof (cases e)
      case (ShareSubscribe i closes)
      then show ?thesis using inv True subscribe_inv [of s i closes]
        by (cases "sh_connecting s") (simp_all add: orderly_run_def idle_inv_def)
    next
      case ShareConnected
      with inv show ?thesis by (auto simp: orderly_run_def share_connected_def share_inv_def balance_def split: option.splits)
    next
      case ShareFailed
      with inv True show ?thesis by (simp add: orderly_run_def share_failed_def)
    next
      case (ShareNext v closing)
      have l: "share_inv (s\<lparr>sh_latest := Some v\<rparr>)" using inv by (simp add: share_inv_def balance_def split: option.splits)
      show ?thesis
      proof (cases "sh_connecting s")
        case None
        with l have "idle_inv (s\<lparr>sh_latest := Some v\<rparr>)" by (simp add: idle_inv_def)
        then have "idle_inv (share_next v closing s)" unfolding share_next_def by (rule deliver_inv)
        with ShareNext True show ?thesis by (simp add: orderly_run_def idle_inv_def)
      next
        case (Some c)
        with inv have "sh_sinks s = [c]" by (simp add: share_inv_def)
        with ShareNext True Some deliver_connecting [OF l, of c closing v] show ?thesis
          by (simp add: orderly_run_def share_next_def)
      qed
    next
      case (ShareEnd x)
      with True have n: "sh_connecting s = None" by simp
      define t where "t = end_all x (sh_sinks s) (s\<lparr>sh_sinks := []\<rparr>)"
      have "ending_inv (s\<lparr>sh_sinks := []\<rparr>)" using inv n by (auto simp: ending_inv_def share_inv_def balance_def)
      then have "ending_inv t" "set (sh_closed t) = set (sh_closed s) \<union> set (sh_sinks s)" "sh_armed t = sh_armed s"
        using end_all_inv [of "s\<lparr>sh_sinks := []\<rparr>" x "sh_sinks s"] by (simp_all add: t_def)
      moreover have "set (sh_sinks s) = set (sh_armed s) - set (sh_closed s)" using inv n by (simp add: share_inv_def)
      ultimately have "share_inv (share_reset t)"
        by (auto simp: share_inv_def ending_inv_def share_reset_def balance_def)
      then show ?thesis using True by (simp add: ShareEnd orderly_run_def share_end_def t_def)
    next
      case (ShareUnsubscribe i)
      show ?thesis
      proof (cases "sh_connecting s")
        case None
        with inv close_inv [of s i] show ?thesis by (simp add: ShareUnsubscribe orderly_run_def idle_inv_def)
      next
        case (Some c)
        with inv have "i \<in> set (sh_armed s) \<Longrightarrow> i \<in> set (sh_closed s)" by (auto simp: share_inv_def)
        then have "share_run e s = s" by (simp add: ShareUnsubscribe close_sink_def)
        with inv show ?thesis by (simp add: orderly_run_def)
      qed
    qed
  qed (simp add: orderly_run_def inv)
qed



section \<open>Where sharing breaks\<close>

text \<open>
  A source that ends while it is being started is never stopped, and whoever subscribes later is
  never connected to anything.
\<close>

lemma early_end_blocks_source:
  "sh_log (fold share_run [ShareSubscribe 1 False, ShareEnd SignalComplete, ShareConnected, ShareSubscribe 2 False, ShareUnsubscribe 2]
     (new_share :: nat share)) = [Connected, DeliverEnd 1 SignalComplete, Disconnected]"
  "count_list (sh_log (fold share_run [ShareSubscribe 1 False, ShareEnd SignalComplete, ShareConnected, ShareSubscribe 2 False, ShareSubscribe 3 False]
     (new_share :: nat share))) Connected = 1"
  by code_simp+

text \<open>A consumer that throws at a value the source emits while it is started leaves the source running for nobody.\<close>

lemma early_throw_keeps_source:
  "sh_log (fold share_run [ShareSubscribe 1 False, ShareNext (5::nat) [1], ShareConnected] new_share) = [Connected, Deliver 1 5]"
  "sh_teardown (fold share_run [ShareSubscribe 1 False, ShareNext (5::nat) [1], ShareConnected] new_share)"
  by code_simp+

text \<open>A source that fails to start leaves a dead subscriber behind, so the source of the others never stops.\<close>

lemma failed_start_keeps_source:
  "sh_teardown (fold share_run [ShareSubscribe 1 False, ShareFailed, ShareSubscribe 2 False, ShareConnected, ShareUnsubscribe 2]
     (new_share :: nat share))"
  by code_simp

text \<open>A source that emits once more after it was stopped has its value replayed to the next subscriber.\<close>

lemma late_value_replayed:
  "sh_log (fold share_run [ShareSubscribe 1 False, ShareConnected, ShareUnsubscribe 1, ShareNext (9::nat) [], ShareSubscribe 2 False] new_share) =
     [Connected, Disconnected, Deliver 2 9, Connected]"
  by code_simp

end
