(* ===== verification/CrossTab.thy ===== *)
theory CrossTab
  imports Prelude
begin

text \<open>
  The event bus (\<open>src/eventBus.ts\<close>) and the synchronisation of tabs (\<open>src/crossTabSync.ts\<close>). Handlers are
  numbers and do not change the bus while they run; payloads are the parameter type. A posted message
  is delivered by the browser in a task of its own, after which a timer of the tab fires.
\<close>

section \<open>The bus\<close>

type_synonym event_bus = "(string, nat list) jsmap"

definition eb_on :: "string \<Rightarrow> nat \<Rightarrow> event_bus \<Rightarrow> event_bus" where
  "eb_on ev h b = (let hs = (case map_get b ev of None \<Rightarrow> [] | Some hs \<Rightarrow> hs) in map_set ev (if h \<in> set hs then hs else hs @ [h]) b)"

definition eb_off :: "string \<Rightarrow> nat \<Rightarrow> event_bus \<Rightarrow> event_bus" where
  "eb_off ev h b = (case map_get b ev of None \<Rightarrow> b | Some hs \<Rightarrow> map_set ev (removeAll h hs) b)"

text \<open>The handlers that are called, and whether one of them threw, which ends the dispatch.\<close>

fun call_handlers :: "nat set \<Rightarrow> nat list \<Rightarrow> nat list \<times> bool" where
  "call_handlers throwing [] = ([], False)"
| "call_handlers throwing (h # hs) =
     (if h \<in> throwing then ([h], True) else (case call_handlers throwing hs of (cs, t) \<Rightarrow> (h # cs, t)))"

definition eb_emit :: "nat set \<Rightarrow> string \<Rightarrow> event_bus \<Rightarrow> nat list \<times> bool" where
  "eb_emit throwing ev b = (case map_get b ev of None \<Rightarrow> ([], False) | Some hs \<Rightarrow> call_handlers throwing hs)"

section \<open>Messages\<close>

record 'd tab_message =
  tm_origin :: string
  tm_event :: string
  tm_data :: 'd
  tm_ts :: int
  tm_seq :: nat

text \<open>\<open>a < b\<close> on strings compares code units from the left.\<close>

fun text_less :: "string \<Rightarrow> string \<Rightarrow> bool" where
  "text_less _ [] = False"
| "text_less [] (y # ys) = True"
| "text_less (x # xs) (y # ys) = ((of_char x :: nat) < of_char y \<or> x = y \<and> text_less xs ys)"

definition compareTabMessages :: "'d tab_message \<Rightarrow> 'd tab_message \<Rightarrow> int" where
  "compareTabMessages a b =
     (if tm_ts a \<noteq> tm_ts b then tm_ts a - tm_ts b
      else if tm_seq a \<noteq> tm_seq b then int (tm_seq a) - int (tm_seq b)
      else if text_less (tm_origin a) (tm_origin b) then - 1
      else if text_less (tm_origin b) (tm_origin a) then 1 else 0)"

section \<open>A tab\<close>

datatype 'd tab_log =
    Posted "'d tab_message"
  | Passed string 'd
  | ChannelClosed
  | WaiterResolved nat

record 'd cross_tab =
  ct_channel :: bool
  ct_originId :: string
  ct_pendingBroadcasts :: nat
  ct_destroyRequested :: bool
  ct_destroyed :: bool
  ct_waiters :: "nat list"
  ct_seq :: nat
  ct_log :: "'d tab_log list"

text \<open>\<open>available\<close>: synchronisation is enabled and the browser has channels.\<close>

definition new_cross_tab :: "bool \<Rightarrow> string \<Rightarrow> 'd cross_tab" where
  "new_cross_tab available origin =
     \<lparr>ct_channel = available, ct_originId = origin, ct_pendingBroadcasts = 0, ct_destroyRequested = False,
      ct_destroyed = False, ct_waiters = [], ct_seq = 0, ct_log = []\<rparr>"

definition ct_active :: "'d cross_tab \<Rightarrow> bool" where
  "ct_active s \<longleftrightarrow> ct_channel s \<and> \<not> ct_destroyRequested s"

text \<open>A message of the channel; \<open>None\<close> is not one of this protocol. A closed channel delivers nothing.\<close>

definition ct_receive :: "'d tab_message option \<Rightarrow> 'd cross_tab \<Rightarrow> 'd cross_tab" where
  "ct_receive msg s =
     (if \<not> ct_channel s \<or> ct_destroyRequested s then s
      else (case msg of
          None \<Rightarrow> s
        | Some m \<Rightarrow> if tm_origin m = ct_originId s then s else s\<lparr>ct_log := ct_log s @ [Passed (tm_event m) (tm_data m)]\<rparr>))"

text \<open>\<open>clones\<close>: the payload can be cloned. The number of the message is used up either way.\<close>

definition ct_broadcast :: "int \<Rightarrow> bool \<Rightarrow> string \<Rightarrow> 'd \<Rightarrow> 'd cross_tab \<Rightarrow> 'd cross_tab" where
  "ct_broadcast now clones ev d s =
     (if \<not> ct_channel s \<or> ct_destroyRequested s then s
      else if \<not> clones then s\<lparr>ct_seq := ct_seq s + 1\<rparr>
      else s\<lparr>ct_seq := ct_seq s + 1, ct_pendingBroadcasts := ct_pendingBroadcasts s + 1,
             ct_log := ct_log s @ [Posted \<lparr>tm_origin = ct_originId s, tm_event = ev, tm_data = d, tm_ts = now, tm_seq = ct_seq s\<rparr>]\<rparr>)"

definition ct_teardown :: "'d cross_tab \<Rightarrow> 'd cross_tab" where
  "ct_teardown s =
     s\<lparr>ct_destroyed := True, ct_channel := False, ct_waiters := [],
       ct_log := ct_log s @ (if ct_channel s then [ChannelClosed] else []) @ map WaiterResolved (ct_waiters s)\<rparr>"

definition maybeTeardown :: "'d cross_tab \<Rightarrow> 'd cross_tab" where
  "maybeTeardown s =
     (if ct_destroyed s \<or> \<not> ct_destroyRequested s \<or> ct_pendingBroadcasts s > 0 then s else ct_teardown s)"

definition ct_timer :: "'d cross_tab \<Rightarrow> 'd cross_tab" where
  "ct_timer s =
     (if ct_pendingBroadcasts s = 0 then s else maybeTeardown (s\<lparr>ct_pendingBroadcasts := ct_pendingBroadcasts s - 1\<rparr>))"

definition ct_destroy :: "'d cross_tab \<Rightarrow> 'd cross_tab" where
  "ct_destroy s = maybeTeardown (s\<lparr>ct_destroyRequested := True\<rparr>)"

definition ct_destroyAsync :: "nat \<Rightarrow> 'd cross_tab \<Rightarrow> 'd cross_tab" where
  "ct_destroyAsync w s =
     (let s1 = ct_destroy s
      in if ct_destroyed s1 then s1\<lparr>ct_log := ct_log s1 @ [WaiterResolved w]\<rparr> else s1\<lparr>ct_waiters := ct_waiters s1 @ [w]\<rparr>)"

text \<open>The bus of a client with synchronisation: the local handlers first; if one throws, nothing is sent.\<close>

definition ctb_emit ::
    "nat set \<Rightarrow> int \<Rightarrow> bool \<Rightarrow> string \<Rightarrow> 'd \<Rightarrow> event_bus \<Rightarrow> 'd cross_tab option \<Rightarrow> 'd cross_tab option \<times> nat list \<times> bool" where
  "ctb_emit throwing now clones ev d b relay =
     (case eb_emit throwing ev b of
        (cs, True) \<Rightarrow> (relay, cs, True)
      | (cs, False) \<Rightarrow> (map_option (ct_broadcast now clones ev d) relay, cs, False))"

section \<open>Steps\<close>

datatype 'd tab_event =
    TabReceive "'d tab_message option"
  | TabBroadcast int bool string 'd
  | TabTimer
  | TabDestroy
  | TabDestroyAsync nat

fun tab_step :: "'d tab_event \<Rightarrow> 'd cross_tab \<Rightarrow> 'd cross_tab" where
  "tab_step (TabReceive m) s = ct_receive m s"
| "tab_step (TabBroadcast now c ev d) s = ct_broadcast now c ev d s"
| "tab_step TabTimer s = ct_timer s"
| "tab_step TabDestroy s = ct_destroy s"
| "tab_step (TabDestroyAsync w) s = ct_destroyAsync w s"

lemmas tab_defs = ct_receive_def ct_broadcast_def ct_teardown_def maybeTeardown_def ct_timer_def ct_destroy_def ct_destroyAsync_def

definition posted :: "'d tab_log list \<Rightarrow> 'd tab_message list" where
  "posted log = List.map_filter (\<lambda>x. case x of Posted m \<Rightarrow> Some m | _ \<Rightarrow> None) log"

text \<open>Torn down exactly when destruction was asked for and every posted message had its turn.\<close>

definition ct_inv :: "'d cross_tab \<Rightarrow> bool" where
  "ct_inv s \<longleftrightarrow> (ct_destroyed s = (ct_destroyRequested s \<and> ct_pendingBroadcasts s = 0)) \<and>
     (ct_destroyed s \<longrightarrow> \<not> ct_channel s \<and> ct_waiters s = []) \<and> (\<not> ct_destroyRequested s \<longrightarrow> ct_waiters s = [])"

interpretation tab: step_system tab_step ct_inv
proof unfold_locales
  fix s :: "'d cross_tab" and e
  assume "ct_inv s"
  then show "ct_inv (tab_step e s)"
    by (cases e) (auto simp: ct_inv_def tab_defs Let_def split: option.split)
qed

section \<open>The order of messages\<close>

lemma text_less_total: "\<not> text_less x y \<Longrightarrow> \<not> text_less y x \<Longrightarrow> x = y"
proof (induction x y rule: text_less.induct)
  case (3 x xs y ys)
  then have "(of_char x :: nat) = of_char y" by auto
  then have "x = y" by (metis char_of_char)
  with 3 show ?case by auto
qed (auto elim: text_less.elims)

lemma text_less_irrefl: "\<not> text_less x x"
  by (induction x) auto

lemma text_less_trans: "text_less x y \<Longrightarrow> text_less y z \<Longrightarrow> text_less x z"
proof (induction x arbitrary: y z)
  case Nil
  then show ?case by (cases z) (auto elim: text_less.elims)
next
  case (Cons c x)
  then show ?case by (cases y; cases z) auto
qed

lemma text_less_asym: "text_less x y \<Longrightarrow> \<not> text_less y x"
  using text_less_trans [of x y x] text_less_irrefl by blast

definition tab_key :: "'d tab_message \<Rightarrow> int \<times> nat \<times> string" where
  "tab_key m = (tm_ts m, tm_seq m, tm_origin m)"

lemma compare_less: "compareTabMessages a b < 0 \<longleftrightarrow> tm_ts a < tm_ts b \<or> tm_ts a = tm_ts b \<and>
    (tm_seq a < tm_seq b \<or> tm_seq a = tm_seq b \<and> text_less (tm_origin a) (tm_origin b))"
  using text_less_asym by (auto simp: compareTabMessages_def)

text \<open>The comparison is a strict total order of the stamps: every tab arranges the same messages alike.\<close>

lemma compare_total_order:
  "(compareTabMessages a b < 0) = (compareTabMessages b a > 0)"
  "(compareTabMessages a b = 0) = (tab_key a = tab_key b)"
  "compareTabMessages a b < 0 \<Longrightarrow> compareTabMessages b c < 0 \<Longrightarrow> compareTabMessages a c < 0"
proof -
  show "(compareTabMessages a b < 0) = (compareTabMessages b a > 0)"
    using text_less_asym text_less_irrefl by (auto simp: compareTabMessages_def)
  show "(compareTabMessages a b = 0) = (tab_key a = tab_key b)"
    using text_less_total [of "tm_origin a" "tm_origin b"] text_less_irrefl by (auto simp: compareTabMessages_def tab_key_def)
  show "compareTabMessages a b < 0 \<Longrightarrow> compareTabMessages b c < 0 \<Longrightarrow> compareTabMessages a c < 0"
    unfolding compare_less using text_less_trans [of "tm_origin a" "tm_origin b" "tm_origin c"] by auto
qed

fun event_time :: "'d tab_event \<Rightarrow> int list" where
  "event_time (TabBroadcast now c ev d) = [now]"
| "event_time _ = []"

lemma posted_append [simp]: "posted (xs @ ys) = posted xs @ posted ys"
  by (simp add: posted_def List.map_filter_def)

lemma posted_step:
  "posted (ct_log (tab_step e s)) = posted (ct_log s) \<or>
   (\<exists>m now. event_time e = [now] \<and> posted (ct_log (tab_step e s)) = posted (ct_log s) @ [m] \<and> tm_ts m = now \<and>
      tm_seq m = ct_seq s \<and> ct_seq (tab_step e s) = ct_seq s + 1 \<and> \<not> ct_destroyRequested s)"
  by (cases e) (auto simp: tab_defs Let_def posted_def map_filter_def comp_def split: option.split)

lemma seq_grows: "ct_seq s \<le> ct_seq (tab_step e s)"
  by (cases e) (auto simp: tab_defs Let_def split: option.split)

definition sent_before :: "int \<Rightarrow> 'd cross_tab \<Rightarrow> bool" where
  "sent_before t s \<longleftrightarrow> sorted_wrt (\<lambda>a b. compareTabMessages a b < 0) (posted (ct_log s)) \<and>
     (\<forall>m\<in>set (posted (ct_log s)). tm_ts m \<le> t \<and> tm_seq m < ct_seq s)"

lemma sent_before_step:
  assumes "sent_before t s" and "\<forall>now\<in>set (event_time e). t \<le> now"
  shows "sent_before (last (t # event_time e)) (tab_step e s)"
  using posted_step [of e s]
proof
  assume "posted (ct_log (tab_step e s)) = posted (ct_log s)"
  moreover have "t \<le> last (t # event_time e)" using assms(2) by (cases e) auto
  ultimately show ?thesis using assms(1) seq_grows [of s e] by (fastforce simp: sent_before_def)
next
  assume "\<exists>m now. event_time e = [now] \<and> posted (ct_log (tab_step e s)) = posted (ct_log s) @ [m] \<and> tm_ts m = now \<and>
      tm_seq m = ct_seq s \<and> ct_seq (tab_step e s) = ct_seq s + 1 \<and> \<not> ct_destroyRequested s"
  then obtain m now where m: "event_time e = [now]" "posted (ct_log (tab_step e s)) = posted (ct_log s) @ [m]"
    "tm_ts m = now" "tm_seq m = ct_seq s" "ct_seq (tab_step e s) = ct_seq s + 1" by blast
  with assms have le: "t \<le> now" by simp
  have "compareTabMessages a m < 0" if "a \<in> set (posted (ct_log s))" for a
    using assms(1) that le m by (auto simp: sent_before_def compare_less)
  moreover have "tm_ts a \<le> now \<and> tm_seq a < ct_seq s + 1" if "a \<in> set (posted (ct_log s))" for a
    using assms(1) that le by (auto simp: sent_before_def)
  ultimately show ?thesis using assms(1) m by (auto simp: sent_before_def sorted_wrt_append)
qed

text \<open>
  As long as its clock does not run backwards, the messages of a tab are posted in the order every
  receiver sorts them into, and none is posted after the tab was told to stop.
\<close>

theorem tab_messages_ordered:
  assumes "sorted (concat (map event_time es))"
  shows "sorted_wrt (\<lambda>a b. compareTabMessages a b < 0) (posted (ct_log (fold tab_step es (new_cross_tab available origin))))"
proof -
  have "\<exists>u. sent_before u (fold tab_step es s)"
    if "sent_before t s" "sorted (t # concat (map event_time es))" for t and s :: "'a cross_tab"
    using that
  proof (induction es arbitrary: t s)
    case (Cons e es)
    have "sent_before (last (t # event_time e)) (tab_step e s)"
      using Cons.prems by (intro sent_before_step) auto
    moreover have "sorted (last (t # event_time e) # concat (map event_time es))"
      using Cons.prems(2) by (cases e) auto
    ultimately show ?case using Cons.IH by simp
  qed auto
  moreover have "sorted (Min (set (0 # concat (map event_time es))) # concat (map event_time es))"
    using assms by (auto intro: Min_le)
  moreover have "sent_before t (new_cross_tab available origin :: 'a cross_tab)" for t
    by (simp add: sent_before_def new_cross_tab_def posted_def)
  ultimately obtain u where "sent_before u (fold tab_step es (new_cross_tab available origin :: 'a cross_tab))" by blast
  then show ?thesis by (simp add: sent_before_def)
qed

text \<open>
  A tab that is told to stop neither posts nor passes anything on any more; it closes its channel and
  answers all who wait for that exactly when the last posted message has had its turn.
\<close>

theorem tab_stops_cleanly:
  assumes "s = fold tab_step es (new_cross_tab available origin)"
  shows "ct_destroyed s = (ct_destroyRequested s \<and> ct_pendingBroadcasts s = 0) \<and>
    (\<not> ct_destroyed s \<or> ct_waiters s = [] \<and> \<not> ct_channel s) \<and>
    (\<not> ct_destroyRequested s \<or> ct_receive m s = s \<and> ct_broadcast now clones ev d s = s)"
proof -
  have "ct_inv (new_cross_tab available origin :: 'a cross_tab)" by (simp add: ct_inv_def new_cross_tab_def)
  then have "ct_inv s" unfolding assms by (rule tab.run_inv)
  then show ?thesis by (auto simp: ct_inv_def ct_receive_def ct_broadcast_def)
qed

lemma handlers_throw: "snd (call_handlers throwing hs) = (\<exists>h\<in>set hs. h \<in> throwing)"
  by (induction hs) (auto split: prod.split)

text \<open>A local handler that throws keeps the event from the other tabs.\<close>

lemma throwing_handler_silences_tabs:
  "map_get b ev = Some hs \<Longrightarrow> h \<in> set hs \<Longrightarrow> h \<in> throwing \<Longrightarrow> fst (ctb_emit throwing now clones ev d b relay) = relay"
  using handlers_throw [of throwing hs] by (auto simp: ctb_emit_def eb_emit_def split: prod.split bool.split)

theorem tab_messages_ordered_witness:
  "sorted_wrt (\<lambda>a b. compareTabMessages a b < 0) (posted (ct_log
     (fold tab_step [TabBroadcast 5 True ''a'' (1::nat), TabBroadcast 5 False ''b'' 2, TabBroadcast 5 True ''c'' 3] (new_cross_tab True ''t''))))"
  using tab_messages_ordered [of "[TabBroadcast 5 True ''a'' (1::nat), TabBroadcast 5 False ''b'' 2, TabBroadcast 5 True ''c'' 3]" True "''t''"]
  by simp

theorem tab_stops_cleanly_witness:
  "ct_destroyRequested (fold tab_step [TabBroadcast 5 True ''a'' (1::nat), TabDestroyAsync 4, TabTimer] (new_cross_tab True ''t'')) \<and>
   ct_destroyed (fold tab_step [TabBroadcast 5 True ''a'' (1::nat), TabDestroyAsync 4, TabTimer] (new_cross_tab True ''t''))"
  using tab_stops_cleanly [OF refl, of "[TabBroadcast 5 True ''a'' (1::nat), TabDestroyAsync 4, TabTimer]" True "''t''"]
  by (simp add: tab_defs new_cross_tab_def)

end
