(* ===== verification/BatchReads.thy ===== *)
theory BatchReads
  imports ClientReads
begin

text \<open>
  Reading many streams or balances at once (\<open>getStreamsBatch\<close>, \<open>getMultipleStreamBalances\<close> and
  \<open>simulateClaimableBatch\<close> of \<open>src/SoroStreamClient.ts\<close>). A batch is split at its awaits: the plan after
  the ledger waits, the answer of each chunk, and the result when all chunks have settled. A chunk
  that joins a request of another caller returns what that request returns. The chunk size is a
  whole number.
\<close>

section \<open>Streams\<close>

definition valid_stream_id :: "string \<Rightarrow> bool" where
  "valid_stream_id i \<longleftrightarrow> i \<noteq> [] \<and> list_all is_digit i"

datatype batch_read_error = InvalidBatchId string | BatchStreamMissing string | ChunkFailed

definition batch_requested :: "string list \<Rightarrow> batch_read_error + string list" where
  "batch_requested ids = (case List.find (\<lambda>i. \<not> valid_stream_id i) ids of
     Some i \<Rightarrow> Inl (InvalidBatchId i) | None \<Rightarrow> Inr (first_occurrences ids))"

record batch_read =
  br_network :: network
  br_requested :: "string list"
  br_resolved :: "(string, stream) jsmap"
  br_cached :: "string list"
  br_toFetch :: "string list"

text \<open>The first pass: what the cache has. A stream that was written to within the window is not asked of it.\<close>

fun batch_lookup :: "network \<Rightarrow> bool \<Rightarrow> string set \<Rightarrow> int \<Rightarrow> string list \<Rightarrow> batch_read \<Rightarrow> client \<Rightarrow> client \<times> batch_read" where
  "batch_lookup net useCache bypass now [] b s = (s, b)"
| "batch_lookup net useCache bypass now (i # is) b s =
     (case (if i \<notin> bypass \<and> useCache then cache_get (net, i) now (cl_streams s) else (cl_streams s, None)) of
        (c, Some v) \<Rightarrow> batch_lookup net useCache bypass now is
            (b\<lparr>br_resolved := map_set i v (br_resolved b), br_cached := br_cached b @ [i]\<rparr>) (s\<lparr>cl_streams := c\<rparr>)
      | (c, None) \<Rightarrow> batch_lookup net useCache bypass now is (b\<lparr>br_toFetch := br_toFetch b @ [i]\<rparr>) (s\<lparr>cl_streams := c\<rparr>))"

text \<open>\<open>net\<close> is the network at the time of the call, before the ledger waits.\<close>

definition batch_plan :: "network \<Rightarrow> bool \<Rightarrow> int \<Rightarrow> string list \<Rightarrow> client \<Rightarrow> client \<times> batch_read" where
  "batch_plan net useCache now requested s =
     batch_lookup net useCache (if useCache then {i \<in> set requested. shouldBypassCache i now s} else {}) now requested
       \<lparr>br_network = net, br_requested = requested, br_resolved = [], br_cached = [], br_toFetch = []\<rparr> s"

definition chunk_size :: "int option \<Rightarrow> int \<Rightarrow> nat" where
  "chunk_size asked default_size = nat (max 1 (case asked of Some n \<Rightarrow> n | None \<Rightarrow> default_size))"

function chunks_of :: "nat \<Rightarrow> 'a list \<Rightarrow> 'a list list" where
  "chunks_of n xs = (if xs = [] \<or> n = 0 then [] else take n xs # chunks_of n (drop n xs))"
  by pat_completeness auto
termination by (relation "measure (\<lambda>(n, xs). length xs)") auto

declare chunks_of.simps [simp del]

text \<open>
  The answer of a simulation of \<open>get_streams\<close>: the decoded entries (\<open>None\<close>: null), or none when it
  failed, had no value or was not an array; then each stream is read on its own (\<open>individually\<close>, a
  missing one is \<open>None\<close>), unless the fallback is off.
\<close>

datatype chunk_answer = ChunkEntries "stream option list" | ChunkUnusable

definition fetchStreamChunk ::
    "network \<Rightarrow> bool \<Rightarrow> chunk_answer \<Rightarrow> (string \<Rightarrow> stream option) \<Rightarrow> string list \<Rightarrow> int \<Rightarrow> client \<Rightarrow> client \<times> stream list" where
  "fetchStreamChunk net fallback answer individually chunk now s = (case answer of
     ChunkUnusable \<Rightarrow> (s, if fallback then List.map_filter individually chunk else [])
   | ChunkEntries entries \<Rightarrow>
       (let vs = List.map_filter (\<lambda>x. x) entries
        in (if net = cl_network s
            then s\<lparr>cl_streams := fold (\<lambda>v c. cache_set (net, stream_id v) v None now c) vs (cl_streams s)\<rparr> else s, vs)))"

text \<open>A chunk of this batch: its own request, after which the write records of what it read are consumed, or another's.\<close>

datatype chunk_result = OwnChunk chunk_answer "string \<Rightarrow> stream option" int | JoinedChunk "stream list"

definition run_chunk :: "network \<Rightarrow> bool \<Rightarrow> chunk_result \<Rightarrow> string list \<Rightarrow> client \<Rightarrow> client \<times> stream list" where
  "run_chunk net fallback r chunk s = (case r of
     JoinedChunk vs \<Rightarrow> (s, vs)
   | OwnChunk answer individually now \<Rightarrow>
       (case fetchStreamChunk net fallback answer individually chunk now s of
          (s1, vs) \<Rightarrow> (s1\<lparr>cl_lastWriteAt := fold map_del (map stream_id vs) (cl_lastWriteAt s1)\<rparr>, vs)))"

record batch_result =
  bres_streams :: "stream list"
  bres_missing :: "string list"
  bres_cached :: "string list"
  bres_rpcCalls :: nat

definition resolve_all :: "stream list list \<Rightarrow> (string, stream) jsmap \<Rightarrow> (string, stream) jsmap" where
  "resolve_all fetched m = foldl (\<lambda>m v. map_set (stream_id v) v m) m (concat fetched)"

definition batch_finish :: "bool \<Rightarrow> nat \<Rightarrow> stream list list \<Rightarrow> batch_read \<Rightarrow> batch_read_error + batch_result" where
  "batch_finish strict calls fetched b =
     (let resolved = resolve_all fetched (br_resolved b);
          missing = filter (\<lambda>i. \<not> map_has resolved i) (br_requested b)
      in if missing \<noteq> [] \<and> strict then Inl (BatchStreamMissing (hd missing))
         else Inr \<lparr>bres_streams = List.map_filter (map_get resolved) (br_requested b), bres_missing = missing,
                   bres_cached = br_cached b, bres_rpcCalls = calls\<rparr>)"

text \<open>The chunks settle one after the other, in their order; between them other code may act.\<close>

fun run_chunks ::
    "network \<Rightarrow> bool \<Rightarrow> (chunk_result \<times> (client \<Rightarrow> client)) list \<Rightarrow> string list list \<Rightarrow> client \<Rightarrow> client \<times> stream list list" where
  "run_chunks net fallback (r # rs) (c # cs) s =
     (case run_chunk net fallback (fst r) c (snd r s) of (s1, vs) \<Rightarrow>
      (case run_chunks net fallback rs cs s1 of (s2, rest) \<Rightarrow> (s2, vs # rest)))"
| "run_chunks net fallback _ _ s = (s, [])"

definition own_chunks :: "(chunk_result \<times> (client \<Rightarrow> client)) list \<Rightarrow> nat" where
  "own_chunks rs = length (filter (\<lambda>r. case fst r of OwnChunk a i n \<Rightarrow> True | JoinedChunk v \<Rightarrow> False) rs)"

record batch_options =
  bo_useCache :: bool
  bo_chunkSize :: "int option"
  bo_strict :: bool
  bo_fallback :: bool

text \<open>The whole batch, after the ledger waits have succeeded; one settled request for each chunk.\<close>

definition client_getStreamsBatch ::
    "network \<Rightarrow> int \<Rightarrow> batch_options \<Rightarrow> string list \<Rightarrow> (chunk_result \<times> (client \<Rightarrow> client)) list \<Rightarrow> int \<Rightarrow> client \<Rightarrow>
     client \<times> (batch_read_error + batch_result)" where
  "client_getStreamsBatch net default_size bo ids rs now s =
     (case batch_requested ids of
        Inl e \<Rightarrow> (s, Inl e)
      | Inr requested \<Rightarrow>
          (case batch_plan net (bo_useCache bo) now requested s of (s1, b) \<Rightarrow>
           (let cs = chunks_of (chunk_size (bo_chunkSize bo) default_size) (br_toFetch b)
            in if length rs < length cs then (s1, Inl ChunkFailed)
               else (case run_chunks net (bo_fallback bo) (take (length cs) rs) cs s1 of (s2, fetched) \<Rightarrow>
                 (s2, batch_finish (bo_strict bo) (own_chunks (take (length cs) rs)) fetched b)))))"

section \<open>Chunks\<close>

lemma chunks_concat: "0 < n \<Longrightarrow> concat (chunks_of n xs) = xs"
proof (induction n xs rule: chunks_of.induct)
  case (1 n xs)
  then show ?case by (subst chunks_of.simps) simp
qed

lemma chunks_bounded: "c \<in> set (chunks_of n xs) \<Longrightarrow> length c \<le> n \<and> c \<noteq> []"
proof (induction n xs rule: chunks_of.induct)
  case (1 n xs)
  then show ?case by (subst (asm) chunks_of.simps) (auto split: if_splits)
qed

lemma chunks_count: "0 < n \<Longrightarrow> length (chunks_of n xs) = (length xs + n - 1) div n"
proof (induction n xs rule: chunks_of.induct)
  case (1 n xs)
  show ?case
  proof (cases "xs = []")
    case True
    with 1(2) show ?thesis by (subst chunks_of.simps) simp
  next
    case False
    then have "length (chunks_of n xs) = Suc ((length xs - n + n - 1) div n)"
      using 1 by (subst chunks_of.simps) simp
    also have "\<dots> = (length xs + n - 1) div n"
    proof (cases "n \<le> length xs")
      case True
      then have "length xs + n - 1 = (length xs - n + n - 1) + n" using 1(2) False by (cases xs) auto
      then show ?thesis using 1(2) by (metis add.commute div_add_self2 less_numeral_extra(3) plus_1_eq_Suc)
    next
      case short: False
      then have "length xs + n - 1 = (length xs - 1) + n" using False by (cases xs) auto
      with short 1(2) False show ?thesis by (cases xs) (auto simp: div_add_self2)
    qed
    finally show ?thesis .
  qed
qed

lemma chunk_size_pos: "0 < chunk_size asked d"
  by (simp add: chunk_size_def)

section \<open>The result of a batch\<close>

text \<open>A cached stream stands under its own id.\<close>

definition own_ids :: "(network \<times> string, stream) cache \<Rightarrow> bool" where
  "own_ids c \<longleftrightarrow> holds (\<lambda>k v. stream_id v = snd k) c"

definition resolved_ids :: "(string, stream) jsmap \<Rightarrow> bool" where
  "resolved_ids m \<longleftrightarrow> (\<forall>i v. map_get m i = Some v \<longrightarrow> stream_id v = i)"

lemma resolved_set: "resolved_ids m \<Longrightarrow> stream_id v = i \<Longrightarrow> resolved_ids (map_set i v m)"
  by (simp add: resolved_ids_def)

lemma resolve_all_ids: "resolved_ids m \<Longrightarrow> resolved_ids (resolve_all fetched m)"
proof -
  have "resolved_ids m \<Longrightarrow> resolved_ids (foldl (\<lambda>m v. map_set (stream_id v) v m) m vs)" for vs m
    by (induction vs arbitrary: m) (auto intro: resolved_set)
  then show "resolved_ids m \<Longrightarrow> resolved_ids (resolve_all fetched m)" by (simp add: resolve_all_def)
qed

lemma lookup_hit:
  assumes "(if q then cache_get (net, i) now c else (c, None)) = (c', r)" and "own_ids c"
  shows "own_ids c' \<and> (\<forall>v. r = Some v \<longrightarrow> stream_id v = i)"
proof (cases q)
  case True
  then have get: "cache_get (net, i) now c = (c', r)" using assms(1) by simp
  have h: "holds (\<lambda>k v. stream_id v = snd k) c" using assms(2) by (simp add: own_ids_def)
  have "stream_id v = i" if "r = Some v" for v using holds_hit [OF h get [unfolded that]] by simp
  moreover have "own_ids c'" using holds_get [OF h, of "(net, i)" now] get by (simp add: own_ids_def)
  ultimately show ?thesis by blast
qed (use assms in simp)

lemma lookup_ids:
  assumes "batch_lookup net useCache bypass now is b s = (s', b')" and "own_ids (cl_streams s)" and "resolved_ids (br_resolved b)"
  shows "own_ids (cl_streams s') \<and> resolved_ids (br_resolved b') \<and> br_requested b' = br_requested b \<and>
    length (br_toFetch b') + length (br_cached b') = length (br_toFetch b) + length (br_cached b) + length is"
  using assms
proof (induction "is" arbitrary: b s)
  case (Cons i "is")
  obtain c r where c: "(if i \<notin> bypass \<and> useCache then cache_get (net, i) now (cl_streams s) else (cl_streams s, None)) = (c, r)"
    by force
  note hit = lookup_hit [OF c Cons.prems(2)]
  show ?case
  proof (cases r)
    case None
    from Cons.IH [OF _ _ _, of "b\<lparr>br_toFetch := br_toFetch b @ [i]\<rparr>" "s\<lparr>cl_streams := c\<rparr>"] Cons.prems c hit None
    show ?thesis by simp
  next
    case (Some v)
    from Cons.IH [OF _ _ _, of "b\<lparr>br_resolved := map_set i v (br_resolved b), br_cached := br_cached b @ [i]\<rparr>" "s\<lparr>cl_streams := c\<rparr>"]
      Cons.prems c hit Some resolved_set [of "br_resolved b" v i]
    show ?thesis by simp
  qed
qed auto

lemma finish_result:
  assumes "batch_finish strict calls fetched b = Inr r" and "resolved_ids (br_resolved b)"
  shows "map stream_id (bres_streams r) = filter (\<lambda>i. i \<notin> set (bres_missing r)) (br_requested b) \<and>
    (\<not> strict \<or> bres_missing r = []) \<and> bres_rpcCalls r = calls \<and> set (bres_missing r) \<subseteq> set (br_requested b)"
proof -
  let ?m = "resolve_all fetched (br_resolved b)"
  have ids: "resolved_ids ?m" using assms(2) by (rule resolve_all_ids)
  have streams: "map stream_id (List.map_filter (map_get ?m) xs) = filter (map_has ?m) xs" for xs
  proof (induction xs)
    case (Cons x xs)
    then show ?case using ids by (cases "map_get ?m x") (auto simp: map_has_def resolved_ids_def simp del: map_has_iff)
  qed simp
  have miss: "bres_missing r = filter (\<lambda>i. \<not> map_has ?m i) (br_requested b)"
    and res: "bres_streams r = List.map_filter (map_get ?m) (br_requested b)" "bres_rpcCalls r = calls"
    and strict: "\<not> strict \<or> bres_missing r = []"
    using assms(1) by (auto simp: batch_finish_def Let_def simp del: map_has_iff split: if_splits)
  have "filter (map_has ?m) (br_requested b) = filter (\<lambda>i. i \<notin> set (bres_missing r)) (br_requested b)"
    by (rule filter_cong) (simp_all add: miss del: map_has_iff)
  moreover have "set (bres_missing r) \<subseteq> set (br_requested b)" by (simp add: miss)
  ultimately show ?thesis using streams [of "br_requested b"] res strict by simp
qed

lemma own_chunks_le: "own_chunks rs \<le> length rs"
  by (simp add: own_chunks_def)


definition stub_stream :: "string \<Rightarrow> stream" where
  "stub_stream i = \<lparr>stream_id = i, sender = [], recipient = [], token = [], deposit = 0, flowRate = 1, startTime = 0,
     endTime = 0, lastWithdrawTime = 0, status = Active, autoRenew = False, pausedAt = None, lockUntil = None, namespace = None, tag = None\<rparr>"


text \<open>A batch keeps the caches' streams under their own ids, whatever else happens to the client meanwhile.\<close>

lemma own_ids_set: "own_ids c \<Longrightarrow> own_ids (cache_set (net, stream_id v) v None now c)"
  by (simp add: own_ids_def holds_set)

lemma run_chunk_ids: "own_ids (cl_streams s) \<Longrightarrow> own_ids (cl_streams (fst (run_chunk net fallback r c s)))"
proof -
  assume own: "own_ids (cl_streams s)"
  have "own_ids (fold (\<lambda>v c. cache_set (net, stream_id v) v None now c) vs c)" if "own_ids c" for vs c now
    using that by (induction vs arbitrary: c) (simp_all add: own_ids_set)
  with own show ?thesis
    by (auto simp: run_chunk_def fetchStreamChunk_def Let_def split: chunk_result.split chunk_answer.split)
qed

lemma run_chunks_ids:
  "own_ids (cl_streams s) \<Longrightarrow> (\<And>f c. f \<in> snd ` set rs \<Longrightarrow> own_ids (cl_streams c) \<Longrightarrow> own_ids (cl_streams (f c))) \<Longrightarrow>
   own_ids (cl_streams (fst (run_chunks net fallback rs cs s)))"
proof (induction net fallback rs cs s rule: run_chunks.induct)
  case (1 net fallback r rs c cs s)
  obtain s1 vs where c: "run_chunk net fallback (fst r) c (snd r s) = (s1, vs)" by force
  have "own_ids (cl_streams (snd r s))" using 1(2,3) by auto
  then have "own_ids (cl_streams s1)" using run_chunk_ids [of "snd r s" net fallback "fst r" c] c by simp
  then have "own_ids (cl_streams (fst (run_chunks net fallback rs cs s1)))" using 1(1) [OF c [symmetric]] 1(3) by auto
  then show ?case by (cases "run_chunks net fallback rs cs s1") (simp add: c)
qed auto

section \<open>Balances\<close>

text \<open>What a batched simulation of \<open>get_claimable\<close> answers: one row for each call, when the server supports it.\<close>

datatype balance_row = RowWithoutValue | RowUnreadable | RowAmount int

datatype balance_answer = BalancesFailed | BalanceRows "balance_row list"

fun row_amount :: "balance_row \<Rightarrow> int" where
  "row_amount (RowAmount n) = max 0 n"
| "row_amount r = 0"

definition simulateClaimableBatch :: "int \<Rightarrow> string list \<Rightarrow> balance_answer \<Rightarrow> client \<Rightarrow> client \<times> (string, int) jsmap option" where
  "simulateClaimableBatch now ids answer s = (case answer of
     BalancesFailed \<Rightarrow> (s, None)
   | BalanceRows rows \<Rightarrow>
       if rows = [] \<or> RowWithoutValue \<in> set rows \<or> length rows \<noteq> length ids then (s, None)
       else (let out = zip ids (map row_amount rows)
             in (s\<lparr>cl_claimable := fold (\<lambda>(i, v) c. cache_set i v None now c) out (cl_claimable s)\<rparr>,
                 Some (foldl (\<lambda>m (i, v). map_set i v m) [] out))))"

text \<open>The fast path: \<open>joined i\<close> is the outcome of the request in flight for \<open>i\<close>, awaited
  before the next id; nothing else happens to the client meanwhile.\<close>

fun balance_pass ::
    "int \<Rightarrow> (string \<Rightarrow> int option) \<Rightarrow> string list \<Rightarrow> (string, int) jsmap \<Rightarrow> string list \<Rightarrow> client \<Rightarrow>
     client \<times> (string, int) jsmap \<times> string list" where
  "balance_pass now joined [] bal missing s = (s, bal, missing)"
| "balance_pass now joined (i # is) bal missing s =
     (case cache_get i now (cl_claimable s) of
        (c, Some v) \<Rightarrow> balance_pass now joined is (map_set i v bal) missing (s\<lparr>cl_claimable := c\<rparr>)
      | (c, None) \<Rightarrow>
          (case (if map_has (cl_claimableInflight s) i then joined i else None) of
             Some v \<Rightarrow> balance_pass now joined is (map_set i v bal) missing (s\<lparr>cl_claimable := c\<rparr>)
           | None \<Rightarrow> balance_pass now joined is bal (missing @ [i]) (s\<lparr>cl_claimable := c\<rparr>)))"

text \<open>\<open>single i\<close> is what \<open>getClaimable\<close> returns when the batch is of no use (\<open>None\<close>: it throws).\<close>

definition client_getMultipleStreamBalances ::
    "int \<Rightarrow> (string \<Rightarrow> int option) \<Rightarrow> balance_answer \<Rightarrow> (string \<Rightarrow> int option) \<Rightarrow> string list \<Rightarrow> client \<Rightarrow>
     client \<times> (string \<times> int) list option" where
  "client_getMultipleStreamBalances now joined answer single ids s =
     (let unique = first_occurrences ids;
          report = (\<lambda>bal. map (\<lambda>i. (i, case map_get bal i of Some v \<Rightarrow> v | None \<Rightarrow> 0)) unique)
      in case balance_pass now joined unique [] [] s of
           (s1, bal, missing) \<Rightarrow>
             if missing = [] then (s1, Some (report bal))
             else (case simulateClaimableBatch now missing answer s1 of
                 (s2, Some out) \<Rightarrow> (s2, Some (report (foldl (\<lambda>m (i, v). map_set i v m) bal out)))
               | (s2, None) \<Rightarrow>
                   if list_ex (\<lambda>i. single i = None) missing then (s2, None)
                   else (s2, Some (report (foldl (\<lambda>m i. map_set i (the (single i)) m) bal missing)))))"

lemma balances_one_each:
  "client_getMultipleStreamBalances now joined answer single ids s = (s', Some bs) \<Longrightarrow> map fst bs = first_occurrences ids"
  by (auto simp: client_getMultipleStreamBalances_def Let_def comp_def split: prod.splits option.splits if_splits)

lemma balance_cache_nonneg:
  "holds (\<lambda>i v. 0 \<le> v) (cl_claimable s) \<Longrightarrow> holds (\<lambda>i v. 0 \<le> v) (cl_claimable (fst (simulateClaimableBatch now ids answer s)))"
proof -
  assume s: "holds (\<lambda>i v. 0 \<le> v) (cl_claimable s)"
  have "holds (\<lambda>i v. 0 \<le> v) (fold (\<lambda>(i, v) c. cache_set i v None now c) (zip is (map row_amount rows)) c)"
    if "holds (\<lambda>i v. 0 \<le> v) c" for "is" rows c
    using that
  proof (induction rows arbitrary: "is" c)
    case (Cons r rows)
    have "0 \<le> row_amount r" by (cases r) simp_all
    then show ?case using Cons by (cases "is") (auto intro: holds_set)
  qed simp
  with s show ?thesis by (auto simp: simulateClaimableBatch_def Let_def split: balance_answer.split)
qed

text \<open>Rows for another number of streams are not used: every stream is read on its own.\<close>

lemma unequal_rows_unused:
  "length rows \<noteq> length ids \<Longrightarrow> simulateClaimableBatch now ids (BalanceRows rows) s = (s, None)"
  by (simp add: simulateClaimableBatch_def)

end
