(* ===== verification/ExpiryHooks.thy ===== *)
theory ExpiryHooks
  imports Prelude
begin

text \<open>
  Hooks for the end of a stream (\<open>onExpiry\<close>) and the total of a recipient's claimable amounts
  (\<open>watchTotalClaimable\<close>, \<open>getTotalClaimable\<close>) of \<open>src/SoroStreamClient.ts\<close>. Callbacks and handler sets
  are numbers. A scheduling is split at its reads: when the stream was read, when the timer fires and
  when the stream was read again. A callback that throws ends the calls of its round.
\<close>

section \<open>State\<close>

text \<open>A timer carries the stream, the time it is due and the end it was set for, in milliseconds.\<close>

record expiry_timer =
  et_stream :: string
  et_due :: int
  et_end :: int

record expiry_state =
  ex_handlers :: "(string, nat) jsmap"
  ex_sets :: "(nat, nat list) jsmap"
  ex_nextSet :: nat
  ex_timers :: "(string, nat) jsmap"
  ex_live :: "(nat, expiry_timer) jsmap"
  ex_nextTimer :: nat
  ex_reading :: "string list"
  ex_ending :: "expiry_timer list"
  ex_log :: "(nat \<times> string \<times> int \<times> int) list"

text \<open>\<open>ex_log\<close>: callback, stream, time of the call and the end of the stream it was scheduled for.\<close>

definition new_expiry :: expiry_state where
  "new_expiry = \<lparr>ex_handlers = [], ex_sets = [], ex_nextSet = 0, ex_timers = [], ex_live = [], ex_nextTimer = 0,
     ex_reading = [], ex_ending = [], ex_log = []\<rparr>"

definition handler_set :: "nat \<Rightarrow> expiry_state \<Rightarrow> nat list" where
  "handler_set n s = (case map_get (ex_sets s) n of None \<Rightarrow> [] | Some hs \<Rightarrow> hs)"

section \<open>Operations\<close>

text \<open>The set a hook was put into is what its returned function closes over.\<close>

definition onExpiry :: "string \<Rightarrow> nat \<Rightarrow> expiry_state \<Rightarrow> expiry_state \<times> nat" where
  "onExpiry i cb s =
     (let (s1, n) = (case map_get (ex_handlers s) i of
            Some n \<Rightarrow> (s, n)
          | None \<Rightarrow> (s\<lparr>ex_handlers := map_set i (ex_nextSet s) (ex_handlers s), ex_nextSet := ex_nextSet s + 1\<rparr>, ex_nextSet s));
          hs = handler_set n s1;
          s2 = s1\<lparr>ex_sets := map_set n (if cb \<in> set hs then hs else hs @ [cb]) (ex_sets s1)\<rparr>
      in (if map_has (ex_timers s2) i then s2 else s2\<lparr>ex_reading := ex_reading s2 @ [i]\<rparr>, n))"

definition cancelExpiryTimer :: "string \<Rightarrow> expiry_state \<Rightarrow> expiry_state" where
  "cancelExpiryTimer i s = (case map_get (ex_timers s) i of
     None \<Rightarrow> s
   | Some h \<Rightarrow> s\<lparr>ex_live := map_del h (ex_live s), ex_timers := map_del i (ex_timers s)\<rparr>)"

definition offExpiry :: "string \<Rightarrow> nat \<Rightarrow> nat \<Rightarrow> expiry_state \<Rightarrow> expiry_state" where
  "offExpiry i n cb s =
     (let hs = removeAll cb (handler_set n s); s1 = s\<lparr>ex_sets := map_set n hs (ex_sets s)\<rparr>
      in if hs = [] then (let s2 = cancelExpiryTimer i s1 in s2\<lparr>ex_handlers := map_del i (ex_handlers s2)\<rparr>) else s1)"

text \<open>\<open>setTimeout\<close> takes a delay of at most \<open>2^31 - 1\<close> milliseconds; a longer one counts as 1.\<close>

definition MAX_TIMEOUT_MS :: int where "MAX_TIMEOUT_MS = 2147483647"

definition timeout_delay :: "int \<Rightarrow> int" where
  "timeout_delay d = (if d > MAX_TIMEOUT_MS then 1 else d)"

text \<open>The first read of the \<open>n\<close>th scheduling is answered with the end of the stream, or fails.\<close>

definition expiry_read :: "nat \<Rightarrow> int option \<Rightarrow> int \<Rightarrow> expiry_state \<Rightarrow> expiry_state" where
  "expiry_read n endTime now s =
     (if n < length (ex_reading s) then
        (let i = ex_reading s ! n; s1 = s\<lparr>ex_reading := take n (ex_reading s) @ drop (Suc n) (ex_reading s)\<rparr>
         in case endTime of
              None \<Rightarrow> s1
            | Some e \<Rightarrow>
                s1\<lparr>ex_live := map_set (ex_nextTimer s1)
                     \<lparr>et_stream = i, et_due = now + timeout_delay (max 0 (e * 1000 - now)), et_end = e * 1000\<rparr> (ex_live s1),
                   ex_timers := map_set i (ex_nextTimer s1) (ex_timers s1), ex_nextTimer := ex_nextTimer s1 + 1\<rparr>)
      else s)"

definition expiry_fires :: "nat \<Rightarrow> int \<Rightarrow> expiry_state \<Rightarrow> expiry_state" where
  "expiry_fires h now s = (case map_get (ex_live s) h of
     None \<Rightarrow> s
   | Some t \<Rightarrow>
       if now < et_due t then s
       else s\<lparr>ex_live := map_del h (ex_live s), ex_timers := map_del (et_stream t) (ex_timers s), ex_ending := ex_ending s @ [t]\<rparr>)"

fun until_throw :: "nat set \<Rightarrow> nat list \<Rightarrow> nat list" where
  "until_throw throwing [] = []"
| "until_throw throwing (h # hs) = h # (if h \<in> throwing then [] else until_throw throwing hs)"

text \<open>The second read of the \<open>n\<close>th firing has found the stream, or not.\<close>

definition expiry_called :: "nat \<Rightarrow> bool \<Rightarrow> nat set \<Rightarrow> int \<Rightarrow> expiry_state \<Rightarrow> expiry_state" where
  "expiry_called n found throwing now s =
     (if n < length (ex_ending s) then
        (let t = ex_ending s ! n; s1 = s\<lparr>ex_ending := take n (ex_ending s) @ drop (Suc n) (ex_ending s)\<rparr>
         in case (if found then map_get (ex_handlers s1) (et_stream t) else None) of
              None \<Rightarrow> s1
            | Some m \<Rightarrow> s1\<lparr>ex_log := ex_log s1 @ map (\<lambda>cb. (cb, et_stream t, now, et_end t)) (until_throw throwing (handler_set m s1))\<rparr>)
      else s)"

datatype expiry_event =
    OnExpiry string nat
  | OffExpiry string nat nat
  | ExpiryRead nat "int option" int
  | ExpiryFires nat int
  | ExpiryCalled nat bool "nat set" int

fun expiry_step :: "expiry_event \<Rightarrow> expiry_state \<Rightarrow> expiry_state" where
  "expiry_step (OnExpiry i cb) s = fst (onExpiry i cb s)"
| "expiry_step (OffExpiry i n cb) s = offExpiry i n cb s"
| "expiry_step (ExpiryRead n e now) s = expiry_read n e now s"
| "expiry_step (ExpiryFires h now) s = expiry_fires h now s"
| "expiry_step (ExpiryCalled n found throwing now) s = expiry_called n found throwing now s"

section \<open>Never early\<close>

text \<open>Time does not run backwards, and every end is within reach of one timer.\<close>

fun expiry_ok :: "int \<Rightarrow> expiry_event list \<Rightarrow> bool" where
  "expiry_ok t [] \<longleftrightarrow> True"
| "expiry_ok t (ExpiryRead n e now # es) \<longleftrightarrow> t \<le> now \<and> (case e of None \<Rightarrow> True | Some x \<Rightarrow> x * 1000 - now \<le> MAX_TIMEOUT_MS) \<and> expiry_ok now es"
| "expiry_ok t (ExpiryFires h now # es) \<longleftrightarrow> t \<le> now \<and> expiry_ok now es"
| "expiry_ok t (ExpiryCalled n f th now # es) \<longleftrightarrow> t \<le> now \<and> expiry_ok now es"
| "expiry_ok t (e # es) \<longleftrightarrow> expiry_ok t es"

definition expiry_inv :: "int \<Rightarrow> expiry_state \<Rightarrow> bool" where
  "expiry_inv t s \<longleftrightarrow> (\<forall>(h, x) \<in> set (ex_live s). et_end x \<le> et_due x) \<and> (\<forall>x \<in> set (ex_ending s). et_end x \<le> t) \<and>
     (\<forall>(cb, i, at_time, end_time) \<in> set (ex_log s). end_time \<le> at_time)"

lemma expiry_inv_mono: "expiry_inv t s \<Longrightarrow> t \<le> u \<Longrightarrow> expiry_inv u s"
  by (auto simp: expiry_inv_def)

lemma expiry_inv_parts:
  assumes "ex_log s' = ex_log s" "ex_ending s' = ex_ending s" "set (ex_live s') \<subseteq> set (ex_live s)" "expiry_inv t s"
  shows "expiry_inv t s'"
  using assms unfolding expiry_inv_def by (metis (no_types, lifting) subsetD)

lemma on_parts: "ex_log (fst (onExpiry i cb s)) = ex_log s" "ex_ending (fst (onExpiry i cb s)) = ex_ending s"
    "ex_live (fst (onExpiry i cb s)) = ex_live s"
  by (simp_all add: onExpiry_def Let_def split: prod.split option.split)

lemma off_parts: "ex_log (offExpiry i n cb s) = ex_log s" "ex_ending (offExpiry i n cb s) = ex_ending s"
    "set (ex_live (offExpiry i n cb s)) \<subseteq> set (ex_live s)"
  by (auto simp: offExpiry_def cancelExpiryTimer_def Let_def dest: subsetD [OF map_del_subset] split: option.split)

lemma expiry_read_inv:
  assumes "expiry_inv t s" and "t \<le> now" and "case e of None \<Rightarrow> True | Some x \<Rightarrow> x * 1000 - now \<le> MAX_TIMEOUT_MS"
  shows "expiry_inv now (expiry_read n e now s)"
proof (cases "n < length (ex_reading s) \<and> e \<noteq> None")
  case True
  then obtain x where e: "e = Some x" by blast
  then have d: "x * 1000 \<le> now + timeout_delay (max 0 (x * 1000 - now))" using assms(3) by (auto simp: timeout_delay_def MAX_TIMEOUT_MS_def)
  have live: "\<forall>(h, x) \<in> set (ex_live s). et_end x \<le> et_due x" using assms(1) by (simp add: expiry_inv_def)
  have "\<forall>(h, x) \<in> set (map_set k \<lparr>et_stream = i, et_due = now + timeout_delay (max 0 (x * 1000 - now)), et_end = x * 1000\<rparr> (ex_live s)).
      et_end x \<le> et_due x" for k i
    by (rule map_set_all [OF live]) (use d in simp)
  then show ?thesis using expiry_inv_mono [OF assms(1,2)] True e by (simp add: expiry_inv_def expiry_read_def Let_def)
next
  case False
  then show ?thesis using expiry_inv_mono [OF assms(1,2)] by (auto simp: expiry_inv_def expiry_read_def Let_def split: option.split)
qed

lemma expiry_fires_inv:
  assumes "expiry_inv t s" and "t \<le> now"
  shows "expiry_inv now (expiry_fires h now s)"
proof (cases "map_get (ex_live s) h")
  case (Some x)
  have live: "\<forall>(h, x) \<in> set (ex_live s). et_end x \<le> et_due x" using assms(1) by (simp add: expiry_inv_def)
  have "et_end x \<le> et_due x" using map_get_all [OF live Some] .
  then show ?thesis using expiry_inv_mono [OF assms] Some map_del_all [OF live, of h]
    by (auto simp: expiry_inv_def expiry_fires_def)
qed (use expiry_inv_mono [OF assms] in \<open>simp add: expiry_fires_def\<close>)

lemma expiry_called_inv:
  assumes "expiry_inv t s" and "t \<le> now"
  shows "expiry_inv now (expiry_called n found throwing now s)"
proof (cases "n < length (ex_ending s)")
  case True
  then have "ex_ending s ! n \<in> set (ex_ending s)" by (rule nth_mem)
  then have "et_end (ex_ending s ! n) \<le> now" using expiry_inv_mono [OF assms] unfolding expiry_inv_def by blast
  moreover have "\<forall>x \<in> set (take n (ex_ending s) @ drop (Suc n) (ex_ending s)). et_end x \<le> now"
    using drop_nth_subset [of n "ex_ending s"] expiry_inv_mono [OF assms] by (auto simp: expiry_inv_def)
  ultimately show ?thesis using True expiry_inv_mono [OF assms]
    by (auto simp: expiry_inv_def expiry_called_def Let_def split: option.split)
qed (use expiry_inv_mono [OF assms] in \<open>simp add: expiry_called_def\<close>)

text \<open>
  C34. No hook is called before the end its timer was set for, in whatever order registrations, reads,
  timers and cancellations come, as long as that end is within reach of a timer.
\<close>

theorem expiry_not_early:
  assumes "expiry_ok t es" and "(cb, i, at_time, end_time) \<in> set (ex_log (fold expiry_step es new_expiry))"
  shows "end_time \<le> at_time"
proof -
  have "\<exists>u. expiry_inv u (fold expiry_step es s)" if "expiry_ok t es" "expiry_inv t s" for s t
    using that
  proof (induction es arbitrary: s t)
    case (Cons e es)
    show ?case
    proof (cases e)
      case (OnExpiry i cb)
      with Cons.prems expiry_inv_parts [of "fst (onExpiry i cb s)" s t] show ?thesis
        by (auto simp: on_parts intro: Cons.IH)
    next
      case (OffExpiry i n cb)
      with Cons.prems expiry_inv_parts [of "offExpiry i n cb s" s t] show ?thesis
        by (auto simp: off_parts intro: Cons.IH)
    next
      case (ExpiryRead n e' now)
      with Cons.prems expiry_read_inv [of t s now e' n] show ?thesis by (auto intro: Cons.IH)
    next
      case (ExpiryFires h now)
      with Cons.prems expiry_fires_inv [of t s now h] show ?thesis by (auto intro: Cons.IH)
    next
      case (ExpiryCalled n f th now)
      with Cons.prems expiry_called_inv [of t s now n f th] show ?thesis by (auto intro: Cons.IH)
    qed
  qed auto
  moreover have "expiry_inv t new_expiry" by (simp add: expiry_inv_def new_expiry_def)
  ultimately obtain u where "expiry_inv u (fold expiry_step es new_expiry)" using assms(1) by blast
  with assms(2) show ?thesis by (auto simp: expiry_inv_def)
qed

theorem expiry_not_early_witness:
  "(7, ''42'', 60000, 60000) \<in> set (ex_log (fold expiry_step [OnExpiry ''42'' 7, ExpiryRead 0 (Some 60) 0, ExpiryFires 0 60000,
     ExpiryCalled 0 True {} 60000] new_expiry)) \<and> (60000::int) \<le> 60000"
proof -
  let ?es = "[OnExpiry ''42'' 7, ExpiryRead 0 (Some 60) 0, ExpiryFires 0 60000, ExpiryCalled 0 True {} 60000]"
  have l: "(7, ''42'', 60000, 60000) \<in> set (ex_log (fold expiry_step ?es new_expiry))"
    by code_simp
  have "expiry_ok 0 ?es" by (simp add: MAX_TIMEOUT_MS_def)
  from expiry_not_early [OF this l] l show ?thesis by blast
qed

section \<open>Where the hooks go wrong\<close>

text \<open>An end more than 2^31 - 1 milliseconds away (25 days) is announced at once.\<close>

lemma far_end_announced_at_once:
  "ex_log (fold expiry_step [OnExpiry ''42'' 7, ExpiryRead 0 (Some 2160000) 0, ExpiryFires 0 1, ExpiryCalled 0 True {} 1] new_expiry) =
     [(7, ''42'', 1, 2160000000)]"
  by code_simp

text \<open>Two hooks registered before the first read is answered set two timers, and both are called twice.\<close>

lemma hooks_called_twice:
  "map fst (ex_log (fold expiry_step [OnExpiry ''42'' 7, OnExpiry ''42'' 8, ExpiryRead 0 (Some 1) 0, ExpiryRead 0 (Some 1) 0,
     ExpiryFires 0 1000, ExpiryCalled 0 True {} 1000, ExpiryFires 1 1000, ExpiryCalled 0 True {} 1000] new_expiry)) = [7, 8, 7, 8]"
  by code_simp

text \<open>Calling a returned function a second time cancels the hooks that were registered since.\<close>

lemma second_cancel_kills_others:
  "ex_handlers (fold expiry_step [OnExpiry ''42'' 7, OffExpiry ''42'' 0 7, OnExpiry ''42'' 8, OffExpiry ''42'' 0 7] new_expiry) = []"
  by code_simp

section \<open>The total of a recipient\<close>

definition claimable_total :: "int option list \<Rightarrow> int" where
  "claimable_total amounts = sum_list (map (\<lambda>a. case a of Some n \<Rightarrow> n | None \<Rightarrow> 0) amounts)"

text \<open>\<open>None\<close> as an amount: its read failed and counts as 0. \<open>None\<close> as an answer: the listing failed.\<close>

definition getTotalClaimable :: "'e + int option list \<Rightarrow> 'e + int" where
  "getTotalClaimable listing = (case listing of Inl e \<Rightarrow> Inl e | Inr amounts \<Rightarrow> if amounts = [] then Inr 0 else Inr (claimable_total amounts))"

record total_watch =
  tw_callbacks :: "nat list"
  tw_lastTotal :: "int option"
  tw_active :: bool
  tw_polls :: nat
  tw_announced :: "int list"
  tw_log :: "(nat \<times> int) list"

text \<open>\<open>tw_polls\<close> polls are under way; \<open>tw_announced\<close> are the totals that were announced to the callbacks of their time.\<close>

definition new_watch :: total_watch where
  "new_watch = \<lparr>tw_callbacks = [], tw_lastTotal = None, tw_active = True, tw_polls = 1, tw_announced = [], tw_log = []\<rparr>"

definition watch_poll :: "total_watch \<Rightarrow> total_watch" where
  "watch_poll s = (if tw_active s then s\<lparr>tw_polls := tw_polls s + 1\<rparr> else s)"

definition watch_answered :: "int option list option \<Rightarrow> total_watch \<Rightarrow> total_watch" where
  "watch_answered listing s =
     (if tw_polls s = 0 then s
      else (let s1 = s\<lparr>tw_polls := tw_polls s - 1\<rparr>
            in case listing of
                 None \<Rightarrow> s1
               | Some amounts \<Rightarrow>
                   let newTotal = (if amounts = [] then 0 else claimable_total amounts)
                   in if tw_lastTotal s1 = Some newTotal then s1
                      else s1\<lparr>tw_lastTotal := Some newTotal, tw_announced := tw_announced s1 @ [newTotal],
                              tw_log := tw_log s1 @ map (\<lambda>cb. (cb, newTotal)) (tw_callbacks s1)\<rparr>))"

definition watch_on :: "nat \<Rightarrow> total_watch \<Rightarrow> total_watch" where
  "watch_on cb s =
     s\<lparr>tw_callbacks := (if cb \<in> set (tw_callbacks s) then tw_callbacks s else tw_callbacks s @ [cb]),
       tw_log := tw_log s @ (case tw_lastTotal s of Some n \<Rightarrow> [(cb, n)] | None \<Rightarrow> [])\<rparr>"

definition watch_stop :: "total_watch \<Rightarrow> total_watch" where
  "watch_stop s = s\<lparr>tw_active := False, tw_callbacks := []\<rparr>"

datatype watch_event = WatchPoll | WatchAnswered "int option list option" | WatchOn nat | WatchStop

fun watch_step :: "watch_event \<Rightarrow> total_watch \<Rightarrow> total_watch" where
  "watch_step WatchPoll s = watch_poll s"
| "watch_step (WatchAnswered l) s = watch_answered l s"
| "watch_step (WatchOn cb) s = watch_on cb s"
| "watch_step WatchStop s = watch_stop s"

lemmas watch_defs = watch_poll_def watch_answered_def watch_on_def watch_stop_def

fun changes :: "'a list \<Rightarrow> bool" where
  "changes (x # y # xs) \<longleftrightarrow> x \<noteq> y \<and> changes (y # xs)"
| "changes _ \<longleftrightarrow> True"

lemma changes_snoc: "changes (xs @ [x]) \<longleftrightarrow> changes xs \<and> (xs = [] \<or> last xs \<noteq> x)"
  by (induction xs rule: changes.induct) auto

definition watch_inv :: "total_watch \<Rightarrow> bool" where
  "watch_inv s \<longleftrightarrow> changes (tw_announced s) \<and> tw_lastTotal s = (if tw_announced s = [] then None else Some (last (tw_announced s)))"

interpretation watch: step_system watch_step watch_inv
proof unfold_locales
  fix s e assume "watch_inv s"
  then show "watch_inv (watch_step e s)"
    by (cases e) (auto simp: watch_inv_def watch_defs Let_def changes_snoc split: option.split)
qed

text \<open>A total is announced only when it differs from the last one announced.\<close>

lemma totals_change: "changes (tw_announced (fold watch_step es new_watch))"
proof -
  have "watch_inv new_watch" by (simp add: watch_inv_def new_watch_def)
  then have "watch_inv (fold watch_step es new_watch)" by (rule watch.run_inv)
  then show ?thesis by (simp add: watch_inv_def)
qed

text \<open>A callback that is registered after the watcher was stopped still gets the answer of a poll under way.\<close>

lemma stopped_watch_announces:
  "tw_log (fold watch_step [WatchStop, WatchOn 3, WatchAnswered (Some [Some 5, None])] new_watch) = [(3, 5)]"
  by (simp add: new_watch_def watch_defs claimable_total_def)

end
