(* ===== verification/ContractEvents.thy ===== *)
theory ContractEvents
  imports NumberText
begin

text \<open>
  Values of the contract as the client reads them: the payloads of contract events
  (\<open>src/contractEvents.ts\<close>) and the stream records of a simulation (\<open>nativeToStream\<close> and
  \<open>scValToStream\<close> of \<open>src/SoroStreamClient.ts\<close>). What \<open>scValToNative\<close> of the Stellar SDK gives for a
  value is an input; so is the number the host's date parser gives for a ledger's closing time.
\<close>

section \<open>Native values\<close>

text \<open>Arrays, buffers and nested records enter with the text that \<open>String\<close> gives for them.\<close>

datatype decoded_value = Plain native | Truth bool | NullValue | Missing | Compound string

fun value_text :: "decoded_value \<Rightarrow> string" where
  "value_text (Plain (NBig n)) = string_of_int n"
| "value_text (Plain (NNumber n)) = string_of_int n"
| "value_text (Plain (NString s)) = s"
| "value_text (Truth b) = (if b then ''true'' else ''false'')"
| "value_text NullValue = ''null''"
| "value_text Missing = ''undefined''"
| "value_text (Compound s) = s"

text \<open>\<open>Number(v)\<close>, exact, without the rounding above 53 bits.\<close>

fun value_number :: "decoded_value \<Rightarrow> js_num" where
  "value_number (Plain (NBig n)) = Num (of_int n)"
| "value_number (Plain (NNumber n)) = Num (of_int n)"
| "value_number (Plain (NString s)) = number_of_string s"
| "value_number (Truth b) = Num (if b then 1 else 0)"
| "value_number NullValue = Num 0"
| "value_number Missing = NotANumber"
| "value_number (Compound s) = number_of_string s"

fun value_truth :: "decoded_value \<Rightarrow> bool" where
  "value_truth (Plain (NBig n)) = (n \<noteq> 0)"
| "value_truth (Plain (NNumber n)) = (n \<noteq> 0)"
| "value_truth (Plain (NString s)) = (s \<noteq> [])"
| "value_truth (Truth b) = b"
| "value_truth NullValue = False"
| "value_truth Missing = False"
| "value_truth (Compound s) = True"

fun absent :: "decoded_value \<Rightarrow> bool" where
  "absent NullValue = True" | "absent Missing = True" | "absent v = False"

datatype decode_error = BadAmount amount_error | NotConvertible | NullRecord

text \<open>\<open>safeBigInt\<close> and \<open>safeIdString\<close> on every value: \<open>BigInt\<close> takes booleans and refuses null.\<close>

fun value_big :: "decoded_value \<Rightarrow> decode_error + int" where
  "value_big (Plain v) = map_sum BadAmount id (safeBigInt v)"
| "value_big (Truth b) = Inr (if b then 1 else 0)"
| "value_big NullValue = Inl NotConvertible"
| "value_big Missing = Inl NotConvertible"
| "value_big (Compound s) = map_sum BadAmount id (big_of_string s)"

fun value_id :: "decoded_value \<Rightarrow> decode_error + string" where
  "value_id (Plain v) = map_sum BadAmount id (safeIdString v)"
| "value_id v = Inr (value_text v)"

section \<open>Conversions of the event parser\<close>

fun event_big :: "decoded_value \<Rightarrow> decode_error + int" where
  "event_big (Plain v) = map_sum BadAmount id (safeBigInt v)"
| "event_big v = Inr 0"

fun event_number :: "decoded_value \<Rightarrow> js_num" where
  "event_number (Plain v) = value_number (Plain v)"
| "event_number v = Num 0"

definition event_string :: "decoded_value \<Rightarrow> string" where
  "event_string v = (if absent v then [] else value_text v)"

text \<open>
  The data of an event: a record, a value of another kind (whose fields are all undefined), or the
  null of a void value, whose fields cannot be read.
\<close>

datatype contract_data = DataRecord "(string, decoded_value) jsmap" | DataValue decoded_value

definition data_null :: "contract_data \<Rightarrow> bool" where
  "data_null d \<longleftrightarrow> d = DataValue NullValue \<or> d = DataValue Missing"

fun data_field :: "contract_data \<Rightarrow> string \<Rightarrow> decoded_value" where
  "data_field (DataRecord m) k = (case map_get m k of Some v \<Rightarrow> v | None \<Rightarrow> Missing)"
| "data_field (DataValue v) k = Missing"

section \<open>Payloads\<close>

datatype event_payload =
    StreamCreatedPayload string string string string int int js_num js_num
  | WithdrawalPayload string string int js_num
  | CancelledStreamPayload string string int
  | StreamCompletedPayload string string string
  | StreamToppedUpPayload string int js_num
  | StreamPausedPayload string string js_num
  | StreamResumedPayload string string js_num
  | StreamTransferredPayload string string string
  | UnknownEventPayload "string option" contract_data

record event_meta =
  em_txHash :: string
  em_ledger :: int
  em_timestamp :: int

text \<open>A raw event. A topic or a value that \<open>scValToNative\<close> refuses is \<open>None\<close>.\<close>

record rpc_event =
  re_topic :: "decoded_value option list"
  re_value :: "contract_data option"
  re_meta :: event_meta

definition event_raw_type :: "rpc_event \<Rightarrow> string option" where
  "event_raw_type raw =
     (case re_topic raw of Some v # _ \<Rightarrow> if absent v then None else Some (value_text v) | _ \<Rightarrow> None)"

definition event_stream_id :: "rpc_event \<Rightarrow> string" where
  "event_stream_id raw =
     (case re_topic raw of _ # Some v # _ \<Rightarrow> if absent v then ''0'' else (case value_id v of Inr s \<Rightarrow> s | Inl _ \<Rightarrow> ''0'')
      | _ \<Rightarrow> ''0'')"

definition dataRecord :: "rpc_event \<Rightarrow> contract_data" where
  "dataRecord raw = (case re_value raw of Some d \<Rightarrow> d | None \<Rightarrow> DataRecord [])"

definition payload_of_type :: "string option \<Rightarrow> string \<Rightarrow> contract_data \<Rightarrow> decode_error + event_payload" where
  "payload_of_type ty sid d =
     (let str = (\<lambda>k. event_string (data_field d k)); big = (\<lambda>k. event_big (data_field d k));
          num = (\<lambda>k. event_number (data_field d k)); known = (\<lambda>r. if data_null d then Inl NullRecord else r)
      in if ty = Some ''StreamCreated'' then
           known (rbind (big ''deposit'') (\<lambda>dep. rbind (big ''flow_rate'') (\<lambda>fr.
             Inr (StreamCreatedPayload sid (str ''sender'') (str ''recipient'') (str ''token'') dep fr
               (num ''start_time'') (num ''end_time'')))))
         else if ty = Some ''StreamWithdrawn'' then
           known (rbind (big ''amount'') (\<lambda>a. Inr (WithdrawalPayload sid (str ''recipient'') a (num ''withdraw_time''))))
         else if ty = Some ''StreamCancelled'' then
           known (rbind (big ''refunded'') (\<lambda>a. Inr (CancelledStreamPayload sid (str ''sender'') a)))
         else if ty = Some ''StreamCompleted'' then
           known (Inr (StreamCompletedPayload sid (str ''sender'') (str ''recipient'')))
         else if ty = Some ''StreamToppedUp'' then
           known (rbind (big ''added_amount'') (\<lambda>a. Inr (StreamToppedUpPayload sid a (num ''new_end_time''))))
         else if ty = Some ''StreamPaused'' then
           known (Inr (StreamPausedPayload sid (str ''sender'') (num ''paused_at'')))
         else if ty = Some ''StreamResumed'' then
           known (Inr (StreamResumedPayload sid (str ''sender'') (num ''resumed_at'')))
         else if ty = Some ''StreamTransferred'' then
           known (Inr (StreamTransferredPayload sid (str ''old_recipient'') (str ''new_recipient'')))
         else Inr (UnknownEventPayload ty d))"

definition parseContractEvent :: "rpc_event \<Rightarrow> decode_error + event_payload \<times> event_meta" where
  "parseContractEvent raw =
     rbind (payload_of_type (event_raw_type raw) (event_stream_id raw) (dataRecord raw)) (\<lambda>p. Inr (p, re_meta raw))"

section \<open>Reading back what the contract emits\<close>

text \<open>The event of a payload, with amounts and times as the big integers of the contract's types.\<close>

definition num_value :: "js_num \<Rightarrow> decoded_value" where
  "num_value n = (case integral n of Some i \<Rightarrow> Plain (NBig i) | None \<Rightarrow> Missing)"

abbreviation big_value :: "int \<Rightarrow> decoded_value" where "big_value n \<equiv> Plain (NBig n)"

abbreviation text_value :: "string \<Rightarrow> decoded_value" where "text_value s \<equiv> Plain (NString s)"

fun emitted :: "event_payload \<Rightarrow> string \<times> string \<times> (string, decoded_value) jsmap" where
  "emitted (StreamCreatedPayload i s r t d f st e) = (''StreamCreated'', i,
     [(''sender'', text_value s), (''recipient'', text_value r), (''token'', text_value t), (''deposit'', big_value d),
      (''flow_rate'', big_value f), (''start_time'', num_value st), (''end_time'', num_value e)])"
| "emitted (WithdrawalPayload i r a t) = (''StreamWithdrawn'', i,
     [(''recipient'', text_value r), (''amount'', big_value a), (''withdraw_time'', num_value t)])"
| "emitted (CancelledStreamPayload i s a) = (''StreamCancelled'', i, [(''sender'', text_value s), (''refunded'', big_value a)])"
| "emitted (StreamCompletedPayload i s r) = (''StreamCompleted'', i, [(''sender'', text_value s), (''recipient'', text_value r)])"
| "emitted (StreamToppedUpPayload i a e) = (''StreamToppedUp'', i, [(''added_amount'', big_value a), (''new_end_time'', num_value e)])"
| "emitted (StreamPausedPayload i s t) = (''StreamPaused'', i, [(''sender'', text_value s), (''paused_at'', num_value t)])"
| "emitted (StreamResumedPayload i s t) = (''StreamResumed'', i, [(''sender'', text_value s), (''resumed_at'', num_value t)])"
| "emitted (StreamTransferredPayload i a b) = (''StreamTransferred'', i,
     [(''old_recipient'', text_value a), (''new_recipient'', text_value b)])"
| "emitted (UnknownEventPayload ty d) = ([], [], [])"

fun whole_times :: "event_payload \<Rightarrow> bool" where
  "whole_times (StreamCreatedPayload i s r t d f st e) \<longleftrightarrow> integral st \<noteq> None \<and> integral e \<noteq> None"
| "whole_times (WithdrawalPayload i r a t) \<longleftrightarrow> integral t \<noteq> None"
| "whole_times (StreamToppedUpPayload i a e) \<longleftrightarrow> integral e \<noteq> None"
| "whole_times (StreamPausedPayload i s t) \<longleftrightarrow> integral t \<noteq> None"
| "whole_times (StreamResumedPayload i s t) \<longleftrightarrow> integral t \<noteq> None"
| "whole_times (UnknownEventPayload ty d) \<longleftrightarrow> False"
| "whole_times _ \<longleftrightarrow> True"

definition emitted_event :: "event_payload \<Rightarrow> event_meta \<Rightarrow> rpc_event" where
  "emitted_event p m = (case emitted p of (ty, i, fs) \<Rightarrow>
     \<lparr>re_topic = [Some (text_value ty), Some (text_value i)], re_value = Some (DataRecord fs), re_meta = m\<rparr>)"

lemma event_number_whole: "integral n \<noteq> None \<Longrightarrow> event_number (num_value n) = n"
  by (cases n) (auto simp: num_value_def split: if_splits)

text \<open>Every event of a known type is read back as the payload it was emitted for.\<close>

theorem emitted_events_read_back:
  assumes "whole_times p"
  shows "parseContractEvent (emitted_event p m) = Inr (p, m)"
  using assms
  by (cases p) (simp_all add: emitted_event_def parseContractEvent_def event_raw_type_def event_stream_id_def
    dataRecord_def payload_of_type_def data_null_def event_string_def event_number_whole)

theorem emitted_events_read_back_witness:
  "parseContractEvent (emitted_event (WithdrawalPayload ''7'' ''GR'' 25 (Num 60)) \<lparr>em_txHash = ''t'', em_ledger = 3, em_timestamp = 4\<rparr>) =
     Inr (WithdrawalPayload ''7'' ''GR'' 25 (Num 60), \<lparr>em_txHash = ''t'', em_ledger = 3, em_timestamp = 4\<rparr>)"
  by (rule emitted_events_read_back) simp

section \<open>What the parser throws\<close>

text \<open>The types whose payload has an amount, with the fields that are amounts.\<close>

definition AMOUNT_FIELDS :: "(string \<times> string list) list" where
  "AMOUNT_FIELDS = [(''StreamCreated'', [''deposit'', ''flow_rate'']), (''StreamWithdrawn'', [''amount'']),
     (''StreamCancelled'', [''refunded'']), (''StreamToppedUp'', [''added_amount'']), (''StreamCompleted'', []),
     (''StreamPaused'', []), (''StreamResumed'', []), (''StreamTransferred'', [])]"

definition event_throws :: "rpc_event \<Rightarrow> bool" where
  "event_throws raw \<longleftrightarrow>
     (case event_raw_type raw of None \<Rightarrow> False
      | Some ty \<Rightarrow> (case map_get AMOUNT_FIELDS ty of None \<Rightarrow> False
          | Some ks \<Rightarrow> data_null (dataRecord raw) \<or>
              list_ex (\<lambda>k. case event_big (data_field (dataRecord raw) k) of Inl _ \<Rightarrow> True | Inr _ \<Rightarrow> False) ks))"

lemma parse_throws_iff: "(\<exists>e. parseContractEvent raw = Inl e) = event_throws raw"
  by (cases "event_raw_type raw")
    (auto simp: parseContractEvent_def payload_of_type_def event_throws_def AMOUNT_FIELDS_def Let_def rbind_Inl_iff
      split: sum.splits if_splits)

text \<open>An amount that is not numeric text, or a void value, makes the parser throw.\<close>

lemma bad_amount_throws:
  "parseContractEvent \<lparr>re_topic = [Some (text_value ''StreamWithdrawn'')],
     re_value = Some (DataRecord [(''amount'', text_value ''1.5'')]), re_meta = m\<rparr> = Inl (BadAmount (BigIntSyntaxError ''1.5''))"
  "parseContractEvent \<lparr>re_topic = [Some (text_value ''StreamCompleted'')], re_value = Some (DataValue NullValue), re_meta = m\<rparr> =
     Inl NullRecord"
  by (simp_all add: parseContractEvent_def payload_of_type_def event_raw_type_def dataRecord_def data_null_def big_of_string_def
    big_literal_def decimal_literal_def js_trim_def js_space_def is_digit_def)

text \<open>An identifier that was rounded is reported as stream 0, without an error.\<close>

lemma imprecise_id_is_zero:
  assumes "MAX_SAFE_INTEGER < n"
  shows "event_stream_id \<lparr>re_topic = [ty, Some (Plain (NNumber n))], re_value = v, re_meta = m\<rparr> = ''0''"
  using assms by (auto simp: event_stream_id_def)

section \<open>Stream records\<close>

record native_stream =
  ns_id :: string
  ns_sender :: string
  ns_recipient :: string
  ns_token :: string
  ns_deposit :: int
  ns_flowRate :: int
  ns_startTime :: js_num
  ns_endTime :: js_num
  ns_lastWithdrawTime :: js_num
  ns_status :: decoded_value
  ns_autoRenew :: bool
  ns_pausedAt :: "js_num option"
  ns_lockUntil :: "js_num option"

definition present_number :: "decoded_value \<Rightarrow> js_num option" where
  "present_number v = (if absent v then None else Some (value_number v))"

definition nativeToStream :: "contract_data \<Rightarrow> decode_error + native_stream" where
  "nativeToStream raw =
     (if data_null raw then Inl NullRecord
      else let f = data_field raw
       in rbind (value_id (f ''id'')) (\<lambda>i.
          rbind (value_big (f ''deposit'')) (\<lambda>dep.
          rbind (value_big (f ''flow_rate'')) (\<lambda>fr.
          let s = \<lparr>ns_id = i, ns_sender = value_text (f ''sender''), ns_recipient = value_text (f ''recipient''),
                ns_token = value_text (f ''token''), ns_deposit = dep, ns_flowRate = fr,
                ns_startTime = value_number (f ''start_time''), ns_endTime = value_number (f ''end_time''),
                ns_lastWithdrawTime = value_number (f ''last_withdraw_time''), ns_status = f ''status'',
                ns_autoRenew = value_truth (f ''auto_renew''), ns_pausedAt = None, ns_lockUntil = None\<rparr>;
              s = (if absent (f ''paused_at'') then s else s\<lparr>ns_pausedAt := Some (value_number (f ''paused_at''))\<rparr>);
              s = (if absent (f ''lock_until'') then s else s\<lparr>ns_lockUntil := Some (value_number (f ''lock_until''))\<rparr>)
          in Inr s))))"

definition scValToStream :: "contract_data option \<Rightarrow> decode_error + native_stream" where
  "scValToStream val =
     (case val of None \<Rightarrow> Inl NotConvertible
      | Some raw \<Rightarrow>
          if data_null raw then Inl NullRecord
          else let f = data_field raw
           in rbind (value_id (f ''id'')) (\<lambda>i.
              rbind (value_big (f ''deposit'')) (\<lambda>dep.
              rbind (value_big (f ''flow_rate'')) (\<lambda>fr.
              Inr \<lparr>ns_id = i, ns_sender = value_text (f ''sender''), ns_recipient = value_text (f ''recipient''),
                ns_token = value_text (f ''token''), ns_deposit = dep, ns_flowRate = fr,
                ns_startTime = value_number (f ''start_time''), ns_endTime = value_number (f ''end_time''),
                ns_lastWithdrawTime = value_number (f ''last_withdraw_time''), ns_status = f ''status'',
                ns_autoRenew = value_truth (f ''auto_renew''), ns_pausedAt = present_number (f ''paused_at''),
                ns_lockUntil = present_number (f ''lock_until'')\<rparr>))))"

text \<open>The conversion that avoids the temporary objects gives what the plain one gives.\<close>

lemma conversions_agree: "scValToStream (Some raw) = nativeToStream raw"
  by (simp add: scValToStream_def nativeToStream_def present_number_def Let_def)

text \<open>
  A record without the expected fields is rejected only for its amounts: a missing address becomes a
  text, a missing time is not a number, and the status is taken as it is.
\<close>

lemma missing_fields_become_text:
  "nativeToStream (DataRecord [(''deposit'', big_value 1), (''flow_rate'', big_value 2)]) =
     Inr \<lparr>ns_id = ''undefined'', ns_sender = ''undefined'', ns_recipient = ''undefined'', ns_token = ''undefined'',
       ns_deposit = 1, ns_flowRate = 2, ns_startTime = NotANumber, ns_endTime = NotANumber, ns_lastWithdrawTime = NotANumber,
       ns_status = Missing, ns_autoRenew = False, ns_pausedAt = None, ns_lockUntil = None\<rparr>"
  by (simp add: nativeToStream_def data_null_def)

lemma missing_amount_rejected: "nativeToStream (DataRecord [(''id'', big_value 1)]) = Inl NotConvertible"
  by (simp add: nativeToStream_def data_null_def)

end
