(* ===== verification/EventHistory.thy ===== *)
theory EventHistory
  imports ContractEvents TtlCache Json "HOL-Library.Sublist"
begin

text \<open>
  The history of a stream from the events of the RPC server: \<open>StreamIndexer\<close> (\<open>src/indexer.ts\<close>),
  \<open>getActivityLog\<close> and \<open>exportStreamHistory\<close> of the client (\<open>src/SoroStreamClient.ts\<close>). The server
  and the encoding of a topic are parameters, and so are the host's date parser and its zlib.
\<close>

section \<open>Events of the server\<close>

record server_event =
  se_success :: bool
  se_topic :: "decoded_value option list"
  se_value :: "contract_data option"
  se_ledger :: int
  se_closedAt :: string
  se_txHash :: string
  se_id :: string
  se_pagingToken :: string

datatype history_data =
    CreatedData string string string int int js_num js_num bool
  | WithdrawnData string int
  | CancelledData string

record history_event =
  he_streamId :: string
  he_ledger :: int
  he_closedAt :: string
  he_txHash :: string
  he_id :: string
  he_pagingToken :: string
  he_data :: history_data

record history_filter =
  hf_streamId :: "string option"
  hf_sender :: "string option"
  hf_recipient :: "string option"

definition filter_rejects :: "string option \<Rightarrow> string \<Rightarrow> bool" where
  "filter_rejects wanted actual \<longleftrightarrow> (case wanted of None \<Rightarrow> False | Some w \<Rightarrow> w \<noteq> [] \<and> actual \<noteq> w)"

definition extractStreamId :: "decoded_value option list \<Rightarrow> string" where
  "extractStreamId topic =
     (case topic of _ # Some v # _ \<Rightarrow> (case value_id v of Inr s \<Rightarrow> s | Inl _ \<Rightarrow> []) | _ \<Rightarrow> [])"

definition time_or_zero :: "decoded_value \<Rightarrow> js_num" where
  "time_or_zero v = (if absent v then Num 0 else value_number v)"

definition history_base :: "server_event \<Rightarrow> string \<Rightarrow> history_data \<Rightarrow> history_event" where
  "history_base e sid d = \<lparr>he_streamId = sid, he_ledger = se_ledger e, he_closedAt = se_closedAt e, he_txHash = se_txHash e,
     he_id = se_id e, he_pagingToken = se_pagingToken e, he_data = d\<rparr>"

definition parse_created :: "history_filter \<Rightarrow> server_event \<Rightarrow> contract_data \<Rightarrow> decode_error + history_event option" where
  "parse_created flt e d =
     (let f = data_field d
      in if data_null d then Inl NullRecord
         else rbind (if absent (f ''id'') then Inr [] else value_id (f ''id'')) (\<lambda>sid.
           if filter_rejects (hf_streamId flt) sid \<or> filter_rejects (hf_sender flt) (event_string (f ''sender''))
              \<or> filter_rejects (hf_recipient flt) (event_string (f ''recipient'')) then Inr None
           else rbind (event_big (f ''deposit'')) (\<lambda>dep. rbind (event_big (f ''flow_rate'')) (\<lambda>fr.
             Inr (Some (history_base e sid (CreatedData (event_string (f ''sender'')) (event_string (f ''recipient''))
               (event_string (f ''token'')) dep fr (time_or_zero (f ''start_time'')) (time_or_zero (f ''end_time''))
               (value_truth (f ''auto_renew''))))))))) "

definition parse_withdrawn :: "history_filter \<Rightarrow> server_event \<Rightarrow> contract_data \<Rightarrow> decode_error + history_event option" where
  "parse_withdrawn flt e d =
     (let sid = extractStreamId (se_topic e)
      in if filter_rejects (hf_streamId flt) sid then Inr None
         else if data_null d then Inl NullRecord
         else rbind (event_big (data_field d ''amount'')) (\<lambda>a.
           Inr (Some (history_base e sid (WithdrawnData (event_string (data_field d ''recipient'')) a)))))"

definition parse_cancelled :: "history_filter \<Rightarrow> server_event \<Rightarrow> contract_data \<Rightarrow> decode_error + history_event option" where
  "parse_cancelled flt e d =
     (let sid = extractStreamId (se_topic e)
      in if filter_rejects (hf_streamId flt) sid then Inr None
         else if data_null d then Inl NullRecord
         else Inr (Some (history_base e sid (CancelledData (event_string (data_field d ''sender''))))))"

definition parseEvent :: "history_filter \<Rightarrow> server_event \<Rightarrow> decode_error + history_event option" where
  "parseEvent flt e =
     (case se_topic e of
        Some ty # _ \<Rightarrow>
          (if value_text ty \<notin> {''StreamCreated'', ''StreamWithdrawn'', ''StreamCancelled''} then Inr None
           else (case se_value e of None \<Rightarrow> Inr None
             | Some d \<Rightarrow>
                 if value_text ty = ''StreamCreated'' then parse_created flt e d
                 else if value_text ty = ''StreamWithdrawn'' then parse_withdrawn flt e d
                 else parse_cancelled flt e d))
      | _ \<Rightarrow> Inr None)"

section \<open>Queries\<close>

record history_options =
  ho_startLedger :: "int option"
  ho_cursor :: "string option"
  ho_limit :: "int option"

record history_request =
  gr_startLedger :: int
  gr_limit :: int
  gr_contractId :: string
  gr_topics :: "string list list"
  gr_cursor :: "string option"

record history_response =
  gs_events :: "server_event list"
  gs_cursor :: string
  gs_latestLedger :: int

record history_page =
  hp_events :: "history_event list"
  hp_cursor :: string
  hp_nextCursor :: string
  hp_hasMore :: bool
  hp_latestLedger :: int

datatype 'e history_error = ServerFailed 'e | DecodeFailed decode_error

text \<open>The topics of the three types, through the cache of encoded symbols.\<close>

fun history_topics :: "(string \<Rightarrow> string \<Rightarrow> string) \<Rightarrow> string list \<Rightarrow> (string, string) jsmap \<Rightarrow> (string, string) jsmap \<times> string list list" where
  "history_topics encode [] m = (m, [])"
| "history_topics encode (t # ts) m =
     (let (m1, x) = cachedScValBase64 encode t ''symbol'' m; (m2, xs) = history_topics encode ts m1 in (m2, [x] # xs))"

definition history_request_of :: "string \<Rightarrow> string list list \<Rightarrow> history_options \<Rightarrow> history_request" where
  "history_request_of contractId topics opts =
     \<lparr>gr_startLedger = (case ho_startLedger opts of Some l \<Rightarrow> l | None \<Rightarrow> 1),
      gr_limit = (case ho_limit opts of Some l \<Rightarrow> l | None \<Rightarrow> 100), gr_contractId = contractId, gr_topics = topics,
      gr_cursor = (case ho_cursor opts of Some c \<Rightarrow> if c = [] then None else Some c | None \<Rightarrow> None)\<rparr>"

fun parse_events :: "history_filter \<Rightarrow> server_event list \<Rightarrow> decode_error + history_event list" where
  "parse_events flt [] = Inr []"
| "parse_events flt (e # es) =
     rbind (parseEvent flt e) (\<lambda>h. rbind (parse_events flt es) (\<lambda>hs. Inr (case h of None \<Rightarrow> hs | Some x \<Rightarrow> x # hs)))"

definition next_cursor :: "history_event list \<Rightarrow> string \<Rightarrow> string" where
  "next_cursor es cursor =
     (if es = [] then cursor
      else let e = last es
       in if he_pagingToken e \<noteq> [] then he_pagingToken e else if he_id e \<noteq> [] then he_id e else cursor)"

definition page_of_response :: "history_options \<Rightarrow> history_filter \<Rightarrow> history_response \<Rightarrow> decode_error + history_page" where
  "page_of_response opts flt response =
     rbind (parse_events flt (filter se_success (gs_events response))) (\<lambda>es.
       Inr \<lparr>hp_events = es, hp_cursor = gs_cursor response, hp_nextCursor = next_cursor es (gs_cursor response),
         hp_hasMore = (int (length es) \<ge> (case ho_limit opts of Some l \<Rightarrow> l | None \<Rightarrow> 100)),
         hp_latestLedger = gs_latestLedger response\<rparr>)"

definition queryEvents ::
    "(string \<Rightarrow> string \<Rightarrow> string) \<Rightarrow> string \<Rightarrow> (history_request \<Rightarrow> 'e + history_response) \<Rightarrow> history_filter \<Rightarrow> history_options \<Rightarrow>
     (string, string) jsmap \<Rightarrow> (string, string) jsmap \<times> ('e history_error + history_page)" where
  "queryEvents encode contractId server flt opts m =
     (let (m', topics) = history_topics encode [''StreamCreated'', ''StreamWithdrawn'', ''StreamCancelled''] m
      in (m', case server (history_request_of contractId topics opts) of
           Inl e \<Rightarrow> Inl (ServerFailed e)
         | Inr r \<Rightarrow> map_sum DecodeFailed id (page_of_response opts flt r)))"

definition getStreamHistory where
  "getStreamHistory encode contractId server streamId opts =
     queryEvents encode contractId server \<lparr>hf_streamId = Some streamId, hf_sender = None, hf_recipient = None\<rparr> opts"

definition getEventsBySender where
  "getEventsBySender encode contractId server addr opts =
     queryEvents encode contractId server \<lparr>hf_streamId = None, hf_sender = Some addr, hf_recipient = None\<rparr> opts"

definition getEventsByRecipient where
  "getEventsByRecipient encode contractId server addr opts =
     queryEvents encode contractId server \<lparr>hf_streamId = None, hf_sender = None, hf_recipient = Some addr\<rparr> opts"

section \<open>Pages\<close>

lemmas parse_defs = parseEvent_def parse_created_def parse_withdrawn_def parse_cancelled_def history_base_def Let_def

lemma parse_event_stream:
  "parseEvent flt e = Inr (Some h) \<Longrightarrow> hf_streamId flt = Some i \<Longrightarrow> i \<noteq> [] \<Longrightarrow> he_streamId h = i"
  by (auto simp: parse_defs filter_rejects_def rbind_Inr_iff split: list.splits option.splits if_splits)

lemma parse_event_origin:
  "parseEvent flt e = Inr (Some h) \<Longrightarrow> he_id h = se_id e \<and> he_txHash h = se_txHash e \<and> he_ledger h = se_ledger e"
  by (auto simp: parse_defs rbind_Inr_iff split: list.splits option.splits if_splits)

lemma parse_events_spec:
  assumes "parse_events flt es = Inr hs"
  shows "subseq (map he_id hs) (map se_id es) \<and>
    (\<forall>h\<in>set hs. \<exists>e\<in>set es. parseEvent flt e = Inr (Some h))"
  using assms
proof (induction es arbitrary: hs)
  case (Cons e es)
  then obtain r rest where r: "parseEvent flt e = Inr r" "parse_events flt es = Inr rest"
    "hs = (case r of None \<Rightarrow> rest | Some x \<Rightarrow> x # rest)" by (auto simp: rbind_Inr_iff)
  with Cons.IH [OF r(2)] parse_event_origin [of flt e] show ?case
    by (cases r) (auto simp: subseq_Cons2)
qed simp

text \<open>A page of a stream holds events of that stream only, all from successful calls, in the order of the server.\<close>

theorem history_page_of_stream:
  assumes "page_of_response opts \<lparr>hf_streamId = Some i, hf_sender = None, hf_recipient = None\<rparr> r = Inr p" and "i \<noteq> []"
  shows "subseq (map he_id (hp_events p)) (map se_id (filter se_success (gs_events r))) \<and>
    list_all (\<lambda>h. he_streamId h = i) (hp_events p)"
proof -
  let ?f = "\<lparr>hf_streamId = Some i, hf_sender = None, hf_recipient = None\<rparr>"
  have "parse_events ?f (filter se_success (gs_events r)) = Inr (hp_events p)" using assms(1) by (auto simp: page_of_response_def rbind_Inr_iff)
  note spec = parse_events_spec [OF this]
  then show ?thesis using parse_event_stream [of ?f] assms(2) by (fastforce simp: list_all_iff)
qed

theorem history_page_of_stream_witness:
  "\<exists>p. page_of_response \<lparr>ho_startLedger = None, ho_cursor = None, ho_limit = None\<rparr> \<lparr>hf_streamId = Some ''7'', hf_sender = None, hf_recipient = None\<rparr>
      \<lparr>gs_events = [\<lparr>se_success = True, se_topic = [Some (text_value ''StreamCancelled''), Some (big_value 7)], se_value = Some (DataRecord []),
         se_ledger = 1, se_closedAt = [], se_txHash = [], se_id = ''e1'', se_pagingToken = []\<rparr>], gs_cursor = [], gs_latestLedger = 1\<rparr> = Inr p \<and>
    subseq (map he_id (hp_events p)) [''e1''] \<and> list_all (\<lambda>h. he_streamId h = ''7'') (hp_events p)"
proof -
  let ?r = "\<lparr>gs_events = [\<lparr>se_success = True, se_topic = [Some (text_value ''StreamCancelled''), Some (big_value 7)], se_value = Some (DataRecord []),
         se_ledger = 1, se_closedAt = [], se_txHash = [], se_id = ''e1'', se_pagingToken = []\<rparr>], gs_cursor = [], gs_latestLedger = 1\<rparr>"
  have p: "page_of_response \<lparr>ho_startLedger = None, ho_cursor = None, ho_limit = None\<rparr> \<lparr>hf_streamId = Some ''7'', hf_sender = None, hf_recipient = None\<rparr> ?r =
      Inr \<lparr>hp_events = [\<lparr>he_streamId = ''7'', he_ledger = 1, he_closedAt = [], he_txHash = [], he_id = ''e1'', he_pagingToken = [], he_data = CancelledData []\<rparr>],
        hp_cursor = [], hp_nextCursor = ''e1'', hp_hasMore = False, hp_latestLedger = 1\<rparr>" by code_simp
  from history_page_of_stream [OF p] p show ?thesis by auto
qed

text \<open>
  Only a creation is compared with the sender or the recipient that was asked for: withdrawals and
  cancellations of other accounts are returned as well.
\<close>

lemma foreign_withdrawal_returned:
  assumes "hf_streamId flt = None" and "\<not> data_null d" and "event_big (data_field d ''amount'') = Inr a"
    and "se_topic e = Some (text_value ''StreamWithdrawn'') # ts" and "se_value e = Some d"
  shows "\<exists>h. parseEvent flt e = Inr (Some h)"
  using assms by (auto simp: parse_defs filter_rejects_def)

definition withdrawal_of :: "string \<Rightarrow> bool \<Rightarrow> server_event" where
  "withdrawal_of i ok = \<lparr>se_success = ok, se_topic = [Some (text_value ''StreamWithdrawn''), Some (text_value i)],
     se_value = Some (DataRecord [(''amount'', big_value 5)]), se_ledger = 1, se_closedAt = [], se_txHash = [], se_id = i, se_pagingToken = []\<rparr>"

definition page_of :: "server_event list \<Rightarrow> string \<Rightarrow> history_response" where
  "page_of es c = \<lparr>gs_events = es, gs_cursor = c, gs_latestLedger = 9\<rparr>"

definition of_stream :: "string \<Rightarrow> history_filter" where
  "of_stream i = \<lparr>hf_streamId = Some i, hf_sender = None, hf_recipient = None\<rparr>"

text \<open>
  Whether there is more is decided after the filter: a full page of the server with one event of
  another stream is reported as the last one.
\<close>

lemma full_page_reported_last:
  "map_sum id hp_hasMore (page_of_response \<lparr>ho_startLedger = None, ho_cursor = None, ho_limit = Some 2\<rparr> (of_stream ''7'')
     (page_of [withdrawal_of ''7'' True, withdrawal_of ''8'' True] ''c1'')) = Inr False"
  by code_simp

text \<open>One event that cannot be decoded fails the whole page, whatever stream it belongs to.\<close>

lemma bad_event_fails_page:
  assumes "parseEvent flt e = Inl x" and "e \<in> set es"
  shows "\<exists>y. parse_events flt es = Inl y"
  using assms(2)
proof (induction es)
  case (Cons d es)
  then show ?case using assms(1) by (cases "parseEvent flt d"; cases "parse_events flt es") auto
qed simp

section \<open>The activity log\<close>

record activity_entry =
  ae_type :: string
  ae_timestamp :: int
  ae_amount :: int
  ae_txHash :: string
  ae_ledger :: int

fun data_type :: "history_data \<Rightarrow> string" where
  "data_type (CreatedData s r t d f st e b) = ''StreamCreated''"
| "data_type (WithdrawnData r a) = ''StreamWithdrawn''"
| "data_type (CancelledData s) = ''StreamCancelled''"

fun data_amount :: "history_data \<Rightarrow> int" where
  "data_amount (CreatedData s r t d f st e b) = d"
| "data_amount (WithdrawnData r a) = a"
| "data_amount (CancelledData s) = 0"

definition activity_of :: "(string \<Rightarrow> int) \<Rightarrow> history_event \<Rightarrow> activity_entry" where
  "activity_of date h = \<lparr>ae_type = data_type (he_data h), ae_timestamp = date (he_closedAt h), ae_amount = data_amount (he_data h),
     ae_txHash = he_txHash h, ae_ledger = he_ledger h\<rparr>"

definition in_window :: "int option \<Rightarrow> int option \<Rightarrow> activity_entry \<Rightarrow> bool" where
  "in_window a b x \<longleftrightarrow> \<not> (case a of Some t \<Rightarrow> ae_timestamp x < t | None \<Rightarrow> False) \<and>
     \<not> (case b of Some t \<Rightarrow> ae_timestamp x > t | None \<Rightarrow> False)"

definition getActivityLog :: "(string \<Rightarrow> int) \<Rightarrow> int option \<Rightarrow> int option \<Rightarrow> 'e + history_page \<Rightarrow> 'e + activity_entry list" where
  "getActivityLog date a b page = map_sum id (\<lambda>p. sort_key ae_timestamp (filter (in_window a b) (map (activity_of date) (hp_events p)))) page"

text \<open>The log is in the order of time and holds the events of the window that are on the page it was given.\<close>

lemma activity_log_sorted:
  assumes "getActivityLog date a b page = Inr es"
  shows "sorted (map ae_timestamp es) \<and>
    (\<exists>p. page = Inr p \<and> mset es = filter_mset (in_window a b) (image_mset (activity_of date) (mset (hp_events p))))"
  using assms by (cases page) (auto simp: getActivityLog_def mset_filter)

section \<open>Export\<close>

text \<open>The entries are kept, or written line by line to the destination or to the compressor before it.\<close>

datatype destination = NoDestination | Writable | DeafWritable

datatype compression = Gzip | Deflate | Uncompressed

record export_options =
  eo_ndjson :: bool
  eo_destination :: destination
  eo_compression :: "compression option"

record export_out =
  xo_records :: "activity_entry list"
  xo_lines :: "string list"
  xo_compressed :: "string list"
  xo_ended :: bool

definition compresses :: "export_options \<Rightarrow> bool \<Rightarrow> bool" where
  "compresses opts zlib \<longleftrightarrow> eo_ndjson opts \<and> eo_destination opts \<noteq> NoDestination \<and>
     (case eo_compression opts of None \<Rightarrow> False | Some c \<Rightarrow> c \<noteq> Uncompressed) \<and> zlib"

definition serializeLine :: "activity_entry \<Rightarrow> string" where
  "serializeLine e = print_json (JObj [(''type'', JStr (ae_type e)), (''timestamp'', JNum (string_of_int (ae_timestamp e))),
     (''amount'', JStr (string_of_int (ae_amount e))), (''txHash'', JStr (ae_txHash e)),
     (''ledger'', JNum (string_of_int (ae_ledger e)))]) @ [CHR 0x0A]"

definition writeRecord :: "export_options \<Rightarrow> bool \<Rightarrow> activity_entry \<Rightarrow> export_out \<Rightarrow> export_out" where
  "writeRecord opts zlib e out =
     (if eo_ndjson opts \<and> eo_destination opts \<noteq> NoDestination then
        (if compresses opts zlib then out\<lparr>xo_compressed := xo_compressed out @ [serializeLine e]\<rparr>
         else if eo_destination opts = Writable then out\<lparr>xo_lines := xo_lines out @ [serializeLine e]\<rparr>
         else out)
      else out\<lparr>xo_records := xo_records out @ [e]\<rparr>)"

text \<open>\<open>fetch n c\<close> is the answer to the request number \<open>n\<close>, made with the cursor \<open>c\<close>.\<close>

partial_function (option) export_loop ::
    "(nat \<Rightarrow> string option \<Rightarrow> 'e + history_page) \<Rightarrow> (history_event \<Rightarrow> 'o \<Rightarrow> 'o) \<Rightarrow> nat \<Rightarrow> string option \<Rightarrow> 'o \<Rightarrow>
     ('o \<times> ('e + unit)) option" where
  "export_loop fetch emit n cursor out =
     (case fetch n cursor of
        Inl e \<Rightarrow> Some (out, Inl e)
      | Inr page \<Rightarrow>
          let out' = fold emit (hp_events page) out
          in if hp_cursor page \<noteq> [] \<and> Some (hp_cursor page) \<noteq> cursor \<and> hp_events page \<noteq> []
             then export_loop fetch emit (n + 1) (Some (hp_cursor page)) out'
             else Some (out', Inr ()))"

definition exportStreamHistory ::
    "export_options \<Rightarrow> bool \<Rightarrow> (string \<Rightarrow> int) \<Rightarrow> (nat \<Rightarrow> string option \<Rightarrow> 'e + history_page) \<Rightarrow>
     (export_out \<times> ('e + activity_entry list option)) option" where
  "exportStreamHistory opts zlib date fetch =
     (case export_loop fetch (\<lambda>h. writeRecord opts zlib (activity_of date h)) 0 None
          \<lparr>xo_records = [], xo_lines = [], xo_compressed = [], xo_ended = False\<rparr> of
        None \<Rightarrow> None
      | Some (out, Inl e) \<Rightarrow> Some (out, Inl e)
      | Some (out, Inr _) \<Rightarrow>
          if compresses opts zlib then Some (out\<lparr>xo_ended := True\<rparr>, Inr None)
          else Some (out, Inr (if eo_ndjson opts then None else Some (xo_records out))))"

text \<open>The cursor of each request, and the first request after which the export stops.\<close>

primrec export_cursor :: "(nat \<Rightarrow> string option \<Rightarrow> 'e + history_page) \<Rightarrow> nat \<Rightarrow> string option" where
  "export_cursor fetch 0 = None"
| "export_cursor fetch (Suc n) = (case fetch n (export_cursor fetch n) of Inl e \<Rightarrow> None | Inr p \<Rightarrow> Some (hp_cursor p))"

definition export_stops :: "(nat \<Rightarrow> string option \<Rightarrow> 'e + history_page) \<Rightarrow> nat \<Rightarrow> bool" where
  "export_stops fetch n \<longleftrightarrow>
     (case fetch n (export_cursor fetch n) of Inl e \<Rightarrow> True
      | Inr p \<Rightarrow> hp_cursor p = [] \<or> Some (hp_cursor p) = export_cursor fetch n \<or> hp_events p = [])"

definition page_events :: "(nat \<Rightarrow> string option \<Rightarrow> 'e + history_page) \<Rightarrow> nat \<Rightarrow> history_event list" where
  "page_events fetch n = (case fetch n (export_cursor fetch n) of Inl e \<Rightarrow> [] | Inr p \<Rightarrow> hp_events p)"

lemma export_loop_upto:
  assumes "export_stops fetch k" and "\<forall>j. n \<le> j \<and> j < k \<longrightarrow> \<not> export_stops fetch j" and "n \<le> k"
  shows "export_loop fetch emit n (export_cursor fetch n) out =
    Some (fold emit (concat (map (page_events fetch) [n..<Suc k])) out,
      map_sum id (\<lambda>p. ()) (fetch k (export_cursor fetch k)))"
  using assms(2, 3)
proof (induction "k - n" arbitrary: n out)
  case 0
  then have "n = k" by simp
  with assms(1) show ?case
    by (subst export_loop.simps) (auto simp: export_stops_def page_events_def Let_def split: sum.splits)
next
  case (Suc d)
  then have go: "\<not> export_stops fetch n" and nk: "n < k" by auto
  then obtain p where p: "fetch n (export_cursor fetch n) = Inr p" "hp_cursor p \<noteq> []"
    "Some (hp_cursor p) \<noteq> export_cursor fetch n" "hp_events p \<noteq> []"
    by (auto simp: export_stops_def split: sum.splits)
  then have "export_loop fetch emit n (export_cursor fetch n) out =
      export_loop fetch emit (n + 1) (export_cursor fetch (n + 1)) (fold emit (page_events fetch n) out)"
    by (subst export_loop.simps) (simp add: Let_def page_events_def)
  also have "\<dots> = Some (fold emit (concat (map (page_events fetch) [Suc n..<Suc k])) (fold emit (page_events fetch n) out),
      map_sum id (\<lambda>p. ()) (fetch k (export_cursor fetch k)))"
    using Suc.hyps Suc.prems nk by (subst Suc.hyps(1)) auto
  finally show ?case using nk by (simp add: upt_conv_Cons [of n "Suc k"] del: upt_Suc)
qed

lemma export_loop_stops:
  fixes fetch :: "nat \<Rightarrow> string option \<Rightarrow> 'e + history_page" and emit :: "history_event \<Rightarrow> 'o \<Rightarrow> 'o"
  assumes "export_loop fetch emit n cursor out = Some y"
  shows "cursor = export_cursor fetch n \<longrightarrow> (\<exists>j. export_stops fetch j)"
proof (rule export_loop.raw_induct
    [where P = "\<lambda>fetch emit n cursor out y. cursor = export_cursor fetch n \<longrightarrow> (\<exists>j. export_stops fetch j)", OF _ assms])
  fix loop :: "(nat \<Rightarrow> string option \<Rightarrow> 'e + history_page) \<Rightarrow> (history_event \<Rightarrow> 'o \<Rightarrow> 'o) \<Rightarrow> nat \<Rightarrow> string option \<Rightarrow> 'o \<Rightarrow>
     ('o \<times> ('e + unit)) option" and fetch emit n cursor out y
  assume IH: "\<And>fetch emit n cursor out y. loop fetch emit n cursor out = Some y \<Longrightarrow>
      cursor = export_cursor fetch n \<longrightarrow> (\<exists>j. export_stops fetch j)"
    and y: "(case fetch n cursor of Inl e \<Rightarrow> Some (out, Inl e)
      | Inr page \<Rightarrow> let out' = fold emit (hp_events page) out
          in if hp_cursor page \<noteq> [] \<and> Some (hp_cursor page) \<noteq> cursor \<and> hp_events page \<noteq> []
             then loop fetch emit (n + 1) (Some (hp_cursor page)) out' else Some (out', Inr ())) = Some y"
  show "cursor = export_cursor fetch n \<longrightarrow> (\<exists>j. export_stops fetch j)"
  proof (cases "export_stops fetch n")
    case False
    show ?thesis
    proof
      assume c: "cursor = export_cursor fetch n"
      then obtain p where "fetch n cursor = Inr p" "loop fetch emit (n + 1) (Some (hp_cursor p)) (fold emit (hp_events p) out) = Some y"
        using False y by (auto simp: export_stops_def Let_def split: sum.splits if_splits)
      then show "\<exists>j. export_stops fetch j" using IH [of fetch emit "n + 1" "Some (hp_cursor p)"] c by auto
    qed
  qed blast
qed

definition exported :: "(string \<Rightarrow> int) \<Rightarrow> (nat \<Rightarrow> string option \<Rightarrow> 'e + history_page) \<Rightarrow> nat \<Rightarrow> activity_entry list" where
  "exported date fetch k = map (activity_of date) (concat (map (page_events fetch) [0..<Suc k]))"

text \<open>What a list of entries makes of the empty outputs.\<close>

definition written :: "export_options \<Rightarrow> bool \<Rightarrow> activity_entry list \<Rightarrow> export_out" where
  "written opts zlib es =
     (if eo_ndjson opts \<and> eo_destination opts \<noteq> NoDestination
      then \<lparr>xo_records = [],
         xo_lines = (if compresses opts zlib \<or> eo_destination opts = DeafWritable then [] else map serializeLine es),
         xo_compressed = (if compresses opts zlib then map serializeLine es else []), xo_ended = False\<rparr>
      else \<lparr>xo_records = es, xo_lines = [], xo_compressed = [], xo_ended = False\<rparr>)"

lemma written_snoc: "writeRecord opts zlib e (written opts zlib es) = written opts zlib (es @ [e])"
  by (cases "eo_destination opts") (simp_all add: written_def writeRecord_def)

lemma write_all: "fold (\<lambda>h. writeRecord opts zlib (activity_of date h)) hs (written opts zlib es) = written opts zlib (es @ map (activity_of date) hs)"
  by (induction hs arbitrary: es) (simp_all add: written_snoc)

lemma written_Nil: "written opts zlib [] = \<lparr>xo_records = [], xo_lines = [], xo_compressed = [], xo_ended = False\<rparr>"
  by (simp add: written_def)

lemma export_upto:
  assumes "export_stops fetch k" and "\<forall>j<k. \<not> export_stops fetch j"
  shows "exportStreamHistory opts zlib date fetch =
    Some (case fetch k (export_cursor fetch k) of
        Inl e \<Rightarrow> (written opts zlib (exported date fetch k), Inl e)
      | Inr p \<Rightarrow> if compresses opts zlib then (written opts zlib (exported date fetch k)\<lparr>xo_ended := True\<rparr>, Inr None)
          else (written opts zlib (exported date fetch k),
            Inr (if eo_ndjson opts then None else Some (xo_records (written opts zlib (exported date fetch k))))))"
proof -
  have "export_loop fetch (\<lambda>h. writeRecord opts zlib (activity_of date h)) 0 None (written opts zlib []) =
      Some (written opts zlib (exported date fetch k), map_sum id (\<lambda>p. ()) (fetch k (export_cursor fetch k)))"
    using export_loop_upto [of fetch k 0 _ "written opts zlib []"] assms
    by (simp add: write_all exported_def del: upt_Suc)
  then show ?thesis unfolding exportStreamHistory_def written_Nil [of opts zlib, symmetric] by (auto split: sum.split)
qed

text \<open>
  The export returns exactly when some request is the last one. Then it has written the events of the
  pages up to the first such request, in order and each page once, to one of its three outputs, and it
  fails exactly when that request did.
\<close>

theorem export_writes_every_page:
  assumes "exportStreamHistory opts zlib date fetch = Some (out, r)"
  shows "\<exists>k. export_stops fetch k \<and> (\<forall>j. j < k \<longrightarrow> \<not> export_stops fetch j) \<and>
    out\<lparr>xo_ended := False\<rparr> = written opts zlib (exported date fetch k) \<and>
    (case fetch k (export_cursor fetch k) of Inl e \<Rightarrow> r = Inl e \<and> \<not> xo_ended out
     | Inr p \<Rightarrow> r = Inr (if eo_ndjson opts then None else Some (exported date fetch k)) \<and> xo_ended out = compresses opts zlib)"
proof -
  have "export_loop fetch (\<lambda>h. writeRecord opts zlib (activity_of date h)) 0 None (written opts zlib []) \<noteq> None"
    using assms by (intro notI) (simp add: exportStreamHistory_def written_Nil)
  then obtain j where j: "export_stops fetch j" using export_loop_stops [of fetch _ 0 None] by fastforce
  define k where "k = (LEAST j. export_stops fetch j)"
  have k: "export_stops fetch k" "\<forall>j<k. \<not> export_stops fetch j"
    unfolding k_def using j by (auto intro: LeastI dest: not_less_Least)
  have w: "(written opts zlib es)\<lparr>xo_ended := False\<rparr> = written opts zlib es" "\<not> xo_ended (written opts zlib es)"
    "\<not> eo_ndjson opts \<Longrightarrow> xo_records (written opts zlib es) = es" for es
    by (simp_all add: written_def)
  have c: "compresses opts zlib \<Longrightarrow> eo_ndjson opts" by (simp add: compresses_def)
  show ?thesis
  proof (cases "fetch k (export_cursor fetch k)")
    case (Inl e)
    with assms have "out = written opts zlib (exported date fetch k)" "r = Inl e" by (simp_all add: export_upto [OF k])
    with Inl k w show ?thesis by (intro exI [of _ k]) simp
  next
    case (Inr p)
    with assms have o: "(out, r) = (if compresses opts zlib
        then (written opts zlib (exported date fetch k)\<lparr>xo_ended := True\<rparr>, Inr None)
        else (written opts zlib (exported date fetch k),
          Inr (if eo_ndjson opts then None else Some (xo_records (written opts zlib (exported date fetch k))))))"
      by (simp add: export_upto [OF k])
    have "out\<lparr>xo_ended := False\<rparr> = written opts zlib (exported date fetch k) \<and>
      r = Inr (if eo_ndjson opts then None else Some (exported date fetch k)) \<and> xo_ended out = compresses opts zlib"
      using o c w by (cases "compresses opts zlib"; cases "eo_ndjson opts") simp_all
    with Inr k show ?thesis by (intro exI [of _ k]) simp
  qed
qed

text \<open>It never returns when every page brings events and a new cursor.\<close>

lemma endless_export:
  assumes "\<And>j. \<not> export_stops fetch j"
  shows "exportStreamHistory opts zlib date fetch = None"
proof -
  have "export_loop fetch emit 0 None out = None" for emit :: "history_event \<Rightarrow> export_out \<Rightarrow> export_out" and out
    using export_loop_stops [of fetch emit 0 None out] assms by (cases "export_loop fetch emit 0 None out") auto
  then show ?thesis by (simp add: exportStreamHistory_def)
qed

text \<open>
  A page without events of the stream ends the export, although the stream has events on later pages.
\<close>

definition three_pages :: "nat \<Rightarrow> string option \<Rightarrow> decode_error + history_page" where
  "three_pages n c =
     page_of_response \<lparr>ho_startLedger = None, ho_cursor = c, ho_limit = Some 1\<rparr> (of_stream ''7'')
       (if n = 0 then page_of [withdrawal_of ''7'' True] ''c1'' else if n = 1 then page_of [withdrawal_of ''8'' True] ''c2''
        else if n = 2 then page_of [withdrawal_of ''7'' True] ''c3'' else page_of [] ''c3'')"

lemma export_truncated:
  "exportStreamHistory \<lparr>eo_ndjson = False, eo_destination = NoDestination, eo_compression = None\<rparr> True (\<lambda>s. 0) three_pages =
     Some (\<lparr>xo_records = [\<lparr>ae_type = ''StreamWithdrawn'', ae_timestamp = 0, ae_amount = 5, ae_txHash = [], ae_ledger = 1\<rparr>],
         xo_lines = [], xo_compressed = [], xo_ended = False\<rparr>,
       Inr (Some [\<lparr>ae_type = ''StreamWithdrawn'', ae_timestamp = 0, ae_amount = 5, ae_txHash = [], ae_ledger = 1\<rparr>]))"
proof -
  have p0: "three_pages 0 None = Inr \<lparr>hp_events = [history_base (withdrawal_of ''7'' True) ''7'' (WithdrawnData [] 5)], hp_cursor = ''c1'',
      hp_nextCursor = ''7'', hp_hasMore = True, hp_latestLedger = 9\<rparr>" by code_simp
  have p1: "three_pages 1 (Some ''c1'') = Inr \<lparr>hp_events = [], hp_cursor = ''c2'', hp_nextCursor = ''c2'', hp_hasMore = False,
      hp_latestLedger = 9\<rparr>" by code_simp
  have st: "export_stops three_pages (Suc 0)" "\<forall>j<Suc 0. \<not> export_stops three_pages j"
    using p0 p1 by (simp_all add: export_stops_def less_Suc_eq)
  show ?thesis unfolding export_upto [OF st] using p0 p1
    by (simp add: written_def exported_def page_events_def compresses_def activity_of_def history_base_def withdrawal_of_def)
qed

theorem export_writes_every_page_witness:
  "\<exists>k. export_stops three_pages k \<and>
    written \<lparr>eo_ndjson = False, eo_destination = NoDestination, eo_compression = None\<rparr> True (exported (\<lambda>s. 0) three_pages k) =
      \<lparr>xo_records = [\<lparr>ae_type = ''StreamWithdrawn'', ae_timestamp = 0, ae_amount = 5, ae_txHash = [], ae_ledger = 1\<rparr>],
       xo_lines = [], xo_compressed = [], xo_ended = False\<rparr>"
  using export_writes_every_page [OF export_truncated] by auto

text \<open>Line-delimited output without a destination is thrown away; a failed export leaves its compressor open.\<close>

lemma ndjson_without_destination_lost:
  assumes "eo_ndjson opts" and "eo_destination opts = NoDestination" and "export_stops fetch k"
    and "\<forall>j<k. \<not> export_stops fetch j" and "fetch k (export_cursor fetch k) = Inr p"
  shows "exportStreamHistory opts zlib date fetch =
    Some (\<lparr>xo_records = exported date fetch k, xo_lines = [], xo_compressed = [], xo_ended = False\<rparr>, Inr None)"
  using assms(1, 2, 5) by (simp add: export_upto [OF assms(3, 4)] written_def compresses_def)

lemma failed_export_left_open:
  assumes "export_stops fetch k" and "\<forall>j<k. \<not> export_stops fetch j" and "fetch k (export_cursor fetch k) = Inl e"
  shows "exportStreamHistory opts zlib date fetch = Some (written opts zlib (exported date fetch k), Inl e) \<and>
    \<not> xo_ended (written opts zlib (exported date fetch k))"
  using assms(3) by (simp add: export_upto [OF assms(1, 2)] written_def)

end
