(* ===== verification/Webhooks.thy ===== *)
theory Webhooks
  imports ContractEvents Retry StreamMonitor Errors Json
begin

text \<open>
  Webhooks (\<open>src/webhook.ts\<close>): the forwarder of contract events, the emitter that polls streams for
  changes of their status, and the delivery loop of both. The HTTP answers, the random draws of the
  jitter, the message authentication code and the clock are inputs.
\<close>

section \<open>Delivery\<close>

datatype http_answer = HttpStatus int | NetworkDown

datatype delivery = HookDelivered | HookRefused | HookGivenUp

definition http_ok :: "int \<Rightarrow> bool" where
  "http_ok c \<longleftrightarrow> 200 \<le> c \<and> c \<le> 299"

definition http_final :: "int \<Rightarrow> bool" where
  "http_final c \<longleftrightarrow> 400 \<le> c \<and> c < 500 \<and> c \<noteq> 429"

text \<open>
  The attempts from number \<open>k\<close> on, with \<open>n\<close> left: how many were made, the waits between them, and how
  it ended.
\<close>

primrec delivery_loop :: "(nat \<Rightarrow> http_answer) \<Rightarrow> (nat \<Rightarrow> int) \<Rightarrow> nat \<Rightarrow> nat \<Rightarrow> nat \<times> int list \<times> delivery" where
  "delivery_loop answer wait 0 k = (0, [], HookGivenUp)"
| "delivery_loop answer wait (Suc n) k =
     (let again = (case delivery_loop answer wait n (k + 1) of
            (m, ds, r) \<Rightarrow> (Suc m, (if n = 0 then [] else [wait k]) @ ds, r))
      in case answer k of
          HttpStatus c \<Rightarrow> if http_ok c then (1, [], HookDelivered) else if http_final c then (1, [], HookRefused) else again
        | NetworkDown \<Rightarrow> again)"

definition attempt_wait :: "(nat \<Rightarrow> int \<times> int) \<Rightarrow> int \<Rightarrow> nat \<Rightarrow> int" where
  "attempt_wait draw delay k = jitterDelay (fst (draw k)) (snd (draw k)) (delay * 2 ^ k)"

definition attempts_allowed :: "int option \<Rightarrow> nat" where
  "attempts_allowed retries = nat ((case retries of Some r \<Rightarrow> r | None \<Rightarrow> 3) + 1)"

definition settles :: "http_answer \<Rightarrow> bool" where
  "settles a \<longleftrightarrow> (case a of HttpStatus c \<Rightarrow> http_ok c \<or> http_final c | NetworkDown \<Rightarrow> False)"

definition delivery_of :: "http_answer \<Rightarrow> delivery" where
  "delivery_of a = (case a of HttpStatus c \<Rightarrow> if http_ok c then HookDelivered else HookRefused | NetworkDown \<Rightarrow> HookGivenUp)"

lemma delivery_loop_ends: "settles (answer k) \<Longrightarrow> delivery_loop answer wait (Suc n) k = (1, [], delivery_of (answer k))"
  by (auto simp: settles_def delivery_of_def Let_def split: http_answer.splits)

lemma delivery_loop_again:
  "\<not> settles (answer k) \<Longrightarrow> delivery_loop answer wait (Suc n) k =
    (case delivery_loop answer wait n (k + 1) of (m, ds, r) \<Rightarrow> (Suc m, (if n = 0 then [] else [wait k]) @ ds, r))"
  by (auto simp: settles_def Let_def split: http_answer.splits)

lemma delivery_loop_settled:
  assumes "j < n" and "settles (answer (k + j))" and "\<And>i. i < j \<Longrightarrow> \<not> settles (answer (k + i))"
  shows "delivery_loop answer wait n k = (Suc j, map wait [k..<k + j], delivery_of (answer (k + j)))"
  using assms
proof (induction j arbitrary: n k)
  case 0
  then obtain m where "n = Suc m" by (cases n) auto
  with 0 show ?case by (simp add: delivery_loop_ends del: delivery_loop.simps)
next
  case (Suc j)
  then obtain m where n: "n = Suc m" "j < m" by (cases n) auto
  have "\<not> settles (answer (k + 0))" by (rule Suc.prems(3)) simp
  moreover have "delivery_loop answer wait m (k + 1) = (Suc j, map wait [k + 1..<k + 1 + j], delivery_of (answer (k + 1 + j)))"
    using Suc.prems(2) Suc.prems(3) [of "Suc i" for i] n(2) by (intro Suc.IH) simp_all
  ultimately show ?case using n
    by (simp add: delivery_loop_again upt_conv_Cons [of k "Suc (k + j)"] del: delivery_loop.simps upt_Suc)
qed

lemma delivery_loop_exhausted:
  assumes "\<And>i. i < n \<Longrightarrow> \<not> settles (answer (k + i))"
  shows "delivery_loop answer wait n k = (n, map wait [k..<k + (n - 1)], HookGivenUp)"
  using assms
proof (induction n arbitrary: k)
  case (Suc n)
  have "\<not> settles (answer (k + 0))" by (rule Suc.prems) simp
  moreover have "delivery_loop answer wait n (k + 1) = (n, map wait [k + 1..<k + 1 + (n - 1)], HookGivenUp)"
    using Suc.prems [of "Suc i" for i] by (intro Suc.IH) simp_all
  ultimately show ?case
    by (cases n) (simp_all add: delivery_loop_again upt_conv_Cons [of k] del: delivery_loop.simps upt_Suc)
qed simp

text \<open>
  A delivery makes attempts until one is answered for good or the budget is used, waits between the
  attempts and not after the last, and reports the answer that ended it.
\<close>

theorem delivery_decides:
  "delivery_loop answer (attempt_wait draw delay) (attempts_allowed retries) 0 =
    (let n = attempts_allowed retries
     in case find (\<lambda>k. settles (answer k)) [0..<n] of
         Some k \<Rightarrow> (Suc k, map (attempt_wait draw delay) [0..<k], delivery_of (answer k))
       | None \<Rightarrow> (n, map (attempt_wait draw delay) [0..<n - 1], HookGivenUp))"
proof (cases "find (\<lambda>k. settles (answer k)) [0..<attempts_allowed retries]")
  case None
  then have "\<And>i. i < attempts_allowed retries \<Longrightarrow> \<not> settles (answer i)" by (auto simp: find_None_iff)
  with None show ?thesis using delivery_loop_exhausted [of "attempts_allowed retries" answer 0] by (simp add: Let_def)
next
  case (Some k)
  then have "k < attempts_allowed retries" "settles (answer k)" "\<And>i. i < k \<Longrightarrow> \<not> settles (answer i)"
    by (auto simp: find_Some_iff)
  with Some show ?thesis using delivery_loop_settled [of k "attempts_allowed retries" answer 0] by (simp add: Let_def)
qed

lemma negative_retries_never_send: "r < 0 \<Longrightarrow> delivery_loop answer w (attempts_allowed (Some r)) 0 = (0, [], HookGivenUp)"
  by (simp add: attempts_allowed_def)

section \<open>Forwarding contract events\<close>

text \<open>
  \<open>JSON.stringify\<close> on a decoded value: a big integer throws, an undefined field is left out. What it
  gives for a compound value is a parameter.
\<close>

fun stringified :: "(string \<Rightarrow> json option) \<Rightarrow> decoded_value \<Rightarrow> json option option" where
  "stringified deep (Plain (NBig n)) = None"
| "stringified deep (Plain (NNumber n)) = Some (Some (JNum (string_of_int n)))"
| "stringified deep (Plain (NString s)) = Some (Some (JStr s))"
| "stringified deep (Truth b) = Some (Some (JBool b))"
| "stringified deep NullValue = Some (Some JNull)"
| "stringified deep Missing = Some None"
| "stringified deep (Compound s) = map_option Some (deep s)"

fun stringified_fields :: "(string \<Rightarrow> json option) \<Rightarrow> (string \<times> decoded_value) list \<Rightarrow> (string \<times> json) list option" where
  "stringified_fields deep [] = Some []"
| "stringified_fields deep ((k, v) # fs) =
     (case stringified deep v of None \<Rightarrow> None
      | Some r \<Rightarrow> (case stringified_fields deep fs of None \<Rightarrow> None
          | Some rest \<Rightarrow> Some (case r of None \<Rightarrow> rest | Some j \<Rightarrow> (k, j) # rest)))"

record webhook_event =
  hk_type :: string
  hk_streamId :: string
  hk_txHash :: string
  hk_ledger :: int
  hk_timestamp :: int
  hk_data :: "(string \<times> decoded_value) list"

definition forward_body :: "(string \<Rightarrow> json option) \<Rightarrow> webhook_event \<Rightarrow> string option" where
  "forward_body deep e =
     map_option (\<lambda>d. print_json (JObj [(''event'', JStr (hk_type e)), (''stream_id'', JStr (hk_streamId e)),
         (''tx_hash'', JStr (hk_txHash e)), (''ledger'', JNum (string_of_int (hk_ledger e))),
         (''timestamp'', JStr (toISOString (hk_timestamp e))), (''data'', JObj d)]))
       (stringified_fields deep (hk_data e))"

record hook_config =
  hc_retries :: "int option"
  hc_retryDelayMs :: "int option"
  hc_headers :: "(string, string) jsmap"

definition hook_delay :: "hook_config \<Rightarrow> int" where
  "hook_delay cfg = (case hc_retryDelayMs cfg of Some d \<Rightarrow> d | None \<Rightarrow> 1000)"

text \<open>The bodies that were sent, with the headers, and the end. A body that cannot be written fails like the network.\<close>

definition forward ::
    "(string \<Rightarrow> json option) \<Rightarrow> hook_config \<Rightarrow> (nat \<Rightarrow> http_answer) \<Rightarrow> (nat \<Rightarrow> int \<times> int) \<Rightarrow> webhook_event \<Rightarrow>
     (string \<times> (string, string) jsmap) list \<times> int list \<times> delivery" where
  "forward deep cfg answer draw e =
     (let body = forward_body deep e; headers = fold (\<lambda>(k, v). map_set k v) (hc_headers cfg) [(''Content-Type'', ''application/json'')];
          (m, ds, r) = delivery_loop (case body of Some b \<Rightarrow> answer | None \<Rightarrow> (\<lambda>k. NetworkDown)) (attempt_wait draw (hook_delay cfg))
            (attempts_allowed (hc_retries cfg)) 0
      in ((case body of Some b \<Rightarrow> replicate m (b, headers) | None \<Rightarrow> []), ds, r))"

text \<open>An event with an amount, a big integer, is never sent: every attempt fails before its request.\<close>

lemma amounts_never_forwarded:
  assumes "(k, Plain (NBig n)) \<in> set (hk_data e)"
  shows "fst (forward deep cfg answer draw e) = [] \<and> snd (snd (forward deep cfg answer draw e)) = HookGivenUp"
proof -
  have "stringified_fields deep fs = None" if "(k, Plain (NBig n)) \<in> set fs" for fs
    using that by (induction fs) (auto split: option.splits)
  with assms have "forward_body deep e = None" by (simp add: forward_body_def)
  then show ?thesis
    using delivery_loop_exhausted [of "attempts_allowed (hc_retries cfg)" "\<lambda>k. NetworkDown" 0]
    by (simp add: forward_def settles_def Let_def)
qed

text \<open>The subscription of the forwarder: a second start keeps the first filter.\<close>

definition forwarder_start :: "'f option \<Rightarrow> 'f option \<Rightarrow> 'f \<Rightarrow> 'f option" where
  "forwarder_start flt subscription everything =
     (case subscription of Some f \<Rightarrow> Some f | None \<Rightarrow> Some (case flt of Some f \<Rightarrow> f | None \<Rightarrow> everything))"

definition forwarder_stop :: "'f option \<Rightarrow> 'f option" where
  "forwarder_stop subscription = None"

lemma second_start_ignored: "forwarder_start g (forwarder_start f None e) e = forwarder_start f None e"
  by (simp add: forwarder_start_def)

section \<open>Signatures\<close>

text \<open>\<open>mac\<close> is the authentication code of the platform, a list of bytes.\<close>

definition hmacSign :: "(string \<Rightarrow> string \<Rightarrow> nat list) \<Rightarrow> string \<Rightarrow> string \<Rightarrow> string" where
  "hmacSign mac secret payload = concat (map (\<lambda>b. [hex_digit (b div 16), hex_digit (b mod 16)]) (mac secret payload))"

definition deliver_headers ::
    "(string \<Rightarrow> string \<Rightarrow> nat list) \<Rightarrow> string option \<Rightarrow> (string, string) jsmap \<Rightarrow> string \<Rightarrow> (string, string) jsmap" where
  "deliver_headers mac secret headers body =
     (let extra = (case secret of None \<Rightarrow> headers
            | Some s \<Rightarrow> if s = [] then headers else map_set ''X-SoroStream-Signature'' (hmacSign mac s body) headers)
      in fold (\<lambda>(k, v). map_set k v) extra [(''Content-Type'', ''application/json'')])"

lemma hex_digit_inject: "a < 16 \<Longrightarrow> b < 16 \<Longrightarrow> hex_digit a = hex_digit b \<Longrightarrow> a = b"
  by (auto simp: hex_digit_def of_char_of char_of_eq_iff take_bit_eq_mod split: if_splits)

text \<open>The signature is that of the body that is sent, and a header of the user cannot replace it.\<close>

lemma fold_map_set_get:
  "map_get (fold (\<lambda>(k, v). map_set k v) kvs m) k =
    (case find (\<lambda>p. fst p = k) (rev kvs) of Some p \<Rightarrow> Some (snd p) | None \<Rightarrow> map_get m k)"
proof (induction kvs arbitrary: m rule: rev_induct)
  case (snoc p kvs)
  then show ?case by (cases p) auto
qed simp

lemma find_signature:
  "find (\<lambda>p. fst p = k) (rev (map_set k v m)) = Some (k, v) \<or> \<not> distinct (map_keys m)"
proof (cases "distinct (map_keys m)")
  case True
  then have d: "distinct (map_keys (map_set k v m))" by simp
  have "(k, v) \<in> set (map_set k v m)" using map_of_SomeD [of "map_set k v m" k v] by simp
  then obtain i where i: "i < length (map_set k v m)" "rev (map_set k v m) ! i = (k, v)"
    by (metis in_set_conv_nth length_rev set_rev)
  moreover have "fst (rev (map_set k v m) ! j) \<noteq> k" if "j < i" for j
  proof -
    have "distinct (map fst (rev (map_set k v m)))" using d by (simp flip: rev_map)
    then have "map fst (rev (map_set k v m)) ! j \<noteq> map fst (rev (map_set k v m)) ! i"
      using i(1) that by (simp only: nth_eq_iff_index_eq length_map length_rev)
    then show ?thesis using i that by simp
  qed
  ultimately show ?thesis by (auto simp: find_Some_iff)
qed simp

theorem deliveries_are_signed:
  assumes "s \<noteq> []" and "distinct (map_keys headers)"
  shows "map_get (deliver_headers mac (Some s) headers body) ''X-SoroStream-Signature'' = Some (hmacSign mac s body)"
  using find_signature [of "''X-SoroStream-Signature''" "hmacSign mac s body" headers] assms
  by (simp add: deliver_headers_def fold_map_set_get)

text \<open>Different codes have different signatures.\<close>

lemma hex_bytes_inject:
  assumes "list_all (\<lambda>b. b < 256) bs" "list_all (\<lambda>b. b < 256) cs"
    and "concat (map (\<lambda>b. [hex_digit (b div 16), hex_digit (b mod 16)]) bs) = concat (map (\<lambda>b. [hex_digit (b div 16), hex_digit (b mod 16)]) cs)"
  shows "bs = cs"
  using assms
proof (induction bs arbitrary: cs)
  case (Cons b bs)
  then obtain c cs' where cs: "cs = c # cs'" by (cases cs) auto
  have "b < 256" "c < 256" using Cons.prems cs by auto
  moreover have "b div 16 = c div 16" "b mod 16 = c mod 16"
    using Cons.prems cs hex_digit_inject [of "b div 16" "c div 16"] hex_digit_inject [of "b mod 16" "c mod 16"] by auto
  ultimately have "b = c" by (metis div_mult_mod_eq)
  with Cons cs show ?case by auto
qed (cases cs, auto)

section \<open>Watching for changes\<close>

text \<open>
  The checks in flight are answered in any order, with the status of the stream or not at all. The log
  has the payloads handed to the delivery, and a mark where the known statuses were cleared.
\<close>

datatype emitter_log = HookPosted string "string option" string | HookCleared

record emitter =
  wh_running :: bool
  wh_streamIds :: "string list"
  wh_previousStatuses :: "(string, string) jsmap"
  wh_inflight :: "string list"
  wh_log :: "emitter_log list"

definition new_emitter :: emitter where
  "new_emitter = \<lparr>wh_running = False, wh_streamIds = [], wh_previousStatuses = [], wh_inflight = [], wh_log = []\<rparr>"

definition emitter_poll :: "emitter \<Rightarrow> emitter" where
  "emitter_poll s = s\<lparr>wh_inflight := wh_inflight s @ wh_streamIds s\<rparr>"

definition emitter_stop :: "emitter \<Rightarrow> emitter" where
  "emitter_stop s = s\<lparr>wh_running := False, wh_streamIds := [], wh_previousStatuses := [], wh_log := wh_log s @ [HookCleared]\<rparr>"

definition emitter_start :: "string list \<Rightarrow> emitter \<Rightarrow> emitter" where
  "emitter_start ids s =
     (let s1 = (emitter_stop s)\<lparr>wh_streamIds := ids, wh_previousStatuses := []\<rparr>
      in (emitter_poll s1)\<lparr>wh_running := True\<rparr>)"

definition emitter_tick :: "emitter \<Rightarrow> emitter" where
  "emitter_tick s = (if wh_running s then emitter_poll s else s)"

text \<open>The check number \<open>k\<close> in flight ends; a failed read is skipped.\<close>

definition checkStream :: "nat \<Rightarrow> string option \<Rightarrow> emitter \<Rightarrow> emitter" where
  "checkStream k found s =
     (if length (wh_inflight s) \<le> k then s
      else let i = wh_inflight s ! k; s1 = s\<lparr>wh_inflight := take k (wh_inflight s) @ drop (Suc k) (wh_inflight s)\<rparr>
       in case found of None \<Rightarrow> s1
         | Some current \<Rightarrow>
             let previous = map_get (wh_previousStatuses s1) i
             in if previous = Some current then s1
                else s1\<lparr>wh_previousStatuses := map_set i current (wh_previousStatuses s1),
                        wh_log := wh_log s1 @ [HookPosted i previous current]\<rparr>)"

datatype emitter_event = WhStart "string list" | WhStop | WhTick | WhChecked nat "string option"

fun emitter_step :: "emitter_event \<Rightarrow> emitter \<Rightarrow> emitter" where
  "emitter_step (WhStart ids) s = emitter_start ids s"
| "emitter_step WhStop s = emitter_stop s"
| "emitter_step WhTick s = emitter_tick s"
| "emitter_step (WhChecked k found) s = checkStream k found s"

text \<open>The changes of one stream that were posted since the statuses were last cleared.\<close>

fun posted_changes :: "string \<Rightarrow> emitter_log list \<Rightarrow> (string option \<times> string) list" where
  "posted_changes i [] = []"
| "posted_changes i (HookCleared # ls) = []"
| "posted_changes i (HookPosted j p c # ls) = posted_changes i ls @ (if j = i then [(p, c)] else [])"

definition hook_inv :: "string \<Rightarrow> emitter \<Rightarrow> bool" where
  "hook_inv i s \<longleftrightarrow> linked None (posted_changes i (rev (wh_log s))) \<and>
     map_get (wh_previousStatuses s) i = chain_end None (posted_changes i (rev (wh_log s)))"

interpretation hook: step_system emitter_step "hook_inv i" for i
proof
  fix e and s assume inv: "hook_inv i s"
  show "hook_inv i (emitter_step e s)"
  proof (cases e)
    case (WhChecked k found)
    with inv show ?thesis
      by (cases found) (auto simp: hook_inv_def checkStream_def Let_def linked_append, simp_all add: chain_end_def)
  qed (use inv in \<open>auto simp: hook_inv_def emitter_start_def emitter_stop_def emitter_tick_def emitter_poll_def Let_def chain_end_def\<close>)
qed

text \<open>
  Whatever the order of polls, answers, starts and stops: since the last start or stop the payloads
  posted for a stream are changes, each from the status the one before announced.
\<close>

theorem posted_changes_linked:
  "linked None (posted_changes i (rev (wh_log (fold emitter_step es new_emitter))))"
proof -
  have "hook_inv i new_emitter" by (simp add: hook_inv_def new_emitter_def chain_end_def)
  then have "hook_inv i (fold emitter_step es new_emitter)" by (rule hook.run_inv)
  then show ?thesis by (simp add: hook_inv_def)
qed

text \<open>
  The status is recorded before the payload is delivered, and whether the delivery succeeded is not
  looked at: the next check of the same status posts nothing.
\<close>

lemma lost_delivery_not_repeated:
  assumes "k < length (wh_inflight s)" and "wh_inflight s ! k = i" and "map_get (wh_previousStatuses s) i = Some c"
  shows "wh_log (checkStream k (Some c) s) = wh_log s"
  using assms by (simp add: checkStream_def Let_def)

text \<open>A check that is answered after the emitter was stopped still posts.\<close>

lemma stopped_emitter_posts:
  "wh_log (fold emitter_step [WhStart [''7''], WhStop, WhChecked 0 (Some ''Active'')] new_emitter) =
     [HookCleared, HookCleared, HookPosted ''7'' None ''Active'']"
  by code_simp

text \<open>Polls overlap, so a late answer of an earlier poll posts a change back to the old status.\<close>

lemma late_answer_reverts:
  "wh_log (fold emitter_step [WhStart [''7''], WhTick, WhTick, WhChecked 0 (Some ''Active''), WhChecked 1 (Some ''Completed''),
       WhChecked 0 (Some ''Active'')] new_emitter) =
     [HookCleared, HookPosted ''7'' None ''Active'', HookPosted ''7'' (Some ''Active'') ''Completed'',
      HookPosted ''7'' (Some ''Completed'') ''Active'']"
  by code_simp

theorem deliveries_are_signed_witness:
  "map_get (deliver_headers (\<lambda>s p. [255, 16]) (Some ''k'') [(''X'', ''1'')] ''body'') ''X-SoroStream-Signature'' = Some ''ff10''"
proof -
  have "hmacSign (\<lambda>s p. [255, 16]) ''k'' ''body'' = ''ff10''" by code_simp
  then show ?thesis using deliveries_are_signed [of "''k''" "[(''X'', ''1'')]" "\<lambda>s p. [255, 16]" "''body''"] by simp
qed

end
