(* ===== verification/StreamWatch.thy ===== *)
theory StreamWatch
  imports StreamMonitor StreamJsonProps
begin

text \<open>
  The polling watches of the client (\<open>src/SoroStreamClient.ts\<close>): \<open>onStreamUpdate\<close>, the producers behind
  \<open>observeStream\<close> and \<open>observeClaimable\<close>, and \<open>onRecipientChanged\<close>, which the mock client copies. A read
  is split from its answer; what happens in between is a list of steps.
\<close>

section \<open>Updates of a stream\<close>

record update_call =
  uc_stream :: stream
  uc_previous :: "stream option"
  uc_threw :: bool

record update_watch =
  uw_previous :: "stream option"
  uw_stopped :: bool
  uw_timer :: bool
  uw_inflight :: nat
  uw_log :: "update_call list"

definition has_changed :: "stream option \<Rightarrow> stream \<Rightarrow> bool" where
  "has_changed previous s =
     (case previous of None \<Rightarrow> True
      | Some p \<Rightarrow> status s \<noteq> status p \<or> deposit s \<noteq> deposit p \<or> lastWithdrawTime s \<noteq> lastWithdrawTime p \<or>
          endTime s \<noteq> endTime p \<or> flowRate s \<noteq> flowRate p \<or> pausedAt s \<noteq> pausedAt p)"

definition update_poll :: "update_watch \<Rightarrow> update_watch" where
  "update_poll w = (if uw_stopped w then w else w\<lparr>uw_inflight := uw_inflight w + 1\<rparr>)"

definition onStreamUpdate :: "bool \<Rightarrow> update_watch" where
  "onStreamUpdate immediate =
     (let w = \<lparr>uw_previous = None, uw_stopped = False, uw_timer = False, uw_inflight = 0, uw_log = []\<rparr>
      in if immediate then update_poll w else w\<lparr>uw_timer := True\<rparr>)"

definition update_timer :: "update_watch \<Rightarrow> update_watch" where
  "update_timer w = (if uw_timer w then update_poll (w\<lparr>uw_timer := False\<rparr>) else w)"

text \<open>The read in flight ends, with the stream or without; \<open>throws\<close> says that the callback, if called, throws.\<close>

definition update_answered :: "stream option \<Rightarrow> bool \<Rightarrow> update_watch \<Rightarrow> update_watch" where
  "update_answered found throws w0 =
     (if uw_inflight w0 = 0 then w0
      else let w = w0\<lparr>uw_inflight := uw_inflight w0 - 1\<rparr>;
               w1 = (case found of None \<Rightarrow> w
                 | Some s \<Rightarrow>
                     if has_changed (uw_previous w) s
                     then (w\<lparr>uw_log := uw_log w @ [\<lparr>uc_stream = s, uc_previous = uw_previous w, uc_threw = throws\<rparr>]\<rparr>)
                       \<lparr>uw_previous := (if throws then uw_previous w else Some s)\<rparr>
                     else w)
           in if uw_stopped w1 then w1 else w1\<lparr>uw_timer := True\<rparr>)"

definition update_unsubscribe :: "update_watch \<Rightarrow> update_watch" where
  "update_unsubscribe w = w\<lparr>uw_stopped := True, uw_timer := False\<rparr>"

datatype update_event = UpdateTimer | UpdateAnswered "stream option" bool | UpdateUnsubscribe

fun update_step :: "update_event \<Rightarrow> update_watch \<Rightarrow> update_watch" where
  "update_step UpdateTimer w = update_timer w"
| "update_step (UpdateAnswered found throws) w = update_answered found throws w"
| "update_step UpdateUnsubscribe w = update_unsubscribe w"

text \<open>
  What the subscriber saw: each call brings a change against the last call that did not throw, and
  hands that one over as the previous state.
\<close>

fun updates_linked :: "stream option \<Rightarrow> update_call list \<Rightarrow> bool" where
  "updates_linked p [] = True"
| "updates_linked p (c # cs) = (uc_previous c = p \<and> has_changed p (uc_stream c) \<and>
     updates_linked (if uc_threw c then p else Some (uc_stream c)) cs)"

fun updates_end :: "stream option \<Rightarrow> update_call list \<Rightarrow> stream option" where
  "updates_end p [] = p"
| "updates_end p (c # cs) = updates_end (if uc_threw c then p else Some (uc_stream c)) cs"

lemma updates_snoc: "updates_linked p (cs @ [c]) \<longleftrightarrow> updates_linked p cs \<and> uc_previous c = updates_end p cs \<and> has_changed (updates_end p cs) (uc_stream c)"
  "updates_end p (cs @ [c]) = (if uc_threw c then updates_end p cs else Some (uc_stream c))"
  by (induction cs arbitrary: p) auto

definition update_inv :: "update_watch \<Rightarrow> bool" where
  "update_inv w \<longleftrightarrow> updates_linked None (uw_log w) \<and> uw_previous w = updates_end None (uw_log w) \<and>
     (if uw_stopped w then \<not> uw_timer w \<and> uw_inflight w \<le> 1
      else uw_inflight w + (if uw_timer w then 1 else 0) = 1)"

interpretation update: step_system update_step update_inv
proof
  fix e and w assume inv: "update_inv w"
  show "update_inv (update_step e w)"
  proof (cases e)
    case (UpdateAnswered found throws)
    with inv show ?thesis
      by (cases found) (auto simp: update_inv_def update_answered_def Let_def updates_snoc split: if_splits)
  qed (use inv in \<open>auto simp: update_inv_def update_timer_def update_poll_def update_unsubscribe_def split: if_splits\<close>)
qed

lemma update_start_inv: "update_inv (onStreamUpdate immediate)"
  by (simp add: update_inv_def onStreamUpdate_def update_poll_def Let_def)

text \<open>One loop, never two: before it is stopped, either the timer is set or one read is in flight.\<close>

theorem update_watch_sound:
  assumes "w = fold update_step es (onStreamUpdate immediate)"
  shows "updates_linked None (uw_log w) \<and> (uw_stopped w \<or> (uw_timer w \<longleftrightarrow> uw_inflight w = 0)) \<and> uw_inflight w \<le> 1"
proof -
  have "update_inv w" unfolding assms by (rule update.run_inv [OF update_start_inv])
  then show ?thesis by (auto simp: update_inv_def split: if_splits)
qed

text \<open>After it was stopped, at most one more call is made: by the read that was in flight.\<close>

lemma stopped_update_calls:
  assumes "uw_stopped w" and "\<not> uw_timer w"
  shows "length (uw_log (fold update_step es w)) \<le> length (uw_log w) + uw_inflight w"
proof -
  have "uw_stopped (update_step e w) \<and> \<not> uw_timer (update_step e w) \<and>
      length (uw_log (update_step e w)) + uw_inflight (update_step e w) \<le> length (uw_log w) + uw_inflight w"
    if "uw_stopped w" "\<not> uw_timer w" for e w
  proof (cases e)
    case (UpdateAnswered found throws)
    with that show ?thesis by (cases found) (auto simp: update_answered_def Let_def)
  qed (use that in \<open>auto simp: update_timer_def update_unsubscribe_def\<close>)
  note step = this
  have "uw_stopped (fold update_step es w) \<and>
      length (uw_log (fold update_step es w)) + uw_inflight (fold update_step es w) \<le> length (uw_log w) + uw_inflight w"
    using assms
  proof (induction es arbitrary: w)
    case (Cons e es)
    note now = step [OF Cons.prems, of e]
    with Cons.IH [of "update_step e w"] show ?case unfolding fold_simps by (meson order_trans)
  qed simp
  then show ?thesis by linarith
qed

definition watched_stream :: "string \<Rightarrow> stream_status \<Rightarrow> stream" where
  "watched_stream r st = \<lparr>stream_id = ''7'', sender = ''GS'', recipient = r, token = ''CT'', deposit = 10, flowRate = 1, startTime = 0,
     endTime = 10, lastWithdrawTime = 0, status = st, autoRenew = False, pausedAt = None, lockUntil = None, namespace = None, tag = None\<rparr>"

theorem update_watch_sound_witness:
  "updates_linked None (uw_log (fold update_step [UpdateTimer, UpdateAnswered (Some (watched_stream ''GR'' Active)) False] (onStreamUpdate False))) \<and>
    uw_timer (fold update_step [UpdateTimer, UpdateAnswered (Some (watched_stream ''GR'' Active)) False] (onStreamUpdate False))"
proof -
  have "\<not> uw_stopped (fold update_step [UpdateTimer, UpdateAnswered (Some (watched_stream ''GR'' Active)) False] (onStreamUpdate False))"
    "uw_inflight (fold update_step [UpdateTimer, UpdateAnswered (Some (watched_stream ''GR'' Active)) False] (onStreamUpdate False)) = 0"
    by code_simp+
  then show ?thesis
    using update_watch_sound [of _ "[UpdateTimer, UpdateAnswered (Some (watched_stream ''GR'' Active)) False]" False, OF refl] by blast
qed

lemma stopped_update_still_calls:
  "map uc_stream (uw_log (fold update_step [UpdateUnsubscribe, UpdateAnswered (Some (watched_stream ''GR'' Active)) False] (onStreamUpdate True))) =
     [watched_stream ''GR'' Active]"
  by code_simp

text \<open>A transfer is not a change for this watch: neither the recipient nor the lock is compared.\<close>

lemma transfer_unnoticed: "\<not> has_changed (Some s) (s\<lparr>recipient := r, lockUntil := l, autoRenew := a\<rparr>)"
  by (simp add: has_changed_def)

section \<open>Observed streams\<close>

text \<open>\<open>JSON.stringify(streamToJSON(stream))\<close> determines the stream, so equal texts are equal streams.\<close>

definition stream_text :: "stream \<Rightarrow> string" where
  "stream_text s = print_json (stream_json True s)"

datatype 'v emission = EmitNext 'v | EmitComplete | EmitFailed

record 'v poll_producer =
  pp_stopped :: bool
  pp_inflight :: bool
  pp_last :: "'v option"
  pp_log :: "'v emission list"

definition new_producer :: "'v poll_producer" where
  "new_producer = \<lparr>pp_stopped = False, pp_inflight = False, pp_last = None, pp_log = []\<rparr>"

definition producer_tick :: "'v poll_producer \<Rightarrow> 'v poll_producer" where
  "producer_tick p = (if pp_stopped p \<or> pp_inflight p then p else p\<lparr>pp_inflight := True\<rparr>)"

definition producer_stop :: "'v poll_producer \<Rightarrow> 'v poll_producer" where
  "producer_stop p = p\<lparr>pp_stopped := True\<rparr>"

text \<open>A failure while stopped still reaches the sink, which ignores it once it has ended.\<close>

definition producer_failed :: "'v poll_producer \<Rightarrow> 'v poll_producer" where
  "producer_failed p = (p\<lparr>pp_inflight := False, pp_log := pp_log p @ [EmitFailed]\<rparr>)\<lparr>pp_stopped := True\<rparr>"

definition stream_answered :: "bool \<Rightarrow> bool \<Rightarrow> stream option \<Rightarrow> stream poll_producer \<Rightarrow> stream poll_producer" where
  "stream_answered emitOnlyChanges completeWhenSettled found p0 =
     (if \<not> pp_inflight p0 then p0
      else case found of None \<Rightarrow> producer_failed p0
        | Some s \<Rightarrow>
            let p = p0\<lparr>pp_inflight := False\<rparr>
            in if pp_stopped p then p
               else let p1 = (if \<not> emitOnlyChanges \<or> Some (stream_text s) \<noteq> map_option stream_text (pp_last p)
                              then p\<lparr>pp_last := Some s, pp_log := pp_log p @ [EmitNext s]\<rparr> else p)
                    in if completeWhenSettled \<and> (status s = Completed \<or> status s = Cancelled)
                       then (producer_stop p1)\<lparr>pp_log := pp_log p1 @ [EmitComplete]\<rparr>
                       else p1)"

definition claimable_answered :: "bool \<Rightarrow> int option \<Rightarrow> int poll_producer \<Rightarrow> int poll_producer" where
  "claimable_answered emitOnlyChanges found p0 =
     (if \<not> pp_inflight p0 then p0
      else case found of None \<Rightarrow> producer_failed p0
        | Some v \<Rightarrow>
            let p = p0\<lparr>pp_inflight := False\<rparr>
            in if pp_stopped p then p
               else if \<not> emitOnlyChanges \<or> pp_last p \<noteq> Some v
                    then p\<lparr>pp_last := Some v, pp_log := pp_log p @ [EmitNext v]\<rparr> else p)"

datatype 'v producer_event = ProducerTick | ProducerStop | ProducerAnswered "'v option"

fun observe_step :: "bool \<Rightarrow> bool \<Rightarrow> stream producer_event \<Rightarrow> stream poll_producer \<Rightarrow> stream poll_producer" where
  "observe_step c w ProducerTick p = producer_tick p"
| "observe_step c w ProducerStop p = producer_stop p"
| "observe_step c w (ProducerAnswered found) p = stream_answered c w found p"

fun claimable_step :: "bool \<Rightarrow> int producer_event \<Rightarrow> int poll_producer \<Rightarrow> int poll_producer" where
  "claimable_step c ProducerTick p = producer_tick p"
| "claimable_step c ProducerStop p = producer_stop p"
| "claimable_step c (ProducerAnswered found) p = claimable_answered c found p"

lemma stream_json_True: "stream_json True s = JObj (map (\<lambda>p. (fst p, streamToJSON (snd p))) (stream_fields s))"
proof -
  have "filter (\<lambda>p. fst p \<noteq> ''toJSON'') (stream_fields s) = stream_fields s"
    using stream_fields_keys(2) by (force simp: filter_id_conv)
  then show ?thesis by (simp add: stream_json_def)
qed

lemma plain_json_int [simp]: "plain_json (json_int n)"
  by (auto simp: json_int_def)

lemma stream_json_object_plain: "plain_json (stream_json True s)"
proof -
  have "streamToJSON (json_int n) = json_int n" for n by (simp add: json_int_def)
  then have "list_all (\<lambda>p. plain_json (streamToJSON (snd p))) (stream_fields s)"
    by (cases "pausedAt s"; cases "lockUntil s"; cases "namespace s"; cases "tag s"; simp add: stream_fields_def optional_def)
  then show ?thesis using stream_fields_keys(1) by (simp add: stream_json_True list_all_iff comp_def)
qed

lemma map_option_inject: "map_option h x = map_option h y \<Longrightarrow> (\<And>a b. h a = h b \<Longrightarrow> a = b) \<Longrightarrow> x = y"
  by (cases x; cases y) auto

lemma string_of_int_inject: "string_of_int m = string_of_int n \<Longrightarrow> m = n"
  by (metis number_of_int_string js_num.inject of_int_eq_iff)

lemma status_name_inject: "status_name a = status_name b \<Longrightarrow> a = b"
  by (cases a; cases b) auto

lemma stream_field_texts:
  "map_of (stream_fields s) ''id'' = Some (JStr (stream_id s))" "map_of (stream_fields s) ''sender'' = Some (JStr (sender s))"
  "map_of (stream_fields s) ''recipient'' = Some (JStr (recipient s))" "map_of (stream_fields s) ''token'' = Some (JStr (token s))"
  "map_of (stream_fields s) ''deposit'' = Some (JBig (deposit s))" "map_of (stream_fields s) ''flowRate'' = Some (JBig (flowRate s))"
  "map_of (stream_fields s) ''startTime'' = Some (json_int (startTime s))" "map_of (stream_fields s) ''endTime'' = Some (json_int (endTime s))"
  "map_of (stream_fields s) ''lastWithdrawTime'' = Some (json_int (lastWithdrawTime s))"
  "map_of (stream_fields s) ''status'' = Some (JStr (status_name (status s)))"
  "map_of (stream_fields s) ''autoRenew'' = Some (JBool (autoRenew s))"
  by (simp_all add: stream_fields_def)

lemma stream_field_options:
  "map_of (stream_fields s) ''pausedAt'' = map_option json_int (pausedAt s)"
  "map_of (stream_fields s) ''lockUntil'' = map_option json_int (lockUntil s)"
  "map_of (stream_fields s) ''namespace'' = map_option JStr (namespace s)"
  "map_of (stream_fields s) ''tag'' = map_option JStr (tag s)"
  by (cases "pausedAt s"; cases "lockUntil s"; cases "namespace s"; cases "tag s"; simp add: stream_fields_def optional_def)+

lemma stream_text_inject: "stream_text s = stream_text t \<longleftrightarrow> s = t"
proof
  assume "stream_text s = stream_text t"
  then have "stream_json True s = stream_json True t"
    unfolding stream_text_def by (metis json_parse_print stream_json_object_plain option.inject)
  then have fields: "map (\<lambda>p. (fst p, streamToJSON (snd p))) (stream_fields s) = map (\<lambda>p. (fst p, streamToJSON (snd p))) (stream_fields t)"
    by (simp add: stream_json_True)
  have field: "map_option streamToJSON (map_of (stream_fields s) k) = map_option streamToJSON (map_of (stream_fields t) k)" for k
    using arg_cong [OF fields, of "\<lambda>ps. map_of ps k"] by (simp only: map_of_second)
  note at = field [of "''id''"] field [of "''sender''"] field [of "''recipient''"] field [of "''token''"] field [of "''deposit''"]
    field [of "''flowRate''"] field [of "''startTime''"] field [of "''endTime''"] field [of "''lastWithdrawTime''"] field [of "''status''"]
    field [of "''autoRenew''"]
  note op = field [of "''pausedAt''"] field [of "''lockUntil''"] field [of "''namespace''"] field [of "''tag''"]
  have "pausedAt s = pausedAt t" "lockUntil s = lockUntil t" "namespace s = namespace t" "tag s = tag t"
    using op unfolding stream_field_options option.map_comp
    by (auto simp: json_int_def dest!: map_option_inject string_of_int_inject)
  moreover have "stream_id s = stream_id t \<and> sender s = sender t \<and> recipient s = recipient t \<and> token s = token t \<and> deposit s = deposit t \<and>
      flowRate s = flowRate t \<and> startTime s = startTime t \<and> endTime s = endTime t \<and> lastWithdrawTime s = lastWithdrawTime t \<and>
      status s = status t \<and> autoRenew s = autoRenew t"
    using at unfolding stream_field_texts by (simp add: json_int_def string_of_int_inject status_name_inject)
  ultimately show "s = t" by (cases s, cases t) simp
qed simp

text \<open>What a producer hands over: values, and at most one ending after them.\<close>

fun emitted_values :: "'v emission list \<Rightarrow> 'v list" where
  "emitted_values [] = []"
| "emitted_values (EmitNext v # es) = v # emitted_values es"
| "emitted_values (e # es) = emitted_values es"

lemma emitted_values_append [simp]: "emitted_values (xs @ ys) = emitted_values xs @ emitted_values ys"
  by (induction xs rule: emitted_values.induct) auto

fun emitted_ends :: "'v emission list \<Rightarrow> 'v emission list" where
  "emitted_ends [] = []"
| "emitted_ends (EmitNext v # es) = emitted_ends es"
| "emitted_ends (e # es) = e # emitted_ends es"

lemma emitted_ends_append [simp]: "emitted_ends (xs @ ys) = emitted_ends xs @ emitted_ends ys"
  by (induction xs rule: emitted_ends.induct) auto

text \<open>Values first, then at most one ending.\<close>

fun values_then_end :: "'v emission list \<Rightarrow> bool" where
  "values_then_end [] = True"
| "values_then_end (EmitNext v # es) = values_then_end es"
| "values_then_end (e # es) = (es = [])"

lemma values_then_end_snoc: "values_then_end (es @ [e]) \<longleftrightarrow> values_then_end es \<and> emitted_ends es = []"
  by (induction es rule: values_then_end.induct) (cases e, auto)

lemma values_then_end_split:
  "values_then_end es \<Longrightarrow> es = map EmitNext (emitted_values es) @ emitted_ends es \<and> emitted_ends es \<in> {[], [EmitComplete], [EmitFailed]}"
  by (induction es rule: values_then_end.induct) auto

definition producer_inv :: "('v \<Rightarrow> bool) \<Rightarrow> bool \<Rightarrow> 'v poll_producer \<Rightarrow> bool" where
  "producer_inv settled onlyChanges p \<longleftrightarrow>
     (let vs = emitted_values (pp_log p); en = emitted_ends (pp_log p)
      in values_then_end (pp_log p) \<and>
        (en = [] \<or> pp_stopped p \<and> \<not> pp_inflight p) \<and> pp_last p = (if vs = [] then None else Some (last vs)) \<and>
        (en = [EmitComplete] \<longrightarrow> vs \<noteq> [] \<and> settled (last vs)) \<and> (onlyChanges \<longrightarrow> distinct_adj vs))"

lemma distinct_adj_snoc: "distinct_adj (vs @ [v]) \<longleftrightarrow> distinct_adj vs \<and> (vs = [] \<or> last vs \<noteq> v)"
  by (auto simp: distinct_adj_append_iff)

definition settled_stream :: "stream \<Rightarrow> bool" where
  "settled_stream s \<longleftrightarrow> status s = Completed \<or> status s = Cancelled"

lemma new_producer_inv: "producer_inv settled c new_producer"
  by (simp add: producer_inv_def new_producer_def)

interpretation observed: step_system "observe_step c w" "producer_inv settled_stream c" for c w
proof
  fix e and p assume inv: "producer_inv settled_stream c p"
  show "producer_inv settled_stream c (observe_step c w e p)"
  proof (cases e)
    case (ProducerAnswered found)
    with inv show ?thesis
      by (cases found) (auto simp: producer_inv_def stream_answered_def producer_failed_def producer_stop_def Let_def distinct_adj_snoc values_then_end_snoc
        stream_text_inject settled_stream_def split: if_splits)
  qed (use inv in \<open>auto simp: producer_inv_def producer_tick_def producer_stop_def Let_def\<close>)
qed

interpretation claims: step_system "claimable_step c" "producer_inv (\<lambda>v :: int. False) c" for c
proof
  fix e and p :: "int poll_producer" assume inv: "producer_inv (\<lambda>v. False) c p"
  show "producer_inv (\<lambda>v. False) c (claimable_step c e p)"
  proof (cases e)
    case (ProducerAnswered found)
    with inv show ?thesis
      by (cases found) (auto simp: producer_inv_def claimable_answered_def producer_failed_def Let_def distinct_adj_snoc values_then_end_snoc split: if_splits)
  qed (use inv in \<open>auto simp: producer_inv_def producer_tick_def producer_stop_def Let_def\<close>)
qed

text \<open>
  An observed stream hands over states, then nothing or one ending. Neighbouring states differ when
  only changes are asked for, and a completion follows a completed or cancelled state.
\<close>

theorem observed_stream_grammar:
  fixes c w es
  defines "out \<equiv> pp_log (fold (observe_step c w) es new_producer)"
  shows "out = map EmitNext (emitted_values out) @ emitted_ends out \<and> emitted_ends out \<in> {[], [EmitComplete], [EmitFailed]} \<and>
    (emitted_ends out \<noteq> [EmitComplete] \<or> emitted_values out \<noteq> [] \<and> settled_stream (last (emitted_values out))) \<and>
    (\<not> c \<or> distinct_adj (emitted_values out))"
proof -
  have inv: "producer_inv settled_stream c (fold (observe_step c w) es new_producer)"
    by (rule observed.run_inv [OF new_producer_inv])
  then have "values_then_end out" by (simp add: producer_inv_def out_def Let_def)
  note split = values_then_end_split [OF this]
  from inv have "emitted_ends out \<noteq> [EmitComplete] \<or> emitted_values out \<noteq> [] \<and> settled_stream (last (emitted_values out))"
    "\<not> c \<or> distinct_adj (emitted_values out)"
    unfolding producer_inv_def Let_def out_def [symmetric] by auto
  with split show ?thesis by blast
qed

text \<open>A claimable balance is observed without end; its values differ from their neighbours.\<close>

lemma observed_claimable_grammar:
  fixes c es
  defines "out \<equiv> pp_log (fold (claimable_step c) es new_producer)"
  shows "emitted_ends out \<in> {[], [EmitFailed]}" and "c \<Longrightarrow> distinct_adj (emitted_values out)"
proof -
  have inv: "producer_inv (\<lambda>v. False) c (fold (claimable_step c) es new_producer)"
    by (rule claims.run_inv [OF new_producer_inv])
  then have "values_then_end out" by (simp add: producer_inv_def out_def Let_def)
  note split = values_then_end_split [OF this]
  from inv have "emitted_ends out \<noteq> [EmitComplete]" "c \<longrightarrow> distinct_adj (emitted_values out)"
    unfolding producer_inv_def Let_def out_def [symmetric] by auto
  with split show "emitted_ends out \<in> {[], [EmitFailed]}" "c \<Longrightarrow> distinct_adj (emitted_values out)" by blast+
qed

text \<open>
  A producer that was stopped drops a late answer, but not a late failure: the error goes to the
  shared sink, to whoever has subscribed in the meantime.
\<close>

lemma late_answer_dropped: "pp_log (stream_answered c w (Some s) (p\<lparr>pp_stopped := True\<rparr>)) = pp_log p"
  by (simp add: stream_answered_def Let_def)

lemma late_failure_reported:
  "pp_log (fold (observe_step c w) [ProducerTick, ProducerStop, ProducerAnswered None] new_producer) = [EmitFailed]"
  by (simp add: new_producer_def producer_tick_def producer_stop_def stream_answered_def producer_failed_def)

section \<open>Recipients\<close>

record recipient_call =
  rc_old :: string
  rc_new :: string
  rc_threw :: bool

record recipient_watch =
  rw_stopped :: bool
  rw_inflight :: nat
  rw_last :: "string option"
  rw_log :: "recipient_call list"

definition recipient_poll :: "recipient_watch \<Rightarrow> recipient_watch" where
  "recipient_poll r = (if rw_stopped r then r else r\<lparr>rw_inflight := rw_inflight r + 1\<rparr>)"

definition onRecipientChanged :: recipient_watch where
  "onRecipientChanged = recipient_poll \<lparr>rw_stopped = False, rw_inflight = 0, rw_last = None, rw_log = []\<rparr>"

definition recipient_answered :: "string option \<Rightarrow> bool \<Rightarrow> recipient_watch \<Rightarrow> recipient_watch" where
  "recipient_answered found throws r0 =
     (if rw_inflight r0 = 0 then r0
      else let r = r0\<lparr>rw_inflight := rw_inflight r0 - 1\<rparr>
       in case found of None \<Rightarrow> r
         | Some new \<Rightarrow>
             (case rw_last r of
                None \<Rightarrow> r\<lparr>rw_last := Some new\<rparr>
              | Some old \<Rightarrow>
                  if new = old then r
                  else (r\<lparr>rw_log := rw_log r @ [\<lparr>rc_old = old, rc_new = new, rc_threw = throws\<rparr>]\<rparr>)
                    \<lparr>rw_last := (if throws then Some old else Some new)\<rparr>))"

definition recipient_stop :: "recipient_watch \<Rightarrow> recipient_watch" where
  "recipient_stop r = r\<lparr>rw_stopped := True\<rparr>"

datatype recipient_event = RecipientTick | RecipientAnswered "string option" bool | RecipientStop

fun recipient_step :: "recipient_event \<Rightarrow> recipient_watch \<Rightarrow> recipient_watch" where
  "recipient_step RecipientTick r = recipient_poll r"
| "recipient_step (RecipientAnswered found throws) r = recipient_answered found throws r"
| "recipient_step RecipientStop r = recipient_stop r"

text \<open>The changes announced form a path: each starts where the last one that did not throw ended.\<close>

fun recipients_linked :: "recipient_call list \<Rightarrow> bool" where
  "recipients_linked (a # b # cs) = (rc_old b = (if rc_threw a then rc_old a else rc_new a) \<and> rc_old a \<noteq> rc_new a \<and> recipients_linked (b # cs))"
| "recipients_linked [a] = (rc_old a \<noteq> rc_new a)"
| "recipients_linked [] = True"

definition recipient_end :: "recipient_call \<Rightarrow> string" where
  "recipient_end a = (if rc_threw a then rc_old a else rc_new a)"

lemma recipients_snoc:
  "recipients_linked (cs @ [c]) \<longleftrightarrow> recipients_linked cs \<and> rc_old c \<noteq> rc_new c \<and> (cs = [] \<or> rc_old c = recipient_end (last cs))"
  by (induction cs rule: recipients_linked.induct) (auto simp: recipient_end_def)

definition recipient_inv :: "recipient_watch \<Rightarrow> bool" where
  "recipient_inv r \<longleftrightarrow> recipients_linked (rw_log r) \<and> (rw_log r = [] \<or> rw_last r = Some (recipient_end (last (rw_log r))))"

interpretation recipients: step_system recipient_step recipient_inv
proof
  fix e and r assume inv: "recipient_inv r"
  show "recipient_inv (recipient_step e r)"
  proof (cases e)
    case (RecipientAnswered found throws)
    with inv show ?thesis
      by (cases found; cases "rw_last r") (auto simp: recipient_inv_def recipient_answered_def Let_def recipients_snoc recipient_end_def)
  qed (use inv in \<open>simp_all add: recipient_inv_def recipient_poll_def recipient_stop_def\<close>)
qed

theorem recipient_changes_linked: "recipients_linked (rw_log (fold recipient_step es onRecipientChanged))"
proof -
  have "recipient_inv onRecipientChanged" by (simp add: recipient_inv_def onRecipientChanged_def recipient_poll_def)
  then have "recipient_inv (fold recipient_step es onRecipientChanged)" by (rule recipients.run_inv)
  then show ?thesis by (simp add: recipient_inv_def)
qed

text \<open>
  Polls overlap, so a slow answer announces a change back; a poll that is answered after the watch was
  stopped still announces.
\<close>

lemma slow_answer_announces_reverse:
  "map (\<lambda>c. (rc_old c, rc_new c)) (rw_log (fold recipient_step
     [RecipientTick, RecipientTick, RecipientAnswered (Some ''A'') False, RecipientAnswered (Some ''B'') False, RecipientAnswered (Some ''A'') False]
     onRecipientChanged)) = [(''A'', ''B''), (''B'', ''A'')]"
  by code_simp

lemma stopped_watch_announces_recipient:
  "map rc_new (rw_log (fold recipient_step
     [RecipientAnswered (Some ''A'') False, RecipientTick, RecipientStop, RecipientAnswered (Some ''B'') False] onRecipientChanged)) = [''B'']"
  by code_simp

end
