(* ===== verification/Spec2Isabelle.thy ===== *)
theory Spec2Isabelle
  imports MockOps MockReads StreamQuery RateLimiter CircuitBreaker WriteLimiter RequestQueue OfflineQueue TtlCache Simulator ConnectionPool Retry StreamMonitor SubmitTx ClientReads PluginRegistry EventPoller BatchProps TextProps Serialization TokenDecimals Templates AddressBook StreamStateCache BatchBuilder FeeRetry FeeBump MultiNetwork Logger Errors Backpressure CrossTab BatchReads ExpiryHooks EventHistory Webhooks StreamWatch
begin

text \<open>
  A formal model of the SoroStream SDK: the TypeScript client of a Soroban contract that streams
  token payments by the second. The development translates the SDK's own logic, component by
  component; the contract, the network, the wallet, the Stellar SDK, the clock and the random
  number generator are inputs of the definitions.

  The program. A payment stream (\<open>Stream\<close> in \<open>src/types.ts\<close>) holds a deposit that accrues to a
  recipient at a flow rate. Applications call \<open>SoroStreamClient\<close> (\<open>src/SoroStreamClient.ts\<close>). Its
  reads go through the caches (\<open>src/cache.ts\<close>) and the request deduplicator
  (\<open>src/requestDeduplicator.ts\<close>), and every RPC call through the retry loop (\<open>src/retry.ts\<close>) around
  the circuit breaker (\<open>src/circuitBreaker.ts\<close>). Its writes pass the throttle
  (\<open>src/writeRateLimiter.ts\<close>), the request queue (\<open>src/request-queue.ts\<close>) or the offline queue
  (\<open>src/offlineQueue.ts\<close>) and end in one submission: simulate, sign, check the signed envelope,
  send, wait for the confirmation. The mock client (\<open>src/mock.ts\<close>) keeps the contract's semantics in
  memory and is the SDK's executable account of what the contract does; the simulator
  (\<open>src/simulator.ts\<close>) predicts it. Around them stand the event poller (\<open>src/events.ts\<close>), the
  stream monitor (\<open>src/stream-monitor.ts\<close>), the plugin registry and the helpers of
  \<open>src/utils.ts\<close>.

  Modelling conventions. \<open>bigint\<close> is \<open>int\<close>; a JavaScript number is \<open>int\<close> where the code keeps it
  integral, \<open>rat\<close> or \<open>real\<close> where it does not, with the non-finite cases written out where the code
  tests them. A \<open>Map\<close> is an association list in insertion order (\<open>map_get\<close>, \<open>map_set\<close>,
  \<open>map_delete\<close> of Prelude), because iteration order and eviction depend on it. A method that throws
  returns a sum, the error on the left, and a state together with it where the code has already
  changed state. A method that awaits is split at its awaits into steps, and what may happen in
  between is a list of such steps; properties of these components quantify over every list of
  steps. Clock readings, answers, jitter draws and generated identifiers are arguments. The writes of
  the client are programs over a state with calls and failures (Effects): call number \<open>n\<close> is answered
  by the \<open>n\<close>-th answer of the environment, and \<open>wv_meanwhile\<close> is what other code does to the client
  while a call is awaited, so a property that quantifies over environments holds for every
  interleaving. Loops that wait are \<open>partial_function (option)\<close> over what the network answers in each
  round and the milliseconds each round takes; not returning is \<open>None\<close>, and the termination theorems
  show that a result is returned, or that none is. One fuel is that of the mock's page walk
  (MockReads), the number of streams plus one, which is enough because every page but the last is
  not empty; the other is that of the JSON parser, twice the length of its text, which is enough
  because each of its calls consumes a character or hands the text to a call that does. The recursions that are not structural come with their \<open>termination\<close> proofs: digit
  loops (Digits, StreamId), draining a limiter (RateLimiter), the registry's sort
  (PluginRegistry), the batches of a list (BatchProps, BatchReads), percent decoding (TextFormats),
  the record reader (StreamJson), the two passes of the redaction (Redaction).

  Theories.
  \<^item> Prelude: sums, ordered maps, first-best selection (locale \<open>preference\<close>), and the locales of the
    stateful components: \<open>step_system\<close> (steps and an invariant they keep), \<open>limiter\<close> (a cap on work in
    flight, extending it) and \<open>ranked_loop\<close> (loops with a deadline).
  \<^item> Lifecycle: \<open>src/state-machine.ts\<close>.
  \<^item> StreamData, Accrual: the stream record, flow rates and units, the claimable estimate, vesting,
    simulation tables (\<open>src/utils.ts\<close>). The locale \<open>accrual\<close> states what a claimable function
    promises: bounds, monotonicity, nothing outside the active state. \<open>accrual_pair\<close> relates two
    providers; the client's estimate, the mock and the simulator are its interpretations.
  \<^item> Digits, StreamId, Amounts: positional notation, base-58 identifiers, decimal amounts, \<open>toStroops\<close>
    and \<open>formatUSDC\<close>.
  \<^item> StreamQuery: filters, sorting, aggregates, health, drift, portfolio statistics.
  \<^item> MockData, MockClient, MockRuns, MockOps, MockReads, MockProps: the mock client. MockClient has
    one definition per method; MockRuns makes them one step function with its invariant; the rest
    are its properties: solvency over whole runs, refinement of the lifecycle automaton, the effect
    of each operation, reads, snapshots, and the places where the mock departs from its
    documentation.
  \<^item> RateLimiter, CircuitBreaker, WriteLimiter, RequestQueue, OfflineQueue, TtlCache,
    ConnectionPool, Retry, Dedup: one theory for each of the client's control components, all as
    interleaved steps.
  \<^item> GuardedRpc, Polling, SubmitTx: an RPC call under retries and the breaker, the waits for the
    network, and the submission of a transaction. SubmitTx is written in a small monad of state,
    calls and failures, with triples for the rules of its steps.
  \<^item> ClientReads: \<open>getStream\<close>, \<open>getClaimable\<close> and the list reads of the client with their caches, as
    steps that interleave with writes and network switches.
  \<^item> Effects: programs with state, failures and calls that may not return, their triples and the
    invariants they keep.
  \<^item> ContractCalls: the operations of \<open>src/contractEncoders.ts\<close> and the checks of their arguments.
    ClientWrites: the guards around a submission (\<open>checkWalletNetwork\<close>, \<open>resolveFeeBump\<close>,
    \<open>buildAndSubmit\<close>), the checks of a new stream, \<open>createStream\<close>. WriteMethods: the other write
    methods. BatchWrites: \<open>createStreams\<close>, \<open>batchWithdraw\<close>, \<open>batchCancel\<close>, \<open>bulkCreateStreams\<close>.
    WriteProps and BatchProps: what these methods send, report and record.
  \<^item> Json, JsonText, NumberText: JSON values, their text as \<open>JSON.stringify\<close> writes it, a parser of the
    whole grammar and the proof that it inverts the printer; numbers as texts. StreamJson,
    StreamJsonProps: the JSON form of a stream with its tagged big integers and the reader of record
    arrays. Serialization: cloneable streams and unsigned transactions. TextFormats, TextProps:
    metadata URIs with percent encoding, CSV rows.
  \<^item> AddressBook, StreamStateCache: what the SDK keeps in a storage, over the JSON theories.
  \<^item> Redaction, Logger, Errors: the redaction of secrets, the loggers that apply it, the error
    classes with their messages, guards and retry classification.
  \<^item> Observable, Backpressure: subscriptions, their operators, bounded buffers and shared sources, with
    the producer's and the consumer's calls as steps. CrossTab: the event bus and its relay to other
    tabs.
  \<^item> BatchReads, ExpiryHooks: the batch reads of the client, its expiry hooks and the watch of a
    recipient's total.
  \<^item> BatchBuilder, FeeRetry, FeeBump, MultiNetwork, TokenDecimals, Templates: the conveniences around
    the client.
  \<^item> PluginRegistry, EventPoller, StreamMonitor, Simulator: the remaining components.

  What the lemmas show. Each stateful component has an invariant that every step keeps (\<open>rl_inv\<close>,
  \<open>rq_inv\<close>, \<open>oq_inv\<close>, \<open>cp_inv\<close>, \<open>cache_inv\<close>, \<open>reads_inv\<close>, \<open>batch_inv\<close>, \<open>wf_mock\<close> and others) and
  properties drawn from it; the pure parts have functional characterisations, round trips and
  equivalences. Lemmas that end a theory record what the code does not keep: calls that join a
  stale request, events that a throwing subscriber loses, pauses that keep accruing, rows that are
  reported as failed although they are on chain.

  Not modelled. The wallet adapters, HTTP, WebSocket, Horizon, indexer and GraphQL transports, the
  webhook sender and the federation plugin are input and output; spans, profiles and human-readable
  summaries have no effect on streams. The theories of the control components have error types of
  their own, which name the classes that Errors models in full. What the Stellar SDK does (XDR, signatures, contract values) is not in the
  repository and is a parameter.
\<close>

end
